(* ===== verification/Prelude.thy ===== *)
theory Prelude
  imports Main "HOL-Library.Char_ord" "HOL-Library.List_Lexorder" "HOL-Library.Product_Lexorder"
begin

text \<open>
  The vocabulary the component theories share.

  Text: a Rust \<open>&str\<close>/\<open>String\<close> and a byte vector are both \<open>string\<close>, the list of its UTF-8
  bytes (a HOL \<open>char\<close> is one byte), so \<open>length\<close> is Rust's \<open>len()\<close> and a literal beyond ASCII
  is written with its bytes. Integers: database ids and \<open>i64\<close> values are \<open>int\<close>.

  Time: an instant is an \<open>int\<close> of nanoseconds since the Unix epoch in UTC, as chrono keeps it; a
  stored time stamp is an \<open>int\<close> of whole seconds, standing for the fixed-width
  \<open>YYYY-MM-DDTHH:MM:SSZ\<close> text the columns hold, whose text order is the order of the seconds.
\<close>

subsection \<open>Errors as values\<close>

text \<open>
  \<open>StoreError\<close> of \<open>crates/mailcore/src/error.rs\<close>, the wrapped library errors reduced to the
  text they print; \<open>Smtp\<close> keeps the one bit of lettre's error the code looks at, whether
  the server refused the mail for good.
\<close>

datatype store_error =
    Sql string
  | Json string
  | NotFound string
  | InvalidInput string
  | Keyring string
  | Time string
  | Imap string
  | Network string
  | Tls string
  | Smtp string bool
  | Address string
  | Lettre string
  | Io string

type_synonym 'a result = "store_error + 'a"

type_synonym instant = int
type_synonym stamp = int

abbreviation ns_per_sec :: int where
  "ns_per_sec \<equiv> 1000000000"

definition secs :: "instant \<Rightarrow> stamp" where
  "secs t = t div ns_per_sec"

definition at_stamp :: "stamp \<Rightarrow> instant" where
  "at_stamp s = s * ns_per_sec"

named_theorems table_simps \<open>facts on the tables' insert, update and delete\<close>
named_theorems text_simps \<open>facts on the text helpers\<close>

lemma secs_at_stamp [simp]: "secs (at_stamp s) = s"
  by (simp add: secs_def at_stamp_def)

lemma secs_mono: "t \<le> u \<Longrightarrow> secs t \<le> secs u"
  by (simp add: secs_def zdiv_mono1)

lemma secs_add_seconds: "secs (t + n * ns_per_sec) = secs t + n"
  by (simp add: secs_def)

lemma at_stamp_secs_le: "at_stamp (secs t) \<le> t"
  unfolding at_stamp_def secs_def
  by (metis div_mult_mod_eq le_add_same_cancel1 pos_mod_sign zero_less_numeral)

lemma at_stamp_le_iff: "at_stamp s \<le> t \<longleftrightarrow> s \<le> secs t"
proof
  assume "at_stamp s \<le> t"
  then have "secs (at_stamp s) \<le> secs t" by (rule secs_mono)
  then show "s \<le> secs t" by simp
next
  assume "s \<le> secs t"
  then have "at_stamp s \<le> at_stamp (secs t)" by (simp add: at_stamp_def)
  also have "\<dots> \<le> t" by (rule at_stamp_secs_le)
  finally show "at_stamp s \<le> t" .
qed

subsection \<open>Characters and text\<close>

abbreviation code :: "char \<Rightarrow> nat" where
  "code c \<equiv> of_char c"

definition to_ascii_lower :: "char \<Rightarrow> char" where
  "to_ascii_lower c = (if 65 \<le> code c \<and> code c \<le> 90 then char_of (code c + 32) else c)"

definition ascii_lowercase :: "string \<Rightarrow> string" where
  "ascii_lowercase s = map to_ascii_lower s"

definition eq_ignore_ascii_case :: "string \<Rightarrow> string \<Rightarrow> bool" where
  "eq_ignore_ascii_case a b \<longleftrightarrow> ascii_lowercase a = ascii_lowercase b"

definition is_ascii_digit :: "char \<Rightarrow> bool" where
  "is_ascii_digit c \<longleftrightarrow> 48 \<le> code c \<and> code c \<le> 57"

definition is_ascii_alpha :: "char \<Rightarrow> bool" where
  "is_ascii_alpha c \<longleftrightarrow> (65 \<le> code c \<and> code c \<le> 90) \<or> (97 \<le> code c \<and> code c \<le> 122)"

definition is_ascii_alphanumeric :: "char \<Rightarrow> bool" where
  "is_ascii_alphanumeric c \<longleftrightarrow> is_ascii_alpha c \<or> is_ascii_digit c"

definition is_ascii_control :: "char \<Rightarrow> bool" where
  "is_ascii_control c \<longleftrightarrow> code c < 32 \<or> code c = 127"

lemma to_ascii_lower_idem [simp]: "to_ascii_lower (to_ascii_lower c) = to_ascii_lower c"
  by (simp add: to_ascii_lower_def)

lemma ascii_lowercase_idem [simp]: "ascii_lowercase (ascii_lowercase s) = ascii_lowercase s"
  by (simp add: ascii_lowercase_def)

lemma length_ascii_lowercase [simp]: "length (ascii_lowercase s) = length s"
  by (simp add: ascii_lowercase_def)

lemma ascii_lowercase_Nil [simp]: "ascii_lowercase [] = []"
  by (simp add: ascii_lowercase_def)

lemma ascii_lowercase_append [text_simps]:
  "ascii_lowercase (a @ b) = ascii_lowercase a @ ascii_lowercase b"
  by (simp add: ascii_lowercase_def)

lemma eq_ignore_ascii_case_refl [simp]: "eq_ignore_ascii_case a a"
  by (simp add: eq_ignore_ascii_case_def)

lemma eq_ignore_ascii_case_sym: "eq_ignore_ascii_case a b = eq_ignore_ascii_case b a"
  by (auto simp: eq_ignore_ascii_case_def)

text \<open>
  Rust's \<open>char::is_whitespace\<close> read off the UTF-8 bytes: the length of the white-space
  character a text begins with, 0 when it begins with none.
\<close>

definition ws_len :: "nat list \<Rightarrow> nat" where
  "ws_len b = (case b of
      [] \<Rightarrow> 0
    | x # r \<Rightarrow>
        if (9 \<le> x \<and> x \<le> 13) \<or> x = 32 then 1
        else (case r of
            [] \<Rightarrow> 0
          | y # r' \<Rightarrow>
              if x = 0xC2 \<and> (y = 0x85 \<or> y = 0xA0) then 2
              else (case r' of
                  [] \<Rightarrow> 0
                | z # _ \<Rightarrow>
                    if x = 0xE1 \<and> y = 0x9A \<and> z = 0x80 then 3
                    else if x = 0xE2 \<and> y = 0x80 \<and>
                        ((0x80 \<le> z \<and> z \<le> 0x8A) \<or> z = 0xA8 \<or> z = 0xA9 \<or> z = 0xAF) then 3
                    else if x = 0xE2 \<and> y = 0x81 \<and> z = 0x9F then 3
                    else if x = 0xE3 \<and> y = 0x80 \<and> z = 0x80 then 3
                    else 0)))"

definition ws_prefix :: "string \<Rightarrow> nat" where
  "ws_prefix s = ws_len (map code (take 3 s))"

definition ws_suffix :: "string \<Rightarrow> nat" where
  "ws_suffix s =
     (if ws_len (map code (drop (length s - 1) s)) = 1 then 1
      else if ws_len (map code (drop (length s - 2) s)) = 2 then 2
      else if ws_len (map code (drop (length s - 3) s)) = 3 then 3
      else 0)"

lemma ws_len_Nil [simp]: "ws_len [] = 0"
  by (simp add: ws_len_def)

lemma ws_prefix_Nil [simp]: "ws_prefix [] = 0"
  by (simp add: ws_prefix_def)

lemma ws_suffix_Nil [simp]: "ws_suffix [] = 0"
  by (simp add: ws_suffix_def)

lemma ws_prefix_pos: "0 < ws_prefix s \<Longrightarrow> 0 < length s"
  by (cases s) simp_all

lemma ws_suffix_pos: "0 < ws_suffix s \<Longrightarrow> 0 < length s"
  by (cases s) simp_all

function trim_start :: "string \<Rightarrow> string" where
  "trim_start s = (if ws_prefix s = 0 then s else trim_start (drop (ws_prefix s) s))"
  by pat_completeness auto
termination
  by (relation "measure length") (auto intro: diff_less ws_prefix_pos)

declare trim_start.simps [simp del]

function trim_end :: "string \<Rightarrow> string" where
  "trim_end s = (if ws_suffix s = 0 then s else trim_end (take (length s - ws_suffix s) s))"
  by pat_completeness auto
termination
  by (relation "measure length") (auto intro: diff_less ws_suffix_pos)

declare trim_end.simps [simp del]

definition trim :: "string \<Rightarrow> string" where
  "trim s = trim_end (trim_start s)"

lemma trim_start_Nil [simp]: "trim_start [] = []"
  by (simp add: trim_start.simps)

lemma trim_end_Nil [simp]: "trim_end [] = []"
  by (simp add: trim_end.simps)

lemma trim_Nil [simp]: "trim [] = []"
  by (simp add: trim_def)

lemma suffix_trim_start: "\<exists>k. trim_start s = drop k s"
proof (induction s rule: trim_start.induct)
  case (1 s)
  show ?case
  proof (cases "ws_prefix s = 0")
    case True
    then have "trim_start s = drop 0 s" by (simp add: trim_start.simps [of s])
    then show ?thesis ..
  next
    case False
    with "1.IH" obtain k where "trim_start (drop (ws_prefix s) s) = drop k (drop (ws_prefix s) s)"
      by blast
    with False have "trim_start s = drop (k + ws_prefix s) s"
      by (simp add: trim_start.simps [of s])
    then show ?thesis ..
  qed
qed

lemma prefix_trim_end: "\<exists>k. trim_end s = take k s"
proof (induction s rule: trim_end.induct)
  case (1 s)
  show ?case
  proof (cases "ws_suffix s = 0")
    case True
    then have "trim_end s = take (length s) s" by (simp add: trim_end.simps [of s])
    then show ?thesis ..
  next
    case False
    with "1.IH" obtain k where
      "trim_end (take (length s - ws_suffix s) s) = take k (take (length s - ws_suffix s) s)"
      by blast
    with False have "trim_end s = take (min k (length s - ws_suffix s)) s"
      by (simp add: trim_end.simps [of s])
    then show ?thesis ..
  qed
qed

lemma length_trim_start: "length (trim_start s) \<le> length s"
  using suffix_trim_start [of s] by auto

lemma length_trim_end: "length (trim_end s) \<le> length s"
  using prefix_trim_end [of s] by auto

lemma length_trim: "length (trim s) \<le> length s"
  using length_trim_end [of "trim_start s"] length_trim_start [of s] by (simp add: trim_def)

lemma set_trim_start: "set (trim_start s) \<subseteq> set s"
  using suffix_trim_start [of s] set_drop_subset by metis

lemma set_trim_end: "set (trim_end s) \<subseteq> set s"
  using prefix_trim_end [of s] set_take_subset by metis

lemma set_trim: "set (trim s) \<subseteq> set s"
  using set_trim_end set_trim_start by (fastforce simp: trim_def)

text \<open>Decimal text of a number, \<open>join\<close> of a list of texts, the punctuation beyond ASCII.\<close>

fun digits_of :: "nat \<Rightarrow> string" where
  "digits_of n = (if n < 10 then [char_of (48 + n)]
     else digits_of (n div 10) @ [char_of (48 + n mod 10)])"

declare digits_of.simps [simp del]

definition string_of_nat :: "nat \<Rightarrow> string" where
  "string_of_nat n = digits_of n"

definition string_of_int :: "int \<Rightarrow> string" where
  "string_of_int i = (if i < 0 then ''-'' @ digits_of (nat (- i)) else digits_of (nat i))"

fun join :: "string \<Rightarrow> string list \<Rightarrow> string" where
  "join sep [] = []"
| "join sep [s] = s"
| "join sep (s # t # r) = s @ sep @ join sep (t # r)"

definition em_dash :: string where
  "em_dash = [CHR 0xE2, CHR 0x80, CHR 0x94]"

definition ellipsis :: string where
  "ellipsis = [CHR 0xE2, CHR 0x80, CHR 0xA6]"

lemma digits_of_nonempty [simp]: "digits_of n \<noteq> []"
  by (subst digits_of.simps) simp

lemma string_of_nat_nonempty [simp]: "string_of_nat n \<noteq> []"
  by (simp add: string_of_nat_def)

lemma digits_of_digits: "c \<in> set (digits_of n) \<Longrightarrow> is_ascii_digit c"
proof (induction n rule: digits_of.induct)
  case (1 n)
  show ?case
  proof (cases "n < 10")
    case True
    with "1.prems" show ?thesis by (simp add: digits_of.simps [of n] is_ascii_digit_def)
  next
    case False
    have "n mod 10 < 10" by simp
    with False "1.prems" "1.IH" show ?thesis
      by (auto simp: digits_of.simps [of n] is_ascii_digit_def)
  qed
qed

lemma find_SomeD: "find p xs = Some x \<Longrightarrow> x \<in> set xs \<and> p x"
  by (induction xs) (auto split: if_splits)

subsection \<open>Tables\<close>

text \<open>
  A table is the list of its rows in rowid order. \<open>update ... where\<close>, \<open>delete ... where\<close> and
  the number of rows a statement touched, which SQLite reports back.
\<close>

definition update_where :: "('r \<Rightarrow> bool) \<Rightarrow> ('r \<Rightarrow> 'r) \<Rightarrow> 'r list \<Rightarrow> 'r list" where
  "update_where p f t = map (\<lambda>r. if p r then f r else r) t"

definition delete_where :: "('r \<Rightarrow> bool) \<Rightarrow> 'r list \<Rightarrow> 'r list" where
  "delete_where p t = filter (\<lambda>r. \<not> p r) t"

definition count_where :: "('r \<Rightarrow> bool) \<Rightarrow> 'r list \<Rightarrow> nat" where
  "count_where p t = length (filter p t)"

definition nth_opt :: "'a list \<Rightarrow> nat \<Rightarrow> 'a option" where
  "nth_opt xs i = (if i < length xs then Some (xs ! i) else None)"

lemma set_update_where [table_simps]:
  "set (update_where p f t) = {r \<in> set t. \<not> p r} \<union> f ` {r \<in> set t. p r}"
  by (auto simp: update_where_def)

lemma set_delete_where [table_simps]: "set (delete_where p t) = {r \<in> set t. \<not> p r}"
  by (simp add: delete_where_def)

lemma length_update_where [simp]: "length (update_where p f t) = length t"
  by (simp add: update_where_def)

lemma update_where_Nil [simp]: "update_where p f [] = []"
  by (simp add: update_where_def)

lemma delete_where_Nil [simp]: "delete_where p [] = []"
  by (simp add: delete_where_def)

lemma count_where_Nil [simp]: "count_where p [] = 0"
  by (simp add: count_where_def)

lemma update_where_Cons [table_simps]:
  "update_where p f (r # t) = (if p r then f r else r) # update_where p f t"
  by (simp add: update_where_def)

lemma delete_where_Cons [table_simps]:
  "delete_where p (r # t) = (if p r then delete_where p t else r # delete_where p t)"
  by (simp add: delete_where_def)

lemma count_where_Cons [table_simps]:
  "count_where p (r # t) = (if p r then 1 else 0) + count_where p t"
  by (simp add: count_where_def)

lemma count_where_0_iff: "count_where p t = 0 \<longleftrightarrow> (\<forall>r \<in> set t. \<not> p r)"
  by (auto simp: count_where_def filter_empty_conv)

lemma count_where_le [simp]: "count_where p t \<le> length t"
  by (simp add: count_where_def)

lemma update_where_idle: "(\<And>r. r \<in> set t \<Longrightarrow> \<not> p r) \<Longrightarrow> update_where p f t = t"
  by (induction t) (auto simp: table_simps)

lemma delete_where_idle: "(\<And>r. r \<in> set t \<Longrightarrow> \<not> p r) \<Longrightarrow> delete_where p t = t"
  by (simp add: delete_where_def)

lemma map_update_where:
  "(\<And>r. r \<in> set t \<Longrightarrow> p r \<Longrightarrow> k (f r) = k r) \<Longrightarrow> map k (update_where p f t) = map k t"
  by (induction t) (auto simp: table_simps)

lemma length_delete_where: "length (delete_where p t) + count_where p t = length t"
  by (induction t) (auto simp: table_simps)

lemma all_update_where:
  assumes "\<And>r. r \<in> set t \<Longrightarrow> P r" and "\<And>r. r \<in> set t \<Longrightarrow> P r \<Longrightarrow> p r \<Longrightarrow> P (f r)"
  shows "\<forall>r \<in> set (update_where p f t). P r"
  using assms by (auto simp: table_simps)

lemma distinct_delete_where: "distinct (map k t) \<Longrightarrow> distinct (map k (delete_where p t))"
  by (simp add: delete_where_def distinct_map_filter)

text \<open>
  Tables whose rows carry a key: looking a row up by key, and what a statement that keeps the
  keys does to the row found there.
\<close>

definition row_at :: "('r \<Rightarrow> int) \<Rightarrow> int \<Rightarrow> 'r list \<Rightarrow> 'r option" where
  "row_at key k t = find (\<lambda>r. key r = k) t"

lemma row_at_Nil [simp]: "row_at key k [] = None"
  by (simp add: row_at_def)

lemma row_at_Cons [table_simps]:
  "row_at key k (r # t) = (if key r = k then Some r else row_at key k t)"
  by (simp add: row_at_def)

lemma row_at_Some: "row_at key k t = Some r \<Longrightarrow> r \<in> set t \<and> key r = k"
  by (auto simp: row_at_def find_Some_iff)

lemma row_at_None_iff: "row_at key k t = None \<longleftrightarrow> (\<forall>r \<in> set t. key r \<noteq> k)"
  by (auto simp: row_at_def find_None_iff)

lemma row_at_in_set:
  "distinct (map key t) \<Longrightarrow> r \<in> set t \<Longrightarrow> row_at key (key r) t = Some r"
  by (induction t) (auto simp: table_simps rev_image_eqI)

lemma row_at_iff:
  "distinct (map key t) \<Longrightarrow> row_at key k t = Some r \<longleftrightarrow> r \<in> set t \<and> key r = k"
  using row_at_in_set row_at_Some by metis

lemma row_at_update [table_simps]:
  "(\<And>r. key (f r) = key r) \<Longrightarrow>
   row_at key k (update_where p f t) = map_option (\<lambda>r. if p r then f r else r) (row_at key k t)"
  by (induction t) (auto simp: table_simps)

lemma row_at_append [table_simps]:
  "row_at key k (t @ u) = (case row_at key k t of None \<Rightarrow> row_at key k u | Some r \<Rightarrow> Some r)"
  by (induction t) (auto simp: table_simps)

lemma row_at_delete [table_simps]:
  "(\<And>r. p r \<Longrightarrow> q (key r)) \<Longrightarrow> (\<And>r. q (key r) \<Longrightarrow> p r) \<Longrightarrow>
   row_at key k (delete_where p t) = (if q k then None else row_at key k t)"
  by (induction t) (auto simp: table_simps)

lemma row_at_delete_distinct:
  assumes "distinct (map key t)"
  shows "row_at key k (delete_where p t) =
    (case row_at key k t of None \<Rightarrow> None | Some r \<Rightarrow> if p r then None else Some r)"
  using assms
proof (induction t)
  case (Cons r t)
  have "row_at key k (delete_where p t) = None" if "key r = k"
    using Cons.prems that by (auto simp: row_at_None_iff table_simps rev_image_eqI)
  with Cons show ?case by (auto simp: table_simps)
qed simp

lemma distinct_update_where:
  "distinct (map key t) \<Longrightarrow> (\<And>r. key (f r) = key r) \<Longrightarrow> distinct (map key (update_where p f t))"
  by (simp add: map_update_where)

lemma count_where_key:
  "distinct (map key t) \<Longrightarrow>
   count_where (\<lambda>r. key r = k \<and> p r) t =
     (case row_at key k t of None \<Rightarrow> 0 | Some r \<Rightarrow> if p r then 1 else 0)"
proof (induction t)
  case (Cons r t)
  have "row_at key k t = None" if "key r = k"
    using Cons.prems that by (auto simp: row_at_None_iff rev_image_eqI)
  with Cons show ?case by (auto simp: table_simps)
qed simp

text \<open>
  A name code: an enum stored as text through \<open>as_str\<close> and read back through a parser.
\<close>

locale name_code =
  fixes as_str :: "'e \<Rightarrow> string" and parse :: "string \<Rightarrow> 'e option"
  assumes parse_as_str: "parse (as_str e) = Some e"
begin

lemma as_str_inj: "as_str a = as_str b \<Longrightarrow> a = b"
  using parse_as_str by (metis option.inject)

lemma parse_range: "parse s = Some e \<Longrightarrow> parse (as_str e) = parse s"
  by (simp add: parse_as_str)

end

text \<open>
  A normaliser: a function that maps every input to one of the offered values and keeps those.
\<close>

locale normalizer =
  fixes norm :: "'a \<Rightarrow> 'b" and raw :: "'b \<Rightarrow> 'a" and offered :: "'b set"
  assumes norm_offered: "norm x \<in> offered"
    and norm_keeps: "v \<in> offered \<Longrightarrow> norm (raw v) = v"
begin

lemma norm_idem: "norm (raw (norm x)) = norm x"
  by (simp add: norm_keeps norm_offered)

lemma offered_iff: "v \<in> offered \<longleftrightarrow> norm (raw v) = v"
  using norm_offered norm_keeps by metis

end

subsection \<open>Sorting by an order of one's own\<close>

fun insert_by :: "('a \<Rightarrow> 'a \<Rightarrow> bool) \<Rightarrow> 'a \<Rightarrow> 'a list \<Rightarrow> 'a list" where
  "insert_by le x [] = [x]"
| "insert_by le x (y # ys) = (if le x y then x # y # ys else y # insert_by le x ys)"

definition sort_by :: "('a \<Rightarrow> 'a \<Rightarrow> bool) \<Rightarrow> 'a list \<Rightarrow> 'a list" where
  "sort_by le xs = foldr (insert_by le) xs []"

lemma sort_by_Nil [simp]: "sort_by le [] = []"
  by (simp add: sort_by_def)

lemma sort_by_Cons [simp]: "sort_by le (x # xs) = insert_by le x (sort_by le xs)"
  by (simp add: sort_by_def)

lemma set_insert_by [simp]: "set (insert_by le x xs) = insert x (set xs)"
  by (induction xs) auto

lemma length_insert_by [simp]: "length (insert_by le x xs) = Suc (length xs)"
  by (induction xs) auto

lemma set_sort_by [simp]: "set (sort_by le xs) = set xs"
  by (induction xs) auto

lemma length_sort_by [simp]: "length (sort_by le xs) = length xs"
  by (induction xs) auto

lemma mset_insert_by: "count_list (insert_by le x xs) y = count_list (x # xs) y"
  by (induction xs) auto

lemma count_sort_by [simp]: "count_list (sort_by le xs) y = count_list xs y"
  by (induction xs) (simp_all add: mset_insert_by)

lemma sorted_insert_by:
  assumes "\<And>a b. le a b \<or> le b a" and "\<And>a b c. le a b \<Longrightarrow> le b c \<Longrightarrow> le a c"
  shows "sorted_wrt le xs \<Longrightarrow> sorted_wrt le (insert_by le x xs)"
proof (induction xs)
  case (Cons y ys)
  then show ?case using assms by auto
qed simp

lemma sorted_sort_by:
  assumes "\<And>a b. le a b \<or> le b a" and "\<And>a b c. le a b \<Longrightarrow> le b c \<Longrightarrow> le a c"
  shows "sorted_wrt le (sort_by le xs)"
proof (induction xs)
  case (Cons x xs)
  have "sorted_wrt le (insert_by le x (sort_by le xs))"
    using assms Cons.IH by (rule sorted_insert_by)
  then show ?case by simp
qed simp

lemma sorted_block:
  assumes "sorted_wrt (\<lambda>x y. (k x :: 'k :: linorder) \<le> k y) xs"
  shows "\<exists>a b c. xs = a @ b @ c \<and> b = filter (\<lambda>x. k x = v) xs
    \<and> (\<forall>x \<in> set a. k x < v) \<and> (\<forall>x \<in> set c. v < k x)"
  using assms
proof (induction xs)
  case (Cons x xs)
  then obtain a b c where IH: "xs = a @ b @ c" "b = filter (\<lambda>x. k x = v) xs"
    "\<forall>x \<in> set a. k x < v" "\<forall>x \<in> set c. v < k x" by auto
  consider "k x < v" | "k x = v" | "v < k x" by (metis linorder_cases)
  then show ?case
  proof cases
    case 1
    with IH have "x # xs = (x # a) @ b @ c \<and> b = filter (\<lambda>x. k x = v) (x # xs)
      \<and> (\<forall>x \<in> set (x # a). k x < v) \<and> (\<forall>x \<in> set c. v < k x)" by auto
    then show ?thesis by blast
  next
    case 2
    have "a = []"
    proof (cases a)
      case (Cons y a')
      then have "y \<in> set xs" "k y < v" using IH(1,3) by auto
      with 2 Cons.prems show ?thesis by fastforce
    qed
    with IH 2 have "x # xs = [] @ (x # b) @ c \<and> x # b = filter (\<lambda>x. k x = v) (x # xs)
      \<and> (\<forall>x \<in> set []. k x < v) \<and> (\<forall>x \<in> set c. v < k x)" by auto
    then show ?thesis by blast
  next
    case 3
    have "\<forall>y \<in> set xs. v < k y" using Cons.prems 3 by auto
    with 3 have "filter (\<lambda>x. k x = v) (x # xs) = []" "\<forall>x \<in> set (x # xs). v < k x"
      by (auto simp: filter_empty_conv)
    then show ?thesis by (intro exI [of _ "[]"] exI [of _ "x # xs"]) simp
  qed
qed simp

subsection \<open>Chunks\<close>

text \<open>Sorted, without repetitions, in chunks: how the code splits a long list of UIDs.\<close>

definition clean_uids :: "nat list \<Rightarrow> nat list" where
  "clean_uids uids = remdups_adj (sort uids)"

function chunks :: "nat \<Rightarrow> 'a list \<Rightarrow> 'a list list" where
  "chunks n xs = (if xs = [] \<or> n = 0 then [] else take n xs # chunks n (drop n xs))"
  by pat_completeness auto
termination
  by (relation "measure (\<lambda>(n, xs). length xs)") auto

declare chunks.simps [simp del]

lemma chunks_Nil [simp]: "chunks n [] = []"
  by (simp add: chunks.simps)

lemma concat_chunks [simp]: "0 < n \<Longrightarrow> concat (chunks n xs) = xs"
proof (induction n xs rule: chunks.induct)
  case (1 n xs)
  then show ?case by (cases "xs = []") (simp_all add: chunks.simps [of n xs])
qed

lemma chunks_length: "c \<in> set (chunks n xs) \<Longrightarrow> length c \<le> n \<and> c \<noteq> []"
proof (induction n xs rule: chunks.induct)
  case (1 n xs)
  then show ?case
    by (cases "xs = [] \<or> n = 0") (auto simp: chunks.simps [of n xs])
qed

lemma clean_uids_sorted [simp]: "sorted (clean_uids uids)"
  by (simp add: clean_uids_def sorted_remdups_adj)

lemma set_clean_uids [simp]: "set (clean_uids uids) = set uids"
  by (simp add: clean_uids_def)

lemma distinct_clean_uids [simp]: "distinct (clean_uids uids)"
proof -
  have "sorted xs \<Longrightarrow> distinct (remdups_adj xs)" for xs :: "nat list"
  proof (induction xs rule: remdups_adj.induct)
    case (3 x y xs)
    show ?case
    proof (cases "x = y")
      case False
      with 3 have "\<forall>z \<in> set (y # xs). x < z" by fastforce
      with 3 False show ?thesis by auto
    qed (use 3 in auto)
  qed simp_all
  then show ?thesis by (simp add: clean_uids_def)
qed

fun apart :: "nat list list \<Rightarrow> bool" where
  "apart [] = True"
| "apart (c # cs) \<longleftrightarrow> set c \<inter> \<Union> (set ` set cs) = {} \<and> apart cs"

lemma apart_chunks: "distinct xs \<Longrightarrow> 0 < n \<Longrightarrow> apart (chunks n xs)"
proof (induction n xs rule: chunks.induct)
  case (1 n xs)
  show ?case
  proof (cases "xs = []")
    case False
    have "\<Union> (set ` set (chunks n (drop n xs))) = set (concat (chunks n (drop n xs)))" by simp
    also have "\<dots> = set (drop n xs)" using 1 by (simp only: concat_chunks)
    finally have "set (take n xs) \<inter> \<Union> (set ` set (chunks n (drop n xs))) = {}"
      using 1 by (simp add: set_take_disj_set_drop_if_distinct)
    with 1 False show ?thesis by (simp add: chunks.simps [of n xs])
  qed simp
qed

end
