(* ===== verification/Outbox_Queue.thy ===== *)
theory Outbox_Queue
  imports Prelude
begin

text \<open>
  The outbox table \<open>send_queue\<close> (\<open>crates/mailcore/src/store/queue.rs\<close>, its row type in
  \<open>models.rs\<close>): one definition per operation, the row invariant every operation keeps, and
  what each operation does to the row it names. The clock is an argument (\<open>now\<close>, in
  nanoseconds), read once per operation. The RFC 3339 parser is chrono's and the MIME header
  parser is mail-parser's, so both are arguments too. SQLite is taken to answer every statement
  (no \<open>Sql\<close> error), and \<open>order by\<close> to keep rowid order among equal keys.
\<close>

subsection \<open>The row\<close>

datatype queue_status = Queued | Sending | Sent | Failed | Scheduled

fun queue_status_str :: "queue_status \<Rightarrow> string" where
  "queue_status_str Queued = ''queued''"
| "queue_status_str Sending = ''sending''"
| "queue_status_str Sent = ''sent''"
| "queue_status_str Failed = ''failed''"
| "queue_status_str Scheduled = ''scheduled''"

definition parse_status :: "string \<Rightarrow> queue_status" where
  "parse_status s =
     (if s = ''sending'' then Sending
      else if s = ''sent'' then Sent
      else if s = ''failed'' then Failed
      else if s = ''scheduled'' then Scheduled
      else Queued)"

record queued_send =
  q_id :: int
  q_account_id :: int
  q_message_id :: "int option"
  q_status :: queue_status
  q_last_error :: "string option"
  q_retries :: nat
  q_raw_mime :: "string option"
  q_envelope_from :: "string option"
  q_envelope_to :: "string list"
  q_created_at :: stamp
  q_updated_at :: stamp
  q_send_at :: "stamp option"
  q_request_dsn :: bool
  q_notify_self :: bool
  q_next_attempt_at :: "stamp option"
  q_failure_noticed :: bool

record send_queue =
  queue_rows :: "queued_send list"
  queue_next_id :: int

definition empty_queue :: send_queue where
  "empty_queue = \<lparr>queue_rows = [], queue_next_id = 1\<rparr>"

definition MAX_SEND_RETRIES :: nat where
  "MAX_SEND_RETRIES = 5"

definition SENT_RETENTION_DAYS :: int where
  "SENT_RETENTION_DAYS = 30"

definition STALE_SENDING_MINUTES :: int where
  "STALE_SENDING_MINUTES = 30"

definition SCHEDULE_LEAD_SECS :: int where
  "SCHEDULE_LEAD_SECS = 60"

definition SCHEDULED_BACKOFF_SECS :: "int list" where
  "SCHEDULED_BACKOFF_SECS = [5 * 60, 15 * 60, 60 * 60, 3 * 60 * 60]"

definition SCHEDULED_DEADLINE_SECS :: int where
  "SCHEDULED_DEADLINE_SECS = 24 * 60 * 60"

text \<open>\<open>raw_mime is not null and length(raw_mime) > 0\<close>.\<close>

definition has_bytes :: "queued_send \<Rightarrow> bool" where
  "has_bytes r = (case q_raw_mime r of None \<Rightarrow> False | Some b \<Rightarrow> b \<noteq> [])"

text \<open>\<open>c is null or c <= t\<close>.\<close>

definition null_or_le :: "stamp option \<Rightarrow> stamp \<Rightarrow> bool" where
  "null_or_le c t = (case c of None \<Rightarrow> True | Some s \<Rightarrow> s \<le> t)"

definition HELD_STATUSES :: "queue_status set" where
  "HELD_STATUSES = {Scheduled, Queued, Failed}"

definition days_ago :: "instant \<Rightarrow> int \<Rightarrow> stamp" where
  "days_ago now days = secs (now - days * 24 * 60 * 60 * ns_per_sec)"

subsection \<open>Putting mail in\<close>

definition normalize_future_send_at ::
  "(string \<Rightarrow> instant option) \<Rightarrow> instant \<Rightarrow> string \<Rightarrow> stamp result" where
  "normalize_future_send_at parse_rfc3339 now raw =
     (case parse_rfc3339 (trim raw) of
        None \<Rightarrow> Inl (InvalidInput ''pick a valid date and time'')
      | Some utc \<Rightarrow>
          if utc \<le> now + SCHEDULE_LEAD_SECS * ns_per_sec
          then Inl (InvalidInput ''pick a time at least a minute in the future'')
          else Inr (secs utc))"

record scheduled_mime =
  s_message_id :: "int option"
  s_raw_mime :: string
  s_envelope_from :: string
  s_envelope_to :: "string list"
  s_request_dsn :: bool
  s_notify_self :: bool
  s_send_at :: string

definition insert_row :: "(int \<Rightarrow> queued_send) \<Rightarrow> send_queue \<Rightarrow> int \<times> send_queue" where
  "insert_row mk db =
     (queue_next_id db,
      \<lparr>queue_rows = queue_rows db @ [mk (queue_next_id db)],
       queue_next_id = queue_next_id db + 1\<rparr>)"

definition scheduled_row ::
  "instant \<Rightarrow> int \<Rightarrow> scheduled_mime \<Rightarrow> stamp \<Rightarrow> int \<Rightarrow> queued_send" where
  "scheduled_row now account_id mime send_at i =
     \<lparr>q_id = i, q_account_id = account_id, q_message_id = s_message_id mime,
      q_status = Scheduled, q_last_error = None, q_retries = 0,
      q_raw_mime = Some (s_raw_mime mime), q_envelope_from = Some (s_envelope_from mime),
      q_envelope_to = s_envelope_to mime, q_created_at = secs now, q_updated_at = secs now,
      q_send_at = Some send_at, q_request_dsn = s_request_dsn mime,
      q_notify_self = s_notify_self mime, q_next_attempt_at = None,
      q_failure_noticed = False\<rparr>"

definition enqueue_scheduled_mime ::
  "(string \<Rightarrow> instant option) \<Rightarrow> instant \<Rightarrow> int \<Rightarrow> scheduled_mime \<Rightarrow> send_queue \<Rightarrow>
     int result \<times> send_queue" where
  "enqueue_scheduled_mime parse_rfc3339 now account_id mime db =
     (case normalize_future_send_at parse_rfc3339 now (s_send_at mime) of
        Inl e \<Rightarrow> (Inl e, db)
      | Inr send_at \<Rightarrow>
          (let ins = insert_row (scheduled_row now account_id mime send_at) db
           in (Inr (fst ins), snd ins)))"

definition immediate_row ::
  "instant \<Rightarrow> int \<Rightarrow> int option \<Rightarrow> string \<Rightarrow> string \<Rightarrow> string list \<Rightarrow> bool \<Rightarrow> int \<Rightarrow> queued_send" where
  "immediate_row now account_id message_id raw_mime envelope_from envelope_to request_dsn i =
     \<lparr>q_id = i, q_account_id = account_id, q_message_id = message_id,
      q_status = Sending, q_last_error = None, q_retries = 0,
      q_raw_mime = Some raw_mime, q_envelope_from = Some envelope_from,
      q_envelope_to = envelope_to, q_created_at = secs now, q_updated_at = secs now,
      q_send_at = None, q_request_dsn = request_dsn, q_notify_self = False,
      q_next_attempt_at = None, q_failure_noticed = False\<rparr>"

definition enqueue_mime ::
  "instant \<Rightarrow> int \<Rightarrow> int option \<Rightarrow> string \<Rightarrow> string \<Rightarrow> string list \<Rightarrow> bool \<Rightarrow> send_queue \<Rightarrow>
     int result \<times> send_queue" where
  "enqueue_mime now account_id message_id raw_mime envelope_from envelope_to request_dsn db =
     (let ins = insert_row (immediate_row now account_id message_id raw_mime envelope_from
                              envelope_to request_dsn) db
      in (Inr (fst ins), snd ins))"

subsection \<open>Reading\<close>

definition list_pending :: "send_queue \<Rightarrow> queued_send list" where
  "list_pending db =
     sort_key q_created_at
       (filter (\<lambda>r. q_status r \<in> {Queued, Sending, Failed, Scheduled}) (queue_rows db))"

definition submittable :: "stamp \<Rightarrow> int \<Rightarrow> queued_send \<Rightarrow> bool" where
  "submittable due account_id r \<longleftrightarrow>
     q_account_id r = account_id \<and> q_status r \<in> {Queued, Failed} \<and> has_bytes r
     \<and> q_retries r < MAX_SEND_RETRIES
     \<and> null_or_le (q_send_at r) due \<and> null_or_le (q_next_attempt_at r) due"

definition list_submittable :: "instant \<Rightarrow> int \<Rightarrow> send_queue \<Rightarrow> queued_send list" where
  "list_submittable now account_id db =
     sort_key q_created_at (filter (submittable (secs now) account_id) (queue_rows db))"

definition queue_get :: "int \<Rightarrow> send_queue \<Rightarrow> queued_send result" where
  "queue_get i db =
     (case find (\<lambda>r. q_id r = i) (queue_rows db) of
        None \<Rightarrow> Inl (NotFound (''queue entry '' @ string_of_int i))
      | Some r \<Rightarrow> Inr r)"

subsection \<open>Claiming, crash recovery, promotion\<close>

definition update_rows ::
  "(queued_send \<Rightarrow> bool) \<Rightarrow> (queued_send \<Rightarrow> queued_send) \<Rightarrow> send_queue \<Rightarrow> nat \<times> send_queue" where
  "update_rows p f db =
     (count_where p (queue_rows db), db\<lparr>queue_rows := update_where p f (queue_rows db)\<rparr>)"

definition claim :: "instant \<Rightarrow> int \<Rightarrow> send_queue \<Rightarrow> bool \<times> send_queue" where
  "claim now i db =
     (case update_rows (\<lambda>r. q_id r = i \<and> q_status r \<in> {Queued, Failed})
             (\<lambda>r. r\<lparr>q_status := Sending, q_updated_at := secs now\<rparr>) db
      of (rows, db') \<Rightarrow> (rows = 1, db'))"

definition stale_cutoff :: "instant \<Rightarrow> stamp" where
  "stale_cutoff now = secs (now - STALE_SENDING_MINUTES * 60 * ns_per_sec)"

definition requeue_interrupted :: "instant \<Rightarrow> int \<Rightarrow> send_queue \<Rightarrow> nat \<times> send_queue" where
  "requeue_interrupted now account_id db =
     (case update_rows
             (\<lambda>r. q_status r = Sending \<and> q_account_id r = account_id
                \<and> q_updated_at r < stale_cutoff now \<and> has_bytes r)
             (\<lambda>r. r\<lparr>q_status := Queued, q_updated_at := secs now\<rparr>) db
      of (n, db') \<Rightarrow>
        (case update_rows
               (\<lambda>r. q_account_id r = account_id \<and> \<not> has_bytes r
                  \<and> (q_status r = Queued
                     \<or> (q_status r = Sending \<and> q_updated_at r < stale_cutoff now)))
               (\<lambda>r. r\<lparr>q_status := Failed,
                      q_last_error := Some ''aborted or missing message bytes'',
                      q_updated_at := secs now\<rparr>) db'
         of (_, db'') \<Rightarrow> (n, db'')))"

definition promotable :: "stamp \<Rightarrow> int \<Rightarrow> queued_send \<Rightarrow> bool" where
  "promotable due account_id r \<longleftrightarrow>
     q_status r = Scheduled \<and> q_account_id r = account_id
     \<and> (case q_send_at r of None \<Rightarrow> False | Some s \<Rightarrow> s \<le> due) \<and> has_bytes r"

definition promote_due :: "instant \<Rightarrow> int \<Rightarrow> send_queue \<Rightarrow> nat \<times> send_queue" where
  "promote_due now account_id db =
     update_rows (promotable (secs now) account_id)
       (\<lambda>r. r\<lparr>q_status := Queued, q_updated_at := secs now\<rparr>) db"

subsection \<open>Failures\<close>

datatype scheduled_failure = RetryAt stamp | GaveUp

definition scheduled_decision ::
  "instant \<Rightarrow> bool \<Rightarrow> queued_send \<Rightarrow> scheduled_failure" where
  "scheduled_decision now permanent row =
     (let attempts = q_retries row + 1;
          past_deadline = (case q_send_at row of
              None \<Rightarrow> False
            | Some at \<Rightarrow> now > at_stamp at + SCHEDULED_DEADLINE_SECS * ns_per_sec)
      in case nth_opt SCHEDULED_BACKOFF_SECS (attempts - 1) of
           Some pause \<Rightarrow>
             if \<not> permanent \<and> \<not> past_deadline \<and> attempts < MAX_SEND_RETRIES
             then RetryAt (secs (now + pause * ns_per_sec))
             else GaveUp
         | None \<Rightarrow> GaveUp)"

definition record_failure ::
  "instant \<Rightarrow> string \<Rightarrow> queued_send \<Rightarrow> scheduled_failure \<Rightarrow> queued_send \<Rightarrow> queued_send" where
  "record_failure now error row decision r =
     (case decision of
        RetryAt at \<Rightarrow>
          r\<lparr>q_status := Failed, q_last_error := Some error, q_retries := q_retries row + 1,
            q_next_attempt_at := Some at, q_failure_noticed := False, q_updated_at := secs now\<rparr>
      | GaveUp \<Rightarrow>
          r\<lparr>q_status := Failed, q_last_error := Some error, q_retries := MAX_SEND_RETRIES,
            q_next_attempt_at := None, q_failure_noticed := False, q_updated_at := secs now\<rparr>)"

definition fail_scheduled_attempt ::
  "instant \<Rightarrow> int \<Rightarrow> string \<Rightarrow> bool \<Rightarrow> send_queue \<Rightarrow> scheduled_failure result \<times> send_queue" where
  "fail_scheduled_attempt now i error permanent db =
     (case queue_get i db of
        Inl e \<Rightarrow> (Inl e, db)
      | Inr row \<Rightarrow>
          (let decision = scheduled_decision now permanent row
           in (Inr decision,
               snd (update_rows (\<lambda>r. q_id r = i) (record_failure now error row decision) db))))"

definition due_scheduled :: "stamp \<Rightarrow> int \<Rightarrow> queued_send \<Rightarrow> bool" where
  "due_scheduled now_s account_id r \<longleftrightarrow>
     q_account_id r = account_id
     \<and> (case q_send_at r of None \<Rightarrow> False | Some s \<Rightarrow> s \<le> now_s)
     \<and> q_status r \<in> HELD_STATUSES \<and> has_bytes r \<and> q_retries r < MAX_SEND_RETRIES
     \<and> null_or_le (q_next_attempt_at r) now_s"

fun fail_each :: "instant \<Rightarrow> string \<Rightarrow> int list \<Rightarrow> send_queue \<Rightarrow> unit result \<times> send_queue" where
  "fail_each now error [] db = (Inr (), db)"
| "fail_each now error (i # is) db =
     (case fail_scheduled_attempt now i error False db of
        (Inl e, db') \<Rightarrow> (Inl e, db')
      | (Inr _, db') \<Rightarrow> fail_each now error is db')"

definition fail_due_scheduled ::
  "instant \<Rightarrow> int \<Rightarrow> string \<Rightarrow> send_queue \<Rightarrow> nat result \<times> send_queue" where
  "fail_due_scheduled now account_id error db =
     (let ids = map q_id (filter (due_scheduled (secs now) account_id) (queue_rows db))
      in case fail_each now error ids db of
           (Inl e, db') \<Rightarrow> (Inl e, db')
         | (Inr _, db') \<Rightarrow> (Inr (length ids), db'))"

record failed_send =
  f_queue_id :: int
  f_account_id :: int
  f_subject :: string
  f_error :: string
  f_line :: string

definition line_for :: "string \<Rightarrow> string \<Rightarrow> string" where
  "line_for subject error =
     (if error = [] then ''Scheduled mail not sent: '' @ subject
      else ''Scheduled mail not sent: '' @ subject @ '' '' @ em_dash @ '' '' @ error)"

definition subject_from_mime :: "(string \<Rightarrow> string option) \<Rightarrow> string \<Rightarrow> string option" where
  "subject_from_mime header_subject raw =
     (case header_subject raw of
        None \<Rightarrow> None
      | Some s \<Rightarrow> if trim s = [] then None else Some (trim s))"

definition unreported :: "queued_send \<Rightarrow> bool" where
  "unreported r \<longleftrightarrow> q_status r = Failed \<and> q_send_at r \<noteq> None
     \<and> MAX_SEND_RETRIES \<le> q_retries r \<and> \<not> q_failure_noticed r"

definition notice_of :: "(string \<Rightarrow> string option) \<Rightarrow> queued_send \<Rightarrow> failed_send" where
  "notice_of header_subject r =
     (let subject = (case Option.bind (q_raw_mime r) (subject_from_mime header_subject) of
                       None \<Rightarrow> ''(no subject)'' | Some s \<Rightarrow> s);
          error = (case q_last_error r of None \<Rightarrow> [] | Some e \<Rightarrow> e)
      in \<lparr>f_queue_id = q_id r, f_account_id = q_account_id r, f_subject = subject,
          f_error = error, f_line = line_for subject error\<rparr>)"

fun mark_noticed :: "int list \<Rightarrow> send_queue \<Rightarrow> send_queue" where
  "mark_noticed [] db = db"
| "mark_noticed (i # is) db =
     mark_noticed is
       (snd (update_rows (\<lambda>r. q_id r = i) (\<lambda>r. r\<lparr>q_failure_noticed := True\<rparr>) db))"

definition take_failure_notices ::
  "(string \<Rightarrow> string option) \<Rightarrow> send_queue \<Rightarrow> failed_send list \<times> send_queue" where
  "take_failure_notices header_subject db =
     (let rows = sort_key q_updated_at (filter unreported (queue_rows db))
      in (map (notice_of header_subject) rows, mark_noticed (map q_id rows) db))"

subsection \<open>The user's changes to a waiting row\<close>

definition unchanged_reason :: "int \<Rightarrow> int \<Rightarrow> send_queue \<Rightarrow> store_error" where
  "unchanged_reason account_id i db =
     (case queue_get i db of
        Inl e \<Rightarrow> e
      | Inr row \<Rightarrow>
          if q_account_id row \<noteq> account_id then NotFound ''outbox entry''
          else if q_status row \<in> {Scheduled, Queued, Failed}
          then InvalidInput ''this entry has no message data left; send it again by hand''
          else InvalidInput ''this entry is already being sent'')"

definition movable :: "int \<Rightarrow> int \<Rightarrow> queued_send \<Rightarrow> bool" where
  "movable account_id i r \<longleftrightarrow>
     q_id r = i \<and> q_account_id r = account_id \<and> q_status r \<in> HELD_STATUSES \<and> has_bytes r"

definition reschedule ::
  "(string \<Rightarrow> instant option) \<Rightarrow> instant \<Rightarrow> int \<Rightarrow> int \<Rightarrow> string \<Rightarrow> send_queue \<Rightarrow>
     stamp result \<times> send_queue" where
  "reschedule parse_rfc3339 now account_id i raw db =
     (case normalize_future_send_at parse_rfc3339 now raw of
        Inl e \<Rightarrow> (Inl e, db)
      | Inr send_at \<Rightarrow>
          (case update_rows (movable account_id i)
                  (\<lambda>r. r\<lparr>q_status := Scheduled, q_send_at := Some send_at, q_retries := 0,
                         q_last_error := None, q_next_attempt_at := None,
                         q_failure_noticed := False, q_updated_at := secs now\<rparr>) db
           of (n, db') \<Rightarrow>
             if n = 0 then (Inl (unchanged_reason account_id i db'), db')
             else (Inr send_at, db')))"

definition send_now :: "instant \<Rightarrow> int \<Rightarrow> int \<Rightarrow> send_queue \<Rightarrow> unit result \<times> send_queue" where
  "send_now now account_id i db =
     (case update_rows (movable account_id i)
             (\<lambda>r. r\<lparr>q_status := Queued, q_send_at := Some (secs now), q_retries := 0,
                    q_last_error := None, q_next_attempt_at := None,
                    q_failure_noticed := False, q_updated_at := secs now\<rparr>) db
      of (n, db') \<Rightarrow>
        if n = 0 then (Inl (unchanged_reason account_id i db'), db') else (Inr (), db'))"

subsection \<open>Planning\<close>

definition waiting :: "queued_send \<Rightarrow> bool" where
  "waiting r \<longleftrightarrow> q_send_at r \<noteq> None \<and> q_status r \<in> HELD_STATUSES \<and> has_bytes r
     \<and> q_retries r < MAX_SEND_RETRIES"

definition attempt_time :: "queued_send \<Rightarrow> instant" where
  "attempt_time r =
     (let at = (case q_send_at r of None \<Rightarrow> 0 | Some s \<Rightarrow> at_stamp s)
      in case q_next_attempt_at r of None \<Rightarrow> at | Some t \<Rightarrow> max (at_stamp t) at)"

definition waiting_scheduled :: "send_queue \<Rightarrow> (int \<times> instant) list" where
  "waiting_scheduled db =
     map (\<lambda>r. (q_account_id r, attempt_time r)) (filter waiting (queue_rows db))"

definition next_due :: "send_queue \<Rightarrow> instant option" where
  "next_due db =
     (case map snd (waiting_scheduled db) of
        [] \<Rightarrow> None
      | t # ts \<Rightarrow> Some (fold min ts t))"

definition due_scheduled_account_ids :: "instant \<Rightarrow> send_queue \<Rightarrow> int list" where
  "due_scheduled_account_ids now db =
     remdups_adj (sort (map fst (filter (\<lambda>(_, at). at \<le> now) (waiting_scheduled db))))"

subsection \<open>Closing a row\<close>

definition update_raw_mime :: "instant \<Rightarrow> int \<Rightarrow> string \<Rightarrow> send_queue \<Rightarrow> send_queue" where
  "update_raw_mime now i raw db =
     snd (update_rows (\<lambda>r. q_id r = i)
            (\<lambda>r. r\<lparr>q_raw_mime := Some raw, q_updated_at := secs now\<rparr>) db)"

definition mark_sent :: "instant \<Rightarrow> int \<Rightarrow> send_queue \<Rightarrow> unit result \<times> send_queue" where
  "mark_sent now i db =
     (case update_rows (\<lambda>r. q_id r = i)
             (\<lambda>r. r\<lparr>q_status := Sent, q_last_error := None, q_raw_mime := None,
                    q_updated_at := secs now\<rparr>) db
      of (n, db') \<Rightarrow>
        if n = 0 then (Inl (NotFound (''queue entry '' @ string_of_int i)), db')
        else (Inr (), db'))"

definition discard_mime :: "instant \<Rightarrow> int \<Rightarrow> send_queue \<Rightarrow> send_queue" where
  "discard_mime now i db =
     snd (update_rows (\<lambda>r. q_id r = i)
            (\<lambda>r. r\<lparr>q_raw_mime := None, q_updated_at := secs now\<rparr>) db)"

definition fail_and_discard :: "instant \<Rightarrow> int \<Rightarrow> string \<Rightarrow> send_queue \<Rightarrow> send_queue" where
  "fail_and_discard now i error db =
     snd (update_rows (\<lambda>r. q_id r = i)
            (\<lambda>r. r\<lparr>q_last_error :=
                     (if q_status r = Failed \<and> q_last_error r \<noteq> None
                      then q_last_error r else Some error),
                   q_status := Failed, q_raw_mime := None, q_updated_at := secs now\<rparr>) db)"

definition queue_delete :: "int \<Rightarrow> send_queue \<Rightarrow> send_queue" where
  "queue_delete i db = db\<lparr>queue_rows := delete_where (\<lambda>r. q_id r = i) (queue_rows db)\<rparr>"

definition mark_failed :: "instant \<Rightarrow> int \<Rightarrow> string \<Rightarrow> send_queue \<Rightarrow> unit result \<times> send_queue" where
  "mark_failed now i error db =
     (case update_rows (\<lambda>r. q_id r = i)
             (\<lambda>r. r\<lparr>q_status := Failed, q_last_error := Some error,
                    q_retries := q_retries r + 1, q_updated_at := secs now\<rparr>) db
      of (n, db') \<Rightarrow>
        if n = 0 then (Inl (NotFound (''queue entry '' @ string_of_int i)), db')
        else (Inr (), db'))"

definition prune_sent :: "instant \<Rightarrow> send_queue \<Rightarrow> nat \<times> send_queue" where
  "prune_sent now db =
     (let p = (\<lambda>r. q_status r = Sent \<and> q_updated_at r < days_ago now SENT_RETENTION_DAYS)
      in (count_where p (queue_rows db),
          db\<lparr>queue_rows := delete_where p (queue_rows db)\<rparr>))"

subsection \<open>What an operation does to a row\<close>

text \<open>\<open>queue_row i db\<close> is the row with id \<open>i\<close>; \<open>queue_wf\<close> says ids are distinct and below the counter.\<close>

definition queue_row :: "int \<Rightarrow> send_queue \<Rightarrow> queued_send option" where
  "queue_row i db = row_at q_id i (queue_rows db)"

definition queue_wf :: "send_queue \<Rightarrow> bool" where
  "queue_wf db \<longleftrightarrow> distinct (map q_id (queue_rows db))
     \<and> (\<forall>r \<in> set (queue_rows db). q_id r < queue_next_id db)"

named_theorems queue_ops \<open>the operations of the outbox, unfolded to table statements\<close>

declare claim_def [queue_ops] requeue_interrupted_def [queue_ops] promote_due_def [queue_ops]
  update_raw_mime_def [queue_ops] mark_sent_def [queue_ops] discard_mime_def [queue_ops]
  fail_and_discard_def [queue_ops] mark_failed_def [queue_ops] reschedule_def [queue_ops]
  send_now_def [queue_ops] update_rows_def [queue_ops]

lemma queue_get_row:
  "queue_get i db =
     (case queue_row i db of
        None \<Rightarrow> Inl (NotFound (''queue entry '' @ string_of_int i)) | Some r \<Rightarrow> Inr r)"
  by (simp add: queue_get_def queue_row_def row_at_def)

lemma queue_get_Inr_iff [simp]: "queue_get i db = Inr r \<longleftrightarrow> queue_row i db = Some r"
  by (simp add: queue_get_row split: option.splits)

lemma queue_row_id: "queue_row i db = Some r \<Longrightarrow> q_id r = i"
  by (auto simp: queue_row_def dest: row_at_Some)

lemma queue_row_in: "queue_row i db = Some r \<Longrightarrow> r \<in> set (queue_rows db)"
  by (auto simp: queue_row_def dest: row_at_Some)

lemma queue_row_of: "queue_wf db \<Longrightarrow> r \<in> set (queue_rows db) \<Longrightarrow> queue_row (q_id r) db = Some r"
  by (simp add: queue_row_def queue_wf_def row_at_in_set)

lemma queue_row_update:
  "(\<And>r. q_id (f r) = q_id r) \<Longrightarrow>
   queue_row i (snd (update_rows p f db)) = map_option (\<lambda>r. if p r then f r else r) (queue_row i db)"
  by (simp add: queue_row_def update_rows_def table_simps)

lemma queue_wf_update:
  "queue_wf db \<Longrightarrow> (\<And>r. q_id (f r) = q_id r) \<Longrightarrow> queue_wf (snd (update_rows p f db))"
  by (auto simp: queue_wf_def update_rows_def map_update_where table_simps)

lemma queue_wf_rows: "queue_wf (db\<lparr>queue_rows := t\<rparr>) \<longleftrightarrow>
    distinct (map q_id t) \<and> (\<forall>r \<in> set t. q_id r < queue_next_id db)"
  by (simp add: queue_wf_def)

lemma queue_wf_empty [simp]: "queue_wf empty_queue"
  by (simp add: queue_wf_def empty_queue_def)

lemma queue_row_empty [simp]: "queue_row i empty_queue = None"
  by (simp add: queue_row_def empty_queue_def)

lemma queue_wf_insert:
  "queue_wf db \<Longrightarrow> (\<And>i. q_id (mk i) = i) \<Longrightarrow> queue_wf (snd (insert_row mk db))"
  by (force simp: queue_wf_def insert_row_def)

lemma queue_row_insert:
  assumes "queue_wf db" and "\<And>i. q_id (mk i) = i"
  shows "queue_row i (snd (insert_row mk db)) =
    (if i = queue_next_id db then Some (mk i) else queue_row i db)"
proof -
  have "queue_row (queue_next_id db) db = None"
    using assms(1) by (auto simp: queue_wf_def queue_row_def row_at_None_iff)
  with assms(2) show ?thesis
    by (auto simp: queue_row_def insert_row_def table_simps split: option.splits)
qed

lemma queue_row_delete:
  "queue_wf db \<Longrightarrow> queue_row i (db\<lparr>queue_rows := delete_where p (queue_rows db)\<rparr>) =
     (case queue_row i db of None \<Rightarrow> None | Some r \<Rightarrow> if p r then None else Some r)"
  by (simp add: queue_row_def queue_wf_def row_at_delete_distinct)

lemma queue_wf_delete:
  "queue_wf db \<Longrightarrow> queue_wf (db\<lparr>queue_rows := delete_where p (queue_rows db)\<rparr>)"
  by (auto simp: queue_wf_def distinct_delete_where table_simps)

lemma count_queue_row:
  "queue_wf db \<Longrightarrow> count_where (\<lambda>r. q_id r = i \<and> p r) (queue_rows db) =
     (case queue_row i db of None \<Rightarrow> 0 | Some r \<Rightarrow> if p r then 1 else 0)"
  by (simp add: queue_wf_def queue_row_def count_where_key)

text \<open>The row an operation leaves at each id.\<close>

lemma claim_wins:
  "queue_wf db \<Longrightarrow>
   fst (claim now i db) \<longleftrightarrow> (\<exists>r. queue_row i db = Some r \<and> q_status r \<in> {Queued, Failed})"
  by (auto simp: claim_def update_rows_def count_queue_row split: option.splits if_splits)

lemma claim_row:
  "queue_row j (snd (claim now i db)) =
     map_option (\<lambda>r. if q_id r = i \<and> q_status r \<in> {Queued, Failed}
                     then r\<lparr>q_status := Sending, q_updated_at := secs now\<rparr> else r) (queue_row j db)"
  by (simp add: claim_def update_rows_def queue_row_def table_simps)

lemma mark_sent_row:
  "queue_row j (snd (mark_sent now i db)) =
     map_option (\<lambda>r. if q_id r = i
        then r\<lparr>q_status := Sent, q_last_error := None, q_raw_mime := None,
               q_updated_at := secs now\<rparr> else r) (queue_row j db)"
  by (simp add: mark_sent_def update_rows_def queue_row_def table_simps split: if_splits)

lemma mark_failed_row:
  "queue_row j (snd (mark_failed now i e db)) =
     map_option (\<lambda>r. if q_id r = i
        then r\<lparr>q_status := Failed, q_last_error := Some e, q_retries := Suc (q_retries r),
               q_updated_at := secs now\<rparr> else r) (queue_row j db)"
  by (simp add: mark_failed_def update_rows_def queue_row_def table_simps split: if_splits)

lemma promote_due_row:
  "queue_row j (snd (promote_due now a db)) =
     map_option (\<lambda>r. if promotable (secs now) a r
        then r\<lparr>q_status := Queued, q_updated_at := secs now\<rparr> else r) (queue_row j db)"
  by (simp add: promote_due_def queue_row_update)

definition requeued :: "instant \<Rightarrow> int \<Rightarrow> queued_send \<Rightarrow> queued_send" where
  "requeued now a r =
     (if q_account_id r = a \<and> q_status r = Sending \<and> q_updated_at r < stale_cutoff now \<and> has_bytes r
      then r\<lparr>q_status := Queued, q_updated_at := secs now\<rparr>
      else if q_account_id r = a \<and> \<not> has_bytes r
          \<and> (q_status r = Queued \<or> (q_status r = Sending \<and> q_updated_at r < stale_cutoff now))
      then r\<lparr>q_status := Failed, q_last_error := Some ''aborted or missing message bytes'',
             q_updated_at := secs now\<rparr>
      else r)"

lemma requeued_id [simp]: "q_id (requeued now a r) = q_id r"
  by (simp add: requeued_def)

lemma has_bytes_update [simp]:
  "has_bytes (r\<lparr>q_status := st\<rparr>) = has_bytes r"
  "has_bytes (r\<lparr>q_updated_at := t\<rparr>) = has_bytes r"
  "has_bytes (r\<lparr>q_last_error := e\<rparr>) = has_bytes r"
  by (simp_all add: has_bytes_def)

lemma requeue_rows:
  "queue_rows (snd (requeue_interrupted now a db)) = map (requeued now a) (queue_rows db)"
  by (simp add: requeue_interrupted_def update_rows_def update_where_def requeued_def cong: conj_cong) blast

lemma requeue_row:
  "queue_row j (snd (requeue_interrupted now a db)) = map_option (requeued now a) (queue_row j db)"
proof -
  have "row_at q_id j (map (requeued now a) t) = map_option (requeued now a) (row_at q_id j t)" for t
    by (induction t) (auto simp: table_simps)
  then show ?thesis by (simp add: queue_row_def requeue_rows)
qed

lemma fail_scheduled_row:
  "queue_row j (snd (fail_scheduled_attempt now i e perm db)) =
     map_option (\<lambda>r. if q_id r = i
        then record_failure now e r (scheduled_decision now perm r) r else r) (queue_row j db)"
proof (cases "queue_row i db")
  case None
  have "q_id r \<noteq> i" if "queue_row j db = Some r" for r
    using None that queue_row_id by force
  with None show ?thesis
    by (cases "queue_row j db") (simp_all add: fail_scheduled_attempt_def queue_get_row)
next
  case (Some row)
  then have "q_id row = i" by (rule queue_row_id)
  have "q_id (record_failure now e row d r) = q_id r" for d r
    by (simp add: record_failure_def split: scheduled_failure.splits)
  then have upd: "queue_row j (snd (fail_scheduled_attempt now i e perm db)) =
      map_option (\<lambda>r. if q_id r = i
        then record_failure now e row (scheduled_decision now perm row) r else r) (queue_row j db)"
    using Some by (simp add: fail_scheduled_attempt_def queue_get_row queue_row_update Let_def)
  show ?thesis
  proof (cases "queue_row j db")
    case (Some r)
    then have "q_id r = j" by (rule queue_row_id)
    with Some \<open>queue_row i db = Some row\<close> show ?thesis by (auto simp: upd)
  qed (simp add: upd)
qed

end
