(* ===== verification/Outbox_Machine.thy ===== *)
theory Outbox_Machine
  imports Outbox_Queue
begin

text \<open>
  The outbox under several submitters at once (\<open>claim\<close>, the flush of
  \<open>sync/sender/client.rs\<close> and the immediate send of \<open>compose/send.rs\<close>): the GUI and the
  \<open>--sync-once\<close> process share one database. A submitter first owns a row (it created it
  \<open>sending\<close>, or won \<open>claim\<close>), then reads its bytes and is in flight, then the server takes the mail or
  refuses it, then the submitter records the outcome. Between the server's taking and the record the
  submitter may crash, its reply may be lost (it then records a failure) or the record may fail: then the
  acceptance is lost. \<open>sys_accepted\<close> is every mail the server took and \<open>sys_lost\<close> counts, for each row, the
  acceptances that were lost; neither is a field of the program. The steps are the queue operations, in
  any order the guards allow; what the guards say of the environment is stated with each rule.
\<close>

datatype phase = Idle | Owns | InFlight | Taken

record outbox_sys =
  sys_clock :: instant
  sys_db :: send_queue
  sys_phase :: "nat \<Rightarrow> int \<Rightarrow> phase"
  sys_accepted :: "int list"
  sys_lost :: "int \<Rightarrow> nat"

definition init_sys :: "instant \<Rightarrow> outbox_sys" where
  "init_sys t = \<lparr>sys_clock = t, sys_db = empty_queue, sys_phase = (\<lambda>_ _. Idle), sys_accepted = [], sys_lost = (\<lambda>_. 0)\<rparr>"

definition set_phase :: "nat \<Rightarrow> int \<Rightarrow> phase \<Rightarrow> outbox_sys \<Rightarrow> outbox_sys" where
  "set_phase p i ph s = s\<lparr>sys_phase := (sys_phase s)(p := (sys_phase s p)(i := ph))\<rparr>"

text \<open>The submitter lets go of a row the server took, and nothing is recorded.\<close>

definition lose :: "nat \<Rightarrow> int \<Rightarrow> outbox_sys \<Rightarrow> outbox_sys" where
  "lose p i s = set_phase p i Idle (s\<lparr>sys_lost := (sys_lost s)(i := sys_lost s i + 1)\<rparr>)"

definition crash :: "nat \<Rightarrow> outbox_sys \<Rightarrow> outbox_sys" where
  "crash p s = s\<lparr>sys_phase := (sys_phase s)(p := (\<lambda>_. Idle)),
     sys_lost := (\<lambda>i. sys_lost s i + (if sys_phase s p i = Taken then 1 else 0))\<rparr>"

text \<open>
  \<open>submit_claimed_via\<close> up to the SMTP dialogue: no bytes, no attempt; a scheduled row gets its
  refreshed bytes stored first.
\<close>

definition begin_submit :: "(instant \<Rightarrow> string \<Rightarrow> string) \<Rightarrow> nat \<Rightarrow> int \<Rightarrow> outbox_sys \<Rightarrow> outbox_sys" where
  "begin_submit refresh p i s =
     (case queue_row i (sys_db s) of
        None \<Rightarrow> set_phase p i Idle s
      | Some r \<Rightarrow>
          if \<not> has_bytes r then set_phase p i Idle s
          else if q_send_at r = None then set_phase p i InFlight s
          else set_phase p i InFlight
                 (s\<lparr>sys_db := update_raw_mime (sys_clock s) i
                              (refresh (sys_clock s) (case q_raw_mime r of None \<Rightarrow> [] | Some b \<Rightarrow> b)) (sys_db s)\<rparr>))"

text \<open>What the submitter records when the attempt failed.\<close>

definition record_refusal :: "instant \<Rightarrow> int \<Rightarrow> bool \<Rightarrow> string \<Rightarrow> bool \<Rightarrow> send_queue \<Rightarrow> send_queue" where
  "record_refusal now i scheduled e permanent db =
     (if scheduled then snd (fail_scheduled_attempt now i e permanent db)
      else snd (mark_failed now i e db))"

text \<open>\<open>outbox::dismiss\<close>, and the last step of \<open>outbox::take_for_edit\<close>.\<close>

definition dismiss :: "int \<Rightarrow> int \<Rightarrow> send_queue \<Rightarrow> unit result \<times> send_queue" where
  "dismiss account_id i db =
     (let p = (\<lambda>r. q_id r = i \<and> q_account_id r = account_id
                 \<and> q_status r \<in> {Queued, Failed, Scheduled});
          db' = db\<lparr>queue_rows := delete_where p (queue_rows db)\<rparr>
      in if count_where p (queue_rows db) = 0
         then (Inl (NotFound ''outbox entry (already sent, being sent, or gone)''), db')
         else (Inr (), db'))"

inductive outbox_step ::
  "(string \<Rightarrow> instant option) \<Rightarrow> (instant \<Rightarrow> string \<Rightarrow> string) \<Rightarrow> outbox_sys \<Rightarrow> outbox_sys \<Rightarrow> bool"
  for parse :: "string \<Rightarrow> instant option" and refresh :: "instant \<Rightarrow> string \<Rightarrow> string" where
  tick: "sys_clock s \<le> t \<Longrightarrow> outbox_step parse refresh s (s\<lparr>sys_clock := t\<rparr>)"
| schedule: "outbox_step parse refresh s
    (s\<lparr>sys_db := snd (enqueue_scheduled_mime parse (sys_clock s) a m (sys_db s))\<rparr>)"
| enqueue: "outbox_step parse refresh s
    (set_phase p (queue_next_id (sys_db s)) Owns
       (s\<lparr>sys_db := snd (enqueue_mime (sys_clock s) a mid raw from rcpts dsn (sys_db s))\<rparr>))"
| win_claim: "sys_phase s p i = Idle \<Longrightarrow> fst (claim (sys_clock s) i (sys_db s)) \<Longrightarrow>
    outbox_step parse refresh s
      (set_phase p i Owns (s\<lparr>sys_db := snd (claim (sys_clock s) i (sys_db s))\<rparr>))"
| lose_claim: "\<not> fst (claim (sys_clock s) i (sys_db s)) \<Longrightarrow>
    outbox_step parse refresh s (s\<lparr>sys_db := snd (claim (sys_clock s) i (sys_db s))\<rparr>)"
| begin_submit: "sys_phase s p i = Owns \<Longrightarrow>
    outbox_step parse refresh s (begin_submit refresh p i s)"
| taken: "sys_phase s p i = InFlight \<Longrightarrow>
    outbox_step parse refresh s (set_phase p i Taken (s\<lparr>sys_accepted := sys_accepted s @ [i]\<rparr>))"
| recorded: "sys_phase s p i = Taken \<Longrightarrow>
    outbox_step parse refresh s
      (set_phase p i Idle (s\<lparr>sys_db := snd (mark_sent (sys_clock s) i (sys_db s))\<rparr>))"
| unrecorded: "sys_phase s p i = Taken \<Longrightarrow> outbox_step parse refresh s (lose p i s)"
| reply_lost: "sys_phase s p i = Taken \<Longrightarrow>
    (\<And>r. queue_row i (sys_db s) = Some r \<Longrightarrow> scheduled \<longleftrightarrow> q_send_at r \<noteq> None) \<Longrightarrow>
    outbox_step parse refresh s
      (lose p i (s\<lparr>sys_db := record_refusal (sys_clock s) i scheduled e permanent (sys_db s)\<rparr>))"
| refused: "sys_phase s p i = InFlight \<Longrightarrow>
    (\<And>r. queue_row i (sys_db s) = Some r \<Longrightarrow> scheduled \<longleftrightarrow> q_send_at r \<noteq> None) \<Longrightarrow>
    outbox_step parse refresh s
      (set_phase p i Idle
        (s\<lparr>sys_db := record_refusal (sys_clock s) i scheduled e permanent (sys_db s)\<rparr>))"
| crash: "outbox_step parse refresh s (crash p s)"
| told_failed: "(\<And>r. queue_row i (sys_db s) = Some r \<Longrightarrow> q_send_at r = None) \<Longrightarrow>
    outbox_step parse refresh s
      (s\<lparr>sys_db := fail_and_discard (sys_clock s) i e (sys_db s)\<rparr>)"
| discard: "(\<And>r. queue_row i (sys_db s) = Some r \<Longrightarrow> q_send_at r = None) \<Longrightarrow>
    outbox_step parse refresh s (s\<lparr>sys_db := discard_mime (sys_clock s) i (sys_db s)\<rparr>)"
| abandon: "outbox_step parse refresh s (s\<lparr>sys_db := queue_delete i (sys_db s)\<rparr>)"
| requeue: "(\<And>p i r. sys_phase s p i \<noteq> Idle \<Longrightarrow> queue_row i (sys_db s) = Some r \<Longrightarrow>
      stale_cutoff (sys_clock s) \<le> q_updated_at r) \<Longrightarrow>
    outbox_step parse refresh s
      (s\<lparr>sys_db := snd (requeue_interrupted (sys_clock s) a (sys_db s))\<rparr>)"
| promote: "outbox_step parse refresh s
    (s\<lparr>sys_db := snd (promote_due (sys_clock s) a (sys_db s))\<rparr>)"
| fail_due: "outbox_step parse refresh s
    (s\<lparr>sys_db := snd (fail_due_scheduled (sys_clock s) a e (sys_db s))\<rparr>)"
| notices: "outbox_step parse refresh s
    (s\<lparr>sys_db := snd (take_failure_notices subj (sys_db s))\<rparr>)"
| reschedule: "outbox_step parse refresh s
    (s\<lparr>sys_db := snd (reschedule parse (sys_clock s) a i raw (sys_db s))\<rparr>)"
| send_now: "outbox_step parse refresh s
    (s\<lparr>sys_db := snd (send_now (sys_clock s) a i (sys_db s))\<rparr>)"
| dismiss: "outbox_step parse refresh s (s\<lparr>sys_db := snd (dismiss a i (sys_db s))\<rparr>)"
| prune: "outbox_step parse refresh s
    (s\<lparr>sys_db := snd (prune_sent (sys_clock s) (sys_db s))\<rparr>)"

inductive outbox_reachable ::
  "(string \<Rightarrow> instant option) \<Rightarrow> (instant \<Rightarrow> string \<Rightarrow> string) \<Rightarrow> outbox_sys \<Rightarrow> bool"
  for parse :: "string \<Rightarrow> instant option" and refresh :: "instant \<Rightarrow> string \<Rightarrow> string" where
  start: "outbox_reachable parse refresh (init_sys t)"
| step: "outbox_reachable parse refresh s \<Longrightarrow> outbox_step parse refresh s s' \<Longrightarrow>
    outbox_reachable parse refresh s'"

subsection \<open>The invariant\<close>

text \<open>
  Per row id. Bytes make a row deliverable, so while a row has bytes at most one submitter holds
  it and its status is \<open>sending\<close>; at most one submitter is in flight or has not recorded the outcome,
  whatever the row says. An id is settled when one acceptance more than the lost ones happened: then its
  submitter still has to record it, or its row has no bytes left and nobody is in flight. A row out of
  \<open>scheduled\<close> has reached its time.
\<close>

definition settled :: "outbox_sys \<Rightarrow> int \<Rightarrow> bool" where
  "settled s i \<longleftrightarrow> sys_lost s i < count_list (sys_accepted s) i"

definition flies :: "phase \<Rightarrow> bool" where
  "flies ph \<longleftrightarrow> ph = InFlight \<or> ph = Taken"

lemma flies_simps [simp]: "flies InFlight" "flies Taken" "\<not> flies Idle" "\<not> flies Owns"
  by (simp_all add: flies_def)

definition counts_ok :: "outbox_sys \<Rightarrow> int \<Rightarrow> bool" where
  "counts_ok s i \<longleftrightarrow> sys_lost s i \<le> count_list (sys_accepted s) i \<and> count_list (sys_accepted s) i \<le> sys_lost s i + 1"

definition holders_ok :: "outbox_sys \<Rightarrow> int \<Rightarrow> bool" where
  "holders_ok s i \<longleftrightarrow>
     (\<forall>p q. flies (sys_phase s p i) \<longrightarrow> flies (sys_phase s q i) \<longrightarrow> p = q)
     \<and> (\<forall>p. sys_phase s p i = InFlight \<longrightarrow> \<not> settled s i)
     \<and> (\<forall>p. sys_phase s p i = Taken \<longrightarrow> settled s i)
     \<and> (\<forall>p. queue_next_id (sys_db s) \<le> i \<longrightarrow> sys_phase s p i = Idle)
     \<and> (queue_next_id (sys_db s) \<le> i \<longrightarrow> i \<notin> set (sys_accepted s))"

definition row_ok :: "instant \<Rightarrow> bool \<Rightarrow> (nat \<Rightarrow> phase) \<Rightarrow> queued_send \<Rightarrow> bool" where
  "row_ok now acc ph r \<longleftrightarrow>
     (has_bytes r \<longrightarrow> (\<forall>p q. ph p \<noteq> Idle \<longrightarrow> ph q \<noteq> Idle \<longrightarrow> p = q))
     \<and> (has_bytes r \<longrightarrow> (\<forall>p. ph p \<noteq> Idle \<longrightarrow> q_status r = Sending))
     \<and> (has_bytes r \<longrightarrow> (acc \<longrightarrow> (\<exists>p. ph p = Taken)) \<and> q_status r \<noteq> Sent)
     \<and> (\<forall>p. ph p \<noteq> Idle \<longrightarrow> q_status r \<noteq> Scheduled)
     \<and> (q_status r = Scheduled \<longrightarrow> q_send_at r \<noteq> None)
     \<and> (q_status r \<noteq> Scheduled \<longrightarrow> null_or_le (q_send_at r) (secs now))"

definition outbox_inv :: "outbox_sys \<Rightarrow> bool" where
  "outbox_inv s \<longleftrightarrow> queue_wf (sys_db s) \<and> (\<forall>i. counts_ok s i)
     \<and> (\<forall>i. holders_ok s i)
     \<and> (\<forall>i r. queue_row i (sys_db s) = Some r \<longrightarrow>
           row_ok (sys_clock s) (settled s i) (\<lambda>p. sys_phase s p i) r)"

lemma settled_simps [simp]:
  "settled (s\<lparr>sys_db := db\<rparr>) = settled s"
  "settled (s\<lparr>sys_phase := ph\<rparr>) = settled s"
  "settled (s\<lparr>sys_clock := t\<rparr>) = settled s"
  "settled (set_phase p i x s) = settled s"
  by (simp_all add: settled_def set_phase_def fun_eq_iff)

lemma counts_simps [simp]:
  "counts_ok (s\<lparr>sys_db := db\<rparr>) = counts_ok s"
  "counts_ok (s\<lparr>sys_phase := ph\<rparr>) = counts_ok s"
  "counts_ok (s\<lparr>sys_clock := t\<rparr>) = counts_ok s"
  "counts_ok (set_phase p i x s) = counts_ok s"
  by (simp_all add: counts_ok_def set_phase_def fun_eq_iff)

lemma not_settled_fresh [simp]: "i \<notin> set (sys_accepted s) \<Longrightarrow> \<not> settled s i"
  by (simp add: settled_def)

lemma outbox_inv_init: "outbox_inv (init_sys t)"
  by (simp add: outbox_inv_def init_sys_def holders_ok_def counts_ok_def)

subsection \<open>Every step keeps the invariant\<close>

lemma row_ok_irrelevant [simp]:
  "row_ok now acc ph (r\<lparr>q_updated_at := t\<rparr>) = row_ok now acc ph r"
  "row_ok now acc ph (r\<lparr>q_last_error := e\<rparr>) = row_ok now acc ph r"
  "row_ok now acc ph (r\<lparr>q_retries := n\<rparr>) = row_ok now acc ph r"
  "row_ok now acc ph (r\<lparr>q_next_attempt_at := x\<rparr>) = row_ok now acc ph r"
  "row_ok now acc ph (r\<lparr>q_failure_noticed := b\<rparr>) = row_ok now acc ph r"
  by (simp_all add: row_ok_def has_bytes_def)

lemma has_bytes_simps [simp]:
  "has_bytes (r\<lparr>q_retries := n\<rparr>) = has_bytes r"
  "has_bytes (r\<lparr>q_next_attempt_at := x\<rparr>) = has_bytes r"
  "has_bytes (r\<lparr>q_failure_noticed := b\<rparr>) = has_bytes r"
  "has_bytes (r\<lparr>q_send_at := y\<rparr>) = has_bytes r"
  "\<not> has_bytes (r\<lparr>q_raw_mime := None\<rparr>)"
  "has_bytes (r\<lparr>q_raw_mime := Some raw\<rparr>) \<longleftrightarrow> raw \<noteq> []"
  by (simp_all add: has_bytes_def)

lemma outbox_inv_wf: "outbox_inv s \<Longrightarrow> queue_wf (sys_db s)"
  by (simp add: outbox_inv_def)

lemma outbox_inv_row:
  "outbox_inv s \<Longrightarrow> queue_row i (sys_db s) = Some r \<Longrightarrow>
   row_ok (sys_clock s) (settled s i) (\<lambda>p. sys_phase s p i) r"
  by (simp add: outbox_inv_def)

lemma outbox_inv_rows:
  assumes "outbox_inv s" and "queue_wf db" and "queue_next_id db = queue_next_id (sys_db s)"
    and "\<And>i r'. queue_row i db = Some r' \<Longrightarrow> \<exists>r. queue_row i (sys_db s) = Some r \<and>
      (row_ok (sys_clock s) (settled s i) (\<lambda>p. sys_phase s p i) r \<longrightarrow>
       row_ok (sys_clock s) (settled s i) (\<lambda>p. sys_phase s p i) r')"
  shows "outbox_inv (s\<lparr>sys_db := db\<rparr>)"
  using assms by (fastforce simp: outbox_inv_def holders_ok_def)

lemma outbox_inv_update:
  assumes "outbox_inv s" and "\<And>r. q_id (f r) = q_id r"
    and "\<And>i r. queue_row i (sys_db s) = Some r \<Longrightarrow> P r \<Longrightarrow>
      row_ok (sys_clock s) (settled s i) (\<lambda>p. sys_phase s p i) r \<Longrightarrow>
      row_ok (sys_clock s) (settled s i) (\<lambda>p. sys_phase s p i) (f r)"
  shows "outbox_inv (s\<lparr>sys_db := snd (update_rows P f (sys_db s))\<rparr>)"
proof (rule outbox_inv_rows)
  show "queue_wf (snd (update_rows P f (sys_db s)))"
    using assms(1,2) by (simp add: outbox_inv_wf queue_wf_update)
  show "queue_next_id (snd (update_rows P f (sys_db s))) = queue_next_id (sys_db s)"
    by (simp add: update_rows_def)
qed (use assms in \<open>auto simp: queue_row_update split: if_splits\<close>)

lemma outbox_inv_filter:
  assumes "outbox_inv s"
  shows "outbox_inv (s\<lparr>sys_db := sys_db s\<lparr>queue_rows := delete_where P (queue_rows (sys_db s))\<rparr>\<rparr>)"
proof (rule outbox_inv_rows)
  show "queue_wf (sys_db s\<lparr>queue_rows := delete_where P (queue_rows (sys_db s))\<rparr>)"
    using assms by (simp add: outbox_inv_wf queue_wf_delete)
qed (use assms in \<open>auto simp: queue_row_delete outbox_inv_wf split: option.splits if_splits\<close>)

lemma outbox_inv_insert:
  assumes inv: "outbox_inv s" and "\<And>i. q_id (mk i) = i"
    and ok: "\<And>i. row_ok (sys_clock s) False (\<lambda>_. Idle) (mk i)"
  shows "outbox_inv (s\<lparr>sys_db := snd (insert_row mk (sys_db s))\<rparr>)"
proof -
  let ?n = "queue_next_id (sys_db s)"
  have fresh: "sys_phase s p ?n = Idle" "?n \<notin> set (sys_accepted s)" for p
    using inv by (simp_all add: outbox_inv_def holders_ok_def)
  have "queue_next_id (snd (insert_row mk (sys_db s))) = ?n + 1"
    by (simp add: insert_row_def)
  then show ?thesis
    using assms fresh ok [of ?n] queue_row_insert [of "sys_db s" mk]
      queue_wf_insert [of "sys_db s" mk]
    by (auto simp: outbox_inv_def holders_ok_def split: if_splits)
qed

lemma outbox_inv_clock:
  "outbox_inv s \<Longrightarrow> sys_clock s \<le> t \<Longrightarrow> outbox_inv (s\<lparr>sys_clock := t\<rparr>)"
  using secs_mono [of "sys_clock s" t]
  by (fastforce simp: outbox_inv_def holders_ok_def row_ok_def null_or_le_def split: option.splits)

lemma set_phase_simps [simp]:
  "sys_db (set_phase p i ph s) = sys_db s"
  "sys_clock (set_phase p i ph s) = sys_clock s"
  "sys_accepted (set_phase p i ph s) = sys_accepted s"
  "sys_phase (set_phase p i ph s) q j = (if q = p \<and> j = i then ph else sys_phase s q j)"
  by (simp_all add: set_phase_def)

lemma set_phase_db: "(set_phase p i ph s)\<lparr>sys_db := db\<rparr> = set_phase p i ph (s\<lparr>sys_db := db\<rparr>)"
  by (cases s) (simp add: set_phase_def)

lemma row_ok_raw:
  "row_ok now acc ph r \<Longrightarrow> has_bytes r \<Longrightarrow> row_ok now acc ph (r\<lparr>q_raw_mime := Some raw\<rparr>)"
  unfolding row_ok_def by simp

text \<open>Letting go of a row only removes a holder.\<close>

lemma row_ok_fewer:
  "row_ok now acc ph r \<Longrightarrow> (\<And>p. ph' p \<noteq> Idle \<Longrightarrow> ph p \<noteq> Idle) \<Longrightarrow>
   (\<And>p. acc \<Longrightarrow> ph p = Taken \<Longrightarrow> ph' p = Taken) \<Longrightarrow> row_ok now acc ph' r"
  unfolding row_ok_def by metis

text \<open>Holders that let go: of a row the server took, the acceptance is lost.\<close>

definition let_go :: "(nat \<Rightarrow> int \<Rightarrow> phase) \<Rightarrow> outbox_sys \<Rightarrow> outbox_sys" where
  "let_go ph s = s\<lparr>sys_phase := ph,
     sys_lost := (\<lambda>i. sys_lost s i + (if \<exists>p. sys_phase s p i = Taken \<and> ph p i \<noteq> Taken then 1 else 0))\<rparr>"

lemma settled_let_go:
  assumes "outbox_inv s"
  shows "settled (let_go ph s) i \<longleftrightarrow> settled s i \<and> \<not> (\<exists>p. sys_phase s p i = Taken \<and> ph p i \<noteq> Taken)"
    and "counts_ok (let_go ph s) i"
proof -
  have c: "sys_lost s i \<le> count_list (sys_accepted s) i" "count_list (sys_accepted s) i \<le> Suc (sys_lost s i)"
    using assms by (simp_all add: outbox_inv_def counts_ok_def)
  have parts: "sys_accepted (let_go ph s) = sys_accepted s"
    "sys_lost (let_go ph s) i = sys_lost s i + (if \<exists>p. sys_phase s p i = Taken \<and> ph p i \<noteq> Taken then 1 else 0)"
    by (simp_all add: let_go_def)
  have "settled s i" if "\<exists>p. sys_phase s p i = Taken \<and> ph p i \<noteq> Taken"
    using assms that by (auto simp: outbox_inv_def holders_ok_def)
  with c show "settled (let_go ph s) i \<longleftrightarrow> settled s i \<and> \<not> (\<exists>p. sys_phase s p i = Taken \<and> ph p i \<noteq> Taken)"
    and "counts_ok (let_go ph s) i"
    unfolding settled_def counts_ok_def parts by (force split: if_splits)+
qed

lemma outbox_inv_let_go:
  assumes inv: "outbox_inv s" and sub: "\<And>q j. ph q j = Idle \<or> ph q j = sys_phase s q j"
  shows "outbox_inv (let_go ph s)"
proof -
  have same: "sys_phase s q j = x" if "ph q j = x" "x \<noteq> Idle" for q j x using sub [of q j] that by auto
  have idle: "ph p i = Idle" if "sys_phase s p i = Idle" for p i using sub [of p i] that by auto
  have flies: "flies (sys_phase s p i)" if "flies (ph p i)" for p i using sub [of p i] that by auto
  have parts: "sys_phase (let_go ph s) = ph" "sys_db (let_go ph s) = sys_db s" "sys_clock (let_go ph s) = sys_clock s"
    "sys_accepted (let_go ph s) = sys_accepted s" by (simp_all add: let_go_def)
  note go = settled_let_go [OF inv]
  have "holders_ok (let_go ph s) i" for i
  proof -
    from inv have h: "holders_ok s i" by (simp add: outbox_inv_def)
    have one: "q = p" if "flies (ph p i)" "flies (sys_phase s q i)" for p q
      using h flies [OF that(1)] that(2) unfolding holders_ok_def by blast
    have "p = q" if "flies (ph p i)" "flies (ph q i)" for p q
      using one [OF that(2) flies [OF that(1)]] .
    moreover have "\<not> settled s i" if "ph p i = InFlight" for p
      using h same [OF that] unfolding holders_ok_def by blast
    moreover have "settled s i \<and> \<not> (\<exists>q. sys_phase s q i = Taken \<and> ph q i \<noteq> Taken)" if "ph p i = Taken" for p
    proof -
      have taken: "sys_phase s p i = Taken" using same [OF that] by simp
      have "q = p" if "sys_phase s q i = Taken" for q
        using one [of p q] that \<open>ph p i = Taken\<close> by simp
      with that have "\<not> (\<exists>q. sys_phase s q i = Taken \<and> ph q i \<noteq> Taken)" by blast
      with h taken show ?thesis unfolding holders_ok_def by blast
    qed
    moreover have "ph p i = Idle" if "queue_next_id (sys_db s) \<le> i" for p
      using h that by (intro idle) (simp add: holders_ok_def)
    ultimately show ?thesis using h unfolding holders_ok_def parts go(1) by blast
  qed
  moreover have "row_ok (sys_clock s) (settled (let_go ph s) i) (\<lambda>p. ph p i) r"
    if r: "queue_row i (sys_db s) = Some r" for i r
  proof -
    let ?acc = "settled (let_go ph s) i"
    have "row_ok (sys_clock s) ?acc (\<lambda>p. sys_phase s p i) r"
      using outbox_inv_row [OF inv r] unfolding go(1) row_ok_def by blast
    then show ?thesis
      by (rule row_ok_fewer) (use idle go(1) in blast)+
  qed
  ultimately show ?thesis using inv go(2) by (simp add: outbox_inv_def parts)
qed

lemma outbox_inv_release:
  assumes "outbox_inv s" and "sys_phase s p i \<noteq> Taken"
  shows "outbox_inv (set_phase p i Idle s)"
proof -
  let ?ph = "(sys_phase s)(p := (sys_phase s p)(i := Idle))"
  have "let_go ?ph s = set_phase p i Idle s"
    using assms(2) by (cases s) (auto simp: let_go_def set_phase_def fun_eq_iff)
  with outbox_inv_let_go [OF assms(1), of ?ph] show ?thesis by simp
qed

lemma outbox_inv_lose:
  assumes "outbox_inv s" and "sys_phase s p i = Taken"
  shows "outbox_inv (lose p i s)"
proof -
  let ?ph = "(sys_phase s)(p := (sys_phase s p)(i := Idle))"
  have "let_go ?ph s = lose p i s"
    using assms(2) by (cases s) (auto simp: let_go_def lose_def set_phase_def fun_eq_iff)
  with outbox_inv_let_go [OF assms(1), of ?ph] show ?thesis by simp
qed

lemma outbox_inv_crash: "outbox_inv s \<Longrightarrow> outbox_inv (crash p s)"
proof -
  let ?ph = "(sys_phase s)(p := (\<lambda>_. Idle))"
  assume inv: "outbox_inv s"
  have "let_go ?ph s = crash p s" by (cases s) (auto simp: let_go_def crash_def fun_eq_iff)
  with outbox_inv_let_go [OF inv, of ?ph] show ?thesis by simp
qed

text \<open>A step on one row \<open>i\<close> by one submitter \<open>p\<close>: what is left to show about that row.\<close>

lemma outbox_inv_at:
  assumes inv: "outbox_inv s"
    and db: "queue_wf db'" "queue_next_id db' = queue_next_id (sys_db s)"
      "\<And>j. j \<noteq> i \<Longrightarrow> queue_row j db' = queue_row j (sys_db s)"
    and acc: "counts_ok (s\<lparr>sys_accepted := acc'\<rparr>) i"
      "\<And>j. j \<noteq> i \<Longrightarrow> count_list acc' j = count_list (sys_accepted s) j"
    and hold: "holders_ok (set_phase p i ph (s\<lparr>sys_db := db', sys_accepted := acc'\<rparr>)) i"
    and row: "\<And>r'. queue_row i db' = Some r' \<Longrightarrow>
      row_ok (sys_clock s) (settled (s\<lparr>sys_accepted := acc'\<rparr>) i) (\<lambda>q. if q = p then ph else sys_phase s q i) r'"
  shows "outbox_inv (set_phase p i ph (s\<lparr>sys_db := db', sys_accepted := acc'\<rparr>))"
proof -
  let ?s = "s\<lparr>sys_accepted := acc'\<rparr>"
  let ?t = "set_phase p i ph (s\<lparr>sys_db := db', sys_accepted := acc'\<rparr>)"
  have other: "settled ?s j = settled s j" "counts_ok ?s j = counts_ok s j"
    "j \<in> set acc' \<longleftrightarrow> j \<in> set (sys_accepted s)" if "j \<noteq> i" for j
    using acc(2) [OF that] by (simp_all add: settled_def counts_ok_def) (metis acc(2) [OF that] count_list_0_iff)
  have t: "settled ?t = settled ?s" "counts_ok ?t = counts_ok ?s"
    by (simp_all add: settled_def counts_ok_def fun_eq_iff)
  have "holders_ok ?t j" for j
  proof (cases "j = i")
    case False
    from inv have "holders_ok s j" by (simp add: outbox_inv_def)
    with False db(2) other [OF False] show ?thesis unfolding holders_ok_def t by simp
  qed (simp add: hold)
  moreover have "counts_ok ?t j" for j
    unfolding t using acc(1) other(2) inv by (cases "j = i") (auto simp: outbox_inv_def)
  moreover have "row_ok (sys_clock s) (settled ?t j) (\<lambda>q. sys_phase ?t q j) r"
    if "queue_row j db' = Some r" for j r
  proof (cases "j = i")
    case True
    with that row show ?thesis unfolding t by (simp cong: if_cong)
  next
    case False
    with that db(3) have "queue_row j (sys_db s) = Some r" by simp
    from outbox_inv_row [OF inv this] False show ?thesis unfolding t other(1) [OF False] by simp
  qed
  ultimately show ?thesis using db(1) by (simp add: outbox_inv_def)
qed

lemma other_row_update:
  "j \<noteq> i \<Longrightarrow> (\<And>r. q_id (f r) = q_id r) \<Longrightarrow>
   queue_row j (snd (update_rows (\<lambda>r. q_id r = i \<and> P r) f db)) = queue_row j db"
  by (cases "queue_row j db") (auto simp: queue_row_update dest: queue_row_id)

lemma update_rows_next_id [simp]: "queue_next_id (snd (update_rows P f db)) = queue_next_id db"
  by (simp add: update_rows_def)

lemma snd_claim:
  "snd (claim now i db) = snd (update_rows (\<lambda>r. q_id r = i \<and> q_status r \<in> {Queued, Failed})
     (\<lambda>r. r\<lparr>q_status := Sending, q_updated_at := secs now\<rparr>) db)"
  by (simp add: claim_def split: prod.splits)

lemma snd_mark_sent:
  "snd (mark_sent now i db) = snd (update_rows (\<lambda>r. q_id r = i)
     (\<lambda>r. r\<lparr>q_status := Sent, q_last_error := None, q_raw_mime := None,
            q_updated_at := secs now\<rparr>) db)"
  by (simp add: mark_sent_def split: prod.splits)

lemma snd_mark_failed:
  "snd (mark_failed now i e db) = snd (update_rows (\<lambda>r. q_id r = i)
     (\<lambda>r. r\<lparr>q_status := Failed, q_last_error := Some e, q_retries := q_retries r + 1,
            q_updated_at := secs now\<rparr>) db)"
  by (simp add: mark_failed_def split: prod.splits)

lemma outbox_inv_at_db:
  assumes inv: "outbox_inv s"
    and db: "queue_wf db'" "queue_next_id db' = queue_next_id (sys_db s)"
      "\<And>j. j \<noteq> i \<Longrightarrow> queue_row j db' = queue_row j (sys_db s)"
    and hold: "holders_ok (set_phase p i ph (s\<lparr>sys_db := db'\<rparr>)) i"
    and row: "\<And>r'. queue_row i db' = Some r' \<Longrightarrow>
      row_ok (sys_clock s) (settled s i) (\<lambda>q. if q = p then ph else sys_phase s q i) r'"
  shows "outbox_inv (set_phase p i ph (s\<lparr>sys_db := db'\<rparr>))"
proof -
  have eq: "s\<lparr>sys_db := db', sys_accepted := sys_accepted s\<rparr> = s\<lparr>sys_db := db'\<rparr>" by simp
  have "counts_ok (s\<lparr>sys_accepted := sys_accepted s\<rparr>) i" using inv by (simp add: outbox_inv_def)
  from outbox_inv_at [OF inv db this refl, of p ph] hold row show ?thesis by (simp add: eq)
qed

lemma inv_win_claim:
  assumes inv: "outbox_inv s" and idle: "sys_phase s p i = Idle"
    and won: "fst (claim (sys_clock s) i (sys_db s))"
  shows "outbox_inv (set_phase p i Owns (s\<lparr>sys_db := snd (claim (sys_clock s) i (sys_db s))\<rparr>))"
proof -
  have wf: "queue_wf (sys_db s)" by (rule outbox_inv_wf [OF inv])
  from won claim_wins [OF wf] obtain r where r: "queue_row i (sys_db s) = Some r"
    and st: "q_status r \<in> {Queued, Failed}" by auto
  have ok: "row_ok (sys_clock s) (settled s i) (\<lambda>p. sys_phase s p i) r"
    by (rule outbox_inv_row [OF inv r])
  have lt: "i < queue_next_id (sys_db s)"
    using wf r queue_row_id [OF r] queue_row_in [OF r] by (auto simp: queue_wf_def)
  have h: "holders_ok s i" using inv by (simp add: outbox_inv_def)
  show ?thesis
  proof (rule outbox_inv_at_db [OF inv])
    show "queue_wf (snd (claim (sys_clock s) i (sys_db s)))"
      by (simp add: snd_claim queue_wf_update wf)
    show "queue_row j (snd (claim (sys_clock s) i (sys_db s))) = queue_row j (sys_db s)"
      if "j \<noteq> i" for j using that by (simp only: snd_claim) (rule other_row_update, simp_all)
    show "holders_ok (set_phase p i Owns
        (s\<lparr>sys_db := snd (claim (sys_clock s) i (sys_db s))\<rparr>)) i"
      using h lt by (auto simp: holders_ok_def snd_claim)
    show "row_ok (sys_clock s) (settled s i)
        (\<lambda>q. if q = p then Owns else sys_phase s q i) r'"
      if "queue_row i (snd (claim (sys_clock s) i (sys_db s))) = Some r'" for r'
    proof -
      from that r st have "r' = r\<lparr>q_status := Sending, q_updated_at := secs (sys_clock s)\<rparr>"
        using queue_row_id [OF r] by (simp add: claim_row)
      moreover have "sys_phase s q i = Idle" if "has_bytes r" for q
        using ok st that by (auto simp: row_ok_def)
      ultimately show ?thesis using ok st by (auto simp: row_ok_def)
    qed
  qed (use inv in \<open>simp_all add: outbox_inv_def snd_claim\<close>)
qed

lemma inv_lose_claim:
  assumes inv: "outbox_inv s" and lost: "\<not> fst (claim (sys_clock s) i (sys_db s))"
  shows "outbox_inv (s\<lparr>sys_db := snd (claim (sys_clock s) i (sys_db s))\<rparr>)"
  unfolding snd_claim
proof (rule outbox_inv_update [OF inv])
  show "row_ok (sys_clock s) (settled s j) (\<lambda>p. sys_phase s p j)
      (r\<lparr>q_status := Sending, q_updated_at := secs (sys_clock s)\<rparr>)"
    if "queue_row j (sys_db s) = Some r" "q_id r = i \<and> q_status r \<in> {Queued, Failed}" for j r
    using that lost claim_wins [OF outbox_inv_wf [OF inv]] queue_row_id [OF that(1)] by auto
qed simp

lemma inv_schedule:
  assumes "outbox_inv s"
  shows "outbox_inv (s\<lparr>sys_db := snd (enqueue_scheduled_mime parse (sys_clock s) a m (sys_db s))\<rparr>)"
  using outbox_inv_insert [OF assms, of "scheduled_row (sys_clock s) a m at" for at] assms
  by (auto simp: enqueue_scheduled_mime_def Let_def scheduled_row_def row_ok_def split: sum.splits)

lemma inv_enqueue:
  assumes inv: "outbox_inv s"
  shows "outbox_inv (set_phase p (queue_next_id (sys_db s)) Owns
     (s\<lparr>sys_db := snd (enqueue_mime (sys_clock s) a mid raw from rcpts dsn (sys_db s))\<rparr>))"
proof -
  let ?n = "queue_next_id (sys_db s)"
  let ?mk = "immediate_row (sys_clock s) a mid raw from rcpts dsn"
  let ?s = "s\<lparr>sys_db := snd (insert_row ?mk (sys_db s))\<rparr>"
  have row: "q_id (?mk i) = i" "q_status (?mk i) = Sending" "q_send_at (?mk i) = None" for i
    by (simp_all add: immediate_row_def)
  have inv': "outbox_inv ?s"
    using row by (intro outbox_inv_insert [OF inv]) (auto simp: row_ok_def null_or_le_def)
  have fresh: "sys_phase s q ?n = Idle" "?n \<notin> set (sys_accepted s)" for q
    using inv by (simp_all add: outbox_inv_def holders_ok_def)
  have new: "queue_row ?n (snd (insert_row ?mk (sys_db s))) = Some (?mk ?n)"
    using outbox_inv_wf [OF inv] row(1) by (simp add: queue_row_insert)
  have nxt: "queue_next_id (snd (insert_row ?mk (sys_db s))) = ?n + 1"
    by (simp add: insert_row_def)
  have "outbox_inv (set_phase p ?n Owns (?s\<lparr>sys_db := sys_db ?s\<rparr>))"
  proof (rule outbox_inv_at_db [OF inv'])
    show "queue_wf (sys_db ?s)" using outbox_inv_wf [OF inv'] .
    show "holders_ok (set_phase p ?n Owns (?s\<lparr>sys_db := sys_db ?s\<rparr>)) ?n"
      using fresh nxt by (simp add: holders_ok_def)
    show "row_ok (sys_clock ?s) (settled ?s ?n)
        (\<lambda>q. if q = p then Owns else sys_phase ?s q ?n) r'"
      if "queue_row ?n (sys_db ?s) = Some r'" for r'
      using that new fresh row by (auto simp: row_ok_def null_or_le_def)
  qed simp_all
  then show ?thesis by (simp add: enqueue_mime_def Let_def)
qed

lemma snd_update_raw:
  "update_raw_mime now i raw db =
     snd (update_rows (\<lambda>r. q_id r = i) (\<lambda>r. r\<lparr>q_raw_mime := Some raw, q_updated_at := secs now\<rparr>) db)"
  by (simp add: update_raw_mime_def)

lemma inv_fly:
  assumes inv: "outbox_inv s" and owns: "sys_phase s p i = Owns"
    and r: "queue_row i (sys_db s) = Some r" and bytes: "has_bytes r"
  shows "outbox_inv (set_phase p i InFlight s)"
proof -
  have ok: "row_ok (sys_clock s) (settled s i) (\<lambda>p. sys_phase s p i) r"
    by (rule outbox_inv_row [OF inv r])
  have h: "holders_ok s i" using inv by (simp add: outbox_inv_def)
  have lone: "sys_phase s q i = Idle" if "q \<noteq> p" for q
    using ok bytes owns that by (auto simp: row_ok_def)
  have "sys_phase s q i \<noteq> Taken" for q using lone [of q] owns by (cases "q = p") auto
  with ok bytes have open_id: "\<not> settled s i" unfolding row_ok_def by blast
  have lt: "\<not> queue_next_id (sys_db s) \<le> i"
    using h owns by (auto simp: holders_ok_def)
  have "outbox_inv (set_phase p i InFlight (s\<lparr>sys_db := sys_db s\<rparr>))"
  proof (rule outbox_inv_at_db [OF inv])
    show "holders_ok (set_phase p i InFlight (s\<lparr>sys_db := sys_db s\<rparr>)) i"
    proof -
      have ph: "sys_phase (set_phase p i InFlight (s\<lparr>sys_db := sys_db s\<rparr>)) q i = (if q = p then InFlight else Idle)" for q
        using lone [of q] by simp
      show ?thesis using open_id lt unfolding holders_ok_def ph by (simp add: flies_def)
    qed
    show "row_ok (sys_clock s) (settled s i)
        (\<lambda>q. if q = p then InFlight else sys_phase s q i) r'"
      if "queue_row i (sys_db s) = Some r'" for r'
    proof -
      from that r have "r' = r" by simp
      show ?thesis
        unfolding \<open>r' = r\<close>
      proof (rule row_ok_fewer [OF ok])
        fix q
        show "(if q = p then InFlight else sys_phase s q i) \<noteq> Idle \<Longrightarrow> sys_phase s q i \<noteq> Idle"
          using owns by (cases "q = p") simp_all
        show "settled s i \<Longrightarrow> sys_phase s q i = Taken \<Longrightarrow> (if q = p then InFlight else sys_phase s q i) = Taken"
          using open_id by simp
      qed
    qed
  qed (use outbox_inv_wf [OF inv] in simp_all)
  then show ?thesis by simp
qed

lemma inv_begin_submit:
  assumes inv: "outbox_inv s" and owns: "sys_phase s p i = Owns"
  shows "outbox_inv (begin_submit refresh p i s)"
proof (cases "queue_row i (sys_db s)")
  case None
  then show ?thesis using outbox_inv_release [OF inv, of p i] owns by (simp add: begin_submit_def)
next
  case (Some r)
  let ?raw = "refresh (sys_clock s) (case q_raw_mime r of None \<Rightarrow> [] | Some b \<Rightarrow> b)"
  let ?db = "update_raw_mime (sys_clock s) i ?raw (sys_db s)"
  have fly: "outbox_inv (set_phase p i InFlight (s\<lparr>sys_db := ?db\<rparr>))" if bytes: "has_bytes r"
  proof -
    let ?t = "set_phase p i InFlight s"
    have inv': "outbox_inv ?t" by (rule inv_fly [OF inv owns Some bytes])
    have "outbox_inv (?t\<lparr>sys_db := update_raw_mime (sys_clock s) i ?raw (sys_db ?t)\<rparr>)"
      unfolding snd_update_raw
    proof (rule outbox_inv_update [OF inv'])
      show "row_ok (sys_clock ?t) (settled ?t j) (\<lambda>q. sys_phase ?t q j)
          (r'\<lparr>q_raw_mime := Some ?raw, q_updated_at := secs (sys_clock s)\<rparr>)"
        if "queue_row j (sys_db ?t) = Some r'" "q_id r' = i"
          "row_ok (sys_clock ?t) (settled ?t j) (\<lambda>q. sys_phase ?t q j) r'" for j r'
      proof -
        have "r' = r" using that Some queue_row_id [OF that(1)] by simp
        with that(3) bytes show ?thesis by (simp add: row_ok_raw)
      qed
    qed simp
    then show ?thesis by (simp add: set_phase_db)
  qed
  then show ?thesis
    using outbox_inv_release [OF inv, of p i] owns inv_fly [OF inv owns Some] Some
    by (simp add: begin_submit_def)
qed

lemma flying_row:
  assumes "outbox_inv s" and "flies (sys_phase s p i)"
  shows "\<not> queue_next_id (sys_db s) \<le> i" and "q \<noteq> p \<Longrightarrow> \<not> flies (sys_phase s q i)"
    and "queue_row i (sys_db s) = Some r \<Longrightarrow> q_status r \<noteq> Scheduled"
proof -
  have h: "holders_ok s i" using assms(1) by (simp add: outbox_inv_def)
  have busy: "sys_phase s p i \<noteq> Idle" using assms(2) by (auto simp: flies_def)
  show "\<not> queue_next_id (sys_db s) \<le> i" using h busy by (auto simp: holders_ok_def)
  show "q \<noteq> p \<Longrightarrow> \<not> flies (sys_phase s q i)" using h assms(2) unfolding holders_ok_def by blast
  show "queue_row i (sys_db s) = Some r \<Longrightarrow> q_status r \<noteq> Scheduled"
    using outbox_inv_row [OF assms(1)] busy by (auto simp: row_ok_def)
qed

lemma inv_taken:
  assumes inv: "outbox_inv s" and fly: "sys_phase s p i = InFlight"
  shows "outbox_inv (set_phase p i Taken (s\<lparr>sys_accepted := sys_accepted s @ [i]\<rparr>))"
proof -
  let ?s = "s\<lparr>sys_accepted := sys_accepted s @ [i]\<rparr>"
  have f: "flies (sys_phase s p i)" by (simp add: fly)
  note row = flying_row [OF inv f]
  have h: "holders_ok s i" and "counts_ok s i" using inv by (simp_all add: outbox_inv_def)
  moreover have "\<not> settled s i" using h fly unfolding holders_ok_def by blast
  ultimately have c: "counts_ok ?s i" and st: "settled ?s i"
    by (simp_all add: counts_ok_def settled_def)
  have lone: "sys_phase s q i \<noteq> InFlight" "sys_phase s q i \<noteq> Taken" if "q \<noteq> p" for q
    using row(2) [OF that] by auto
  have eq: "s\<lparr>sys_db := sys_db s, sys_accepted := sys_accepted s @ [i]\<rparr> = ?s" by simp
  have "outbox_inv (set_phase p i Taken (s\<lparr>sys_db := sys_db s, sys_accepted := sys_accepted s @ [i]\<rparr>))"
  proof (rule outbox_inv_at [OF inv outbox_inv_wf [OF inv] refl refl c])
    show "holders_ok (set_phase p i Taken (s\<lparr>sys_db := sys_db s, sys_accepted := sys_accepted s @ [i]\<rparr>)) i"
      unfolding eq using st row(1) lone by (auto simp: holders_ok_def flies_def)
    show "row_ok (sys_clock s) (settled ?s i) (\<lambda>q. if q = p then Taken else sys_phase s q i) r"
      if "queue_row i (sys_db s) = Some r" for r
      using outbox_inv_row [OF inv that] fly unfolding row_ok_def by (metis phase.distinct(3))
  qed simp
  then show ?thesis by simp
qed

lemma inv_recorded:
  assumes inv: "outbox_inv s" and taken: "sys_phase s p i = Taken"
  shows "outbox_inv (set_phase p i Idle (s\<lparr>sys_db := snd (mark_sent (sys_clock s) i (sys_db s))\<rparr>))"
proof -
  have f: "flies (sys_phase s p i)" by (simp add: taken)
  note row = flying_row [OF inv f]
  have lone: "sys_phase s q i \<noteq> InFlight" "sys_phase s q i \<noteq> Taken" if "q \<noteq> p" for q
    using row(2) [OF that] by auto
  show ?thesis
    unfolding snd_mark_sent
  proof (rule outbox_inv_at_db [OF inv])
    show "row_ok (sys_clock s) (settled s i) (\<lambda>q. if q = p then Idle else sys_phase s q i) r'"
      if "queue_row i (snd (update_rows (\<lambda>r. q_id r = i)
           (\<lambda>r. r\<lparr>q_status := Sent, q_last_error := None, q_raw_mime := None,
                  q_updated_at := secs (sys_clock s)\<rparr>) (sys_db s))) = Some r'" for r'
    proof -
      from that obtain r where r: "queue_row i (sys_db s) = Some r"
        and r': "r' = r\<lparr>q_status := Sent, q_last_error := None, q_raw_mime := None,
                  q_updated_at := secs (sys_clock s)\<rparr>"
        using queue_row_id by (fastforce simp: queue_row_update)
      show ?thesis using outbox_inv_row [OF inv r] row(3) [OF r] by (simp add: r' row_ok_def)
    qed
  qed (use row(1) lone outbox_inv_wf [OF inv] other_row_update [where P = "\<lambda>_. True", simplified]
      in \<open>auto simp: queue_wf_update holders_ok_def flies_def\<close>)
qed

lemma inv_told_failed:
  assumes inv: "outbox_inv s"
    and imm: "\<And>r. queue_row i (sys_db s) = Some r \<Longrightarrow> q_send_at r = None"
  shows "outbox_inv (s\<lparr>sys_db := fail_and_discard (sys_clock s) i e (sys_db s)\<rparr>)"
    and "outbox_inv (s\<lparr>sys_db := discard_mime (sys_clock s) i (sys_db s)\<rparr>)"
proof -
  show "outbox_inv (s\<lparr>sys_db := fail_and_discard (sys_clock s) i e (sys_db s)\<rparr>)"
    unfolding fail_and_discard_def
  proof (rule outbox_inv_update [OF inv], goal_cases)
    case (2 j r)
    then have "q_send_at r = None" using imm queue_row_id by metis
    with 2 show ?case by (auto simp: row_ok_def null_or_le_def)
  qed simp
  show "outbox_inv (s\<lparr>sys_db := discard_mime (sys_clock s) i (sys_db s)\<rparr>)"
    unfolding discard_mime_def
  proof (rule outbox_inv_update [OF inv], goal_cases)
    case (2 j r)
    then show ?case by (simp add: row_ok_def)
  qed simp
qed

lemma row_ok_failed:
  "row_ok now acc ph r \<Longrightarrow> null_or_le (q_send_at r) (secs now) \<Longrightarrow>
   (has_bytes r \<Longrightarrow> \<forall>q. ph q = Idle) \<Longrightarrow> row_ok now acc ph (r\<lparr>q_status := Failed\<rparr>)"
  by (auto simp: row_ok_def)

lemma row_ok_record_failure [simp]:
  "row_ok now acc ph (record_failure t e row d r) = row_ok now acc ph (r\<lparr>q_status := Failed\<rparr>)"
  by (simp add: record_failure_def split: scheduled_failure.splits)

lemma record_failure_simps [simp]:
  "q_id (record_failure t e row d r) = q_id r"
  "q_status (record_failure t e row d r) = Failed"
  "q_send_at (record_failure t e row d r) = q_send_at r"
  "q_account_id (record_failure t e row d r) = q_account_id r"
  "q_raw_mime (record_failure t e row d r) = q_raw_mime r"
  "has_bytes (record_failure t e row d r) = has_bytes r"
  by (simp_all add: record_failure_def has_bytes_def split: scheduled_failure.splits)

lemma fail_scheduled_wf:
  "queue_wf db \<Longrightarrow> queue_wf (snd (fail_scheduled_attempt now i e perm db))"
  by (simp add: fail_scheduled_attempt_def Let_def queue_wf_update split: sum.splits)

lemma fail_scheduled_next_id [simp]:
  "queue_next_id (snd (fail_scheduled_attempt now i e perm db)) = queue_next_id db"
  by (simp add: fail_scheduled_attempt_def Let_def split: sum.splits)

lemma inv_fail_scheduled:
  assumes inv: "outbox_inv s"
    and row: "\<And>r. queue_row i (sys_db s) = Some r \<Longrightarrow> null_or_le (q_send_at r) (secs (sys_clock s))
      \<and> (has_bytes r \<longrightarrow> (\<forall>q. sys_phase s q i = Idle))"
  shows "outbox_inv (s\<lparr>sys_db := snd (fail_scheduled_attempt (sys_clock s) i e perm (sys_db s))\<rparr>)"
proof (rule outbox_inv_rows [OF inv])
  fix j r'
  assume "queue_row j (snd (fail_scheduled_attempt (sys_clock s) i e perm (sys_db s))) = Some r'"
  then obtain r where r: "queue_row j (sys_db s) = Some r"
    and r': "r' = (if q_id r = i
      then record_failure (sys_clock s) e r (scheduled_decision (sys_clock s) perm r) r else r)"
    by (auto simp: fail_scheduled_row)
  have "q_id r = j" by (rule queue_row_id [OF r])
  with r r' row [of r] show "\<exists>r. queue_row j (sys_db s) = Some r \<and>
      (row_ok (sys_clock s) (settled s j) (\<lambda>p. sys_phase s p j) r \<longrightarrow>
       row_ok (sys_clock s) (settled s j) (\<lambda>p. sys_phase s p j) r')"
    by (auto intro: row_ok_failed)
qed (use outbox_inv_wf [OF inv] in \<open>simp_all add: fail_scheduled_wf\<close>)

lemma inv_mark_failed:
  assumes inv: "outbox_inv s"
    and row: "\<And>r. queue_row i (sys_db s) = Some r \<Longrightarrow> null_or_le (q_send_at r) (secs (sys_clock s))
      \<and> (has_bytes r \<longrightarrow> (\<forall>q. sys_phase s q i = Idle))"
  shows "outbox_inv (s\<lparr>sys_db := snd (mark_failed (sys_clock s) i e (sys_db s))\<rparr>)"
  unfolding snd_mark_failed
proof (rule outbox_inv_update [OF inv], goal_cases)
  case (2 j r)
  with row [of r] queue_row_id [OF 2(1)] show ?case by (auto intro: row_ok_failed)
qed simp

lemma inv_record_refusal:
  assumes inv: "outbox_inv t"
    and row: "\<And>r. queue_row i (sys_db t) = Some r \<Longrightarrow> null_or_le (q_send_at r) (secs (sys_clock t))
      \<and> (has_bytes r \<longrightarrow> (\<forall>q. sys_phase t q i = Idle))"
  shows "outbox_inv (t\<lparr>sys_db := record_refusal (sys_clock t) i scheduled e perm (sys_db t)\<rparr>)"
  using inv_fail_scheduled [OF inv row, where e = e and perm = perm] inv_mark_failed [OF inv row, where e = e]
  by (simp add: record_refusal_def)

lemma sole_holder:
  assumes inv: "outbox_inv s" and busy: "sys_phase s p i \<noteq> Idle" and r: "queue_row i (sys_db s) = Some r"
  shows "null_or_le (q_send_at r) (secs (sys_clock s))" and "has_bytes r \<Longrightarrow> q \<noteq> p \<Longrightarrow> sys_phase s q i = Idle"
  using outbox_inv_row [OF inv r] busy by (auto simp: row_ok_def)

lemma inv_refused:
  assumes inv: "outbox_inv s" and fly: "sys_phase s p i = InFlight"
  shows "outbox_inv (set_phase p i Idle
    (s\<lparr>sys_db := record_refusal (sys_clock s) i scheduled e perm (sys_db s)\<rparr>))"
proof -
  let ?t = "set_phase p i Idle s"
  have busy: "sys_phase s p i \<noteq> Idle" by (simp add: fly)
  have "outbox_inv ?t" by (rule outbox_inv_release [OF inv]) (simp add: fly)
  from inv_record_refusal [OF this, of i scheduled e perm] sole_holder [OF inv busy] show ?thesis
    by (simp add: set_phase_db)
qed

lemma lose_simps [simp]:
  "sys_db (lose p i s) = sys_db s" "sys_clock (lose p i s) = sys_clock s" "sys_accepted (lose p i s) = sys_accepted s"
  "sys_phase (lose p i s) q j = (if q = p \<and> j = i then Idle else sys_phase s q j)"
  by (simp_all add: lose_def)

lemma lose_db: "lose p i (s\<lparr>sys_db := db\<rparr>) = (lose p i s)\<lparr>sys_db := db\<rparr>"
  by (cases s) (simp add: lose_def set_phase_def)

lemma inv_reply_lost:
  assumes inv: "outbox_inv s" and taken: "sys_phase s p i = Taken"
  shows "outbox_inv (lose p i (s\<lparr>sys_db := record_refusal (sys_clock s) i scheduled e perm (sys_db s)\<rparr>))"
proof -
  have busy: "sys_phase s p i \<noteq> Idle" by (simp add: taken)
  from inv_record_refusal [OF outbox_inv_lose [OF inv taken], of i scheduled e perm] sole_holder [OF inv busy]
  show ?thesis by (simp add: lose_db)
qed

lemma inv_requeue:
  assumes inv: "outbox_inv s"
    and live: "\<And>p i r. sys_phase s p i \<noteq> Idle \<Longrightarrow> queue_row i (sys_db s) = Some r \<Longrightarrow>
      stale_cutoff (sys_clock s) \<le> q_updated_at r"
  shows "outbox_inv (s\<lparr>sys_db := snd (requeue_interrupted (sys_clock s) a (sys_db s))\<rparr>)"
proof (rule outbox_inv_rows [OF inv])
  show "queue_wf (snd (requeue_interrupted (sys_clock s) a (sys_db s)))"
    using outbox_inv_wf [OF inv]
    by (simp add: requeue_interrupted_def case_prod_beta queue_wf_update)
  show "queue_next_id (snd (requeue_interrupted (sys_clock s) a (sys_db s))) = queue_next_id (sys_db s)"
    by (simp add: requeue_interrupted_def case_prod_beta)
  fix j r'
  assume "queue_row j (snd (requeue_interrupted (sys_clock s) a (sys_db s))) = Some r'"
  then obtain r where r: "queue_row j (sys_db s) = Some r" and r': "r' = requeued (sys_clock s) a r"
    by (auto simp: requeue_row)
  have "row_ok (sys_clock s) acc (\<lambda>p. sys_phase s p j) r'"
    if ok: "row_ok (sys_clock s) acc (\<lambda>p. sys_phase s p j) r" for acc
  proof -
    have idle: "sys_phase s p j = Idle" if "q_updated_at r < stale_cutoff (sys_clock s)" for p
      using live [OF _ r] that by force
    show ?thesis
      using ok idle unfolding r' requeued_def
      by (auto simp: row_ok_def)
  qed
  with r show "\<exists>r. queue_row j (sys_db s) = Some r \<and>
      (row_ok (sys_clock s) (settled s j) (\<lambda>p. sys_phase s p j) r \<longrightarrow>
       row_ok (sys_clock s) (settled s j) (\<lambda>p. sys_phase s p j) r')"
    by blast
qed

lemma inv_promote:
  assumes inv: "outbox_inv s"
  shows "outbox_inv (s\<lparr>sys_db := snd (promote_due (sys_clock s) a (sys_db s))\<rparr>)"
  unfolding promote_due_def
proof (rule outbox_inv_update [OF inv], goal_cases)
  case (2 j r)
  then show ?case by (auto simp: row_ok_def promotable_def null_or_le_def split: option.splits)
qed simp

lemma inv_user_move:
  assumes inv: "outbox_inv s"
    and st: "\<And>r. st r \<noteq> Sent \<and> (st r = Scheduled \<longrightarrow> at r \<noteq> None)
      \<and> (st r \<noteq> Scheduled \<longrightarrow> null_or_le (at r) (secs (sys_clock s)))"
  shows "outbox_inv (s\<lparr>sys_db := snd (update_rows (movable a i)
    (\<lambda>r. r\<lparr>q_status := st r, q_send_at := at r, q_retries := 0, q_last_error := None,
           q_next_attempt_at := None, q_failure_noticed := False,
           q_updated_at := t\<rparr>) (sys_db s))\<rparr>)"
proof (rule outbox_inv_update [OF inv], goal_cases)
  case (2 j r)
  then have "sys_phase s p j = Idle" for p
    by (auto simp: movable_def HELD_STATUSES_def row_ok_def)
  with 2 st [of r] show ?case by (auto simp: movable_def row_ok_def)
qed simp

lemma inv_reschedule:
  assumes inv: "outbox_inv s"
  shows "outbox_inv (s\<lparr>sys_db := snd (reschedule parse (sys_clock s) a i raw (sys_db s))\<rparr>)"
  using inv_user_move [OF inv, of "\<lambda>_. Scheduled" "\<lambda>_. Some at" a i "secs (sys_clock s)" for at] inv
  by (auto simp: reschedule_def case_prod_beta split: sum.splits)

lemma inv_send_now:
  assumes inv: "outbox_inv s"
  shows "outbox_inv (s\<lparr>sys_db := snd (send_now (sys_clock s) a i (sys_db s))\<rparr>)"
  using inv_user_move [OF inv, of "\<lambda>_. Queued" "\<lambda>_. Some (secs (sys_clock s))" a i "secs (sys_clock s)"]
  by (auto simp: send_now_def case_prod_beta null_or_le_def)

lemma mark_noticed_inv:
  "outbox_inv s \<Longrightarrow> outbox_inv (s\<lparr>sys_db := mark_noticed is (sys_db s)\<rparr>)"
proof (induction "is" arbitrary: s)
  case (Cons i "is")
  let ?s = "s\<lparr>sys_db := snd (update_rows (\<lambda>r. q_id r = i) (\<lambda>r. r\<lparr>q_failure_noticed := True\<rparr>) (sys_db s))\<rparr>"
  have "outbox_inv ?s"
    by (rule outbox_inv_update [OF Cons.prems]) simp_all
  from Cons.IH [OF this] show ?case by simp
qed simp

lemma inv_notices:
  "outbox_inv s \<Longrightarrow> outbox_inv (s\<lparr>sys_db := snd (take_failure_notices subj (sys_db s))\<rparr>)"
  by (simp add: take_failure_notices_def Let_def mark_noticed_inv)

lemma inv_dismiss:
  assumes inv: "outbox_inv s"
  shows "outbox_inv (s\<lparr>sys_db := snd (dismiss a i (sys_db s))\<rparr>)"
  using outbox_inv_filter [OF inv] by (simp add: dismiss_def Let_def)

lemma inv_prune:
  assumes inv: "outbox_inv s"
  shows "outbox_inv (s\<lparr>sys_db := snd (prune_sent (sys_clock s) (sys_db s))\<rparr>)"
  using outbox_inv_filter [OF inv] by (simp add: prune_sent_def Let_def)

text \<open>
  \<open>fail_due_scheduled\<close>: the rows it picked stay held and past their time while the loop
  fails them one by one.
\<close>

definition failable :: "outbox_sys \<Rightarrow> int \<Rightarrow> bool" where
  "failable s i \<longleftrightarrow> (\<forall>r. queue_row i (sys_db s) = Some r \<longrightarrow>
     q_status r \<in> HELD_STATUSES \<and> null_or_le (q_send_at r) (secs (sys_clock s)))"

lemma inv_fail_each:
  "outbox_inv s \<Longrightarrow> (\<And>i. i \<in> set is \<Longrightarrow> failable s i) \<Longrightarrow>
   outbox_inv (s\<lparr>sys_db := snd (fail_each (sys_clock s) e is (sys_db s))\<rparr>)"
proof (induction "is" arbitrary: s)
  case (Cons i "is")
  let ?s = "s\<lparr>sys_db := snd (fail_scheduled_attempt (sys_clock s) i e False (sys_db s))\<rparr>"
  have "outbox_inv ?s"
  proof (rule inv_fail_scheduled [OF Cons.prems(1)])
    fix r
    assume r: "queue_row i (sys_db s) = Some r"
    then have f: "q_status r \<in> HELD_STATUSES" "null_or_le (q_send_at r) (secs (sys_clock s))"
      using Cons.prems(2) [of i] by (auto simp: failable_def)
    with outbox_inv_row [OF Cons.prems(1) r]
    show "null_or_le (q_send_at r) (secs (sys_clock s)) \<and>
        (has_bytes r \<longrightarrow> (\<forall>q. sys_phase s q i = Idle))"
      by (auto simp: row_ok_def HELD_STATUSES_def)
  qed
  moreover have "failable ?s j" if "j \<in> set is" for j
    using Cons.prems(2) [of j] that
    by (auto simp: failable_def fail_scheduled_row HELD_STATUSES_def)
  ultimately have "outbox_inv (?s\<lparr>sys_db := snd (fail_each (sys_clock ?s) e is (sys_db ?s))\<rparr>)"
    by (rule Cons.IH)
  with \<open>outbox_inv ?s\<close> show ?case
    by (auto split: prod.splits sum.splits)
qed simp

lemma inv_fail_due:
  assumes inv: "outbox_inv s"
  shows "outbox_inv (s\<lparr>sys_db := snd (fail_due_scheduled (sys_clock s) a e (sys_db s))\<rparr>)"
proof -
  let ?ids = "map q_id (filter (due_scheduled (secs (sys_clock s)) a) (queue_rows (sys_db s)))"
  have "failable s i" if "i \<in> set ?ids" for i
  proof -
    from that obtain r where r: "r \<in> set (queue_rows (sys_db s))" "q_id r = i"
      and due: "due_scheduled (secs (sys_clock s)) a r" by auto
    have "queue_row i (sys_db s) = Some r"
      using queue_row_of [OF outbox_inv_wf [OF inv] r(1)] r(2) by simp
    with due show ?thesis
      by (auto simp: failable_def due_scheduled_def null_or_le_def split: option.splits)
  qed
  then show ?thesis
    using inv_fail_each [OF inv, of ?ids e]
    by (auto simp: fail_due_scheduled_def Let_def split: prod.splits sum.splits)
qed

lemma outbox_step_inv: "outbox_step parse refresh s s' \<Longrightarrow> outbox_inv s \<Longrightarrow> outbox_inv s'"
proof (induction rule: outbox_step.induct)
  case (abandon s i)
  then show ?case using outbox_inv_filter by (simp add: queue_delete_def)
qed (simp_all add: outbox_inv_clock inv_schedule inv_enqueue inv_win_claim inv_lose_claim
    inv_begin_submit inv_taken inv_recorded outbox_inv_lose inv_refused inv_reply_lost outbox_inv_crash inv_told_failed inv_requeue
    inv_promote inv_fail_due inv_notices inv_reschedule inv_send_now inv_dismiss inv_prune)

lemma outbox_reachable_inv: "outbox_reachable parse refresh s \<Longrightarrow> outbox_inv s"
  by (induction rule: outbox_reachable.induct) (auto intro: outbox_inv_init outbox_step_inv)

subsection \<open>Bytes once dropped never come back\<close>

text \<open>\<open>spent s i\<close>: id \<open>i\<close> was given out, nobody is in flight with it, and its row has no bytes left.\<close>

definition spent :: "outbox_sys \<Rightarrow> int \<Rightarrow> bool" where
  "spent s i \<longleftrightarrow> i < queue_next_id (sys_db s) \<and> (\<forall>p. sys_phase s p i \<noteq> InFlight)
     \<and> (\<forall>r. queue_row i (sys_db s) = Some r \<longrightarrow> \<not> has_bytes r)"

definition no_new_bytes :: "send_queue \<Rightarrow> send_queue \<Rightarrow> bool" where
  "no_new_bytes db db' \<longleftrightarrow> queue_next_id db \<le> queue_next_id db'
     \<and> (\<forall>i r'. i < queue_next_id db \<longrightarrow> queue_row i db' = Some r' \<longrightarrow> has_bytes r' \<longrightarrow>
           (\<exists>r. queue_row i db = Some r \<and> has_bytes r))"

lemma no_new_bytes_refl [simp]: "no_new_bytes db db"
  by (simp add: no_new_bytes_def)

lemma no_new_bytes_trans: "no_new_bytes a b \<Longrightarrow> no_new_bytes b c \<Longrightarrow> no_new_bytes a c"
  unfolding no_new_bytes_def by (meson order_less_le_trans order_trans)

lemma no_new_bytes_update:
  "\<forall>r. q_id (f r) = q_id r \<and> (has_bytes (f r) \<longrightarrow> has_bytes r) \<Longrightarrow>
   no_new_bytes db (snd (update_rows P f db))"
  by (auto simp: no_new_bytes_def queue_row_update split: if_splits)

lemma no_new_bytes_insert:
  "queue_wf db \<Longrightarrow> (\<And>i. q_id (mk i) = i) \<Longrightarrow> no_new_bytes db (snd (insert_row mk db))"
  by (simp add: no_new_bytes_def queue_row_insert) (simp add: insert_row_def)

lemma no_new_bytes_delete:
  "queue_wf db \<Longrightarrow> no_new_bytes db (db\<lparr>queue_rows := delete_where P (queue_rows db)\<rparr>)"
  by (auto simp: no_new_bytes_def queue_row_delete split: option.splits if_splits)

lemma no_new_bytes_fail_scheduled: "no_new_bytes db (snd (fail_scheduled_attempt now i e perm db))"
  by (auto simp: no_new_bytes_def fail_scheduled_row split: if_splits)

lemma no_new_bytes_fail_each: "no_new_bytes db (snd (fail_each now e is db))"
proof (induction "is" arbitrary: db)
  case (Cons i "is")
  have "no_new_bytes db (snd (fail_scheduled_attempt now i e False db))"
    by (rule no_new_bytes_fail_scheduled)
  with Cons.IH no_new_bytes_trans show ?case
    by (fastforce split: prod.splits sum.splits)
qed simp

lemma no_new_bytes_noticed: "no_new_bytes db (mark_noticed is db)"
proof (induction "is" arbitrary: db)
  case (Cons i "is")
  have "no_new_bytes db (snd (update_rows (\<lambda>r. q_id r = i) (\<lambda>r. r\<lparr>q_failure_noticed := True\<rparr>) db))"
    by (rule no_new_bytes_update) simp_all
  from no_new_bytes_trans [OF this Cons.IH] show ?case by simp
qed simp

lemma no_new_bytes_requeue: "no_new_bytes db (snd (requeue_interrupted now a db))"
  unfolding requeue_interrupted_def case_prod_beta snd_conv
  by (rule no_new_bytes_trans; rule no_new_bytes_update; simp)

lemma no_new_bytes_fail_due: "no_new_bytes db (snd (fail_due_scheduled now a e db))"
  using no_new_bytes_fail_each [of db now e]
  by (auto simp: fail_due_scheduled_def Let_def split: prod.splits sum.splits) (metis snd_conv)+

lemma no_new_bytes_mark_failed: "no_new_bytes db (snd (mark_failed now i e db))"
  unfolding snd_mark_failed by (rule no_new_bytes_update) simp_all

lemma no_new_bytes_refusal: "no_new_bytes db (record_refusal now i scheduled e perm db)"
  by (simp add: record_refusal_def no_new_bytes_fail_scheduled no_new_bytes_mark_failed)

lemma no_new_bytes_reschedule: "no_new_bytes db (snd (reschedule parse now a i raw db))"
  by (auto simp: reschedule_def case_prod_beta split: sum.splits intro!: no_new_bytes_update)

lemma no_new_bytes_send_now: "no_new_bytes db (snd (send_now now a i db))"
  by (auto simp: send_now_def case_prod_beta intro!: no_new_bytes_update)

lemma no_new_bytes_ops:
  "no_new_bytes db (snd (claim now i db))"
  "no_new_bytes db (snd (mark_sent now i db))"
  "no_new_bytes db (fail_and_discard now i e db)"
  "no_new_bytes db (discard_mime now i db)"
  "no_new_bytes db (snd (promote_due now a db))"
  "no_new_bytes db (snd (take_failure_notices subj db))"
  by (simp_all add: snd_claim snd_mark_sent fail_and_discard_def discard_mime_def promote_due_def
      take_failure_notices_def Let_def no_new_bytes_noticed no_new_bytes_update)

text \<open>A database statement that adds no bytes keeps every spent id spent.\<close>

lemma spent_db: "spent s i \<Longrightarrow> no_new_bytes (sys_db s) db \<Longrightarrow> spent (s\<lparr>sys_db := db\<rparr>) i"
  by (fastforce simp: spent_def no_new_bytes_def)

lemma spent_phase: "spent s i \<Longrightarrow> ph \<noteq> InFlight \<or> j \<noteq> i \<Longrightarrow> spent (set_phase p j ph s) i"
  by (auto simp: spent_def)

lemma no_new_bytes_enqueue:
  "queue_wf db \<Longrightarrow> no_new_bytes db (snd (enqueue_scheduled_mime parse now a m db))"
  "queue_wf db \<Longrightarrow> no_new_bytes db (snd (enqueue_mime now a mid raw from rcpts dsn db))"
  by (auto simp: enqueue_scheduled_mime_def enqueue_mime_def Let_def scheduled_row_def
      immediate_row_def split: sum.splits intro!: no_new_bytes_insert)

lemma spent_begin: "spent s i \<Longrightarrow> spent (begin_submit refresh p j s) i"
proof (cases "queue_row j (sys_db s)")
  case (Some r)
  assume sp: "spent s i"
  show ?thesis
  proof (cases "has_bytes r")
    case True
    with Some sp have "j \<noteq> i" by (auto simp: spent_def)
    moreover have "spent (s\<lparr>sys_db := update_raw_mime now j raw (sys_db s)\<rparr>) i" for now raw
      using sp other_row_update [OF \<open>j \<noteq> i\<close> [symmetric], where P = "\<lambda>_. True"]
      by (simp add: spent_def snd_update_raw)
    ultimately show ?thesis using Some True sp by (simp add: begin_submit_def spent_phase)
  next
    case False
    with Some sp show ?thesis by (simp add: begin_submit_def spent_phase)
  qed
qed (simp add: begin_submit_def spent_phase)

lemma outbox_step_spent:
  "outbox_step parse refresh s s' \<Longrightarrow> queue_wf (sys_db s) \<Longrightarrow> spent s i \<Longrightarrow>
   spent s' i \<and> count_list (sys_accepted s') i = count_list (sys_accepted s) i"
proof (induction rule: outbox_step.induct)
  case (enqueue s p a mid raw "from" rcpts dsn)
  then show ?case
    by (simp add: spent_phase spent_db no_new_bytes_enqueue)
next
  case (begin_submit s p j)
  have "sys_accepted (begin_submit refresh p j s) = sys_accepted s"
    by (simp add: begin_submit_def split: option.splits)
  with begin_submit show ?case by (simp add: spent_begin)
next
  case (taken s p j)
  then have "j \<noteq> i" by (auto simp: spent_def)
  with taken show ?case by (simp add: spent_def)
next
  case (unrecorded s p j)
  then show ?case by (simp add: spent_def lose_def)
next
  case (reply_lost s p j scheduled e permanent)
  then have "spent (s\<lparr>sys_db := record_refusal (sys_clock s) j scheduled e permanent (sys_db s)\<rparr>) i"
    by (simp add: spent_db no_new_bytes_refusal)
  then show ?case by (simp add: spent_def lose_def)
next
  case (abandon s j)
  then show ?case by (simp add: spent_db no_new_bytes_delete queue_delete_def)
next
  case (dismiss s a j)
  then show ?case by (simp add: spent_db no_new_bytes_delete dismiss_def Let_def)
next
  case (prune s)
  then show ?case by (simp add: spent_db no_new_bytes_delete prune_sent_def Let_def)
next
  case (crash s p)
  then show ?case by (simp add: spent_def crash_def)
next
  case (tick s t)
  then show ?case by (simp add: spent_def)
qed (simp_all add: spent_phase spent_db no_new_bytes_ops no_new_bytes_enqueue no_new_bytes_refusal
    no_new_bytes_reschedule no_new_bytes_send_now no_new_bytes_requeue no_new_bytes_fail_due)

inductive outbox_run ::
  "(string \<Rightarrow> instant option) \<Rightarrow> (instant \<Rightarrow> string \<Rightarrow> string) \<Rightarrow> outbox_sys \<Rightarrow> outbox_sys \<Rightarrow> bool"
  for parse :: "string \<Rightarrow> instant option" and refresh :: "instant \<Rightarrow> string \<Rightarrow> string" where
  here: "outbox_run parse refresh s s"
| more: "outbox_run parse refresh s t \<Longrightarrow> outbox_step parse refresh t u \<Longrightarrow> outbox_run parse refresh s u"

lemma outbox_run_reachable:
  "outbox_run parse refresh s t \<Longrightarrow> outbox_reachable parse refresh s \<Longrightarrow> outbox_reachable parse refresh t"
  by (induction rule: outbox_run.induct) (auto intro: outbox_reachable.step)

inductive_cases stepE: "outbox_step parse refresh s s'"
inductive_simps run_stop: "outbox_run parse refresh s s"

subsection \<open>The properties\<close>



text \<open>
  C2. A scheduled mail is never in a submitter's hands before its time: whenever some
  submitter owns a row or is in flight with it, the row's \<open>send_at\<close> (if any) has passed, and a
  claim that succeeds is on a row whose time has come.
\<close>

theorem never_sent_early:
  assumes "outbox_reachable parse refresh s" and "queue_row i (sys_db s) = Some r"
    and "sys_phase s p i \<noteq> Idle \<or> fst (claim (sys_clock s) i (sys_db s))"
  shows "null_or_le (q_send_at r) (secs (sys_clock s))"
proof -
  have inv: "outbox_inv s" by (rule outbox_reachable_inv [OF assms(1)])
  have ok: "row_ok (sys_clock s) (settled s i) (\<lambda>p. sys_phase s p i) r"
    by (rule outbox_inv_row [OF inv assms(2)])
  have "q_status r \<noteq> Scheduled"
    using assms(2,3) ok claim_wins [OF outbox_inv_wf [OF inv]] by (auto simp: row_ok_def)
  with ok show ?thesis by (simp add: row_ok_def)
qed

theorem never_sent_early_witness:
  "\<exists>s r. outbox_reachable (\<lambda>_. Some (100 * ns_per_sec)) (\<lambda>_ b. b) s
     \<and> queue_row 1 (sys_db s) = Some r \<and> q_send_at r = Some 100
     \<and> fst (claim (sys_clock s) 1 (sys_db s)) \<and> null_or_le (q_send_at r) (secs (sys_clock s))"
proof -
  let ?P = "(\<lambda>_. Some (100 * ns_per_sec)) :: string \<Rightarrow> instant option"
  let ?R = "\<lambda>(_ :: instant) (b :: string). b"
  define m where "m = \<lparr>s_message_id = None, s_raw_mime = ''m'', s_envelope_from = ''a'',
    s_envelope_to = [''b''], s_request_dsn = False, s_notify_self = False, s_send_at = ''t''\<rparr>"
  define s1 where "s1 = (init_sys 0)\<lparr>sys_db :=
    snd (enqueue_scheduled_mime ?P (sys_clock (init_sys 0)) 7 m (sys_db (init_sys 0)))\<rparr>"
  define s2 where "s2 = s1\<lparr>sys_clock := 100 * ns_per_sec\<rparr>"
  define s3 where "s3 = s2\<lparr>sys_db := snd (promote_due (sys_clock s2) 7 (sys_db s2))\<rparr>"
  have "outbox_reachable ?P ?R s1"
    unfolding s1_def by (rule outbox_reachable.step [OF outbox_reachable.start outbox_step.schedule])
  then have "outbox_reachable ?P ?R s2"
    unfolding s2_def
    by (rule outbox_reachable.step) (rule outbox_step.tick, simp add: s1_def init_sys_def)
  then have r3: "outbox_reachable ?P ?R s3"
    unfolding s3_def by (rule outbox_reachable.step [OF _ outbox_step.promote])
  have row: "queue_row 1 (sys_db s2) = Some (scheduled_row 0 7 m 100 1)"
    by (simp add: s2_def s1_def init_sys_def empty_queue_def enqueue_scheduled_mime_def
        normalize_future_send_at_def SCHEDULE_LEAD_SECS_def secs_def Let_def insert_row_def
        queue_row_def row_at_def scheduled_row_def)
  define r where "r = (scheduled_row 0 7 m 100 1)\<lparr>q_status := Queued, q_updated_at := 100\<rparr>"
  have clock: "sys_clock s3 = 100 * ns_per_sec" by (simp add: s3_def s2_def)
  have q: "queue_row 1 (sys_db s3) = Some r"
    using row by (simp add: s3_def promote_due_row r_def s2_def promotable_def scheduled_row_def
        has_bytes_def m_def secs_def)
  have "fst (claim (sys_clock s3) 1 (sys_db s3))"
    using claim_wins [OF outbox_inv_wf [OF outbox_reachable_inv [OF r3]]] q
    by (simp add: r_def)
  with r3 q never_sent_early [OF r3 q] show ?thesis
    by (intro exI [of _ s3] exI [of _ r]) (simp add: r_def scheduled_row_def)
qed

text \<open>
  C25. A mail whose bytes were dropped (the user was told it failed and owns the retry) is never
  delivered behind the user's back: once an id has no bytes and nobody is in flight with it, no
  further run makes the server accept it, and no step gives its row bytes again.
\<close>

theorem dropped_mail_never_delivered:
  assumes "outbox_reachable parse refresh s" and "outbox_run parse refresh s s'"
    and "i < queue_next_id (sys_db s)" and "\<forall>p. sys_phase s p i \<noteq> InFlight"
    and "\<forall>r. queue_row i (sys_db s) = Some r \<longrightarrow> \<not> has_bytes r"
  shows "count_list (sys_accepted s') i = count_list (sys_accepted s) i
    \<and> (\<forall>r. queue_row i (sys_db s') = Some r \<longrightarrow> \<not> has_bytes r)"
proof -
  from assms(3-5) have "spent s i" by (simp add: spent_def)
  with assms(2,1) have "spent s' i \<and> count_list (sys_accepted s') i = count_list (sys_accepted s) i"
  proof (induction rule: outbox_run.induct)
    case (more s t u)
    have "queue_wf (sys_db t)"
      using outbox_run_reachable [OF more.hyps(1) more.prems(1)]
      by (intro outbox_inv_wf [OF outbox_reachable_inv])
    with more outbox_step_spent show ?case by metis
  qed simp
  then show ?thesis by (simp add: spent_def)
qed

theorem dropped_mail_never_delivered_witness:
  "\<exists>s s'. outbox_reachable (\<lambda>_. None) (\<lambda>_ b. b) s \<and> outbox_run (\<lambda>_. None) (\<lambda>_ b. b) s s' \<and> s' \<noteq> s
     \<and> (\<exists>r. queue_row 1 (sys_db s) = Some r) \<and> count_list (sys_accepted s') 1 = 0"
proof -
  let ?P = "(\<lambda>_. None) :: string \<Rightarrow> instant option"
  let ?R = "\<lambda>(_ :: instant) (b :: string). b"
  define s1 where "s1 = set_phase 0 (queue_next_id (sys_db (init_sys 0))) Owns
    ((init_sys 0)\<lparr>sys_db := snd (enqueue_mime (sys_clock (init_sys 0)) 1 None ''m'' ''a'' [''b''] False
       (sys_db (init_sys 0)))\<rparr>)"
  define s2 where "s2 = s1\<lparr>sys_db := fail_and_discard (sys_clock s1) 1 ''no password'' (sys_db s1)\<rparr>"
  define s3 where "s3 = s2\<lparr>sys_clock := 5\<rparr>"
  have r1: "outbox_reachable ?P ?R s1"
    unfolding s1_def by (rule outbox_reachable.step [OF outbox_reachable.start outbox_step.enqueue])
  have row: "queue_row 1 (sys_db s1) = Some (immediate_row 0 1 None ''m'' ''a'' [''b''] False 1)"
    and nxt: "queue_next_id (sys_db s1) = 2" and clock: "sys_clock s1 = 0"
    and ph: "\<And>p. sys_phase s1 p 1 \<noteq> InFlight" and acc: "sys_accepted s1 = []"
    by (simp_all add: s1_def init_sys_def empty_queue_def enqueue_mime_def Let_def insert_row_def
        queue_row_def row_at_def immediate_row_def)
  from r1 have r2: "outbox_reachable ?P ?R s2"
    unfolding s2_def
    by (rule outbox_reachable.step) (rule outbox_step.told_failed, simp add: row immediate_row_def)
  have run: "outbox_run ?P ?R s2 s3"
    unfolding s3_def by (rule outbox_run.more [OF outbox_run.here outbox_step.tick]) (simp add: s2_def clock)
  have q: "\<exists>r. queue_row 1 (sys_db s2) = Some r"
    and nb: "\<forall>r. queue_row 1 (sys_db s2) = Some r \<longrightarrow> \<not> has_bytes r"
    using row by (simp_all add: s2_def fail_and_discard_def queue_row_update immediate_row_def has_bytes_def)
  have "count_list (sys_accepted s3) 1 = count_list (sys_accepted s2) 1"
    using dropped_mail_never_delivered [OF r2 run, of 1] nxt ph nb
    by (simp add: s2_def fail_and_discard_def)
  moreover have "sys_clock s3 \<noteq> sys_clock s2" by (simp add: s3_def s2_def clock)
  hence "s3 \<noteq> s2" by auto
  ultimately show ?thesis using r2 run q acc by (intro exI [of _ s2] exI [of _ s3]) (simp add: s2_def)
qed

end
