(* ===== verification/Outbox_Planning.thy ===== *)
theory Outbox_Planning
  imports Outbox_Queue
begin

text \<open>
  What the outbox promises about when a mail is tried: the planners (\<open>next_due\<close>,
  \<open>due_scheduled_account_ids\<close>) agree with what a flush would submit, a failing scheduled send
  backs off and gives up after a bounded number of attempts, a give-up is reported exactly once,
  and the user's changes to a waiting row do what their messages say. All of it is about the
  operations of \<open>Outbox_Queue\<close>; the one new definition runs a list of failing attempts.
\<close>

subsection \<open>Due rows\<close>

lemma null_or_le_None [simp]: "null_or_le None t"
  by (simp add: null_or_le_def)

lemma null_or_le_Some [simp]: "null_or_le (Some s) t \<longleftrightarrow> s \<le> t"
  by (simp add: null_or_le_def)

lemma attempt_time_due:
  assumes "q_send_at r = Some s"
  shows "attempt_time r \<le> now \<longleftrightarrow> s \<le> secs now \<and> null_or_le (q_next_attempt_at r) (secs now)"
  using assms by (cases "q_next_attempt_at r") (auto simp: attempt_time_def at_stamp_le_iff)

text \<open>What \<open>promote_due\<close> does to one row.\<close>

definition promoted :: "instant \<Rightarrow> int \<Rightarrow> queued_send \<Rightarrow> queued_send" where
  "promoted now a r =
     (if promotable (secs now) a r then r\<lparr>q_status := Queued, q_updated_at := secs now\<rparr> else r)"

lemma promote_rows: "queue_rows (snd (promote_due now a db)) = map (promoted now a) (queue_rows db)"
  by (simp add: promote_due_def update_rows_def update_where_def promoted_def)

lemma promoted_send_at [simp]: "q_send_at (promoted now a r) = q_send_at r"
  by (simp add: promoted_def)

lemma waiting_due_iff:
  "waiting r \<and> attempt_time r \<le> now \<and> q_account_id r = a \<longleftrightarrow>
     q_send_at r \<noteq> None \<and> submittable (secs now) a (promoted now a r)"
proof (cases "q_send_at r")
  case (Some s)
  then show ?thesis
    by (cases "q_status r")
      (auto simp: waiting_def promoted_def promotable_def submittable_def HELD_STATUSES_def
        has_bytes_def attempt_time_due)
qed (simp add: waiting_def)

lemma set_list_submittable:
  "set (list_submittable now a db) = {r \<in> set (queue_rows db). submittable (secs now) a r}"
  by (auto simp: list_submittable_def)

lemma set_waiting_scheduled:
  "set (waiting_scheduled db) =
     (\<lambda>r. (q_account_id r, attempt_time r)) ` {r \<in> set (queue_rows db). waiting r}"
  by (auto simp: waiting_scheduled_def)

lemma sorted_remdups_adj_distinct: "sorted xs \<Longrightarrow> distinct (remdups_adj (xs :: int list))"
proof (induction xs rule: remdups_adj.induct)
  case (3 x y xs)
  show ?case
  proof (cases "x = y")
    case False
    with 3 have "\<forall>z \<in> set (y # xs). x < z" by fastforce
    with 3 False show ?thesis by auto
  qed (use 3 in auto)
qed simp_all

text \<open>
  The planner and the flush agree: the accounts \<open>due_scheduled_account_ids\<close> names are, in
  ascending order and once each, exactly those for which a flush run at the same moment (promote,
  then list) finds a scheduled mail to submit. No due mail is left without a wakeup and no wakeup
  finds nothing to do.
\<close>

theorem due_accounts_are_those_with_work:
  "sorted (due_scheduled_account_ids now db) \<and> distinct (due_scheduled_account_ids now db)
   \<and> set (due_scheduled_account_ids now db) =
      {a. \<exists>r \<in> set (list_submittable now a (snd (promote_due now a db))). q_send_at r \<noteq> None}"
proof (intro conjI)
  let ?ids = "map fst (filter (\<lambda>(_, at). at \<le> now) (waiting_scheduled db))"
  show "sorted (due_scheduled_account_ids now db)"
    by (simp add: due_scheduled_account_ids_def sorted_remdups_adj)
  show "distinct (due_scheduled_account_ids now db)"
    by (simp add: due_scheduled_account_ids_def sorted_remdups_adj_distinct)
  have "a \<in> set (due_scheduled_account_ids now db) \<longleftrightarrow>
      (\<exists>r \<in> set (queue_rows db). waiting r \<and> attempt_time r \<le> now \<and> q_account_id r = a)" for a
    by (force simp: due_scheduled_account_ids_def set_waiting_scheduled)
  also have "\<dots> a \<longleftrightarrow> (\<exists>r \<in> set (queue_rows db). q_send_at r \<noteq> None
      \<and> submittable (secs now) a (promoted now a r))" for a
    by (simp only: waiting_due_iff)
  also have "\<dots> a \<longleftrightarrow> (\<exists>r \<in> set (list_submittable now a (snd (promote_due now a db))).
      q_send_at r \<noteq> None)" for a
    by (auto simp: set_list_submittable promote_rows)
  finally show "set (due_scheduled_account_ids now db) =
      {a. \<exists>r \<in> set (list_submittable now a (snd (promote_due now a db))). q_send_at r \<noteq> None}"
    by blast
qed

lemma fold_min_Min: "fold min ts (t :: int) = Min (insert t (set ts))"
proof (induction ts arbitrary: t)
  case (Cons u ts)
  have "fold min (u # ts) t = Min (insert (min u t) (set ts))" by (simp add: Cons.IH)
  also have "\<dots> = Min (insert t (set (u # ts)))"
    by (cases "ts = []") (auto simp: min.assoc min.commute min.left_commute)
  finally show ?case .
qed simp

lemma due_ids_empty:
  "due_scheduled_account_ids now db = [] \<longleftrightarrow> (\<forall>u \<in> set (waiting_scheduled db). \<not> snd u \<le> now)"
proof -
  have "sort xs = [] \<longleftrightarrow> xs = []" for xs :: "int list"
    by (metis length_0_conv length_sort)
  then show ?thesis
    by (auto simp: due_scheduled_account_ids_def filter_empty_conv)
qed

lemma next_due_None: "next_due db = None \<longleftrightarrow> waiting_scheduled db = []"
  by (auto simp: next_due_def split: list.splits)

lemma next_due_Some: "next_due db = Some t \<Longrightarrow> t = Min (snd ` set (waiting_scheduled db))
    \<and> waiting_scheduled db \<noteq> []"
  by (auto simp: next_due_def fold_min_Min split: list.splits)

text \<open>
  The alarm is armed for the right moment: \<open>next_due\<close> is \<open>None\<close> exactly when nothing waits;
  otherwise it is the earliest attempt, and it has come exactly when some account is due.
\<close>

theorem next_due_is_earliest:
  "(case next_due db of
      None \<Rightarrow> filter waiting (queue_rows db) = [] \<and> due_scheduled_account_ids now db = []
    | Some t \<Rightarrow>
        (\<exists>r \<in> set (queue_rows db). waiting r \<and> attempt_time r = t)
        \<and> (\<forall>r \<in> set (queue_rows db). waiting r \<longrightarrow> t \<le> attempt_time r)
        \<and> (t \<le> now \<longleftrightarrow> due_scheduled_account_ids now db \<noteq> []))"
proof (cases "next_due db")
  case None
  then have "waiting_scheduled db = []" by (simp add: next_due_None)
  with None show ?thesis
    by (simp add: due_scheduled_account_ids_def waiting_scheduled_def)
next
  case (Some t)
  let ?T = "snd ` set (waiting_scheduled db)"
  from next_due_Some [OF Some] have t: "t = Min ?T" and ne: "?T \<noteq> {}" by auto
  have mem: "t \<in> ?T" unfolding t by (rule Min_in) (use ne in auto)
  have low: "\<forall>u \<in> ?T. t \<le> u" unfolding t by simp
  have T: "?T = attempt_time ` {r \<in> set (queue_rows db). waiting r}"
    by (force simp: set_waiting_scheduled)
  have "due_scheduled_account_ids now db \<noteq> [] \<longleftrightarrow> (\<exists>u \<in> ?T. u \<le> now)"
    by (auto simp: due_ids_empty)
  also have "\<dots> \<longleftrightarrow> t \<le> now" using mem low by force
  finally have due: "t \<le> now \<longleftrightarrow> due_scheduled_account_ids now db \<noteq> []" by simp
  have "\<exists>r \<in> set (queue_rows db). waiting r \<and> attempt_time r = t" using mem unfolding T by auto
  moreover have "\<forall>r \<in> set (queue_rows db). waiting r \<longrightarrow> t \<le> attempt_time r"
    using low unfolding T by auto
  ultimately show ?thesis using Some due by simp
qed

subsection \<open>Backing off and giving up\<close>

lemma nth_backoff:
  "nth_opt SCHEDULED_BACKOFF_SECS n = (if n < 4 then Some (SCHEDULED_BACKOFF_SECS ! n) else None)"
  by (simp add: nth_opt_def SCHEDULED_BACKOFF_SECS_def)

definition past_deadline :: "instant \<Rightarrow> queued_send \<Rightarrow> bool" where
  "past_deadline now r \<longleftrightarrow> (\<exists>at. q_send_at r = Some at
     \<and> at_stamp at + SCHEDULED_DEADLINE_SECS * ns_per_sec < now)"

lemma scheduled_decision_eq:
  "scheduled_decision now permanent r =
     (if permanent \<or> past_deadline now r \<or> 4 \<le> q_retries r then GaveUp
      else RetryAt (secs now + SCHEDULED_BACKOFF_SECS ! q_retries r))"
  by (auto simp: scheduled_decision_def past_deadline_def MAX_SEND_RETRIES_def nth_backoff
      secs_add_seconds Let_def split: option.splits)

text \<open>The failing attempts of one row, in order: when, with what error, refused for good or not.\<close>

fun run_failures :: "int \<Rightarrow> (instant \<times> string \<times> bool) list \<Rightarrow> send_queue \<Rightarrow> send_queue" where
  "run_failures i [] db = db"
| "run_failures i ((now, e, permanent) # fs) db =
     run_failures i fs (snd (fail_scheduled_attempt now i e permanent db))"

definition dead :: "queued_send \<Rightarrow> bool" where
  "dead r \<longleftrightarrow> q_status r = Failed \<and> MAX_SEND_RETRIES \<le> q_retries r \<and> q_next_attempt_at r = None"

lemma dead_not_tried: "dead r \<Longrightarrow> \<not> submittable due a r \<and> \<not> waiting r \<and> \<not> promotable due a r"
  by (auto simp: dead_def submittable_def waiting_def promotable_def)

lemma record_failure_bound:
  "q_retries (record_failure now e r (scheduled_decision now permanent r) r)
     = (if scheduled_decision now permanent r = GaveUp then MAX_SEND_RETRIES else Suc (q_retries r))"
  by (auto simp: record_failure_def split: scheduled_failure.splits)

lemma record_failure_dead:
  "dead (record_failure now e r (scheduled_decision now permanent r) r)
     \<longleftrightarrow> scheduled_decision now permanent r = GaveUp"
  by (auto simp: record_failure_def dead_def split: scheduled_failure.splits)

lemma dead_stays_dead:
  "dead r \<Longrightarrow> dead (record_failure now e r (scheduled_decision now permanent r) r)"
  unfolding record_failure_dead by (simp add: scheduled_decision_eq dead_def MAX_SEND_RETRIES_def)

lemma run_failures_row:
  "queue_row i db = Some r \<Longrightarrow>
   \<exists>r'. queue_row i (run_failures i fs db) = Some r'
     \<and> (dead r \<or> MAX_SEND_RETRIES \<le> q_retries r + length fs \<and> fs \<noteq> [] \<longrightarrow> dead r')"
proof (induction i fs db arbitrary: r rule: run_failures.induct)
  case (2 i now e permanent fs db)
  let ?r = "record_failure now e r (scheduled_decision now permanent r) r"
  have row: "queue_row i (snd (fail_scheduled_attempt now i e permanent db)) = Some ?r"
    using "2.prems" queue_row_id [OF "2.prems"] by (simp add: fail_scheduled_row)
  from "2.IH" [OF row] obtain r' where r': "queue_row i (run_failures i ((now, e, permanent) # fs) db) = Some r'"
    and d: "dead ?r \<or> MAX_SEND_RETRIES \<le> q_retries ?r + length fs \<and> fs \<noteq> [] \<longrightarrow> dead r'"
    by auto
  have "dead r'" if "MAX_SEND_RETRIES \<le> q_retries r + length ((now, e, permanent) # fs)"
  proof (cases "scheduled_decision now permanent r = GaveUp")
    case True
    then have "dead ?r" using record_failure_dead by blast
    with d show ?thesis by blast
  next
    case False
    then have "q_retries r < 4" by (auto simp: scheduled_decision_eq split: if_splits)
    with that have "fs \<noteq> []" by (auto simp: MAX_SEND_RETRIES_def)
    with that d False show ?thesis by (simp add: record_failure_bound)
  qed
  moreover have "dead r'" if "dead r"
    using that d dead_stays_dead by blast
  ultimately show ?case using r' by blast
qed auto

text \<open>
  C30. A failing scheduled send stops: whatever the errors and the moments, a row that has failed
  \<open>MAX_SEND_RETRIES\<close> times in all is dead, i.e. no flush submits it, no promotion moves it and no
  planner waits for it, at any later time; further failures change nothing about that.
\<close>

theorem scheduled_send_gives_up:
  assumes "queue_row i db = Some r" and "fs \<noteq> []" and "MAX_SEND_RETRIES \<le> q_retries r + length fs"
  shows "\<exists>r'. queue_row i (run_failures i fs db) = Some r' \<and> dead r'
    \<and> (\<forall>due a. \<not> submittable due a r' \<and> \<not> promotable due a r') \<and> \<not> waiting r'"
  using run_failures_row [OF assms(1), of fs] assms(2,3) dead_not_tried by metis

text \<open>A scheduled row due at second 100, alone in its table.\<close>

definition sample_row :: queued_send where
  "sample_row = scheduled_row 0 7 \<lparr>s_message_id = None, s_raw_mime = ''Subject: x'',
     s_envelope_from = ''a@b'', s_envelope_to = [''c@d''], s_request_dsn = False,
     s_notify_self = False, s_send_at = ''2026''\<rparr> 100 1"

definition sample_queue :: send_queue where
  "sample_queue = \<lparr>queue_rows = [sample_row], queue_next_id = 2\<rparr>"

lemma sample_queue_row [simp]: "queue_row 1 sample_queue = Some sample_row"
  by (simp add: sample_queue_def sample_row_def queue_row_def row_at_def scheduled_row_def)

lemma sample_queue_wf [simp]: "queue_wf sample_queue"
  by (simp add: sample_queue_def sample_row_def queue_wf_def scheduled_row_def)

theorem next_due_is_earliest_witness:
  "\<exists>t. next_due sample_queue = Some t \<and> t \<le> attempt_time sample_row
     \<and> (t \<le> 0 \<longleftrightarrow> due_scheduled_account_ids 0 sample_queue \<noteq> [])"
proof -
  have w: "waiting sample_row" and r: "queue_rows sample_queue = [sample_row]"
    by (simp_all add: sample_row_def sample_queue_def scheduled_row_def waiting_def has_bytes_def
        HELD_STATUSES_def MAX_SEND_RETRIES_def)
  from next_due_is_earliest [of sample_queue 0] w show ?thesis
    unfolding r by (cases "next_due sample_queue") auto
qed

theorem scheduled_send_gives_up_witness:
  "\<exists>r'. queue_row 1 (run_failures 1 (map (\<lambda>m. (m * 60 * ns_per_sec, ''offline'', False)) [1, 6, 21, 81, 261])
      sample_queue) = Some r' \<and> dead r'"
  using scheduled_send_gives_up [OF sample_queue_row,
      of "map (\<lambda>m. (m * 60 * ns_per_sec, ''offline'', False)) [1, 6, 21, 81, 261]"]
  by (simp add: MAX_SEND_RETRIES_def) blast

lemma record_failure_fields [simp]:
  "q_id (record_failure now e row d r) = q_id r"
  "q_account_id (record_failure now e row d r) = q_account_id r"
  "q_send_at (record_failure now e row d r) = q_send_at r"
  "q_raw_mime (record_failure now e row d r) = q_raw_mime r"
  "q_status (record_failure now e row d r) = Failed"
  "q_failure_noticed (record_failure now e row d r) = False"
  by (auto simp: record_failure_def split: scheduled_failure.splits)

lemma record_failure_next:
  "q_next_attempt_at (record_failure now e row d r) = (case d of RetryAt t \<Rightarrow> Some t | GaveUp \<Rightarrow> None)"
  "q_retries (record_failure now e row d r) = (case d of RetryAt t \<Rightarrow> Suc (q_retries row) | GaveUp \<Rightarrow> MAX_SEND_RETRIES)"
  by (auto simp: record_failure_def split: scheduled_failure.splits)

lemma fail_scheduled_result:
  "queue_row i db = Some r \<Longrightarrow>
   fail_scheduled_attempt now i e permanent db =
     (Inr (scheduled_decision now permanent r), snd (fail_scheduled_attempt now i e permanent db))"
  by (simp add: fail_scheduled_attempt_def queue_get_row Let_def)

text \<open>
  The schedule of a failing attempt, on every branch: it gives up exactly when the server
  refused for good, the deadline passed or it was the fifth attempt, and then the row waits to be
  reported; otherwise the next attempt is the pause of the attempts so far after now, and the row
  can be submitted exactly from that moment on (never before its own time).
\<close>

theorem failed_attempt_schedule:
  assumes "queue_row i db = Some r" and "has_bytes r" and "q_send_at r = Some at"
  shows "case fail_scheduled_attempt now i e permanent db of
      (Inl _, _) \<Rightarrow> False
    | (Inr GaveUp, db') \<Rightarrow>
        (permanent \<or> at_stamp at + 86400 * ns_per_sec < now \<or> 4 \<le> q_retries r)
        \<and> (\<exists>r'. queue_row i db' = Some r' \<and> dead r' \<and> unreported r')
    | (Inr (RetryAt t), db') \<Rightarrow>
        \<not> permanent \<and> now \<le> at_stamp at + 86400 * ns_per_sec \<and> q_retries r < 4
        \<and> t = secs now + SCHEDULED_BACKOFF_SECS ! q_retries r
        \<and> (\<exists>r'. queue_row i db' = Some r' \<and> q_retries r' = Suc (q_retries r)
             \<and> (\<forall>due. submittable due (q_account_id r) r' \<longleftrightarrow> at \<le> due \<and> t \<le> due))"
proof -
  let ?d = "scheduled_decision now permanent r"
  let ?r = "record_failure now e r ?d r"
  have row: "queue_row i (snd (fail_scheduled_attempt now i e permanent db)) = Some ?r"
    using assms(1) queue_row_id [OF assms(1)] by (simp add: fail_scheduled_row)
  have dead: "dead ?r \<longleftrightarrow> ?d = GaveUp" by (rule record_failure_dead)
  have late: "past_deadline now r \<longleftrightarrow> at_stamp at + 86400 * ns_per_sec < now"
    using assms(3) by (simp add: past_deadline_def SCHEDULED_DEADLINE_SECS_def)
  show ?thesis
  proof (cases ?d)
    case GaveUp
    with assms(3) have "unreported ?r" by (simp add: unreported_def record_failure_next)
    moreover have "permanent \<or> at_stamp at + 86400 * ns_per_sec < now \<or> 4 \<le> q_retries r"
      using GaveUp late by (auto simp: scheduled_decision_eq split: if_splits)
    ultimately show ?thesis
      using row dead GaveUp by (subst fail_scheduled_result [OF assms(1)]) auto
  next
    case (RetryAt t)
    have t: "\<not> permanent \<and> now \<le> at_stamp at + 86400 * ns_per_sec \<and> q_retries r < 4
        \<and> t = secs now + SCHEDULED_BACKOFF_SECS ! q_retries r"
      using RetryAt late by (auto simp: scheduled_decision_eq split: if_splits)
    moreover have "submittable due (q_account_id r) ?r \<longleftrightarrow> at \<le> due \<and> t \<le> due" for due
      using RetryAt assms(2,3) t
      by (simp add: submittable_def record_failure_next has_bytes_def MAX_SEND_RETRIES_def)
    moreover have "q_retries ?r = Suc (q_retries r)" using RetryAt by (simp add: record_failure_next)
    ultimately show ?thesis
      using row RetryAt by (subst fail_scheduled_result [OF assms(1)]) auto
  qed
qed

theorem failed_attempt_schedule_witness:
  "(case fail_scheduled_attempt (100 * ns_per_sec) 1 ''offline'' False sample_queue of
      (Inr (RetryAt t), db') \<Rightarrow> t = 400 | _ \<Rightarrow> False)"
proof -
  have b: "has_bytes sample_row" "q_send_at sample_row = Some 100" "q_retries sample_row = 0"
    by (simp_all add: sample_row_def scheduled_row_def has_bytes_def)
  show ?thesis
    using failed_attempt_schedule [OF sample_queue_row b(1,2), where now = "100 * ns_per_sec"
        and permanent = False and e = "''offline''"] b(3)
    by (simp add: secs_def SCHEDULED_BACKOFF_SECS_def at_stamp_def
        split: prod.splits sum.splits scheduled_failure.splits)
qed

subsection \<open>Give-ups are reported once\<close>

lemma mark_noticed_rows:
  "queue_rows (mark_noticed is db) =
     map (\<lambda>r. if q_id r \<in> set is then r\<lparr>q_failure_noticed := True\<rparr> else r) (queue_rows db)"
  by (induction "is" db rule: mark_noticed.induct) (auto simp: update_rows_def update_where_def)

lemma same_id_same_row: "queue_wf db \<Longrightarrow> r \<in> set (queue_rows db) \<Longrightarrow> r' \<in> set (queue_rows db) \<Longrightarrow>
    q_id r = q_id r' \<Longrightarrow> r = r'"
  using queue_row_of by (metis option.inject)

lemma noticed_rows:
  assumes "queue_wf db"
  shows "queue_rows (snd (take_failure_notices h db)) =
    map (\<lambda>r. if unreported r then r\<lparr>q_failure_noticed := True\<rparr> else r) (queue_rows db)"
proof -
  let ?ids = "q_id ` {r \<in> set (queue_rows db). unreported r}"
  have "q_id r \<in> ?ids \<longleftrightarrow> unreported r" if "r \<in> set (queue_rows db)" for r
    using same_id_same_row [OF assms] that by blast
  moreover have "queue_rows (snd (take_failure_notices h db)) =
      map (\<lambda>r. if q_id r \<in> ?ids then r\<lparr>q_failure_noticed := True\<rparr> else r) (queue_rows db)"
    by (simp add: take_failure_notices_def Let_def mark_noticed_rows)
  ultimately show ?thesis by (simp cong: map_cong)
qed

text \<open>
  Every give-up is reported exactly once: a call returns one notice per unreported give-up,
  oldest change first, changes nothing but their \<open>failure_noticed\<close> marks, and a second call
  returns nothing.
\<close>

theorem give_ups_reported_once:
  assumes "queue_wf db" and "take_failure_notices h db = (notices, db')"
  shows "set (map f_queue_id notices) = q_id ` {r \<in> set (queue_rows db). unreported r}
    \<and> length notices = count_where unreported (queue_rows db)
    \<and> queue_rows db' = map (\<lambda>r. if unreported r then r\<lparr>q_failure_noticed := True\<rparr> else r) (queue_rows db)
    \<and> fst (take_failure_notices h db') = []"
proof -
  from assms have n: "notices = map (notice_of h) (sort_key q_updated_at (filter unreported (queue_rows db)))"
    and rows: "queue_rows db' = map (\<lambda>r. if unreported r then r\<lparr>q_failure_noticed := True\<rparr> else r)
      (queue_rows db)"
    using noticed_rows [OF assms(1), of h] by (auto simp: take_failure_notices_def Let_def)
  have "f_queue_id (notice_of h r) = q_id r" for r
    by (simp add: notice_of_def Let_def)
  then have "set (map f_queue_id notices) = q_id ` {r \<in> set (queue_rows db). unreported r}"
    by (simp add: n image_image)
  moreover have "length notices = count_where unreported (queue_rows db)"
    by (simp add: n count_where_def)
  moreover have "filter unreported (queue_rows db') = []"
    by (auto simp: rows filter_empty_conv unreported_def)
  then have "fst (take_failure_notices h db') = []"
    by (simp add: take_failure_notices_def Let_def)
  ultimately show ?thesis using rows by blast
qed

theorem give_ups_reported_once_witness:
  "\<exists>notices db'. take_failure_notices (\<lambda>_. Some ''hi'')
      (snd (fail_scheduled_attempt 0 1 ''no such user'' True sample_queue)) = (notices, db')
    \<and> length notices = 1 \<and> fst (take_failure_notices (\<lambda>_. Some ''hi'') db') = []"
proof -
  let ?db = "snd (fail_scheduled_attempt 0 1 ''no such user'' True sample_queue)"
  obtain notices db' where t: "take_failure_notices (\<lambda>_. Some ''hi'') ?db = (notices, db')"
    by (cases "take_failure_notices (\<lambda>_. Some ''hi'') ?db")
  have "queue_wf ?db"
    by (simp add: fail_scheduled_attempt_def queue_get_row Let_def queue_wf_update)
  from give_ups_reported_once [OF this t] have
    "length notices = count_where unreported (queue_rows ?db)"
    "fst (take_failure_notices (\<lambda>_. Some ''hi'') db') = []" by auto
  moreover have "count_where unreported (queue_rows ?db) = 1"
    by (simp add: fail_scheduled_attempt_def queue_get_row Let_def update_rows_def sample_queue_def
        sample_row_def scheduled_row_def queue_row_def table_simps unreported_def record_failure_next
        scheduled_decision_eq)
  ultimately show ?thesis using t by auto
qed

subsection \<open>An account that cannot be tried\<close>

lemma due_scheduled_waiting:
  "due_scheduled (secs now) a r \<longleftrightarrow> waiting r \<and> attempt_time r \<le> now \<and> q_account_id r = a"
  by (cases "q_send_at r") (auto simp: due_scheduled_def waiting_def attempt_time_due)

definition failed_due :: "instant \<Rightarrow> string \<Rightarrow> queued_send \<Rightarrow> queued_send" where
  "failed_due now e r = record_failure now e r (scheduled_decision now False r) r"

lemma failed_due_not_due: "\<not> due_scheduled (secs now) a (failed_due now e r)"
proof -
  have "n = 0 \<or> n = 1 \<or> n = 2 \<or> n = 3 \<Longrightarrow> 0 < SCHEDULED_BACKOFF_SECS ! n" for n :: nat
    by (auto simp: SCHEDULED_BACKOFF_SECS_def)
  moreover have "n < 4 \<Longrightarrow> n = 0 \<or> n = 1 \<or> n = 2 \<or> n = 3" for n :: nat by auto
  ultimately have "n < 4 \<Longrightarrow> 0 < SCHEDULED_BACKOFF_SECS ! n" for n by blast
  then have pause: "\<not> SCHEDULED_BACKOFF_SECS ! q_retries r \<le> 0" if "\<not> 4 \<le> q_retries r"
    using that by (simp add: not_le)
  show ?thesis
    by (cases "4 \<le> q_retries r")
      (simp_all add: due_scheduled_def failed_due_def record_failure_next scheduled_decision_eq pause)
qed

lemma fail_scheduled_keeps_wf: "queue_wf db \<Longrightarrow> queue_wf (snd (fail_scheduled_attempt now i e p db))"
  by (simp add: fail_scheduled_attempt_def queue_get_row Let_def queue_wf_update split: option.splits)

lemma fail_scheduled_rows:
  assumes "queue_wf db" and "queue_row i db = Some r"
  shows "fst (fail_scheduled_attempt now i e False db) = Inr (scheduled_decision now False r)"
    and "queue_rows (snd (fail_scheduled_attempt now i e False db)) =
      map (\<lambda>r. if q_id r = i then failed_due now e r else r) (queue_rows db)"
  using assms same_id_same_row [OF assms(1) queue_row_in [OF assms(2)]] queue_row_id [OF assms(2)]
  by (auto simp: fail_scheduled_attempt_def queue_get_row Let_def update_rows_def update_where_def
      failed_due_def)

lemma failed_due_id [simp]: "q_id (failed_due now e r) = q_id r"
  by (simp add: failed_due_def)

lemma fail_each_rows:
  assumes "queue_wf db" and "distinct ids" and "set ids \<subseteq> q_id ` set (queue_rows db)"
  shows "fst (fail_each now e ids db) = Inr ()
    \<and> queue_rows (snd (fail_each now e ids db)) =
        map (\<lambda>r. if q_id r \<in> set ids then failed_due now e r else r) (queue_rows db)"
  using assms
proof (induction "ids" arbitrary: db)
  case (Cons i "ids")
  from Cons.prems obtain r where r: "queue_row i db = Some r"
    using queue_row_of by fastforce
  let ?db = "snd (fail_scheduled_attempt now i e False db)"
  note step = fail_scheduled_rows [OF Cons.prems(1) r, of now e]
  have "q_id ` set (queue_rows ?db) = q_id ` set (queue_rows db)"
    unfolding step(2) set_map image_image by (rule image_cong) simp_all
  with Cons.IH [OF fail_scheduled_keeps_wf [OF Cons.prems(1)]] Cons.prems have
    "fst (fail_each now e ids ?db) = Inr ()"
    "queue_rows (snd (fail_each now e ids ?db)) =
        map (\<lambda>r. if q_id r \<in> set ids then failed_due now e r else r) (queue_rows ?db)" by auto
  moreover have "fail_each now e (i # ids) db = fail_each now e ids ?db"
    using step(1) by (cases "fail_scheduled_attempt now i e False db") simp
  ultimately show ?case
    using Cons.prems by (auto simp: step(2))
qed simp

text \<open>
  When an account cannot be tried at all (no password, broken settings), every due scheduled
  mail of it counts one failed attempt, no other row changes, the call succeeds, and afterwards
  the account is not due any more: the next run does not retry it at once.
\<close>

theorem untriable_account_backs_off:
  assumes "queue_wf db"
  shows "let ids = {q_id r | r. r \<in> set (queue_rows db) \<and> due_scheduled (secs now) a r};
             db' = snd (fail_due_scheduled now a e db)
         in fst (fail_due_scheduled now a e db) = Inr (card ids)
          \<and> queue_rows db' = map (\<lambda>r. if q_id r \<in> ids then failed_due now e r else r) (queue_rows db)
          \<and> a \<notin> set (due_scheduled_account_ids now db')"
proof -
  define ids where "ids = map q_id (filter (due_scheduled (secs now) a) (queue_rows db))"
  let ?ids = "{q_id r | r. r \<in> set (queue_rows db) \<and> due_scheduled (secs now) a r}"
  have set_ids: "set ids = ?ids" by (auto simp: ids_def)
  have dist: "distinct ids" using assms by (simp add: ids_def queue_wf_def distinct_map_filter)
  have sub: "set ids \<subseteq> q_id ` set (queue_rows db)" by (auto simp: ids_def)
  note each = fail_each_rows [OF assms dist sub, of now e]
  have call: "fail_due_scheduled now a e db = (Inr (length ids), snd (fail_each now e ids db))"
    using each by (cases "fail_each now e ids db") (simp add: fail_due_scheduled_def ids_def Let_def)
  have rows: "queue_rows (snd (fail_due_scheduled now a e db)) =
      map (\<lambda>r. if q_id r \<in> ?ids then failed_due now e r else r) (queue_rows db)"
    using each by (simp add: call set_ids)
  have "a \<notin> set (due_scheduled_account_ids now (snd (fail_due_scheduled now a e db)))"
  proof
    assume "a \<in> set (due_scheduled_account_ids now (snd (fail_due_scheduled now a e db)))"
    then obtain r where r: "r \<in> set (queue_rows (snd (fail_due_scheduled now a e db)))"
      and due: "due_scheduled (secs now) a r"
      unfolding due_scheduled_waiting
      by (force simp: due_scheduled_account_ids_def set_waiting_scheduled)
    from r obtain r0 where "r0 \<in> set (queue_rows db)" "r = (if q_id r0 \<in> ?ids then failed_due now e r0 else r0)"
      unfolding rows set_map by (elim imageE) (rule that)
    with due show False using failed_due_not_due [of now a e r0] by (auto split: if_splits)
  qed
  moreover have "length ids = card ?ids" using dist by (metis distinct_card set_ids)
  ultimately show ?thesis using rows by (simp add: Let_def call)
qed

theorem untriable_account_backs_off_witness:
  "due_scheduled_account_ids (100 * ns_per_sec) sample_queue = [7]
   \<and> 7 \<notin> set (due_scheduled_account_ids (100 * ns_per_sec)
        (snd (fail_due_scheduled (100 * ns_per_sec) 7 ''no password'' sample_queue)))"
  using untriable_account_backs_off [OF sample_queue_wf, of "100 * ns_per_sec" 7 "''no password''"]
  by (simp only: Let_def)
    (simp add: due_scheduled_account_ids_def waiting_scheduled_def sample_queue_def
      sample_row_def scheduled_row_def waiting_def HELD_STATUSES_def has_bytes_def
      MAX_SEND_RETRIES_def attempt_time_def at_stamp_def)

subsection \<open>The user's changes\<close>

lemma update_rows_none:
  "count_where p (queue_rows db) = 0 \<Longrightarrow> update_rows p f db = (0, db)"
  by (simp add: update_rows_def update_where_idle count_where_0_iff)

lemma update_rows_hits: "fst (update_rows p f db) = count_where p (queue_rows db)"
  by (simp add: update_rows_def)

lemma count_movable:
  "queue_wf db \<Longrightarrow> count_where (movable a i) (queue_rows db) =
     (case queue_row i db of None \<Rightarrow> 0 | Some r \<Rightarrow> if movable a i r then 1 else 0)"
  using count_queue_row [of db i "\<lambda>r. q_account_id r = a \<and> q_status r \<in> HELD_STATUSES \<and> has_bytes r"]
  by (auto simp: movable_def [abs_def] dest: queue_row_id split: option.splits)

lemma movable_refused:
  assumes "queue_wf db" and "\<forall>r. queue_row i db = Some r \<longrightarrow> \<not> movable a i r"
  shows "update_rows (movable a i) f db = (0, db)"
  using assms by (intro update_rows_none) (auto simp: count_movable split: option.splits)

lemma movable_moved:
  assumes "queue_wf db" and "queue_row i db = Some r" and "movable a i r"
    and "\<And>r. q_id (f r) = q_id r"
  shows "fst (update_rows (movable a i) f db) = 1"
    and "queue_row i (snd (update_rows (movable a i) f db)) = Some (f r)"
    and "j \<noteq> i \<Longrightarrow> queue_row j (snd (update_rows (movable a i) f db)) = queue_row j db"
proof -
  show "fst (update_rows (movable a i) f db) = 1"
    using assms by (simp add: update_rows_hits count_movable)
  show "queue_row i (snd (update_rows (movable a i) f db)) = Some (f r)"
    using assms by (simp add: queue_row_update)
  show "j \<noteq> i \<Longrightarrow> queue_row j (snd (update_rows (movable a i) f db)) = queue_row j db"
    using assms(4) by (cases "queue_row j db") (auto simp: queue_row_update movable_def dest: queue_row_id)
qed

lemma account_due:
  "waiting r \<and> attempt_time r \<le> now \<and> q_account_id r = a \<Longrightarrow> r \<in> set (queue_rows db) \<Longrightarrow>
   a \<in> set (due_scheduled_account_ids now db)"
  by (force simp: due_scheduled_account_ids_def set_waiting_scheduled)

text \<open>
  Rescheduling, on every branch: a time that is unreadable or less than a minute ahead is
  refused and changes nothing; a row that is the account's, held and has its bytes then waits for
  exactly the new time with its failures forgotten, and no other row changes; any other row is
  left alone and the error says why (gone or another account's, being sent, no bytes left).
\<close>

theorem reschedule_outcome:
  assumes "queue_wf db"
  shows "case normalize_future_send_at parse now raw of
      Inl e \<Rightarrow> reschedule parse now a i raw db = (Inl e, db)
    | Inr t \<Rightarrow>
        secs now + 60 \<le> t
        \<and> (case queue_row i db of
             None \<Rightarrow> reschedule parse now a i raw db =
               (Inl (NotFound (''queue entry '' @ string_of_int i)), db)
           | Some r \<Rightarrow>
               if movable a i r
               then (\<exists>db' r'. reschedule parse now a i raw db = (Inr t, db') \<and> queue_row i db' = Some r'
                     \<and> waiting r' \<and> attempt_time r' = at_stamp t \<and> q_raw_mime r' = q_raw_mime r
                     \<and> q_last_error r' = None
                     \<and> (\<forall>due. due < t \<longrightarrow> \<not> submittable due a (promoted (at_stamp due) a r'))
                     \<and> (\<forall>j. j \<noteq> i \<longrightarrow> queue_row j db' = queue_row j db))
               else reschedule parse now a i raw db =
                 (Inl (if q_account_id r \<noteq> a then NotFound ''outbox entry''
                       else if q_status r \<in> {Sending, Sent}
                       then InvalidInput ''this entry is already being sent''
                       else InvalidInput ''this entry has no message data left; send it again by hand''),
                  db))"
proof (cases "normalize_future_send_at parse now raw")
  case (Inl e)
  then show ?thesis by (simp add: reschedule_def)
next
  case (Inr t)
  then obtain u where "t = secs u" "now + 60 * ns_per_sec \<le> u"
    by (auto simp: normalize_future_send_at_def SCHEDULE_LEAD_SECS_def split: option.splits if_splits)
  then have lead: "secs now + 60 \<le> t"
    using secs_mono [of "now + 60 * ns_per_sec" u] secs_add_seconds [of now 60] by simp
  show ?thesis
  proof (cases "queue_row i db")
    case None
    then show ?thesis
      using Inr lead assms movable_refused [of db i a]
      by (simp add: reschedule_def unchanged_reason_def queue_get_row)
  next
    case (Some r)
    note row = this
    show ?thesis
    proof (cases "movable a i r")
      case False
      have id: "q_id r = i" using Some by (rule queue_row_id)
      have "q_status r \<in> {Scheduled, Queued, Failed} \<longleftrightarrow> q_status r \<notin> {Sending, Sent}"
        by (cases "q_status r") auto
      with False show ?thesis
        using Inr lead row assms movable_refused [of db i a]
        by (simp add: reschedule_def unchanged_reason_def queue_get_row)
    next
      case True
      let ?f = "\<lambda>r. r\<lparr>q_status := Scheduled, q_send_at := Some t, q_retries := 0,
             q_last_error := None, q_next_attempt_at := None,
             q_failure_noticed := False, q_updated_at := secs now\<rparr>"
      note moved = movable_moved [OF assms row True, of ?f]
      have acc: "q_account_id r = a" and bytes: "has_bytes r"
        using True by (auto simp: movable_def)
      have "reschedule parse now a i raw db = (Inr t, snd (update_rows (movable a i) ?f db))"
        using Inr moved(1) by (simp add: reschedule_def case_prod_beta)
      moreover have "waiting (?f r)" "attempt_time (?f r) = at_stamp t"
        using bytes by (simp_all add: waiting_def HELD_STATUSES_def has_bytes_def MAX_SEND_RETRIES_def
            attempt_time_def)
      moreover have "\<forall>due. due < t \<longrightarrow> \<not> submittable due a (promoted (at_stamp due) a (?f r))"
        by (simp add: submittable_def promoted_def promotable_def)
      ultimately show ?thesis
        using Inr lead row True moved(2,3) by simp
    qed
  qed
qed

theorem reschedule_outcome_witness:
  "\<exists>db' r'. reschedule (\<lambda>_. Some (at_stamp 500)) 0 7 1 ''later'' sample_queue = (Inr 500, db')
     \<and> queue_row 1 db' = Some r' \<and> attempt_time r' = at_stamp 500"
proof -
  have "normalize_future_send_at (\<lambda>_. Some (at_stamp 500)) 0 ''later'' = Inr 500"
    by (simp add: normalize_future_send_at_def SCHEDULE_LEAD_SECS_def at_stamp_def secs_def)
  moreover have "movable 7 1 sample_row"
    by (simp add: movable_def sample_row_def scheduled_row_def HELD_STATUSES_def has_bytes_def)
  ultimately show ?thesis
    using reschedule_outcome [OF sample_queue_wf, where parse = "\<lambda>_. Some (at_stamp 500)" and now = 0
        and raw = "''later''" and a = 7 and i = 1]
    by simp blast
qed

text \<open>
  Send now makes a waiting row due at once: it succeeds exactly on rows \<open>reschedule\<close> would
  take, the row is then submittable at that very moment, the planners see its account as due, and
  any other row is left alone.
\<close>

theorem send_now_is_due:
  assumes "queue_wf db"
  shows "case queue_row i db of
      Some r \<Rightarrow>
        (if movable a i r
         then (\<exists>db' r'. send_now now a i db = (Inr (), db') \<and> queue_row i db' = Some r'
                 \<and> submittable (secs now) a r' \<and> a \<in> set (due_scheduled_account_ids now db')
                 \<and> (\<forall>j. j \<noteq> i \<longrightarrow> queue_row j db' = queue_row j db))
         else (\<exists>e. send_now now a i db = (Inl e, db)))
    | None \<Rightarrow> (\<exists>e. send_now now a i db = (Inl e, db))"
proof (cases "\<exists>r. queue_row i db = Some r \<and> movable a i r")
  case True
  then obtain r where row: "queue_row i db = Some r" and mov: "movable a i r" by blast
  let ?f = "\<lambda>r. r\<lparr>q_status := Queued, q_send_at := Some (secs now), q_retries := 0,
             q_last_error := None, q_next_attempt_at := None,
             q_failure_noticed := False, q_updated_at := secs now\<rparr>"
  let ?db = "snd (update_rows (movable a i) ?f db)"
  note moved = movable_moved [OF assms row mov, of ?f]
  have acc: "q_account_id r = a" and bytes: "has_bytes r" using mov by (auto simp: movable_def)
  have call: "send_now now a i db = (Inr (), ?db)"
    using moved(1) by (simp add: send_now_def case_prod_beta)
  have row': "queue_row i ?db = Some (?f r)" using moved(2) by simp
  have sub: "submittable (secs now) a (?f r)"
    using acc bytes by (simp add: submittable_def has_bytes_def MAX_SEND_RETRIES_def)
  then have "waiting (?f r) \<and> attempt_time (?f r) \<le> now \<and> q_account_id (?f r) = a"
    unfolding waiting_due_iff by (simp add: promoted_def promotable_def)
  then have "a \<in> set (due_scheduled_account_ids now ?db)"
    using queue_row_in [OF row'] by (rule account_due)
  then show ?thesis using call row row' sub mov moved(3) by simp
next
  case False
  then have "send_now now a i db = (Inl (unchanged_reason a i db), db)"
    using movable_refused [OF assms, of i a] by (simp add: send_now_def)
  with False show ?thesis by (auto split: option.splits)
qed

theorem send_now_is_due_witness:
  "\<exists>db'. send_now (5 * ns_per_sec) 7 1 sample_queue = (Inr (), db')
     \<and> 7 \<in> set (due_scheduled_account_ids (5 * ns_per_sec) db')"
  using send_now_is_due [OF sample_queue_wf, where i = 1 and a = 7 and now = "5 * ns_per_sec"]
  by (simp add: movable_def sample_row_def scheduled_row_def HELD_STATUSES_def has_bytes_def) blast

subsection \<open>A stale candidate list\<close>

text \<open>
  \<open>claim\<close> looks at the status alone: a flush that listed a row before another process's attempt of
  it failed still wins the claim, inside the pause (or after the give-up) that attempt recorded.
\<close>

lemma claim_ignores_the_pause:
  assumes "queue_wf db" and "queue_row i db = Some r"
  shows "fst (claim now i (snd (fail_scheduled_attempt now i e permanent db)))"
  using assms by (simp add: claim_wins fail_scheduled_keeps_wf fail_scheduled_row queue_row_id)

end
