(* ===== verification/Text.thy ===== *)
theory Text
  imports Prelude
begin

text \<open>
  The string methods of Rust's standard library the code uses, on texts as lists of UTF-8 bytes:
  search, split, prefixes, lines, words, replacement, each with the facts that tie it to the
  concatenation it takes apart.
\<close>

abbreviation newline :: char where "newline \<equiv> CHR 0x0A"
abbreviation carriage_return :: char where "carriage_return \<equiv> CHR 0x0D"
abbreviation tab :: char where "tab \<equiv> CHR 0x09"
abbreviation space :: char where "space \<equiv> CHR 0x20"
abbreviation crlf :: string where "crlf \<equiv> [carriage_return, newline]"

subsection \<open>Prefixes and search\<close>

definition starts_with :: "string \<Rightarrow> string \<Rightarrow> bool" where
  "starts_with s p \<longleftrightarrow> take (length p) s = p"

definition ends_with :: "string \<Rightarrow> string \<Rightarrow> bool" where
  "ends_with s p \<longleftrightarrow> length p \<le> length s \<and> drop (length s - length p) s = p"

definition strip_prefix :: "string \<Rightarrow> string \<Rightarrow> string option" where
  "strip_prefix p s = (if starts_with s p then Some (drop (length p) s) else None)"

definition strip_suffix :: "string \<Rightarrow> string \<Rightarrow> string option" where
  "strip_suffix p s = (if ends_with s p then Some (take (length s - length p) s) else None)"

lemma starts_with_append [simp]: "starts_with (p @ s) p"
  by (simp add: starts_with_def)

lemma starts_with_iff: "starts_with s p \<longleftrightarrow> (\<exists>r. s = p @ r)"
  unfolding starts_with_def by (metis append_eq_conv_conj append_take_drop_id)

lemma starts_with_Nil [simp]: "starts_with s []"
  by (simp add: starts_with_def)

lemma Nil_starts_with [simp]: "starts_with [] p \<longleftrightarrow> p = []"
  by (auto simp: starts_with_def)

lemma starts_with_Cons [simp]: "starts_with (x # s) (y # p) \<longleftrightarrow> x = y \<and> starts_with s p"
  by (auto simp: starts_with_def)

lemma ends_with_iff: "ends_with s p \<longleftrightarrow> (\<exists>r. s = r @ p)"
proof
  assume "ends_with s p"
  then have "s = take (length s - length p) s @ p"
    unfolding ends_with_def by (metis append_take_drop_id)
  then show "\<exists>r. s = r @ p" ..
qed (auto simp: ends_with_def)

lemma strip_prefix_Some: "strip_prefix p s = Some r \<longleftrightarrow> s = p @ r"
  by (auto simp: strip_prefix_def starts_with_iff)

lemma strip_suffix_Some: "strip_suffix p s = Some r \<longleftrightarrow> s = r @ p"
  by (auto simp: strip_suffix_def ends_with_iff)

text \<open>The first index where a (non-empty) text occurs, as \<open>find\<close> and \<open>windows().position()\<close>.\<close>

fun find_sub :: "string \<Rightarrow> string \<Rightarrow> nat option" where
  "find_sub needle [] = (if needle = [] then Some 0 else None)"
| "find_sub needle (c # s) =
     (if starts_with (c # s) needle then Some 0 else map_option Suc (find_sub needle s))"

definition contains_sub :: "string \<Rightarrow> string \<Rightarrow> bool" where
  "contains_sub s needle \<longleftrightarrow> find_sub needle s \<noteq> None"

lemma find_sub_Some: "find_sub n s = Some i \<Longrightarrow> \<exists>a b. s = a @ n @ b \<and> length a = i"
proof (induction n s arbitrary: i rule: find_sub.induct)
  case (2 n c s)
  show ?case
  proof (cases "starts_with (c # s) n")
    case True
    with 2 show ?thesis by (auto simp: starts_with_iff)
  next
    case False
    with 2 obtain j where "find_sub n s = Some j" "i = Suc j" by auto
    with 2 False obtain a b where "s = a @ n @ b" "length a = j" by blast
    then have "c # s = (c # a) @ n @ b \<and> length (c # a) = i" using \<open>i = Suc j\<close> by simp
    then show ?thesis by blast
  qed
qed (auto split: if_splits)

lemma find_sub_least: "find_sub n (a @ n @ b) \<noteq> None"
proof (induction a)
  case Nil
  have "starts_with (n @ b) n" by simp
  then show ?case by (cases "n @ b") (auto simp del: starts_with_append)
qed auto

lemma contains_sub_iff: "contains_sub s n \<longleftrightarrow> (\<exists>a b. s = a @ n @ b)"
  unfolding contains_sub_def using find_sub_Some find_sub_least by fastforce

definition contains_char :: "string \<Rightarrow> char \<Rightarrow> bool" where
  "contains_char s c \<longleftrightarrow> c \<in> set s"

subsection \<open>Splitting\<close>

text \<open>\<open>split(c)\<close>: never empty, and a text without the separator is one piece.\<close>

fun split_on :: "char \<Rightarrow> string \<Rightarrow> string list" where
  "split_on c [] = [[]]"
| "split_on c (x # xs) =
     (if x = c then [] # split_on c xs
      else (case split_on c xs of [] \<Rightarrow> [[x]] | w # ws \<Rightarrow> (x # w) # ws))"

lemma split_on_nonempty [simp]: "split_on c s \<noteq> []"
  by (induction s) (auto split: list.splits)

lemma split_on_pieces: "w \<in> set (split_on c s) \<Longrightarrow> c \<notin> set w"
  by (induction s arbitrary: w) (auto split: list.splits if_splits)

lemma join_Cons: "ws \<noteq> [] \<Longrightarrow> join sep (w # ws) = w @ sep @ join sep ws"
  by (cases ws) auto

lemma join_split_on [text_simps]: "join [c] (split_on c s) = s"
proof (induction s)
  case (Cons x xs)
  show ?case
  proof (cases "x = c")
    case True
    with Cons show ?thesis by (simp add: join_Cons)
  next
    case False
    obtain w ws where "split_on c xs = w # ws" by (cases "split_on c xs") auto
    with False Cons show ?thesis by (cases ws) auto
  qed
qed simp

lemma split_on_none: "c \<notin> set s \<Longrightarrow> split_on c s = [s]"
  by (induction s) auto

lemma split_on_append: "c \<notin> set w \<Longrightarrow> split_on c (w @ c # s) = w # split_on c s"
  by (induction w) auto

lemma split_on_join:
  "ws \<noteq> [] \<Longrightarrow> \<forall>w \<in> set ws. c \<notin> set w \<Longrightarrow> split_on c (join [c] ws) = ws"
proof (induction ws)
  case (Cons w ws)
  then show ?case
    by (cases "ws = []") (simp_all add: split_on_none join_Cons split_on_append)
qed simp

lemma set_split_on: "w \<in> set (split_on c s) \<Longrightarrow> set w \<subseteq> set s"
  by (induction s arbitrary: w) (fastforce split: list.splits if_splits)+

definition split_once :: "char \<Rightarrow> string \<Rightarrow> (string \<times> string) option" where
  "split_once c s =
     (if c \<in> set s then Some (takeWhile (\<lambda>x. x \<noteq> c) s, tl (dropWhile (\<lambda>x. x \<noteq> c) s)) else None)"

definition rsplit_once :: "char \<Rightarrow> string \<Rightarrow> (string \<times> string) option" where
  "rsplit_once c s =
     (case split_once c (rev s) of None \<Rightarrow> None | Some (b, a) \<Rightarrow> Some (rev a, rev b))"

lemma split_once_Some: "split_once c s = Some (a, b) \<longleftrightarrow> s = a @ c # b \<and> c \<notin> set a"
proof
  assume l: "split_once c s = Some (a, b)"
  then have c: "c \<in> set s" and a: "a = takeWhile (\<lambda>x. x \<noteq> c) s" and b: "b = tl (dropWhile (\<lambda>x. x \<noteq> c) s)"
    by (auto simp: split_once_def split: if_splits)
  from c have "dropWhile (\<lambda>x. x \<noteq> c) s \<noteq> []" by (simp add: dropWhile_eq_Nil_conv)
  then have "dropWhile (\<lambda>x. x \<noteq> c) s = c # b"
    using b hd_dropWhile [of "\<lambda>x. x \<noteq> c" s] by (cases "dropWhile (\<lambda>x. x \<noteq> c) s") auto
  then show "s = a @ c # b \<and> c \<notin> set a"
    using a takeWhile_dropWhile_id [of "\<lambda>x. x \<noteq> c" s] set_takeWhileD by metis
next
  assume "s = a @ c # b \<and> c \<notin> set a"
  moreover have "c \<notin> set a \<Longrightarrow> takeWhile (\<lambda>x. x \<noteq> c) (a @ c # b) = a \<and> dropWhile (\<lambda>x. x \<noteq> c) (a @ c # b) = c # b"
    by (induction a) auto
  ultimately show "split_once c s = Some (a, b)" by (simp add: split_once_def)
qed

lemma split_once_None: "split_once c s = None \<longleftrightarrow> c \<notin> set s"
  by (simp add: split_once_def)

lemma rsplit_once_Some: "rsplit_once c s = Some (a, b) \<longleftrightarrow> s = a @ c # b \<and> c \<notin> set b"
proof -
  have "rsplit_once c s = Some (a, b) \<longleftrightarrow> split_once c (rev s) = Some (rev b, rev a)"
    by (auto simp: rsplit_once_def split: option.splits)
  also have "\<dots> \<longleftrightarrow> rev s = rev b @ c # rev a \<and> c \<notin> set b" by (simp add: split_once_Some)
  also have "rev s = rev b @ c # rev a \<longleftrightarrow> s = a @ c # b"
    by (metis append.assoc append_Cons append_Nil rev.simps(2) rev_append rev_rev_ident rev_singleton_conv)
  finally show ?thesis .
qed

lemma rsplit_once_None: "rsplit_once c s = None \<longleftrightarrow> c \<notin> set s"
  using split_once_None [of c "rev s"] by (cases "split_once c (rev s)") (auto simp: rsplit_once_def)

text \<open>\<open>lines()\<close>: a final line without a newline counts, an empty one does not.\<close>

definition strip_cr :: "string \<Rightarrow> string" where
  "strip_cr l = (if l \<noteq> [] \<and> last l = carriage_return then butlast l else l)"

definition lines :: "string \<Rightarrow> string list" where
  "lines s =
     (let ps = split_on newline s
      in map strip_cr (butlast ps) @ (if last ps = [] then [] else [last ps]))"

text \<open>\<open>split_whitespace()\<close> on a text: the words between runs of white space.\<close>

function words_from :: "string \<Rightarrow> string \<Rightarrow> string list" where
  "words_from w s =
     (if s = [] then (if w = [] then [] else [w])
      else if ws_prefix s = 0 then words_from (w @ [hd s]) (tl s)
      else (if w = [] then [] else [w]) @ words_from [] (drop (ws_prefix s) s))"
  by pat_completeness auto
termination
  by (relation "measure (\<lambda>(w, s). length s)") auto

declare words_from.simps [simp del]

definition split_whitespace :: "string \<Rightarrow> string list" where
  "split_whitespace s = words_from [] s"

lemma words_from_nonempty: "v \<in> set (words_from w s) \<Longrightarrow> v \<noteq> []"
  by (induction w s rule: words_from.induct) (subst (asm) words_from.simps, auto split: if_splits)

text \<open>\<open>replace(from, to)\<close> with a non-empty \<open>from\<close>: left to right, without overlaps.\<close>

function replace_all :: "string \<Rightarrow> string \<Rightarrow> string \<Rightarrow> string" where
  "replace_all frm to s =
     (if s = [] \<or> frm = [] then s
      else if starts_with s frm then to @ replace_all frm to (drop (length frm) s)
      else hd s # replace_all frm to (tl s))"
  by pat_completeness auto
termination
  by (relation "measure (\<lambda>(f, t, s). length s)") auto

declare replace_all.simps [simp del]

definition is_ascii :: "string \<Rightarrow> bool" where
  "is_ascii s \<longleftrightarrow> list_all (\<lambda>c. code c < 128) s"

subsection \<open>Numbers as text\<close>

text \<open>\<open>str::parse\<close> to an integer type: an optional sign, at least one digit, within the range.\<close>

definition digit_value :: "char \<Rightarrow> nat" where
  "digit_value c = code c - 48"

fun value_of_digits :: "nat \<Rightarrow> string \<Rightarrow> nat" where
  "value_of_digits acc [] = acc"
| "value_of_digits acc (c # s) = value_of_digits (acc * 10 + digit_value c) s"

definition parse_nat :: "string \<Rightarrow> nat option" where
  "parse_nat s = (if s \<noteq> [] \<and> list_all is_ascii_digit s then Some (value_of_digits 0 s) else None)"

definition parse_unsigned :: "nat \<Rightarrow> string \<Rightarrow> nat option" where
  "parse_unsigned bound s =
     (case parse_nat (if starts_with s ''+'' then tl s else s) of
        None \<Rightarrow> None
      | Some n \<Rightarrow> if n \<le> bound then Some n else None)"

definition i64_max :: int where "i64_max = 9223372036854775807"
definition i64_min :: int where "i64_min = - 9223372036854775808"
definition u32_max :: nat where "u32_max = 4294967295"
definition u64_max :: nat where "u64_max = 18446744073709551615"

definition parse_i64 :: "string \<Rightarrow> int option" where
  "parse_i64 s =
     (if starts_with s ''-'' then
        (case parse_nat (tl s) of
           None \<Rightarrow> None
         | Some n \<Rightarrow> if i64_min \<le> - int n then Some (- int n) else None)
      else
        (case parse_nat (if starts_with s ''+'' then tl s else s) of
           None \<Rightarrow> None
         | Some n \<Rightarrow> if int n \<le> i64_max then Some (int n) else None))"

lemma value_of_digits_append:
  "value_of_digits acc (s @ [c]) = value_of_digits acc s * 10 + digit_value c"
  by (induction s arbitrary: acc) auto

lemma digit_value_char: "d < 10 \<Longrightarrow> digit_value (char_of (48 + d)) = d"
  by (simp add: digit_value_def)

lemma value_digits_of [simp]: "value_of_digits 0 (digits_of n) = n"
proof (induction n rule: digits_of.induct)
  case (1 n)
  show ?case
  proof (cases "n < 10")
    case True
    then show ?thesis by (simp add: digits_of.simps [of n] digit_value_char)
  next
    case False
    with 1 show ?thesis
      by (simp add: digits_of.simps [of n] value_of_digits_append digit_value_char)
  qed
qed

lemma parse_digits_of [simp]: "parse_nat (digits_of n) = Some n"
  by (simp add: parse_nat_def list_all_iff digits_of_digits)

lemma digits_of_no_sign:
  assumes "\<not> is_ascii_digit c"
  shows "\<not> starts_with (digits_of n) [c]"
proof -
  have "hd (digits_of n) \<in> set (digits_of n)" by simp
  with assms digits_of_digits have "hd (digits_of n) \<noteq> c" by blast
  then show ?thesis by (cases "digits_of n") auto
qed

lemma parse_string_of_int:
  assumes "i64_min \<le> i" and "i \<le> i64_max"
  shows "parse_i64 (string_of_int i) = Some i"
proof (cases "i < 0")
  case True
  with assms show ?thesis by (simp add: string_of_int_def parse_i64_def)
next
  case False
  have "\<not> is_ascii_digit CHR ''-''" "\<not> is_ascii_digit CHR ''+''" by (simp_all add: is_ascii_digit_def)
  then have "\<not> starts_with (digits_of (nat i)) ''-''" "\<not> starts_with (digits_of (nat i)) ''+''"
    using digits_of_no_sign by blast+
  with False assms show ?thesis by (simp add: string_of_int_def parse_i64_def)
qed

text \<open>A text without white space at either end is its own \<open>trim\<close>.\<close>

lemma ws_len_graphic: "33 \<le> x \<Longrightarrow> x < 128 \<Longrightarrow> ws_len (x # r) = 0"
  by (auto simp: ws_len_def split: list.splits)

definition graphic :: "char \<Rightarrow> bool" where
  "graphic c \<longleftrightarrow> 33 \<le> code c \<and> code c < 127"

lemma ws_prefix_graphic: "graphic c \<Longrightarrow> ws_prefix (c # s) = 0"
  by (simp add: ws_prefix_def graphic_def ws_len_graphic)

lemma ws_suffix_graphic:
  assumes "\<forall>c \<in> set s. graphic c"
  shows "ws_suffix s = 0"
proof -
  have "ws_len (map code (drop n s)) = 0" for n
  proof (cases "drop n s")
    case (Cons c r)
    then have "c \<in> set s" by (metis in_set_dropD list.set_intros(1))
    with assms have "33 \<le> code c" "code c < 127" by (auto simp: graphic_def)
    with Cons show ?thesis by (simp add: ws_len_graphic)
  qed simp
  then show ?thesis by (simp add: ws_suffix_def)
qed

lemma trim_graphic:
  assumes "\<forall>c \<in> set s. graphic c"
  shows "trim s = s"
proof -
  have "ws_prefix s = 0" using assms by (cases s) (simp_all add: ws_prefix_graphic)
  then have "trim_start s = s" by (simp add: trim_start.simps [of s])
  moreover have "trim_end s = s" using ws_suffix_graphic [OF assms] by (simp add: trim_end.simps [of s])
  ultimately show ?thesis by (simp add: trim_def)
qed

lemma graphic_digit: "is_ascii_digit c \<Longrightarrow> graphic c"
  by (simp add: is_ascii_digit_def graphic_def)

lemma trim_string_of_int: "trim (string_of_int i) = string_of_int i"
proof (rule trim_graphic, rule ballI)
  fix c
  assume "c \<in> set (string_of_int i)"
  then have "c = CHR ''-'' \<or> is_ascii_digit c"
    using digits_of_digits by (auto simp: string_of_int_def split: if_splits)
  moreover have "graphic CHR ''-''" by (simp add: graphic_def)
  ultimately show "graphic c" using graphic_digit by blast
qed

end
