(* ===== verification/Settings.thy ===== *)
theory Settings
  imports Text
begin

text \<open>
  Preferences (\<open>store/settings.rs\<close>, \<open>store/settings/choices.rs\<close>): the \<open>settings\<close> table as a
  map from key to stored text, the built-in defaults, one normaliser per pick-one setting, and
  the getters that read a stored value through its normaliser. Every getter is an instance of
  the locale \<open>text_setting\<close> or \<open>number_setting\<close>, so what a frontend sees is always one of the
  values the settings forms offer. The \<open>f32\<close> settings (\<open>ui_scale\<close>, \<open>reader_text_scale\<close>) are
  not modelled.
\<close>

subsection \<open>The keys\<close>

named_theorems setting_keys \<open>the settings keys, unfolded\<close>

definition SENT_COPY_ENABLED where [setting_keys]: "SENT_COPY_ENABLED = ''sent_copy_enabled''"
definition LOAD_REMOTE_IMAGES where [setting_keys]: "LOAD_REMOTE_IMAGES = ''load_remote_images''"
definition COMPOSE_SEND_FORMAT where [setting_keys]: "COMPOSE_SEND_FORMAT = ''compose_send_format''"
definition COMPOSE_INCLUDE_PLAIN where [setting_keys]: "COMPOSE_INCLUDE_PLAIN = ''compose_include_plain''"
definition AUTO_MARK_READ where [setting_keys]: "AUTO_MARK_READ = ''auto_mark_read''"
definition MARK_READ_DELAY_SECS where [setting_keys]: "MARK_READ_DELAY_SECS = ''mark_read_delay_secs''"
definition COLLECT_SENT_CONTACTS where [setting_keys]: "COLLECT_SENT_CONTACTS = ''collect_sent_contacts''"
definition SUGGEST_PHONE_CONTACTS where [setting_keys]: "SUGGEST_PHONE_CONTACTS = ''suggest_phone_contacts''"
definition MESSAGE_SORT_FIELD where [setting_keys]: "MESSAGE_SORT_FIELD = ''message_sort_field''"
definition MESSAGE_SORT_DESC where [setting_keys]: "MESSAGE_SORT_DESC = ''message_sort_desc''"
definition CONFIRM_DELETE where [setting_keys]: "CONFIRM_DELETE = ''confirm_delete''"
definition LIST_DENSITY where [setting_keys]: "LIST_DENSITY = ''list_density''"
definition READER_FONT_SIZE where [setting_keys]: "READER_FONT_SIZE = ''reader_font_size''"
definition LINK_CLICK_ACTION where [setting_keys]: "LINK_CLICK_ACTION = ''link_click_action''"
definition START_VIEW where [setting_keys]: "START_VIEW = ''start_view''"
definition SYNC_INTERVAL_MINUTES where [setting_keys]: "SYNC_INTERVAL_MINUTES = ''sync_interval_minutes''"
definition SIGNATURE_ENABLED where [setting_keys]: "SIGNATURE_ENABLED = ''signature_enabled''"
definition SIGNATURE_TEXT where [setting_keys]: "SIGNATURE_TEXT = ''signature_text''"
definition REPLY_BELOW_QUOTE where [setting_keys]: "REPLY_BELOW_QUOTE = ''reply_below_quote''"
definition REQUEST_MDN where [setting_keys]: "REQUEST_MDN = ''request_mdn''"
definition REQUEST_DSN where [setting_keys]: "REQUEST_DSN = ''request_dsn''"
definition SCHEDULED_RECEIPT where [setting_keys]: "SCHEDULED_RECEIPT = ''scheduled_receipt''"
definition UI_SCALE where [setting_keys]: "UI_SCALE = ''ui_scale''"
definition NOTIFICATIONS_ENABLED where [setting_keys]: "NOTIFICATIONS_ENABLED = ''notifications_enabled''"
definition NOTIFICATION_ACTION where [setting_keys]: "NOTIFICATION_ACTION = ''notification_action''"
definition BACKGROUND_SCHEDULER where [setting_keys]: "BACKGROUND_SCHEDULER = ''background_scheduler''"
definition QUIET_HOURS_ENABLED where [setting_keys]: "QUIET_HOURS_ENABLED = ''quiet_hours_enabled''"
definition QUIET_HOURS_START where [setting_keys]: "QUIET_HOURS_START = ''quiet_hours_start''"
definition QUIET_HOURS_END where [setting_keys]: "QUIET_HOURS_END = ''quiet_hours_end''"
definition APP_LOCK_ENABLED where [setting_keys]: "APP_LOCK_ENABLED = ''app_lock_enabled''"
definition APP_LOCK_AFTER_SECS where [setting_keys]: "APP_LOCK_AFTER_SECS = ''app_lock_after_secs''"
definition LAST_ACTIVE_ACCOUNT_ID where [setting_keys]: "LAST_ACTIVE_ACCOUNT_ID = ''last_active_account_id''"
definition LAST_FULL_DISCOVERY_PREFIX where [setting_keys]: "LAST_FULL_DISCOVERY_PREFIX = ''last_full_discovery_''"
definition PENDING_OPEN_ACCOUNT_ID where [setting_keys]: "PENDING_OPEN_ACCOUNT_ID = ''pending_open_account_id''"
definition PENDING_OPEN_FOLDER where [setting_keys]: "PENDING_OPEN_FOLDER = ''pending_open_folder''"

definition defaults_table :: "(string \<times> string) list" where
  "defaults_table =
    [(SENT_COPY_ENABLED, ''1''), (LOAD_REMOTE_IMAGES, ''0''), (COMPOSE_SEND_FORMAT, ''auto''),
     (COMPOSE_INCLUDE_PLAIN, ''1''), (AUTO_MARK_READ, ''1''), (MARK_READ_DELAY_SECS, ''0''),
     (COLLECT_SENT_CONTACTS, ''1''), (SUGGEST_PHONE_CONTACTS, ''0''), (MESSAGE_SORT_FIELD, ''date''),
     (MESSAGE_SORT_DESC, ''1''), (CONFIRM_DELETE, ''1''), (LIST_DENSITY, ''comfortable''),
     (READER_FONT_SIZE, ''normal''), (LINK_CLICK_ACTION, ''examine''), (START_VIEW, ''folders''),
     (SYNC_INTERVAL_MINUTES, ''0''), (SIGNATURE_ENABLED, ''0''), (SIGNATURE_TEXT, ''''),
     (REPLY_BELOW_QUOTE, ''0''), (REQUEST_MDN, ''0''), (REQUEST_DSN, ''0''),
     (SCHEDULED_RECEIPT, ''0''), (UI_SCALE, ''1''), (NOTIFICATIONS_ENABLED, ''1''),
     (NOTIFICATION_ACTION, ''archive''), (BACKGROUND_SCHEDULER, ''workmanager''),
     (QUIET_HOURS_ENABLED, ''0''), (QUIET_HOURS_START, ''00:00''), (QUIET_HOURS_END, ''07:00''),
     (APP_LOCK_ENABLED, ''0''), (APP_LOCK_AFTER_SECS, ''60'')]"

definition setting_default :: "string \<Rightarrow> string option" where
  "setting_default key = map_of defaults_table key"

subsection \<open>The tables\<close>

text \<open>The app's \<open>settings\<close> table and the per-account \<open>account_settings\<close> table.\<close>

record settings_db =
  app_values :: "string \<Rightarrow> string option"
  account_values :: "int \<Rightarrow> string \<Rightarrow> string option"

definition setting_get :: "settings_db \<Rightarrow> string \<Rightarrow> string option" where
  "setting_get db key = app_values db key"

definition setting_set :: "string \<Rightarrow> string \<Rightarrow> settings_db \<Rightarrow> settings_db" where
  "setting_set key val db = db\<lparr>app_values := (app_values db)(key \<mapsto> val)\<rparr>"

definition default_flag :: "string \<Rightarrow> bool" where
  "default_flag key = (setting_default key = Some ''1'')"

definition setting_get_bool :: "settings_db \<Rightarrow> string \<Rightarrow> bool" where
  "setting_get_bool db key =
     (case setting_get db key of
        Some v \<Rightarrow> v = ''1'' \<or> eq_ignore_ascii_case v ''true''
      | None \<Rightarrow> default_flag key)"

definition setting_set_bool :: "string \<Rightarrow> bool \<Rightarrow> settings_db \<Rightarrow> settings_db" where
  "setting_set_bool key v db = setting_set key (if v then ''1'' else ''0'') db"

lemma setting_get_set [simp]:
  "setting_get (setting_set key v db) k = (if k = key then Some v else setting_get db k)"
  by (simp add: setting_get_def setting_set_def)

lemma setting_get_set_bool [simp]: "setting_get_bool (setting_set_bool key v db) key = v"
  by (simp add: setting_get_bool_def setting_set_bool_def eq_ignore_ascii_case_def
      ascii_lowercase_def to_ascii_lower_def)

lemma account_values_set [simp]: "account_values (setting_set k v db) = account_values db"
  by (simp add: setting_set_def)

subsection \<open>Times of day\<close>

text \<open>
  \<open>quiet_hours.rs\<close>'s text form of a time. A \<open>NaiveTime\<close> is its nanoseconds since midnight.
\<close>

type_synonym naive_time = int

definition from_hms_opt :: "nat \<Rightarrow> nat \<Rightarrow> naive_time option" where
  "from_hms_opt h m =
     (if h < 24 \<and> m < 60 then Some ((int h * 60 + int m) * 60 * ns_per_sec) else None)"

definition time_hour :: "naive_time \<Rightarrow> int" where
  "time_hour t = t div (3600 * ns_per_sec)"

definition time_minute :: "naive_time \<Rightarrow> int" where
  "time_minute t = t div (60 * ns_per_sec) mod 60"

definition parse_time :: "string \<Rightarrow> naive_time option" where
  "parse_time val =
     (case split_once (CHR '':'') (trim val) of
        None \<Rightarrow> None
      | Some (h, m) \<Rightarrow>
          if h = [] \<or> 2 < length h \<or> length m \<noteq> 2 then None
          else (case (parse_unsigned u32_max h, parse_unsigned u32_max m) of
                  (Some h', Some m') \<Rightarrow> from_hms_opt h' m'
                | _ \<Rightarrow> None))"

definition pad2 :: "nat \<Rightarrow> string" where
  "pad2 n = (if n < 10 then ''0'' @ digits_of n else digits_of n)"

definition format_time :: "naive_time \<Rightarrow> string" where
  "format_time t = pad2 (nat (time_hour t)) @ '':'' @ pad2 (nat (time_minute t))"

definition normalize_time :: "string \<Rightarrow> string option" where
  "normalize_time val = map_option format_time (parse_time val)"

definition time_parts :: "string \<Rightarrow> (int \<times> int) option" where
  "time_parts val = map_option (\<lambda>t. (time_hour t, time_minute t)) (parse_time val)"

definition time_at :: "nat \<Rightarrow> nat \<Rightarrow> string option" where
  "time_at hour minute = map_option format_time (from_hms_opt hour minute)"

lemma from_hms_parts:
  assumes "from_hms_opt h m = Some t"
  shows "time_hour t = int h" and "time_minute t = int m" and "h < 24" and "m < 60"
proof -
  have hm: "h < 24" "m < 60" and t: "t = (int h * 60 + int m) * 60 * ns_per_sec"
    using assms by (auto simp: from_hms_opt_def split: if_splits)
  have "t div (3600 * ns_per_sec) = (int h * 60 + int m) div 60"
    using div_mult_mult2 [of "60 * ns_per_sec" "int h * 60 + int m" 60] by (simp add: t mult.assoc)
  then show "time_hour t = int h" using hm by (simp add: time_hour_def)
  have "t div (60 * ns_per_sec) = int h * 60 + int m" by (simp add: t mult.assoc)
  then show "time_minute t = int m" using hm by (simp add: time_minute_def)
  show "h < 24" "m < 60" by fact+
qed

lemma digits_of_below_100:
  assumes "n < 100"
  shows "length (pad2 n) = 2"
proof -
  have "n div 10 < 10" using assms by (simp add: less_mult_imp_div_less)
  then show ?thesis by (simp add: pad2_def digits_of.simps [of n] digits_of.simps [of "n div 10"])
qed

lemma pad2_digits: "c \<in> set (pad2 n) \<Longrightarrow> is_ascii_digit c"
  using digits_of_digits by (auto simp: pad2_def is_ascii_digit_def split: if_splits)

lemma parse_pad2:
  assumes "n < 100"
  shows "parse_unsigned u32_max (pad2 n) = Some n"
proof -
  have "\<not> is_ascii_digit CHR ''+''" by (simp add: is_ascii_digit_def)
  moreover have "hd (pad2 n) \<in> set (pad2 n)"
    using digits_of_below_100 [OF assms] by (intro hd_in_set) auto
  ultimately have "\<not> starts_with (pad2 n) ''+''"
    using pad2_digits by (cases "pad2 n") fastforce+
  moreover have "value_of_digits 0 (pad2 n) = n"
    by (simp add: pad2_def digit_value_def)
  moreover have "pad2 n \<noteq> []" using digits_of_below_100 [OF assms] by auto
  ultimately show ?thesis
    using assms pad2_digits by (simp add: parse_unsigned_def parse_nat_def list_all_iff u32_max_def)
qed

lemma parse_format_time:
  assumes "from_hms_opt h m = Some t"
  shows "parse_time (format_time t) = Some t"
proof -
  note parts = from_hms_parts [OF assms]
  have f: "format_time t = pad2 h @ '':'' @ pad2 m" by (simp add: format_time_def parts)
  have "\<forall>c \<in> set (format_time t). graphic c"
    using pad2_digits graphic_digit by (auto simp: f graphic_def)
  then have "trim (format_time t) = format_time t" by (rule trim_graphic)
  moreover have "CHR '':'' \<notin> set (pad2 h)" using pad2_digits by (fastforce simp: is_ascii_digit_def)
  then have "split_once CHR '':'' (format_time t) = Some (pad2 h, pad2 m)"
    by (simp add: f split_once_Some)
  moreover have "length (pad2 h) = 2" "length (pad2 m) = 2"
    using parts(3,4) by (simp_all add: digits_of_below_100)
  ultimately show ?thesis
    using parts(3,4) assms by (auto simp: parse_time_def parse_pad2)
qed

lemma parse_time_hms: "parse_time v = Some t \<Longrightarrow> \<exists>h m. from_hms_opt h m = Some t"
  by (auto simp: parse_time_def split: option.splits if_splits prod.splits)

lemma parse_time_range: "parse_time v = Some t \<Longrightarrow> 0 \<le> t \<and> t < 86400 * ns_per_sec"
  by (drule parse_time_hms) (auto simp: from_hms_opt_def split: if_splits)

subsection \<open>Normalisers\<close>

definition folded :: "string \<Rightarrow> string" where
  "folded raw = ascii_lowercase (trim raw)"

definition normalize_send_format :: "string \<Rightarrow> string" where
  "normalize_send_format raw =
     (if folded raw = ''plain'' then ''plain''
      else if folded raw = ''multipart'' then ''multipart''
      else if folded raw = ''html'' then ''html'' else ''auto'')"

definition normalize_sort_field :: "string \<Rightarrow> string" where
  "normalize_sort_field raw =
     (if folded raw \<in> {''from'', ''from_addr'', ''sender''} then ''from''
      else if folded raw = ''subject'' then ''subject'' else ''date'')"

definition normalize_density :: "string \<Rightarrow> string" where
  "normalize_density raw = (if folded raw = ''compact'' then ''compact'' else ''comfortable'')"

definition normalize_reader_font :: "string \<Rightarrow> string" where
  "normalize_reader_font raw =
     (if folded raw = ''small'' then ''small''
      else if folded raw = ''large'' then ''large'' else ''normal'')"

definition normalize_link_click :: "string \<Rightarrow> string" where
  "normalize_link_click raw =
     (if folded raw \<in> {''browser'', ''direct'', ''open''} then ''browser'' else ''examine'')"

definition normalize_start_view :: "string \<Rightarrow> string" where
  "normalize_start_view raw = (if folded raw \<in> {''inbox'', ''list''} then ''inbox'' else ''folders'')"

definition normalize_background_scheduler :: "string \<Rightarrow> string" where
  "normalize_background_scheduler raw =
     (if folded raw \<in> {''push'', ''idle''} then ''push''
      else if folded raw \<in> {''alarm'', ''exact'', ''alarmmanager''} then ''alarm''
      else ''workmanager'')"

definition normalize_notification_action :: "string \<Rightarrow> string" where
  "normalize_notification_action raw =
     (if folded raw \<in> {''trash'', ''delete''} then ''trash'' else ''archive'')"

definition clamp :: "int \<Rightarrow> int \<Rightarrow> int \<Rightarrow> int" where
  "clamp lo hi n = (if n < lo then lo else if hi < n then hi else n)"

definition normalize_delay_secs :: "int \<Rightarrow> int" where
  "normalize_delay_secs raw = clamp 0 300 raw"

definition normalize_sync_interval :: "int \<Rightarrow> int" where
  "normalize_sync_interval raw = clamp 0 1440 raw"

definition APP_LOCK_AFTER_STEPS :: "int list" where
  "APP_LOCK_AFTER_STEPS = [0, 30, 60, 300, 900]"

definition normalize_app_lock_after :: "int \<Rightarrow> int" where
  "normalize_app_lock_after raw =
     (case find (\<lambda>step. step \<le> raw) (rev APP_LOCK_AFTER_STEPS) of None \<Rightarrow> 0 | Some s \<Rightarrow> s)"

subsection \<open>Getters\<close>

definition get_text :: "string \<Rightarrow> (string \<Rightarrow> string) \<Rightarrow> string \<Rightarrow> settings_db \<Rightarrow> string" where
  "get_text key norm fallback db =
     (case setting_get db key of
        Some v \<Rightarrow> norm v
      | None \<Rightarrow> (case setting_default key of Some d \<Rightarrow> d | None \<Rightarrow> fallback))"

definition get_send_format :: "settings_db \<Rightarrow> string" where
  "get_send_format = get_text COMPOSE_SEND_FORMAT normalize_send_format ''auto''"

definition get_sort_field :: "settings_db \<Rightarrow> string" where
  "get_sort_field = get_text MESSAGE_SORT_FIELD normalize_sort_field ''date''"

definition get_density :: "settings_db \<Rightarrow> string" where
  "get_density = get_text LIST_DENSITY normalize_density ''comfortable''"

definition get_reader_font :: "settings_db \<Rightarrow> string" where
  "get_reader_font = get_text READER_FONT_SIZE normalize_reader_font ''normal''"

definition get_link_click :: "settings_db \<Rightarrow> string" where
  "get_link_click = get_text LINK_CLICK_ACTION normalize_link_click ''examine''"

definition get_start_view :: "settings_db \<Rightarrow> string" where
  "get_start_view = get_text START_VIEW normalize_start_view ''folders''"

definition get_background_scheduler :: "settings_db \<Rightarrow> string" where
  "get_background_scheduler = get_text BACKGROUND_SCHEDULER normalize_background_scheduler ''workmanager''"

definition get_notification_action :: "settings_db \<Rightarrow> string" where
  "get_notification_action = get_text NOTIFICATION_ACTION normalize_notification_action ''archive''"

definition number_default :: "string \<Rightarrow> int" where
  "number_default key =
     (case Option.bind (setting_default key) parse_i64 of None \<Rightarrow> 0 | Some n \<Rightarrow> n)"

definition get_number :: "settings_db \<Rightarrow> string \<Rightarrow> (int \<Rightarrow> int) \<Rightarrow> int" where
  "get_number db key norm =
     (case setting_get db key of
        Some v \<Rightarrow> (case parse_i64 (trim v) of None \<Rightarrow> number_default key | Some n \<Rightarrow> norm n)
      | None \<Rightarrow> number_default key)"

definition get_delay_secs :: "settings_db \<Rightarrow> string \<Rightarrow> int" where
  "get_delay_secs db key = get_number db key normalize_delay_secs"

definition set_delay_secs :: "string \<Rightarrow> int \<Rightarrow> settings_db \<Rightarrow> settings_db" where
  "set_delay_secs key n db = setting_set key (string_of_int (normalize_delay_secs n)) db"

definition get_sync_interval :: "settings_db \<Rightarrow> int" where
  "get_sync_interval db = get_number db SYNC_INTERVAL_MINUTES normalize_sync_interval"

definition set_sync_interval :: "int \<Rightarrow> settings_db \<Rightarrow> settings_db" where
  "set_sync_interval n db =
     setting_set SYNC_INTERVAL_MINUTES (string_of_int (normalize_sync_interval n)) db"

definition get_app_lock_after :: "settings_db \<Rightarrow> int" where
  "get_app_lock_after db = get_number db APP_LOCK_AFTER_SECS normalize_app_lock_after"

definition get_sort_descending :: "settings_db \<Rightarrow> bool" where
  "get_sort_descending db =
     (case setting_get db MESSAGE_SORT_DESC of
        Some v \<Rightarrow> \<not> (v = ''0'' \<or> eq_ignore_ascii_case v ''false'')
      | None \<Rightarrow> True)"

definition set_sort :: "string \<Rightarrow> bool \<Rightarrow> settings_db \<Rightarrow> settings_db" where
  "set_sort field descending db =
     setting_set_bool MESSAGE_SORT_DESC descending
       (setting_set MESSAGE_SORT_FIELD (normalize_sort_field field) db)"

definition get_signature_text :: "settings_db \<Rightarrow> string" where
  "get_signature_text db = (case setting_get db SIGNATURE_TEXT of Some v \<Rightarrow> v | None \<Rightarrow> [])"

definition positive_number :: "string option \<Rightarrow> int option" where
  "positive_number v =
     (case Option.bind v (\<lambda>s. parse_i64 (trim s)) of
        Some n \<Rightarrow> if 0 < n then Some n else None | None \<Rightarrow> None)"

definition get_last_active_account_id :: "settings_db \<Rightarrow> int option" where
  "get_last_active_account_id db = positive_number (setting_get db LAST_ACTIVE_ACCOUNT_ID)"

definition set_last_active_account_id :: "int \<Rightarrow> settings_db \<Rightarrow> settings_db" where
  "set_last_active_account_id i db = setting_set LAST_ACTIVE_ACCOUNT_ID (string_of_int (max i 0)) db"

definition get_last_full_discovery :: "settings_db \<Rightarrow> int \<Rightarrow> int option" where
  "get_last_full_discovery db account_id =
     positive_number (setting_get db (LAST_FULL_DISCOVERY_PREFIX @ string_of_int account_id))"

definition set_last_full_discovery :: "int \<Rightarrow> int \<Rightarrow> settings_db \<Rightarrow> settings_db" where
  "set_last_full_discovery account_id unix_secs db =
     setting_set (LAST_FULL_DISCOVERY_PREFIX @ string_of_int account_id)
       (string_of_int (max unix_secs 0)) db"

definition set_pending_open :: "int \<Rightarrow> string \<Rightarrow> settings_db \<Rightarrow> settings_db" where
  "set_pending_open account_id folder db =
     setting_set PENDING_OPEN_FOLDER (trim folder)
       (setting_set PENDING_OPEN_ACCOUNT_ID (string_of_int (max account_id 0)) db)"

definition take_pending_open :: "settings_db \<Rightarrow> (int \<times> string) option \<times> settings_db" where
  "take_pending_open db =
     (case positive_number (setting_get db PENDING_OPEN_ACCOUNT_ID) of
        None \<Rightarrow> (None, db)
      | Some i \<Rightarrow>
          (let folder = (case setting_get db PENDING_OPEN_FOLDER of Some f \<Rightarrow> f | None \<Rightarrow> [])
           in (Some (i, folder),
               setting_set PENDING_OPEN_FOLDER [] (setting_set PENDING_OPEN_ACCOUNT_ID ''0'' db))))"

datatype mark_read_plan = MarkOff | MarkNow | MarkAfterDelay int

definition plan_mark_read :: "bool \<Rightarrow> int \<Rightarrow> bool \<Rightarrow> mark_read_plan" where
  "plan_mark_read auto_mark_read delay_secs unread =
     (if \<not> auto_mark_read \<or> \<not> unread then MarkOff
      else if delay_secs \<le> 0 then MarkNow else MarkAfterDelay delay_secs)"

definition is_quiet_time :: "string \<Rightarrow> bool" where
  "is_quiet_time key \<longleftrightarrow> key = QUIET_HOURS_START \<or> key = QUIET_HOURS_END"

definition get_quiet_time :: "settings_db \<Rightarrow> string \<Rightarrow> string" where
  "get_quiet_time db key =
     (case Option.bind (setting_get db key) parse_time of
        None \<Rightarrow> (case setting_default key of Some d \<Rightarrow> d | None \<Rightarrow> [])
      | Some t \<Rightarrow> format_time t)"

subsection \<open>Several settings at once\<close>

definition unknown_setting :: "string \<Rightarrow> store_error" where
  "unknown_setting k = InvalidInput (''unknown setting: '' @ k)"

definition not_a_time :: "string \<Rightarrow> string \<Rightarrow> store_error" where
  "not_a_time k v = InvalidInput (k @ '': not a time (HH:MM): '' @ v)"

fun checked_values :: "(string \<times> string) list \<Rightarrow> (string \<times> string) list result" where
  "checked_values [] = Inr []"
| "checked_values ((k, v) # ps) =
     (case (if is_quiet_time k
            then (case parse_time v of None \<Rightarrow> Inl (not_a_time k v) | Some t \<Rightarrow> Inr (format_time t))
            else Inr v) of
        Inl e \<Rightarrow> Inl e
      | Inr v' \<Rightarrow> (case checked_values ps of Inl e \<Rightarrow> Inl e | Inr vs \<Rightarrow> Inr ((k, v') # vs)))"

definition set_many :: "(string \<times> string) list \<Rightarrow> settings_db \<Rightarrow> unit result \<times> settings_db" where
  "set_many pairs db =
     (case find (\<lambda>(k, _). setting_default k = None) pairs of
        Some (k, _) \<Rightarrow> (Inl (unknown_setting k), db)
      | None \<Rightarrow>
          (case checked_values pairs of
             Inl e \<Rightarrow> (Inl e, db)
           | Inr vals \<Rightarrow> (Inr (), fold (\<lambda>(k, v). setting_set k v) vals db)))"

definition set_quiet_time :: "string \<Rightarrow> string \<Rightarrow> settings_db \<Rightarrow> unit result \<times> settings_db" where
  "set_quiet_time key val db = set_many [(key, val)] db"

subsection \<open>The offered values\<close>

datatype preference_kind = Flag | Int_kind | Real_kind | Text_kind

definition TABLE :: "(string \<times> preference_kind \<times> string list) list" where
  "TABLE =
    [(SENT_COPY_ENABLED, Flag, []), (LOAD_REMOTE_IMAGES, Flag, []),
     (COMPOSE_SEND_FORMAT, Text_kind, [''auto'', ''plain'', ''multipart'', ''html'']),
     (COMPOSE_INCLUDE_PLAIN, Flag, []), (AUTO_MARK_READ, Flag, []),
     (MARK_READ_DELAY_SECS, Int_kind, [''0'', ''3'', ''5'', ''10'', ''30'']),
     (COLLECT_SENT_CONTACTS, Flag, []),
     (MESSAGE_SORT_FIELD, Text_kind, [''date'', ''from'', ''subject'']),
     (MESSAGE_SORT_DESC, Flag, []), (CONFIRM_DELETE, Flag, []),
     (LIST_DENSITY, Text_kind, [''comfortable'', ''compact'']),
     (READER_FONT_SIZE, Text_kind, [''small'', ''normal'', ''large'']),
     (LINK_CLICK_ACTION, Text_kind, [''examine'', ''browser'']),
     (START_VIEW, Text_kind, [''folders'', ''inbox'']),
     (SYNC_INTERVAL_MINUTES, Int_kind, [''0'', ''5'', ''10'', ''15'', ''30'', ''60'']),
     (SIGNATURE_ENABLED, Flag, []), (SIGNATURE_TEXT, Text_kind, []),
     (REPLY_BELOW_QUOTE, Flag, []), (REQUEST_MDN, Flag, []), (REQUEST_DSN, Flag, []),
     (UI_SCALE, Real_kind, [''1'', ''1.1'', ''1.25'', ''1.5'']),
     (NOTIFICATIONS_ENABLED, Flag, []),
     (NOTIFICATION_ACTION, Text_kind, [''archive'', ''trash'']),
     (BACKGROUND_SCHEDULER, Text_kind, [''workmanager'', ''alarm'', ''push'']),
     (QUIET_HOURS_ENABLED, Flag, []), (QUIET_HOURS_START, Text_kind, []),
     (QUIET_HOURS_END, Text_kind, []), (APP_LOCK_ENABLED, Flag, []),
     (APP_LOCK_AFTER_SECS, Int_kind, [''0'', ''30'', ''60'', ''300'', ''900''])]"

definition offered :: "string \<Rightarrow> string list" where
  "offered key = (case map_of TABLE key of None \<Rightarrow> [] | Some (_, vals) \<Rightarrow> vals)"

text \<open>A pick-one text setting: what is stored is read through a normaliser of the offered values.\<close>

locale text_setting = normalizer norm "\<lambda>v. v" "set vals"
  for norm :: "string \<Rightarrow> string" and vals :: "string list" +
  fixes key :: string and get :: "settings_db \<Rightarrow> string" and dflt :: string
  assumes get_eq: "get db = (case setting_get db key of Some v \<Rightarrow> norm v | None \<Rightarrow> dflt)"
    and dflt_offered: "dflt \<in> set vals"
    and vals_eq: "offered key = vals"
begin

lemma get_offered: "get db \<in> set (offered key)"
  by (simp add: get_eq vals_eq dflt_offered norm_offered split: option.splits)

lemma get_after_set: "v \<in> set (offered key) \<Longrightarrow> get (setting_set key v db) = v"
  by (simp add: get_eq vals_eq norm_keeps)

lemma get_after_other: "k \<noteq> key \<Longrightarrow> get (setting_set k v db) = get db"
  by (simp add: get_eq)

end

text \<open>A number setting.\<close>

locale number_setting = normalizer norm "\<lambda>n. n" range_of
  for norm :: "int \<Rightarrow> int" and range_of :: "int set" +
  fixes key :: string and get :: "settings_db \<Rightarrow> int"
  assumes get_eq: "get db = get_number db key norm"
    and dflt_in: "number_default key \<in> range_of"
begin

lemma get_in_range: "get db \<in> range_of"
  by (simp add: get_eq get_number_def dflt_in norm_offered split: option.splits)

lemma get_after_set:
  assumes "n \<in> range_of" and "i64_min \<le> n" and "n \<le> i64_max"
  shows "get (setting_set key (string_of_int n) db) = n"
  using assms by (simp add: get_eq get_number_def trim_string_of_int parse_string_of_int norm_keeps)

end

lemmas key_simps = setting_keys TABLE_def defaults_table_def

lemma folded_lower: "list_all graphic s \<Longrightarrow> folded s = ascii_lowercase s"
  by (simp add: folded_def trim_graphic list_all_iff)

lemmas lower_eval = folded_lower graphic_def ascii_lowercase_def to_ascii_lower_def

lemma offered_simps:
  "offered COMPOSE_SEND_FORMAT = [''auto'', ''plain'', ''multipart'', ''html'']"
  "offered MESSAGE_SORT_FIELD = [''date'', ''from'', ''subject'']"
  "offered LIST_DENSITY = [''comfortable'', ''compact'']"
  "offered READER_FONT_SIZE = [''small'', ''normal'', ''large'']"
  "offered LINK_CLICK_ACTION = [''examine'', ''browser'']"
  "offered START_VIEW = [''folders'', ''inbox'']"
  "offered BACKGROUND_SCHEDULER = [''workmanager'', ''alarm'', ''push'']"
  "offered NOTIFICATION_ACTION = [''archive'', ''trash'']"
  by (simp_all add: offered_def key_simps)

lemma default_simps:
  "setting_default COMPOSE_SEND_FORMAT = Some ''auto''"
  "setting_default MESSAGE_SORT_FIELD = Some ''date''"
  "setting_default LIST_DENSITY = Some ''comfortable''"
  "setting_default READER_FONT_SIZE = Some ''normal''"
  "setting_default LINK_CLICK_ACTION = Some ''examine''"
  "setting_default START_VIEW = Some ''folders''"
  "setting_default BACKGROUND_SCHEDULER = Some ''workmanager''"
  "setting_default NOTIFICATION_ACTION = Some ''archive''"
  "setting_default MARK_READ_DELAY_SECS = Some ''0''"
  "setting_default SYNC_INTERVAL_MINUTES = Some ''0''"
  "setting_default APP_LOCK_AFTER_SECS = Some ''60''"
  "setting_default QUIET_HOURS_START = Some ''00:00''"
  "setting_default QUIET_HOURS_END = Some ''07:00''"
  by (simp_all add: setting_default_def key_simps)

interpretation send_format: text_setting normalize_send_format
  "[''auto'', ''plain'', ''multipart'', ''html'']" COMPOSE_SEND_FORMAT get_send_format "''auto''"
  by unfold_locales (auto simp: normalize_send_format_def lower_eval get_send_format_def get_text_def
      default_simps offered_simps cong: option.case_cong)

interpretation sort_field: text_setting normalize_sort_field
  "[''date'', ''from'', ''subject'']" MESSAGE_SORT_FIELD get_sort_field "''date''"
  by unfold_locales (auto simp: normalize_sort_field_def lower_eval get_sort_field_def get_text_def
      default_simps offered_simps cong: option.case_cong)

interpretation density: text_setting normalize_density
  "[''comfortable'', ''compact'']" LIST_DENSITY get_density "''comfortable''"
  by unfold_locales (auto simp: normalize_density_def lower_eval get_density_def get_text_def
      default_simps offered_simps cong: option.case_cong)

interpretation reader_font: text_setting normalize_reader_font
  "[''small'', ''normal'', ''large'']" READER_FONT_SIZE get_reader_font "''normal''"
  by unfold_locales (auto simp: normalize_reader_font_def lower_eval get_reader_font_def get_text_def
      default_simps offered_simps cong: option.case_cong)

interpretation link_click: text_setting normalize_link_click
  "[''examine'', ''browser'']" LINK_CLICK_ACTION get_link_click "''examine''"
  by unfold_locales (auto simp: normalize_link_click_def lower_eval get_link_click_def get_text_def
      default_simps offered_simps cong: option.case_cong)

interpretation start_view: text_setting normalize_start_view
  "[''folders'', ''inbox'']" START_VIEW get_start_view "''folders''"
  by unfold_locales (auto simp: normalize_start_view_def lower_eval get_start_view_def get_text_def
      default_simps offered_simps cong: option.case_cong)

interpretation scheduler: text_setting normalize_background_scheduler
  "[''workmanager'', ''alarm'', ''push'']" BACKGROUND_SCHEDULER get_background_scheduler "''workmanager''"
  by unfold_locales (auto simp: normalize_background_scheduler_def lower_eval
      get_background_scheduler_def get_text_def default_simps offered_simps cong: option.case_cong)

interpretation notification_action: text_setting normalize_notification_action
  "[''archive'', ''trash'']" NOTIFICATION_ACTION get_notification_action "''archive''"
  by unfold_locales (auto simp: normalize_notification_action_def lower_eval
      get_notification_action_def get_text_def default_simps offered_simps cong: option.case_cong)

lemma parse_one_digit: "parse_i64 ''0'' = Some 0" "parse_i64 ''60'' = Some 60"
  by (simp_all add: parse_i64_def parse_nat_def is_ascii_digit_def digit_value_def i64_max_def)

interpretation mark_delay: number_setting normalize_delay_secs "{0..300}" MARK_READ_DELAY_SECS
  "\<lambda>db. get_delay_secs db MARK_READ_DELAY_SECS"
  by unfold_locales (auto simp: normalize_delay_secs_def clamp_def get_delay_secs_def
      number_default_def default_simps parse_one_digit)

interpretation sync_every: number_setting normalize_sync_interval "{0..1440}" SYNC_INTERVAL_MINUTES
  get_sync_interval
  by unfold_locales (auto simp: normalize_sync_interval_def clamp_def get_sync_interval_def
      number_default_def default_simps parse_one_digit)

interpretation app_lock: number_setting normalize_app_lock_after "set APP_LOCK_AFTER_STEPS"
  APP_LOCK_AFTER_SECS get_app_lock_after
  by unfold_locales (auto simp: normalize_app_lock_after_def APP_LOCK_AFTER_STEPS_def
      get_app_lock_after_def number_default_def default_simps parse_one_digit)

subsection \<open>Properties\<close>


definition stored_form :: "string \<Rightarrow> string \<Rightarrow> string option" where
  "stored_form k v = (if is_quiet_time k then normalize_time v else Some v)"

lemma checked_values_Cons:
  "checked_values ((k, v) # ps) =
     (case stored_form k v of
        None \<Rightarrow> Inl (not_a_time k v)
      | Some v' \<Rightarrow> (case checked_values ps of Inl e \<Rightarrow> Inl e | Inr vs \<Rightarrow> Inr ((k, v') # vs)))"
  by (simp add: stored_form_def normalize_time_def split: option.splits)

declare checked_values.simps(2) [simp del]

lemma checked_values_Inr:
  "checked_values ps = Inr vals \<Longrightarrow>
     (\<forall>(k, v) \<in> set ps. stored_form k v \<noteq> None) \<and> vals = map (\<lambda>(k, v). (k, the (stored_form k v))) ps"
  by (induction ps arbitrary: vals)
    (auto simp: checked_values_Cons split: option.splits sum.splits)

lemma checked_values_Inl:
  "checked_values ps = Inl e \<Longrightarrow> \<exists>(k, v) \<in> set ps. stored_form k v = None \<and> e = not_a_time k v"
  by (induction ps arbitrary: e)
    (auto simp: checked_values_Cons split: option.splits sum.splits)

lemma setting_get_fold:
  "setting_get (fold (\<lambda>(k, v). setting_set k v) vals db) key =
     (case map_of (rev vals) key of None \<Rightarrow> setting_get db key | Some v \<Rightarrow> Some v)"
  by (induction vals arbitrary: db) (auto simp: map_add_def split: option.splits)

lemma map_of_rev_stored:
  "map_of (map (\<lambda>(k, v). (k, f k v)) ps) key = map_option (f key) (map_of ps key)"
  by (induction ps) auto

text \<open>
  Storing several settings is all or nothing: an unknown key or an unreadable quiet time
  leaves the table as it was and says which; otherwise every key holds its last value in the
  list (times in their stored form) and every other key is unchanged.
\<close>

theorem set_many_all_or_nothing:
  "case set_many pairs db of
     (Inl e, db') \<Rightarrow> db' = db
       \<and> ((\<exists>(k, v) \<in> set pairs. setting_default k = None \<and> e = unknown_setting k)
          \<or> (\<exists>(k, v) \<in> set pairs. stored_form k v = None \<and> e = not_a_time k v))
   | (Inr _, db') \<Rightarrow>
       (\<forall>(k, v) \<in> set pairs. setting_default k \<noteq> None \<and> stored_form k v \<noteq> None)
       \<and> (\<forall>key. setting_get db' key =
            (case map_of (rev pairs) key of
               None \<Rightarrow> setting_get db key | Some v \<Rightarrow> stored_form key v))"
proof (cases "find (\<lambda>(k, _). setting_default k = None) pairs")
  case (Some p)
  then have "p \<in> set pairs" "setting_default (fst p) = None"
    by (auto dest: find_SomeD)
  with Some show ?thesis by (auto simp: set_many_def split: prod.splits)
next
  case None
  then have known: "\<forall>(k, v) \<in> set pairs. setting_default k \<noteq> None"
    by (auto simp: find_None_iff)
  show ?thesis
  proof (cases "checked_values pairs")
    case (Inl e)
    with None checked_values_Inl [OF Inl] show ?thesis by (simp add: set_many_def)
  next
    case (Inr vals)
    note ok = checked_values_Inr [OF Inr]
    have "\<forall>key v. map_of (rev pairs) key = Some v \<longrightarrow> stored_form key v \<noteq> None"
      using ok by (fastforce dest: map_of_SomeD)
    then show ?thesis
      using None Inr ok known
      by (auto simp: set_many_def setting_get_fold rev_map map_of_rev_stored split: option.splits)
  qed
qed

theorem set_many_all_or_nothing_witness:
  "case set_many [(UI_SCALE, ''1''), (QUIET_HOURS_END, '' 7:05 '')]
     \<lparr>app_values = (\<lambda>_. None), account_values = (\<lambda>_ _. None)\<rparr> of
     (Inl e, db') \<Rightarrow> False
   | (Inr _, db') \<Rightarrow> setting_get db' QUIET_HOURS_END = Some ''07:05''"
proof -
  have t: "trim '' 7:05 '' = ''7:05''"
    by (simp add: trim_def trim_start.simps [of "'' 7:05 ''"] trim_start.simps [of "''7:05 ''"]
        trim_end.simps [of "''7:05 ''"] trim_end.simps [of "''7:05''"] ws_prefix_def ws_suffix_def ws_len_def)
  have p: "parse_time '' 7:05 '' = Some (425 * 60 * ns_per_sec)"
    by (simp add: parse_time_def t split_once_def parse_unsigned_def parse_nat_def is_ascii_digit_def
        digit_value_def from_hms_opt_def u32_max_def)
  have chars: "char_of (55 :: nat) = CHR ''7''" "char_of (53 :: nat) = CHR ''5''" by code_simp+
  from p have n: "normalize_time '' 7:05 '' = Some ''07:05''"
    by (simp add: normalize_time_def format_time_def time_hour_def time_minute_def pad2_def digits_of.simps
        chars)
  have k: "is_quiet_time QUIET_HOURS_END" "\<not> is_quiet_time UI_SCALE" "UI_SCALE \<noteq> QUIET_HOURS_END"
    "setting_default UI_SCALE = Some ''1''" "setting_default QUIET_HOURS_END = Some ''07:00''"
    by (simp_all add: is_quiet_time_def setting_keys setting_default_def defaults_table_def)
  then show ?thesis
    using set_many_all_or_nothing [where pairs = "[(UI_SCALE, ''1''), (QUIET_HOURS_END, '' 7:05 '')]" and
        db = "\<lparr>app_values = (\<lambda>_. None), account_values = (\<lambda>_ _. None)\<rparr>"] n
    by (auto simp: stored_form_def unknown_setting_def split: prod.splits sum.splits)
qed

lemma pending_open_round_trip:
  assumes "0 < i" and "i \<le> i64_max"
  shows "fst (take_pending_open (set_pending_open i folder db)) = Some (i, trim folder)"
    and "fst (take_pending_open (snd (take_pending_open (set_pending_open i folder db)))) = None"
proof -
  have keys: "PENDING_OPEN_FOLDER \<noteq> PENDING_OPEN_ACCOUNT_ID" by (simp add: setting_keys)
  have "positive_number (Some (string_of_int i)) = Some i"
    using assms by (simp add: positive_number_def trim_string_of_int parse_string_of_int i64_min_def)
  then have get: "positive_number (setting_get (set_pending_open i folder db) PENDING_OPEN_ACCOUNT_ID) = Some i"
    using assms keys by (simp add: set_pending_open_def max_def)
  with keys show "fst (take_pending_open (set_pending_open i folder db)) = Some (i, trim folder)"
    by (simp add: take_pending_open_def Let_def set_pending_open_def)
  have "trim ''0'' = ''0''" by (simp add: trim_graphic graphic_def)
  then have "positive_number (Some ''0'') = None" by (simp add: positive_number_def parse_one_digit)
  with get keys show "fst (take_pending_open (snd (take_pending_open (set_pending_open i folder db)))) = None"
    by (simp add: take_pending_open_def [of "set_pending_open i folder db"] Let_def)
      (simp add: take_pending_open_def)
qed

end
