(* ===== verification/Account_Settings.thy ===== *)
theory Account_Settings
  imports Settings
begin

text \<open>
  Per-account overrides of the preferences (\<open>store/account_settings.rs\<close>) and the quiet-hours
  window (\<open>account_settings/quiet_hours.rs\<close>). An instant in a time zone is a pair of its UTC
  instant and its local wall-clock reading (both nanoseconds); the zone itself, chrono's, is a
  parameter that maps a wall-clock reading to the instants that show it.
\<close>

subsection \<open>Quiet hours\<close>

abbreviation day_ns :: int where "day_ns \<equiv> 86400 * ns_per_sec"

record quiet_hours =
  qh_start :: naive_time
  qh_end :: naive_time

record zoned =
  z_utc :: instant
  z_local :: int

datatype local_result = Single instant | Ambiguous instant instant | Skipped

definition quiet_contains :: "quiet_hours \<Rightarrow> naive_time \<Rightarrow> bool" where
  "quiet_contains q t =
     (if qh_start q \<le> qh_end q then qh_start q \<le> t \<and> t < qh_end q
      else qh_start q \<le> t \<or> t < qh_end q)"

definition contains_at :: "quiet_hours \<Rightarrow> zoned \<Rightarrow> bool" where
  "contains_at q now = quiet_contains q (z_local now mod day_ns)"

definition resolve :: "(int \<Rightarrow> local_result) \<Rightarrow> int \<Rightarrow> instant" where
  "resolve tz at =
     (case tz at of
        Single t \<Rightarrow> t
      | Ambiguous t _ \<Rightarrow> t
      | Skipped \<Rightarrow>
          (case tz (at + 3600 * ns_per_sec) of
             Single t \<Rightarrow> t | Ambiguous t _ \<Rightarrow> t | Skipped \<Rightarrow> at))"

definition local_change :: "quiet_hours \<Rightarrow> int \<Rightarrow> int option" where
  "local_change q now_local =
     (let today = now_local div day_ns;
          ats = filter (\<lambda>at. now_local < at)
                  (concat (map (\<lambda>days. [(today + days) * day_ns + qh_start q,
                                         (today + days) * day_ns + qh_end q]) [0, 1]))
      in case ats of [] \<Rightarrow> None | at # rest \<Rightarrow> Some (fold min rest at))"

definition next_change :: "(int \<Rightarrow> local_result) \<Rightarrow> quiet_hours \<Rightarrow> zoned \<Rightarrow> instant option" where
  "next_change tz q now =
     (if qh_start q = qh_end q then None
      else map_option (resolve tz) (local_change q (z_local now)))"

lemma day_mod: "(D :: int) dvd B \<Longrightarrow> B \<le> u \<Longrightarrow> u < B + D \<Longrightarrow> u mod D = u - B"
proof -
  assume a: "D dvd B" "B \<le> u" "u < B + D"
  then obtain k where "B = k * D" by (auto elim: dvdE simp: mult.commute)
  then have "u mod D = (u - B + k * D) mod D" by simp
  also have "\<dots> = (u - B) mod D" by (rule mod_mult_self1)
  also have "\<dots> = u - B" using a by (intro mod_pos_pos_trivial) auto
  finally show ?thesis .
qed

text \<open>The next of the boundaries \<open>lo\<close>, \<open>hi\<close> (repeated every \<open>D\<close>) after \<open>B + t\<close>.\<close>

definition next_boundary :: "int \<Rightarrow> int \<Rightarrow> int \<Rightarrow> int \<Rightarrow> int \<Rightarrow> int" where
  "next_boundary D lo hi B t = (if t < lo then B + lo else if t < hi then B + hi else B + D + lo)"

lemma next_boundary_window:
  assumes "D dvd B" and "0 \<le> lo" "lo < hi" "hi < D" and "0 \<le> t" "t < D"
    and "B + t \<le> u" "u < next_boundary D lo hi B t"
  shows "lo \<le> u mod D \<and> u mod D < hi \<longleftrightarrow> lo \<le> t \<and> t < hi"
proof (cases "u < B + D")
  case True
  then have m: "u mod D = u - B" using assms by (intro day_mod) auto
  consider "t < lo" | "lo \<le> t" "t < hi" | "hi \<le> t" by linarith
  then show ?thesis
  proof cases
    case 1
    with assms(8) m show ?thesis by (simp add: next_boundary_def)
  next
    case 2
    with assms(7,8) m show ?thesis by (simp add: next_boundary_def)
  next
    case 3
    with assms(3,7) m show ?thesis by simp
  qed
next
  case False
  with assms have t: "hi \<le> t" by (simp add: next_boundary_def split: if_splits)
  have "D dvd B + D" using assms(1) by simp
  then have "u mod D = u - (B + D)"
    using False t assms by (intro day_mod) (auto simp: next_boundary_def split: if_splits)
  with t assms show ?thesis by (simp add: next_boundary_def split: if_splits)
qed

lemma next_boundary_mod:
  assumes "D dvd B" and "0 \<le> lo" "lo < hi" "hi < D"
  shows "next_boundary D lo hi B t mod D = (if t < lo then lo else if t < hi then hi else lo)"
proof -
  have "D dvd B + D" using assms(1) by simp
  with assms show ?thesis
    using day_mod [OF assms(1), of "B + lo"] day_mod [OF assms(1), of "B + hi"]
      day_mod [of D "B + D" "B + D + lo"]
    by (simp add: next_boundary_def)
qed

lemma next_boundary_bounds:
  assumes "0 \<le> lo" "lo < hi" "hi < D" and "0 \<le> t" "t < D"
  shows "B + t < next_boundary D lo hi B t \<and> next_boundary D lo hi B t \<le> B + t + D"
  using assms by (simp add: next_boundary_def)

lemma local_change_cases:
  assumes "0 \<le> qh_start q" "qh_start q < day_ns" "0 \<le> qh_end q" "qh_end q < day_ns"
    and "qh_start q \<noteq> qh_end q"
  shows "local_change q l = Some (next_boundary day_ns (min (qh_start q) (qh_end q))
      (max (qh_start q) (qh_end q)) (l div day_ns * day_ns) (l mod day_ns))"
proof -
  define D where "D = day_ns"
  define B where "B = l div D * D"
  define t where "t = l mod D"
  have l: "l = B + t" by (simp add: B_def t_def)
  have t: "0 \<le> t" "t < D" by (simp_all add: t_def D_def)
  have sum: "(l div D + 1) * D = B + D" and base: "(l div D + 0) * D = B"
    by (simp_all add: B_def algebra_simps)
  have "local_change q l = (case filter (\<lambda>at. B + t < at)
      [B + qh_start q, B + qh_end q, B + D + qh_start q, B + D + qh_end q]
      of [] \<Rightarrow> None | at # rest \<Rightarrow> Some (fold min rest at))"
    unfolding local_change_def Let_def D_def [symmetric] list.map concat.simps sum base l [symmetric]
    by (simp only: append.simps)
  also have "\<dots> = Some (next_boundary D (min (qh_start q) (qh_end q)) (max (qh_start q) (qh_end q)) B t)"
    using assms t unfolding D_def [symmetric]
    by (auto simp: next_boundary_def min_def max_def)
  finally show ?thesis by (simp add: D_def B_def t_def)
qed

text \<open>
  C29. The host replans at the right moment: from \<open>now\<close> until the wall-clock reading
  \<open>local_change\<close> gives, the account is quiet or not quiet exactly as it is now, and at that reading
  it changes; the reading lies after now and within the next 24 hours.
\<close>

theorem next_change_is_the_next_flip:
  assumes "0 \<le> qh_start q" "qh_start q < day_ns" "0 \<le> qh_end q" "qh_end q < day_ns"
    and "qh_start q \<noteq> qh_end q"
  shows "\<exists>at. local_change q l = Some at \<and> l < at \<and> at \<le> l + day_ns
    \<and> (\<forall>u. l \<le> u \<and> u < at \<longrightarrow> quiet_contains q (u mod day_ns) = quiet_contains q (l mod day_ns))
    \<and> quiet_contains q (at mod day_ns) \<noteq> quiet_contains q (l mod day_ns)
    \<and> (\<forall>tz utc. next_change tz q \<lparr>z_utc = utc, z_local = l\<rparr> = Some (resolve tz at))"
proof -
  define B where "B = l div day_ns * day_ns"
  define t where "t = l mod day_ns"
  define lo where "lo = min (qh_start q) (qh_end q)"
  define hi where "hi = max (qh_start q) (qh_end q)"
  define at where "at = next_boundary day_ns lo hi B t"
  have l: "l = B + t" and dvd: "day_ns dvd B" by (simp_all add: B_def t_def)
  have t: "0 \<le> t" "t < day_ns" by (simp_all add: t_def)
  have lohi: "0 \<le> lo" "lo < hi" "hi < day_ns"
    using assms unfolding lo_def hi_def by linarith+
  have change: "local_change q l = Some at"
    using local_change_cases [OF assms] by (simp only: at_def lo_def hi_def B_def t_def)
  have inside: "quiet_contains q v =
      (if lo \<le> v \<and> v < hi then qh_start q < qh_end q else \<not> qh_start q < qh_end q)" for v
    using assms(5) by (simp add: quiet_contains_def lo_def hi_def min_def max_def) linarith
  have bounds: "l < at \<and> at \<le> l + day_ns"
    unfolding l at_def by (rule next_boundary_bounds [OF lohi t])
  have steady: "\<forall>u. l \<le> u \<and> u < at \<longrightarrow> quiet_contains q (u mod day_ns) = quiet_contains q (l mod day_ns)"
  proof (intro allI impI)
    fix u assume "l \<le> u \<and> u < at"
    then have "lo \<le> u mod day_ns \<and> u mod day_ns < hi \<longleftrightarrow> lo \<le> t \<and> t < hi"
      unfolding l at_def by (intro next_boundary_window [OF dvd lohi t]) auto
    then show "quiet_contains q (u mod day_ns) = quiet_contains q (l mod day_ns)"
      by (simp only: inside t_def)
  qed
  have "at mod day_ns = (if t < lo then lo else if t < hi then hi else lo)"
    unfolding at_def by (rule next_boundary_mod [OF dvd lohi])
  then have flip: "quiet_contains q (at mod day_ns) \<noteq> quiet_contains q (l mod day_ns)"
    using lohi(2) unfolding inside t_def [symmetric] by (simp only:) auto
  have "\<forall>tz utc. next_change tz q \<lparr>z_utc = utc, z_local = l\<rparr> = Some (resolve tz at)"
    using assms(5) change by (simp add: next_change_def)
  with change bounds steady flip show ?thesis by blast
qed

theorem next_change_is_the_next_flip_witness:
  "\<exists>at. local_change \<lparr>qh_start = 79200 * ns_per_sec, qh_end = 21600 * ns_per_sec\<rparr> 0 = Some at
     \<and> quiet_contains \<lparr>qh_start = 79200 * ns_per_sec, qh_end = 21600 * ns_per_sec\<rparr> 0
     \<and> \<not> quiet_contains \<lparr>qh_start = 79200 * ns_per_sec, qh_end = 21600 * ns_per_sec\<rparr> (at mod day_ns)"
  using next_change_is_the_next_flip
    [of "\<lparr>qh_start = 79200 * ns_per_sec, qh_end = 21600 * ns_per_sec\<rparr>" 0]
  by (auto simp: quiet_contains_def)

subsection \<open>The override table\<close>

definition PUSH_ENABLED where [setting_keys]: "PUSH_ENABLED = ''push_enabled''"
definition IDLE_HEARTBEAT_PREFIX where [setting_keys]: "IDLE_HEARTBEAT_PREFIX = ''idle_heartbeat_secs_''"

definition FREQUENT_HEARTBEAT_SECS :: int where
  "FREQUENT_HEARTBEAT_SECS = 15 * 60"

definition KEYS :: "string list" where
  "KEYS = [SYNC_INTERVAL_MINUTES, PUSH_ENABLED, SENT_COPY_ENABLED, COLLECT_SENT_CONTACTS,
           NOTIFICATIONS_ENABLED, QUIET_HOURS_ENABLED, QUIET_HOURS_START, QUIET_HOURS_END]"

definition stored :: "settings_db \<Rightarrow> int \<Rightarrow> string \<Rightarrow> string option" where
  "stored db account_id key = account_values db account_id key"

definition overrides :: "settings_db \<Rightarrow> int \<Rightarrow> string \<Rightarrow> string option" where
  "overrides db account_id key = (if key \<in> set KEYS then account_values db account_id key else None)"

definition normalize_override :: "string \<Rightarrow> string \<Rightarrow> string result" where
  "normalize_override key val =
     (if key = SYNC_INTERVAL_MINUTES then
        (case parse_i64 val of
           None \<Rightarrow> Inl (InvalidInput (key @ '': not a number: '' @ val))
         | Some m \<Rightarrow> Inr (string_of_int (normalize_sync_interval m)))
      else if key = QUIET_HOURS_START \<or> key = QUIET_HOURS_END then
        (case parse_time val of
           None \<Rightarrow> Inl (InvalidInput (key @ '': not a time (HH:MM): '' @ val))
         | Some t \<Rightarrow> Inr (format_time t))
      else if ascii_lowercase val \<in> {''1'', ''true'', ''on''} then Inr ''1''
      else if ascii_lowercase val \<in> {''0'', ''false'', ''off''} then Inr ''0''
      else Inl (InvalidInput (key @ '': not a yes/no value: '' @ val)))"

definition override_entry :: "string \<Rightarrow> string \<Rightarrow> string option result" where
  "override_entry key val =
     (let stored_val =
        (if trim val = [] then Inr None
         else (case normalize_override key (trim val) of Inl e \<Rightarrow> Inl e | Inr s \<Rightarrow> Inr (Some s)))
      in case stored_val of
           Inl e \<Rightarrow> Inl e
         | Inr s \<Rightarrow> if key \<in> set KEYS then Inr s
                    else Inl (InvalidInput (''not an account setting: '' @ key)))"

fun override_entries :: "(string \<times> string) list \<Rightarrow> (string \<times> string option) list result" where
  "override_entries [] = Inr []"
| "override_entries ((k, v) # ps) =
     (case override_entry k v of
        Inl e \<Rightarrow> Inl e
      | Inr s \<Rightarrow> (case override_entries ps of Inl e \<Rightarrow> Inl e | Inr rest \<Rightarrow> Inr ((k, s) # rest)))"

definition put_override :: "int \<Rightarrow> string \<times> string option \<Rightarrow> settings_db \<Rightarrow> settings_db" where
  "put_override account_id p db =
     db\<lparr>account_values := (account_values db)
          (account_id := (account_values db account_id)(fst p := snd p))\<rparr>"

definition set_overrides :: "int \<Rightarrow> (string \<times> string) list \<Rightarrow> settings_db \<Rightarrow> unit result \<times> settings_db" where
  "set_overrides account_id pairs db =
     (case override_entries pairs of
        Inl e \<Rightarrow> (Inl e, db)
      | Inr entries \<Rightarrow> (Inr (), fold (put_override account_id) entries db))"

subsection \<open>Resolvers\<close>

definition sync_interval :: "settings_db \<Rightarrow> int \<Rightarrow> int" where
  "sync_interval db account_id =
     (case Option.bind (stored db account_id SYNC_INTERVAL_MINUTES) parse_i64 of
        None \<Rightarrow> get_sync_interval db
      | Some m \<Rightarrow> normalize_sync_interval m)"

definition push_enabled :: "settings_db \<Rightarrow> int \<Rightarrow> bool" where
  "push_enabled db account_id =
     (case stored db account_id PUSH_ENABLED of
        Some v \<Rightarrow> v = ''1''
      | None \<Rightarrow> get_background_scheduler db = ''push'')"

definition quiet_time :: "settings_db \<Rightarrow> int \<Rightarrow> string \<Rightarrow> bool \<Rightarrow> string" where
  "quiet_time db account_id key own =
     (case Option.bind (if own then stored db account_id key else None) parse_time of
        None \<Rightarrow> get_quiet_time db key
      | Some t \<Rightarrow> format_time t)"

definition quiet_window :: "settings_db \<Rightarrow> int \<Rightarrow> bool \<Rightarrow> quiet_hours option" where
  "quiet_window db account_id own =
     (case (parse_time (quiet_time db account_id QUIET_HOURS_START own),
            parse_time (quiet_time db account_id QUIET_HOURS_END own)) of
        (Some s, Some e) \<Rightarrow> if s \<noteq> e then Some \<lparr>qh_start = s, qh_end = e\<rparr> else None
      | _ \<Rightarrow> None)"

definition quiet_hours_of :: "settings_db \<Rightarrow> int \<Rightarrow> quiet_hours option" where
  "quiet_hours_of db account_id =
     (case stored db account_id QUIET_HOURS_ENABLED of
        Some v \<Rightarrow> if v = ''1'' then quiet_window db account_id True else None
      | None \<Rightarrow>
          if setting_get_bool db QUIET_HOURS_ENABLED then quiet_window db account_id False else None)"

definition is_quiet_at :: "settings_db \<Rightarrow> int \<Rightarrow> zoned \<Rightarrow> bool" where
  "is_quiet_at db account_id now =
     (case quiet_hours_of db account_id of None \<Rightarrow> False | Some q \<Rightarrow> contains_at q now)"

definition account_get_bool :: "settings_db \<Rightarrow> int \<Rightarrow> string \<Rightarrow> bool" where
  "account_get_bool db account_id key =
     (if key = PUSH_ENABLED then push_enabled db account_id
      else if key = QUIET_HOURS_ENABLED then quiet_hours_of db account_id \<noteq> None
      else (case stored db account_id key of Some v \<Rightarrow> v = ''1'' | None \<Rightarrow> setting_get_bool db key))"

definition effective_value :: "settings_db \<Rightarrow> int \<Rightarrow> string \<Rightarrow> string" where
  "effective_value db account_id key =
     (if key = SYNC_INTERVAL_MINUTES then string_of_int (sync_interval db account_id)
      else if key = QUIET_HOURS_START \<or> key = QUIET_HOURS_END then
        quiet_time db account_id key (stored db account_id QUIET_HOURS_ENABLED = Some ''1'')
      else if account_get_bool db account_id key then ''1'' else ''0'')"

definition effective :: "settings_db \<Rightarrow> int \<Rightarrow> (string \<times> string) list" where
  "effective db account_id = map (\<lambda>key. (key, effective_value db account_id key)) KEYS"

definition idle_heartbeat_secs :: "settings_db \<Rightarrow> int \<Rightarrow> int option" where
  "idle_heartbeat_secs db account_id =
     positive_number (setting_get db (IDLE_HEARTBEAT_PREFIX @ string_of_int account_id))"

definition record_idle_heartbeats ::
  "int \<Rightarrow> nat \<Rightarrow> int option \<Rightarrow> int \<Rightarrow> settings_db \<Rightarrow> settings_db" where
  "record_idle_heartbeats account_id heartbeats every_secs idled_secs db =
     (let val = (case every_secs of
            Some every \<Rightarrow>
              if 0 < heartbeats then Some (max every 1)
              else if FREQUENT_HEARTBEAT_SECS \<le> idled_secs then Some 0 else None
          | None \<Rightarrow> if FREQUENT_HEARTBEAT_SECS \<le> idled_secs then Some 0 else None)
      in case val of
           None \<Rightarrow> db
         | Some n \<Rightarrow>
             (let key = IDLE_HEARTBEAT_PREFIX @ string_of_int account_id
              in if setting_get db key = Some (string_of_int n) then db
                 else setting_set key (string_of_int n) db))"

subsection \<open>Overrides and inheritance\<close>

lemma stored_put [simp]:
  "stored (put_override a p db) b k = (if a = b \<and> k = fst p then snd p else stored db b k)"
  by (simp add: stored_def put_override_def)

lemma app_values_put [simp]: "app_values (put_override a p db) = app_values db"
  by (simp add: put_override_def)

lemma stored_fold:
  "stored (fold (put_override a) es db) b k =
     (if a = b then (case map_of (rev es) k of None \<Rightarrow> stored db b k | Some v \<Rightarrow> v) else stored db b k)"
  by (induction es arbitrary: db) (auto simp: map_add_def split: option.splits)

lemma app_values_fold: "app_values (fold (put_override a) es db) = app_values db"
  by (induction es arbitrary: db) auto

text \<open>What an account sees depends on the app-wide values and its own overrides alone.\<close>

lemma effective_value_cong:
  assumes "app_values db = app_values db'" and "stored db a = stored db' b"
  shows "effective_value db a k = effective_value db' b k"
proof -
  have g: "setting_get db = setting_get db'"
    using assms(1) by (intro ext) (simp add: setting_get_def)
  have app: "get_sync_interval db = get_sync_interval db'"
    "get_background_scheduler db = get_background_scheduler db'"
    "get_quiet_time db k = get_quiet_time db' k" "setting_get_bool db k = setting_get_bool db' k" for k
    by (simp_all add: get_sync_interval_def get_number_def get_background_scheduler_def
        get_text_def get_quiet_time_def setting_get_bool_def g)
  have q: "quiet_time db a = quiet_time db' b"
    by (intro ext) (simp add: quiet_time_def app assms(2) cong: option.case_cong)
  have w: "quiet_window db a = quiet_window db' b"
    by (intro ext) (simp add: quiet_window_def q)
  have h: "quiet_hours_of db a = quiet_hours_of db' b"
    by (simp add: quiet_hours_of_def app assms(2) w cong: option.case_cong if_cong)
  have f: "account_get_bool db a = account_get_bool db' b"
    by (intro ext) (simp add: account_get_bool_def push_enabled_def app assms(2) h cong: option.case_cong)
  show ?thesis
    by (simp add: effective_value_def sync_interval_def app assms(2) q f cong: option.case_cong)
qed

lemma override_entries_map:
  "override_entries ps = Inr es \<Longrightarrow>
     (case map_of (rev ps) k of
        None \<Rightarrow> map_of (rev es) k = None
      | Some v \<Rightarrow> \<exists>s. override_entry k v = Inr s \<and> map_of (rev es) k = Some s)"
  by (induction ps arbitrary: es rule: override_entries.induct)
    (fastforce simp: map_add_def split: sum.splits option.splits if_splits)+

lemma override_known_key: "override_entry k v = Inr s \<Longrightarrow> k \<in> set KEYS"
  by (auto simp: override_entry_def Let_def split: sum.splits if_splits)

lemma normalize_sync_range: "0 \<le> normalize_sync_interval n" "normalize_sync_interval n \<le> 1440"
  by (auto simp: normalize_sync_interval_def clamp_def)

lemma override_interval:
  assumes "i64_min \<le> n" and "n \<le> i64_max"
  shows "override_entry SYNC_INTERVAL_MINUTES (string_of_int n)
     = Inr (Some (string_of_int (normalize_sync_interval n)))"
proof -
  have "string_of_int n \<noteq> []" by (simp add: string_of_int_def)
  then show ?thesis
    using assms by (simp add: override_entry_def normalize_override_def trim_string_of_int
        parse_string_of_int KEYS_def)
qed

lemma override_flag:
  assumes "override_entry k v = Inr s" and "trim v \<noteq> []"
    and "k \<in> {SENT_COPY_ENABLED, COLLECT_SENT_CONTACTS, NOTIFICATIONS_ENABLED, PUSH_ENABLED}"
  shows "s = Some (if ascii_lowercase (trim v) \<in> {''1'', ''true'', ''on''} then ''1'' else ''0'')"
proof -
  have "k \<noteq> SYNC_INTERVAL_MINUTES" "k \<noteq> QUIET_HOURS_START" "k \<noteq> QUIET_HOURS_END"
    using assms(3) by (auto simp: setting_keys)
  with assms(1,2) show ?thesis
    by (auto simp: override_entry_def normalize_override_def split: if_splits)
qed

text \<open>
  Overrides: a bad batch changes nothing; a good one is the account's alone (every other
  account's effective settings stay as they were) and touches known keys only; an overridden
  interval or flag is what the account then sees, and a blank value makes it inherit again.
\<close>

theorem overrides_are_per_account:
  "case set_overrides a pairs db of
     (Inl e, db') \<Rightarrow> db' = db
   | (Inr _, db') \<Rightarrow>
       (\<forall>b. b \<noteq> a \<longrightarrow> effective db' b = effective db b)
       \<and> (\<forall>k. stored db' a k \<noteq> stored db a k \<longrightarrow> k \<in> set KEYS)
       \<and> (\<forall>n. map_of (rev pairs) SYNC_INTERVAL_MINUTES = Some (string_of_int n)
             \<and> i64_min \<le> n \<and> n \<le> i64_max \<longrightarrow> sync_interval db' a = normalize_sync_interval n)
       \<and> (map_of (rev pairs) SYNC_INTERVAL_MINUTES = Some [] \<longrightarrow> sync_interval db' a = get_sync_interval db)
       \<and> (\<forall>k v. k \<in> {SENT_COPY_ENABLED, COLLECT_SENT_CONTACTS, NOTIFICATIONS_ENABLED, PUSH_ENABLED}
             \<and> map_of (rev pairs) k = Some v \<and> trim v \<noteq> []
           \<longrightarrow> account_get_bool db' a k = (ascii_lowercase (trim v) \<in> {''1'', ''true'', ''on''}))"
proof (cases "override_entries pairs")
  case (Inl e)
  then show ?thesis by (simp add: set_overrides_def)
next
  case (Inr es)
  let ?db = "fold (put_override a) es db"
  note m = override_entries_map [OF Inr]
  have st: "stored ?db a k = (case map_of (rev es) k of None \<Rightarrow> stored db a k | Some v \<Rightarrow> v)" for k
    by (simp add: stored_fold)
  have others: "\<forall>b. b \<noteq> a \<longrightarrow> effective ?db b = effective db b"
  proof (intro allI impI)
    fix b assume "b \<noteq> a"
    then have "stored ?db b = stored db b" by (intro ext) (simp add: stored_fold)
    then show "effective ?db b = effective db b"
      unfolding effective_def using effective_value_cong [OF app_values_fold] by simp
  qed
  have known: "\<forall>k. stored ?db a k \<noteq> stored db a k \<longrightarrow> k \<in> set KEYS"
  proof (intro allI impI)
    fix k assume "stored ?db a k \<noteq> stored db a k"
    then obtain s where "map_of (rev es) k = Some s" by (auto simp: st split: option.splits)
    then obtain v where "override_entry k v = Inr s" using m [of k] by (auto split: option.splits)
    then show "k \<in> set KEYS" by (rule override_known_key)
  qed
  have interval: "sync_interval ?db a = normalize_sync_interval n"
    if "map_of (rev pairs) SYNC_INTERVAL_MINUTES = Some (string_of_int n)" "i64_min \<le> n" "n \<le> i64_max" for n
  proof -
    have "i64_min \<le> normalize_sync_interval n" "normalize_sync_interval n \<le> i64_max"
      using normalize_sync_range [of n] by (simp_all add: i64_min_def i64_max_def)
    moreover have "stored ?db a SYNC_INTERVAL_MINUTES = Some (string_of_int (normalize_sync_interval n))"
      using m [of SYNC_INTERVAL_MINUTES] that by (auto simp: st override_interval)
    ultimately show ?thesis
      by (simp add: sync_interval_def parse_string_of_int sync_every.norm_idem)
  qed
  have blank: "sync_interval ?db a = get_sync_interval db"
    if "map_of (rev pairs) SYNC_INTERVAL_MINUTES = Some []"
  proof -
    have "stored ?db a SYNC_INTERVAL_MINUTES = None"
      using m [of SYNC_INTERVAL_MINUTES] that by (auto simp: st override_entry_def KEYS_def)
    then show ?thesis
      by (simp add: sync_interval_def get_sync_interval_def get_number_def setting_get_def app_values_fold)
  qed
  have flag: "account_get_bool ?db a k = (ascii_lowercase (trim v) \<in> {''1'', ''true'', ''on''})"
    if k: "k \<in> {SENT_COPY_ENABLED, COLLECT_SENT_CONTACTS, NOTIFICATIONS_ENABLED, PUSH_ENABLED}"
      and v: "map_of (rev pairs) k = Some v" "trim v \<noteq> []" for k v
  proof -
    obtain s where "override_entry k v = Inr s" "map_of (rev es) k = Some s"
      using m [of k] v(1) by auto
    then have "stored ?db a k = Some (if ascii_lowercase (trim v) \<in> {''1'', ''true'', ''on''} then ''1'' else ''0'')"
      using override_flag [OF _ v(2) k] by (simp add: st)
    moreover have "k \<noteq> QUIET_HOURS_ENABLED" using k by (auto simp: setting_keys)
    ultimately show ?thesis
      by (cases "k = PUSH_ENABLED") (simp_all add: account_get_bool_def push_enabled_def)
  qed
  show ?thesis
    using Inr others known interval blank flag by (simp add: set_overrides_def)
qed

theorem overrides_are_per_account_witness:
  "case set_overrides 1 [(SYNC_INTERVAL_MINUTES, string_of_int 9999)]
      \<lparr>app_values = (\<lambda>_. None), account_values = (\<lambda>_ _. None)\<rparr> of
     (Inl e, db') \<Rightarrow> False
   | (Inr _, db') \<Rightarrow> sync_interval db' 1 = 1440"
proof -
  let ?ps = "[(SYNC_INTERVAL_MINUTES, string_of_int 9999)]"
  let ?db = "\<lparr>app_values = (\<lambda>_. None), account_values = (\<lambda>_ _. None)\<rparr>"
  have "override_entries ?ps = Inr [(SYNC_INTERVAL_MINUTES, Some (string_of_int 1440))]"
    using override_interval [of 9999] by (simp add: i64_min_def i64_max_def normalize_sync_interval_def clamp_def)
  then have "fst (set_overrides 1 ?ps ?db) = Inr ()" by (simp add: set_overrides_def)
  moreover have "normalize_sync_interval 9999 = 1440" by (simp add: normalize_sync_interval_def clamp_def)
  ultimately show ?thesis
    using overrides_are_per_account [where a = 1 and pairs = ?ps and db = ?db]
    by (auto simp: i64_min_def i64_max_def split: prod.splits sum.splits)
qed

end
