(* ===== verification/Schedule.thy ===== *)
theory Schedule
  imports Account_Settings
begin

text \<open>
  Which accounts the Android background mechanisms serve (\<open>sync/background/schedule.rs\<close>). The
  accounts are the ids \<open>accounts::list\<close> returns; chrono's time zone is a parameter.
\<close>

record scheduled =
  sc_account :: int
  sc_minutes :: int
  sc_push :: bool
  sc_quiet :: bool
  sc_change_at :: "instant option"

record background_plan =
  bp_push :: bool
  bp_poll_minutes :: int
  bp_poll_scheduler :: string
  bp_quiet_accounts :: nat
  bp_replan_at :: "stamp option"

definition BG_CHECKED_PREFIX :: string where
  "BG_CHECKED_PREFIX = ''bg_checked_at_''"

definition plan_any :: "background_plan \<Rightarrow> bool" where
  "plan_any p \<longleftrightarrow> bp_push p \<or> 0 < bp_poll_minutes p \<or> 0 < bp_quiet_accounts p"

definition scheduled_account ::
  "(int \<Rightarrow> local_result) \<Rightarrow> settings_db \<Rightarrow> zoned \<Rightarrow> int \<Rightarrow> scheduled option" where
  "scheduled_account tz db now account =
     (let minutes = sync_interval db account;
          quiet = quiet_hours_of db account
      in if 0 < minutes then
           Some \<lparr>sc_account = account, sc_minutes = minutes, sc_push = push_enabled db account,
                 sc_quiet = (case quiet of None \<Rightarrow> False | Some q \<Rightarrow> contains_at q now),
                 sc_change_at = Option.bind quiet (\<lambda>q. next_change tz q now)\<rparr>
         else None)"

definition scheduled_all ::
  "(int \<Rightarrow> local_result) \<Rightarrow> int list \<Rightarrow> settings_db \<Rightarrow> zoned \<Rightarrow> scheduled list" where
  "scheduled_all tz accounts db now = List.map_filter (scheduled_account tz db now) accounts"

definition active ::
  "(int \<Rightarrow> local_result) \<Rightarrow> int list \<Rightarrow> settings_db \<Rightarrow> zoned \<Rightarrow> scheduled list" where
  "active tz accounts db now = filter (\<lambda>s. \<not> sc_quiet s) (scheduled_all tz accounts db now)"

definition min_opt :: "int list \<Rightarrow> int option" where
  "min_opt xs = (case xs of [] \<Rightarrow> None | x # r \<Rightarrow> Some (fold min r x))"

definition min_or_zero :: "int list \<Rightarrow> int" where
  "min_or_zero xs = (case min_opt xs of None \<Rightarrow> 0 | Some n \<Rightarrow> n)"

definition plan_at ::
  "(int \<Rightarrow> local_result) \<Rightarrow> int list \<Rightarrow> settings_db \<Rightarrow> zoned \<Rightarrow> background_plan" where
  "plan_at tz accounts db now =
     (let all = scheduled_all tz accounts db now;
          act = filter (\<lambda>s. \<not> sc_quiet s) all
      in \<lparr>bp_push = list_ex sc_push act,
          bp_poll_minutes = min_or_zero (map sc_minutes (filter (\<lambda>s. \<not> sc_push s) act)),
          bp_poll_scheduler =
            (if get_background_scheduler db = ''alarm'' then ''alarm'' else ''workmanager''),
          bp_quiet_accounts = length (filter sc_quiet all),
          bp_replan_at = map_option secs (min_opt (List.map_filter sc_change_at all))\<rparr>)"

definition push_account_ids_at ::
  "(int \<Rightarrow> local_result) \<Rightarrow> int list \<Rightarrow> settings_db \<Rightarrow> zoned \<Rightarrow> int list" where
  "push_account_ids_at tz accounts db now = map sc_account (filter sc_push (active tz accounts db now))"

definition last_checked :: "settings_db \<Rightarrow> int \<Rightarrow> int option" where
  "last_checked db account_id =
     Option.bind (setting_get db (BG_CHECKED_PREFIX @ string_of_int account_id)) (\<lambda>v. parse_i64 (trim v))"

definition due_accounts_at ::
  "(int \<Rightarrow> local_result) \<Rightarrow> int list \<Rightarrow> settings_db \<Rightarrow> zoned \<Rightarrow> int list" where
  "due_accounts_at tz accounts db now =
     (let polled = filter (\<lambda>s. \<not> sc_push s) (active tz accounts db now);
          tick = min_or_zero (map sc_minutes polled)
      in map sc_account
           (filter (\<lambda>s. case last_checked db (sc_account s) of
                          None \<Rightarrow> True
                        | Some checked \<Rightarrow>
                            sc_minutes s * 60 - tick * 30 \<le> secs (z_utc now) - checked) polled))"

definition mark_checked :: "int \<Rightarrow> instant \<Rightarrow> settings_db \<Rightarrow> settings_db" where
  "mark_checked account_id now db =
     setting_set (BG_CHECKED_PREFIX @ string_of_int account_id) (string_of_int (secs now)) db"

subsection \<open>Helpers\<close>

lemma min_opt_Some: "min_opt xs = Some m \<Longrightarrow> m \<in> set xs \<and> (\<forall>x \<in> set xs. m \<le> x)"
proof -
  have "fold min r (x :: int) \<in> set (x # r) \<and> (\<forall>y \<in> set (x # r). fold min r x \<le> y)" for r x
  proof (induction r arbitrary: x)
    case (Cons y r)
    from Cons [of "min y x"] show ?case by (auto simp: min_def split: if_splits)
  qed simp
  then show "min_opt xs = Some m \<Longrightarrow> m \<in> set xs \<and> (\<forall>x \<in> set xs. m \<le> x)"
    by (cases xs) (auto simp: min_opt_def)
qed

lemma min_opt_None [simp]: "min_opt xs = None \<longleftrightarrow> xs = []"
  by (simp add: min_opt_def split: list.splits)

lemma min_or_zero_le: "x \<in> set xs \<Longrightarrow> min_or_zero xs \<le> x"
  using min_opt_Some [of xs] by (cases "min_opt xs") (auto simp: min_or_zero_def)

lemma min_or_zero_pos: "\<forall>x \<in> set xs. 0 < x \<Longrightarrow> 0 < min_or_zero xs \<longleftrightarrow> xs \<noteq> []"
  using min_opt_Some [of xs] min_opt_None [of xs]
  by (cases "min_opt xs") (auto simp: min_or_zero_def simp del: min_opt_None)

lemma set_map_filter: "set (List.map_filter f xs) = {y. \<exists>x \<in> set xs. f x = Some y}"
  by (force simp: map_filter_def)

lemma in_active:
  "s \<in> set (active tz accounts db now) \<longleftrightarrow>
     sc_account s \<in> set accounts \<and> 0 < sc_minutes s \<and> \<not> sc_quiet s
     \<and> scheduled_account tz db now (sc_account s) = Some s"
proof -
  have "scheduled_account tz db now a = Some s \<Longrightarrow> sc_account s = a \<and> 0 < sc_minutes s" for a
    by (auto simp: scheduled_account_def Let_def split: if_splits)
  then show ?thesis by (auto simp: active_def scheduled_all_def set_map_filter)
qed

lemma scheduled_minutes: "scheduled_account tz db now a = Some s \<Longrightarrow> sc_account s = a
    \<and> sc_minutes s = sync_interval db a \<and> sc_push s = push_enabled db a
    \<and> sc_quiet s = is_quiet_at db a now"
  by (auto simp: scheduled_account_def is_quiet_at_def Let_def split: if_splits option.splits)

definition polled_now :: "settings_db \<Rightarrow> zoned \<Rightarrow> int \<Rightarrow> bool" where
  "polled_now db now a \<longleftrightarrow> 0 < sync_interval db a \<and> \<not> push_enabled db a \<and> \<not> is_quiet_at db a now"

lemma scheduled_account_eq:
  "0 < sync_interval db a \<Longrightarrow> \<exists>s. scheduled_account tz db now a = Some s"
  by (simp add: scheduled_account_def Let_def)

lemma poll_minutes_eq:
  "bp_poll_minutes (plan_at tz accounts db now) =
     min_or_zero (map sc_minutes (filter (\<lambda>s. \<not> sc_push s) (active tz accounts db now)))"
  by (simp add: plan_at_def active_def Let_def)

lemma set_pushed:
  "set (push_account_ids_at tz accounts db now) =
     {a \<in> set accounts. 0 < sync_interval db a \<and> push_enabled db a \<and> \<not> is_quiet_at db a now}"
proof (intro set_eqI iffI)
  fix a assume "a \<in> set (push_account_ids_at tz accounts db now)"
  then show "a \<in> {a \<in> set accounts. 0 < sync_interval db a \<and> push_enabled db a \<and> \<not> is_quiet_at db a now}"
    using scheduled_minutes [of tz db now a] by (auto simp: push_account_ids_at_def in_active)
next
  fix a assume a: "a \<in> {a \<in> set accounts. 0 < sync_interval db a \<and> push_enabled db a \<and> \<not> is_quiet_at db a now}"
  then obtain s where s: "scheduled_account tz db now a = Some s" using scheduled_account_eq by blast
  with a scheduled_minutes [OF s] show "a \<in> set (push_account_ids_at tz accounts db now)"
    by (force simp: push_account_ids_at_def in_active)
qed

lemma set_polled:
  "s \<in> set (filter (\<lambda>s. \<not> sc_push s) (active tz accounts db now)) \<longleftrightarrow>
     scheduled_account tz db now (sc_account s) = Some s \<and> sc_account s \<in> set accounts
     \<and> polled_now db now (sc_account s)"
  using scheduled_minutes [of tz db now "sc_account s" s] by (auto simp: in_active polled_now_def)

lemma polled_iff:
  "(\<exists>s. s \<in> set (filter (\<lambda>s. \<not> sc_push s) (active tz accounts db now)) \<and> sc_account s = a)
     \<longleftrightarrow> a \<in> set accounts \<and> polled_now db now a"
proof -
  have "\<exists>s. scheduled_account tz db now a = Some s \<and> sc_account s = a" if "polled_now db now a"
    using that scheduled_account_eq [of db a tz now] scheduled_minutes by (auto simp: polled_now_def)
  then show ?thesis unfolding set_polled by metis
qed

lemma due_iff:
  "a \<in> set (due_accounts_at tz accounts db now) \<longleftrightarrow>
     a \<in> set accounts \<and> polled_now db now a
     \<and> (case last_checked db a of
          None \<Rightarrow> True
        | Some checked \<Rightarrow>
            sync_interval db a * 60 - bp_poll_minutes (plan_at tz accounts db now) * 30
              \<le> secs (z_utc now) - checked)"
  (is "_ \<longleftrightarrow> ?r")
proof
  assume "a \<in> set (due_accounts_at tz accounts db now)"
  then obtain s where s: "s \<in> set (filter (\<lambda>s. \<not> sc_push s) (active tz accounts db now))"
    and "sc_account s = a" "case last_checked db a of None \<Rightarrow> True | Some checked \<Rightarrow>
      sc_minutes s * 60 - bp_poll_minutes (plan_at tz accounts db now) * 30 \<le> secs (z_utc now) - checked"
    unfolding poll_minutes_eq by (auto simp: due_accounts_at_def Let_def)
  moreover have "sc_minutes s = sync_interval db (sc_account s)"
    using s set_polled scheduled_minutes by blast
  ultimately show ?r using set_polled [THEN iffD1, OF s] by (auto split: option.splits)
next
  assume r: ?r
  then obtain s where s: "scheduled_account tz db now a = Some s"
    using scheduled_account_eq polled_now_def by blast
  note sm = scheduled_minutes [OF s]
  then have "s \<in> set (filter (\<lambda>s. \<not> sc_push s) (active tz accounts db now))"
    unfolding set_polled using r s by simp
  moreover have "case last_checked db (sc_account s) of None \<Rightarrow> True | Some checked \<Rightarrow>
      sc_minutes s * 60 - bp_poll_minutes (plan_at tz accounts db now) * 30 \<le> secs (z_utc now) - checked"
    using r sm by (simp cong: option.case_cong)
  ultimately have "s \<in> set (filter (\<lambda>s. case last_checked db (sc_account s) of None \<Rightarrow> True | Some checked \<Rightarrow>
      sc_minutes s * 60 - bp_poll_minutes (plan_at tz accounts db now) * 30 \<le> secs (z_utc now) - checked)
        (filter (\<lambda>s. \<not> sc_push s) (active tz accounts db now)))"
    by simp
  then have "sc_account s \<in> set (due_accounts_at tz accounts db now)"
    unfolding due_accounts_at_def Let_def poll_minutes_eq set_map by (rule imageI)
  with sm show "a \<in> set (due_accounts_at tz accounts db now)" by simp
qed

lemma poll_minutes_le:
  assumes "a \<in> set accounts" and "polled_now db now a"
  shows "bp_poll_minutes (plan_at tz accounts db now) \<le> sync_interval db a"
proof -
  obtain s where s: "scheduled_account tz db now a = Some s"
    using assms(2) scheduled_account_eq polled_now_def by blast
  note sm = scheduled_minutes [OF s]
  then have "s \<in> set (filter (\<lambda>s. \<not> sc_push s) (active tz accounts db now))"
    unfolding set_polled using assms s by simp
  then have "sc_minutes s \<in> set (map sc_minutes (filter (\<lambda>s. \<not> sc_push s) (active tz accounts db now)))"
    unfolding set_map by (rule imageI)
  then show ?thesis using min_or_zero_le sm unfolding poll_minutes_eq by metis
qed

lemma poll_minutes_pos:
  "0 < bp_poll_minutes (plan_at tz accounts db now) \<longleftrightarrow> {a \<in> set accounts. polled_now db now a} \<noteq> {}"
proof -
  let ?p = "filter (\<lambda>s. \<not> sc_push s) (active tz accounts db now)"
  have "\<forall>x \<in> set (map sc_minutes ?p). 0 < x" by (auto simp: in_active)
  then have "0 < min_or_zero (map sc_minutes ?p) \<longleftrightarrow> ?p \<noteq> []" using min_or_zero_pos by fastforce
  also have "\<dots> \<longleftrightarrow> (\<exists>s. s \<in> set ?p)" by (metis list.set_intros(1) neq_Nil_conv in_set_conv_nth length_pos_if_in_set list.size(3) not_less0)
  also have "\<dots> \<longleftrightarrow> (\<exists>a. a \<in> set accounts \<and> polled_now db now a)"
    using polled_iff [of tz accounts db now] by metis
  finally show ?thesis unfolding poll_minutes_eq by blast
qed


definition sample_settings :: settings_db where
  "sample_settings = \<lparr>app_values = (\<lambda>k. if k = SYNC_INTERVAL_MINUTES then Some (string_of_int 30) else None),
     account_values = (\<lambda>_ _. None)\<rparr>"

lemma sample_polled: "sync_interval sample_settings a = 30" "polled_now sample_settings now a"
proof -
  have "get_sync_interval sample_settings = 30"
    by (simp add: get_sync_interval_def get_number_def setting_get_def sample_settings_def
        trim_string_of_int parse_string_of_int i64_min_def i64_max_def normalize_sync_interval_def clamp_def)
  then show s: "sync_interval sample_settings a = 30"
    by (simp add: sync_interval_def stored_def sample_settings_def)
  have "BACKGROUND_SCHEDULER \<noteq> SYNC_INTERVAL_MINUTES" "QUIET_HOURS_ENABLED \<noteq> SYNC_INTERVAL_MINUTES"
    "setting_default QUIET_HOURS_ENABLED = Some ''0''"
    by (simp_all add: key_simps setting_default_def)
  then have "\<not> push_enabled sample_settings a" "\<not> is_quiet_at sample_settings a now"
    by (simp_all add: push_enabled_def stored_def sample_settings_def get_background_scheduler_def
        get_text_def setting_get_def default_simps is_quiet_at_def quiet_hours_of_def
        setting_get_bool_def default_flag_def)
  with s show "polled_now sample_settings now a" by (simp add: polled_now_def)
qed


end
