(* ===== verification/Mail_Store.thy ===== *)
theory Mail_Store
  imports Text "HOL-Library.Option_ord"
begin

text \<open>
  The local cache: the \<open>folders\<close>, \<open>messages\<close> and \<open>pending_moves\<close> tables (\<open>models.rs\<close>,
  \<open>store/folders.rs\<close>, \<open>store/messages.rs\<close>, \<open>store/messages/flags.rs\<close>, \<open>store/pending_moves.rs\<close>),
  one definition per operation. A table is the list of its rows in rowid order; foreign keys with
  \<open>on delete cascade\<close> are written out in the deletes. SQLite is taken to answer every statement.
  \<open>db_seen\<close> is the log of header blocks handed to the contact collector, whose own table is not
  part of this theory.
\<close>

subsection \<open>Folder roles\<close>

datatype folder_role = Inbox | Sent | Drafts | Trash | Junk | Archive | Custom

fun folder_role_str :: "folder_role \<Rightarrow> string" where
  "folder_role_str Inbox = ''inbox''"
| "folder_role_str Sent = ''sent''"
| "folder_role_str Drafts = ''drafts''"
| "folder_role_str Trash = ''trash''"
| "folder_role_str Junk = ''junk''"
| "folder_role_str Archive = ''archive''"
| "folder_role_str Custom = ''custom''"

definition parse_role :: "string \<Rightarrow> folder_role" where
  "parse_role s =
     (let l = ascii_lowercase s in
      if l = ''inbox'' then Inbox
      else if l = ''sent'' then Sent
      else if l = ''drafts'' then Drafts
      else if l = ''trash'' then Trash
      else if l = ''junk'' \<or> l = ''spam'' then Junk
      else if l = ''archive'' then Archive
      else Custom)"

definition always_visible :: "folder_role \<Rightarrow> bool" where
  "always_visible r \<longleftrightarrow> r \<noteq> Custom"

fun role_weight :: "folder_role \<Rightarrow> nat" where
  "role_weight Inbox = 0"
| "role_weight Drafts = 1"
| "role_weight Sent = 2"
| "role_weight Archive = 3"
| "role_weight Junk = 4"
| "role_weight Trash = 5"
| "role_weight Custom = 6"

text \<open>The sidebar's order of the roles is the order of their weights.\<close>

instantiation folder_role :: linorder
begin

definition less_eq_folder_role :: "folder_role \<Rightarrow> folder_role \<Rightarrow> bool" where
  "less_eq_folder_role a b \<longleftrightarrow> role_weight a \<le> role_weight b"

definition less_folder_role :: "folder_role \<Rightarrow> folder_role \<Rightarrow> bool" where
  "less_folder_role a b \<longleftrightarrow> role_weight a < role_weight b"

lemma role_weight_inj: "role_weight a = role_weight b \<Longrightarrow> a = b"
  by (cases a; cases b) simp_all

instance
  by standard (auto simp: less_eq_folder_role_def less_folder_role_def intro: role_weight_inj)

end

interpretation role_code: name_code folder_role_str "\<lambda>s. Some (parse_role s)"
  by unfold_locales (rename_tac r, case_tac r;
      simp add: parse_role_def Let_def ascii_lowercase_def to_ascii_lower_def)

subsection \<open>Tables\<close>

record folder =
  d_id :: int
  d_account_id :: int
  d_path :: string
  d_delimiter :: string
  d_role :: folder_role
  d_uid_validity :: "nat option"
  d_uid_next :: "nat option"
  d_server_total :: "nat option"
  d_highest_modseq :: nat
  d_subscribed :: bool
  d_last_sync_at :: "stamp option"

record new_message =
  m_account_id :: int
  m_folder_id :: int
  m_uid :: nat
  m_message_id_header :: "string option"
  m_thread_id :: "string option"
  m_subject :: "string option"
  m_from_addr :: "string option"
  m_from_name :: "string option"
  m_to_addrs :: "string list"
  m_cc_addrs :: "string list"
  m_bcc_addrs :: "string list"
  m_reply_to :: "string option"
  m_date :: "string option"
  m_snippet :: "string option"
  m_body_text :: "string option"
  m_body_html :: "string option"
  m_raw_headers :: "string option"
  m_is_read :: bool
  m_is_starred :: bool
  m_is_draft :: bool
  m_has_attachments :: bool
  m_keywords :: "string list"
  m_size :: nat
  m_downloaded_full :: bool

text \<open>A row of \<open>messages\<close> is a \<open>new_message\<close> with its id, the \<open>flags_dirty\<close> mark and its stamp.\<close>

record message = new_message +
  m_id :: int
  m_flags_dirty :: bool
  m_updated_at :: stamp

datatype pending_action = To_Trash | To_Archive | To_Folder

fun pending_action_str :: "pending_action \<Rightarrow> string" where
  "pending_action_str To_Trash = ''trash''"
| "pending_action_str To_Archive = ''archive''"
| "pending_action_str To_Folder = ''move''"

definition parse_action :: "string \<Rightarrow> pending_action option" where
  "parse_action s =
     (if s = ''trash'' then Some To_Trash
      else if s = ''archive'' then Some To_Archive
      else if s = ''move'' then Some To_Folder else None)"

interpretation action_code: name_code pending_action_str parse_action
  by unfold_locales (rename_tac a, case_tac a; simp add: parse_action_def)

record pending_row =
  p_message_id :: int
  p_batch :: string
  p_action :: string
  p_dest_folder_id :: "int option"
  p_due_at :: stamp
  p_attempts :: int

record mail_db =
  db_folders :: "folder list"
  db_messages :: "message list"
  db_pending :: "pending_row list"
  db_next_folder :: int
  db_next_message :: int
  db_seen :: "(folder_role \<times> string option) list"

definition hidden :: "mail_db \<Rightarrow> int \<Rightarrow> bool" where
  "hidden db i \<longleftrightarrow> list_ex (\<lambda>p. p_message_id p = i) (db_pending db)"

subsection \<open>Folders\<close>

definition folder_upsert ::
  "int \<Rightarrow> string \<Rightarrow> string \<Rightarrow> folder_role \<Rightarrow> mail_db \<Rightarrow> int \<times> mail_db" where
  "folder_upsert account_id path delimiter role db =
     (case find (\<lambda>f. d_account_id f = account_id \<and> d_path f = path) (db_folders db) of
        Some f \<Rightarrow>
          (d_id f,
           db\<lparr>db_folders := update_where (\<lambda>f. d_account_id f = account_id \<and> d_path f = path)
                (\<lambda>f. f\<lparr>d_delimiter := delimiter, d_role := role\<rparr>) (db_folders db)\<rparr>)
      | None \<Rightarrow>
          (db_next_folder db,
           db\<lparr>db_folders := db_folders db @
                [\<lparr>d_id = db_next_folder db, d_account_id = account_id, d_path = path,
                  d_delimiter = delimiter, d_role = role, d_uid_validity = None, d_uid_next = None,
                  d_server_total = None, d_highest_modseq = 0, d_subscribed = True,
                  d_last_sync_at = None\<rparr>],
              db_next_folder := db_next_folder db + 1\<rparr>))"

definition split_top :: "string \<Rightarrow> string \<Rightarrow> string \<times> string option" where
  "split_top path delimiter =
     (if delimiter = [] then (path, None)
      else (case find_sub delimiter path of
              None \<Rightarrow> (path, None)
            | Some i \<Rightarrow> (take i path, Some (drop (i + length delimiter) path))))"

definition top_of :: "folder \<Rightarrow> string" where
  "top_of f = ascii_lowercase (fst (split_top (d_path f) (d_delimiter f)))"

fun top_weights :: "folder list \<Rightarrow> (string \<times> nat) list" where
  "top_weights [] = []"
| "top_weights (f # fs) =
     (let (top, rest) = split_top (d_path f) (d_delimiter f)
      in if rest = None \<and> top \<noteq> [] then (ascii_lowercase top, role_weight (d_role f)) # top_weights fs
         else top_weights fs)"

definition folder_weight :: "(string \<times> nat) list \<Rightarrow> folder \<Rightarrow> nat" where
  "folder_weight tops f = (case map_of tops (top_of f) of Some w \<Rightarrow> w | None \<Rightarrow> role_weight (d_role f))"

definition list_by_account :: "int \<Rightarrow> mail_db \<Rightarrow> folder list" where
  "list_by_account account_id db =
     (let rows = sort_key d_path (filter (\<lambda>f. d_account_id f = account_id) (db_folders db));
          tops = top_weights rows
      in sort_key (\<lambda>f. (folder_weight tops f, top_of f, ascii_lowercase (d_path f))) rows)"

definition folder_get_by_path :: "int \<Rightarrow> string \<Rightarrow> mail_db \<Rightarrow> folder result" where
  "folder_get_by_path account_id path db =
     (case find (\<lambda>f. d_account_id f = account_id \<and> d_path f = path) (db_folders db) of
        None \<Rightarrow> Inl (NotFound (''folder '' @ path)) | Some f \<Rightarrow> Inr f)"

definition folder_get :: "int \<Rightarrow> mail_db \<Rightarrow> folder result" where
  "folder_get i db =
     (case find (\<lambda>f. d_id f = i) (db_folders db) of
        None \<Rightarrow> Inl (NotFound (''folder '' @ string_of_int i)) | Some f \<Rightarrow> Inr f)"

definition update_folder ::
  "int \<Rightarrow> (folder \<Rightarrow> folder) \<Rightarrow> mail_db \<Rightarrow> unit result \<times> mail_db" where
  "update_folder i f db =
     (let db' = db\<lparr>db_folders := update_where (\<lambda>d. d_id d = i) f (db_folders db)\<rparr>
      in if count_where (\<lambda>d. d_id d = i) (db_folders db) = 0
         then (Inl (NotFound (''folder '' @ string_of_int i)), db') else (Inr (), db'))"

definition set_subscribed :: "int \<Rightarrow> bool \<Rightarrow> mail_db \<Rightarrow> unit result \<times> mail_db" where
  "set_subscribed i subscribed db = update_folder i (\<lambda>d. d\<lparr>d_subscribed := subscribed\<rparr>) db"

definition set_sync_state ::
  "instant \<Rightarrow> int \<Rightarrow> nat \<Rightarrow> nat \<Rightarrow> nat \<Rightarrow> nat \<Rightarrow> mail_db \<Rightarrow> unit result \<times> mail_db" where
  "set_sync_state now i uid_validity uid_next server_total highest_modseq db =
     update_folder i
       (\<lambda>d. d\<lparr>d_uid_validity := Some uid_validity, d_uid_next := Some uid_next,
              d_server_total := Some server_total, d_highest_modseq := highest_modseq,
              d_last_sync_at := Some (secs now)\<rparr>) db"

definition note_removed_on_server :: "int \<Rightarrow> nat \<Rightarrow> mail_db \<Rightarrow> mail_db" where
  "note_removed_on_server i removed db =
     db\<lparr>db_folders := update_where (\<lambda>d. d_id d = i \<and> d_server_total d \<noteq> None)
          (\<lambda>d. d\<lparr>d_server_total := map_option (\<lambda>t. t - removed) (d_server_total d)\<rparr>) (db_folders db)\<rparr>"

subsection \<open>Messages: rows in\<close>

definition same_slot :: "'a new_message_scheme \<Rightarrow> 'b new_message_scheme \<Rightarrow> bool" where
  "same_slot m r \<longleftrightarrow> m_account_id r = m_account_id m \<and> m_folder_id r = m_folder_id m \<and> m_uid r = m_uid m"

text \<open>
  The row an upsert leaves when the message is cached already: everything the server says, except
  that a row with an unpushed local change keeps its read and starred flags.
\<close>

definition merged_row :: "instant \<Rightarrow> new_message \<Rightarrow> message \<Rightarrow> message" where
  "merged_row now m r =
     (new_message.extend m \<lparr>m_id = m_id r, m_flags_dirty = m_flags_dirty r, m_updated_at = secs now\<rparr>)
       \<lparr>m_is_read := (if m_flags_dirty r then m_is_read r else m_is_read m),
        m_is_starred := (if m_flags_dirty r then m_is_starred r else m_is_starred m)\<rparr>"

definition fresh_row :: "instant \<Rightarrow> new_message \<Rightarrow> int \<Rightarrow> message" where
  "fresh_row now m i =
     new_message.extend m \<lparr>m_id = i, m_flags_dirty = False, m_updated_at = secs now\<rparr>"

definition message_upsert :: "instant \<Rightarrow> new_message \<Rightarrow> mail_db \<Rightarrow> int \<times> mail_db" where
  "message_upsert now m db =
     (case find (same_slot m) (db_messages db) of
        Some r \<Rightarrow>
          (m_id r, db\<lparr>db_messages := update_where (same_slot m) (merged_row now m) (db_messages db)\<rparr>)
      | None \<Rightarrow>
          (db_next_message db,
           db\<lparr>db_messages := db_messages db @ [fresh_row now m (db_next_message db)],
              db_next_message := db_next_message db + 1\<rparr>))"

subsection \<open>Messages: rows out\<close>

definition nocase :: "string option \<Rightarrow> string" where
  "nocase s = ascii_lowercase (case s of None \<Rightarrow> [] | Some t \<Rightarrow> t)"

definition by_key :: "bool \<Rightarrow> ('a \<Rightarrow> 'k :: linorder) \<Rightarrow> 'a \<Rightarrow> 'a \<Rightarrow> int" where
  "by_key descending k a b =
     (if k a = k b then 0 else if (k a < k b) \<noteq> descending then - 1 else 1)"

definition and_then :: "('a \<Rightarrow> 'a \<Rightarrow> int) \<Rightarrow> ('a \<Rightarrow> 'a \<Rightarrow> int) \<Rightarrow> 'a \<Rightarrow> 'a \<Rightarrow> int" where
  "and_then c d a b = (if c a b = 0 then d a b else c a b)"

definition folder_sort_clause :: "string \<Rightarrow> bool \<Rightarrow> message \<Rightarrow> message \<Rightarrow> bool" where
  "folder_sort_clause sort_field descending a b \<longleftrightarrow>
     (let field = ascii_lowercase (trim sort_field);
          newest = and_then (by_key True m_date) (by_key True m_id);
          cmp = (if field \<in> {''from'', ''from_addr'', ''sender''}
                 then and_then (by_key descending (\<lambda>m. nocase (m_from_addr m))) newest
                 else if field = ''subject''
                 then and_then (by_key descending (\<lambda>m. nocase (m_subject m))) newest
                 else and_then (by_key False (\<lambda>m. m_date m = None))
                        (and_then (by_key descending m_date) (by_key descending m_uid)))
      in cmp a b \<le> 0)"

record compact_message =
  c_uid :: nat
  c_subject :: "string option"
  c_from_addr :: "string option"
  c_from_name :: "string option"
  c_date :: "string option"
  c_snippet :: "string option"
  c_is_read :: bool
  c_is_starred :: bool
  c_has_attachments :: bool

definition compact_row :: "message \<Rightarrow> compact_message" where
  "compact_row m =
     \<lparr>c_uid = m_uid m, c_subject = m_subject m, c_from_addr = m_from_addr m,
      c_from_name = m_from_name m, c_date = m_date m, c_snippet = m_snippet m,
      c_is_read = m_is_read m, c_is_starred = m_is_starred m,
      c_has_attachments = m_has_attachments m\<rparr>"

definition listed :: "mail_db \<Rightarrow> int \<Rightarrow> message \<Rightarrow> bool" where
  "listed db folder_id m \<longleftrightarrow> m_folder_id m = folder_id \<and> \<not> hidden db (m_id m)"

definition page :: "nat \<Rightarrow> nat \<Rightarrow> 'a list \<Rightarrow> 'a list" where
  "page limit offset xs = take limit (drop offset xs)"

definition list_compact_by_folder_sorted ::
  "int \<Rightarrow> nat \<Rightarrow> nat \<Rightarrow> string \<Rightarrow> bool \<Rightarrow> mail_db \<Rightarrow> compact_message list" where
  "list_compact_by_folder_sorted folder_id limit offset sort_field descending db =
     page limit offset
       (map compact_row
         (sort_by (folder_sort_clause sort_field descending)
           (filter (listed db folder_id) (db_messages db))))"

definition list_compact_by_folder :: "int \<Rightarrow> mail_db \<Rightarrow> compact_message list" where
  "list_compact_by_folder folder_id db =
     map compact_row (filter (listed db folder_id) (db_messages db))"

definition list_by_folder :: "int \<Rightarrow> nat \<Rightarrow> nat \<Rightarrow> mail_db \<Rightarrow> message list" where
  "list_by_folder folder_id limit offset db =
     page limit offset
       (sort_by (folder_sort_clause ''date'' True)
         (filter (\<lambda>m. m_folder_id m = folder_id) (db_messages db)))"

definition UID_CHUNK :: nat where
  "UID_CHUNK = 900"

definition list_compact_by_uids :: "int \<Rightarrow> nat list \<Rightarrow> mail_db \<Rightarrow> compact_message list" where
  "list_compact_by_uids folder_id uids db =
     concat (map (\<lambda>chunk. map compact_row (sort_key m_uid
         (filter (\<lambda>m. listed db folder_id m \<and> m_uid m \<in> set chunk) (db_messages db))))
       (chunks 900 (clean_uids uids)))"

definition message_get :: "int \<Rightarrow> mail_db \<Rightarrow> message result" where
  "message_get i db =
     (case find (\<lambda>m. m_id m = i) (db_messages db) of
        None \<Rightarrow> Inl (NotFound (''message '' @ string_of_int i)) | Some m \<Rightarrow> Inr m)"

definition get_by_uid :: "int \<Rightarrow> nat \<Rightarrow> mail_db \<Rightarrow> message result" where
  "get_by_uid folder_id uid db =
     (case find (\<lambda>m. m_folder_id m = folder_id \<and> m_uid m = uid) (db_messages db) of
        None \<Rightarrow> Inl (NotFound (''message uid '' @ string_of_nat uid @ '' in folder '' @ string_of_int folder_id))
      | Some m \<Rightarrow> Inr m)"

definition ids_by_uids :: "int \<Rightarrow> nat list \<Rightarrow> mail_db \<Rightarrow> int list" where
  "ids_by_uids folder_id uids db =
     concat (map (\<lambda>chunk. map m_id (sort_key m_uid
         (filter (\<lambda>m. m_folder_id m = folder_id \<and> m_uid m \<in> set chunk) (db_messages db))))
       (chunks 900 (clean_uids uids)))"

fun trim_chars_start :: "char \<Rightarrow> string \<Rightarrow> string" where
  "trim_chars_start c [] = []"
| "trim_chars_start c (x # s) = (if x = c then trim_chars_start c s else x # s)"

definition trim_chars_end :: "char \<Rightarrow> string \<Rightarrow> string" where
  "trim_chars_end c s = rev (trim_chars_start c (rev s))"

definition folder_role_of :: "mail_db \<Rightarrow> int \<Rightarrow> folder_role option" where
  "folder_role_of db i = map_option d_role (find (\<lambda>f. d_id f = i) (db_folders db))"

definition find_by_message_id :: "int \<Rightarrow> string \<Rightarrow> mail_db \<Rightarrow> message option" where
  "find_by_message_id account_id message_id db =
     (let bare = trim_chars_end CHR 0x3E (trim_chars_start CHR 0x3C (trim message_id)) in
      if bare = [] then None
      else (case sort_by (\<lambda>a b. and_then (by_key True (\<lambda>m. folder_role_of db (m_folder_id m) = Some Sent))
                                  (by_key True m_id) a b \<le> 0)
                 (filter (\<lambda>m. m_account_id m = account_id \<and> folder_role_of db (m_folder_id m) \<noteq> None
                    \<and> m_message_id_header m \<in> {Some bare, Some ([CHR 0x3C] @ bare @ [CHR 0x3E])})
                   (db_messages db)) of
              [] \<Rightarrow> None | m # _ \<Rightarrow> Some m))"

definition is_listed :: "int \<Rightarrow> nat \<Rightarrow> mail_db \<Rightarrow> bool" where
  "is_listed folder_id uid db \<longleftrightarrow>
     0 < count_where (\<lambda>m. listed db folder_id m \<and> m_uid m = uid) (db_messages db)"

definition count_unread :: "int \<Rightarrow> mail_db \<Rightarrow> nat" where
  "count_unread folder_id db =
     count_where (\<lambda>m. listed db folder_id m \<and> \<not> m_is_read m) (db_messages db)"

definition list_unread_uids :: "int \<Rightarrow> mail_db \<Rightarrow> nat list" where
  "list_unread_uids folder_id db =
     map m_uid (filter (\<lambda>m. m_folder_id m = folder_id \<and> \<not> m_is_read m) (db_messages db))"

definition count_by_folder :: "int \<Rightarrow> mail_db \<Rightarrow> nat" where
  "count_by_folder folder_id db = count_where (listed db folder_id) (db_messages db)"

record folder_counts =
  fc_total :: nat
  fc_unread :: nat

definition counts_by_account :: "int \<Rightarrow> mail_db \<Rightarrow> int \<Rightarrow> folder_counts option" where
  "counts_by_account account_id db folder_id =
     (let rows = filter (listed db folder_id) (db_messages db) in
      if rows \<noteq> [] \<and> list_ex (\<lambda>f. d_id f = folder_id \<and> d_account_id f = account_id) (db_folders db)
      then Some \<lparr>fc_total = length rows, fc_unread = length (filter (\<lambda>m. \<not> m_is_read m) rows)\<rparr>
      else None)"

definition max_uid :: "int \<Rightarrow> mail_db \<Rightarrow> nat option" where
  "max_uid folder_id db =
     (case map m_uid (filter (\<lambda>m. m_folder_id m = folder_id) (db_messages db)) of
        [] \<Rightarrow> None | u # us \<Rightarrow> Some (fold max us u))"

definition list_uids :: "int \<Rightarrow> mail_db \<Rightarrow> nat list" where
  "list_uids folder_id db = map m_uid (filter (\<lambda>m. m_folder_id m = folder_id) (db_messages db))"

subsection \<open>Messages: rows gone\<close>

text \<open>\<open>delete from messages where p\<close>, with the cascade to \<open>pending_moves\<close>.\<close>

definition delete_messages :: "(message \<Rightarrow> bool) \<Rightarrow> mail_db \<Rightarrow> nat \<times> mail_db" where
  "delete_messages p db =
     (count_where p (db_messages db),
      db\<lparr>db_messages := delete_where p (db_messages db),
         db_pending := delete_where
           (\<lambda>r. list_ex (\<lambda>m. p m \<and> m_id m = p_message_id r) (db_messages db)) (db_pending db)\<rparr>)"

definition message_delete :: "int \<Rightarrow> mail_db \<Rightarrow> unit result \<times> mail_db" where
  "message_delete i db =
     (case delete_messages (\<lambda>m. m_id m = i) db of (n, db') \<Rightarrow>
        if n = 0 then (Inl (NotFound (''message '' @ string_of_int i)), db') else (Inr (), db'))"

definition delete_by_folder :: "int \<Rightarrow> mail_db \<Rightarrow> nat \<times> mail_db" where
  "delete_by_folder folder_id db = delete_messages (\<lambda>m. m_folder_id m = folder_id) db"

definition delete_by_uid :: "int \<Rightarrow> nat \<Rightarrow> mail_db \<Rightarrow> bool \<times> mail_db" where
  "delete_by_uid folder_id uid db =
     (case delete_messages (\<lambda>m. m_folder_id m = folder_id \<and> m_uid m = uid) db of
        (n, db') \<Rightarrow> (0 < n, db'))"

subsection \<open>Flags\<close>

definition set_flags :: "instant \<Rightarrow> int \<Rightarrow> bool \<Rightarrow> bool \<Rightarrow> mail_db \<Rightarrow> unit result \<times> mail_db" where
  "set_flags now i is_read is_starred db =
     (let db' = db\<lparr>db_messages := update_where (\<lambda>m. m_id m = i)
            (\<lambda>m. m\<lparr>m_is_read := is_read, m_is_starred := is_starred, m_flags_dirty := True,
                   m_updated_at := secs now\<rparr>) (db_messages db)\<rparr>
      in if count_where (\<lambda>m. m_id m = i) (db_messages db) = 0
         then (Inl (NotFound (''message '' @ string_of_int i)), db') else (Inr (), db'))"

definition list_flags_dirty :: "int \<Rightarrow> mail_db \<Rightarrow> message list" where
  "list_flags_dirty account_id db =
     sort_key (\<lambda>m. (m_folder_id m, m_uid m))
       (filter (\<lambda>m. m_account_id m = account_id \<and> m_flags_dirty m) (db_messages db))"

definition clear_flags_dirty :: "int \<Rightarrow> bool \<Rightarrow> bool \<Rightarrow> mail_db \<Rightarrow> bool \<times> mail_db" where
  "clear_flags_dirty i pushed_read pushed_starred db =
     (let p = (\<lambda>m. m_id m = i \<and> m_is_read m = pushed_read \<and> m_is_starred m = pushed_starred)
      in (0 < count_where p (db_messages db),
          db\<lparr>db_messages := update_where p (\<lambda>m. m\<lparr>m_flags_dirty := False\<rparr>) (db_messages db)\<rparr>))"

definition set_flags_by_uid ::
  "instant \<Rightarrow> int \<Rightarrow> int \<Rightarrow> nat \<Rightarrow> bool \<Rightarrow> bool \<Rightarrow> bool \<Rightarrow> mail_db \<Rightarrow> mail_db" where
  "set_flags_by_uid now account_id folder_id uid is_read is_starred is_draft db =
     db\<lparr>db_messages := update_where
          (\<lambda>m. m_account_id m = account_id \<and> m_folder_id m = folder_id \<and> m_uid m = uid
             \<and> \<not> m_flags_dirty m
             \<and> (m_is_read m \<noteq> is_read \<or> m_is_starred m \<noteq> is_starred \<or> m_is_draft m \<noteq> is_draft))
          (\<lambda>m. m\<lparr>m_is_read := is_read, m_is_starred := is_starred, m_is_draft := is_draft,
                 m_updated_at := secs now\<rparr>) (db_messages db)\<rparr>"

text \<open>One statement per chunk of the cleaned UIDs, the rows touched added up.\<close>

fun over_chunks :: "(nat list \<Rightarrow> mail_db \<Rightarrow> nat \<times> mail_db) \<Rightarrow> nat list list \<Rightarrow> mail_db \<Rightarrow> nat \<times> mail_db" where
  "over_chunks stmt [] db = (0, db)"
| "over_chunks stmt (c # cs) db =
     (case stmt c db of (n, db') \<Rightarrow>
        (case over_chunks stmt cs db' of (k, db'') \<Rightarrow> (n + k, db'')))"

definition execute_over_uids ::
  "(nat list \<Rightarrow> mail_db \<Rightarrow> nat \<times> mail_db) \<Rightarrow> nat list \<Rightarrow> mail_db \<Rightarrow> nat \<times> mail_db" where
  "execute_over_uids stmt uids db = over_chunks stmt (chunks UID_CHUNK (clean_uids uids)) db"

definition update_messages ::
  "(message \<Rightarrow> bool) \<Rightarrow> (message \<Rightarrow> message) \<Rightarrow> mail_db \<Rightarrow> nat \<times> mail_db" where
  "update_messages p f db =
     (count_where p (db_messages db), db\<lparr>db_messages := update_where p f (db_messages db)\<rparr>)"

definition set_read_many_by_uids :: "instant \<Rightarrow> int \<Rightarrow> nat list \<Rightarrow> bool \<Rightarrow> mail_db \<Rightarrow> nat \<times> mail_db" where
  "set_read_many_by_uids now folder_id uids read db =
     execute_over_uids (\<lambda>chunk. update_messages (\<lambda>m. m_folder_id m = folder_id \<and> m_uid m \<in> set chunk)
         (\<lambda>m. m\<lparr>m_is_read := read, m_flags_dirty := True, m_updated_at := secs now\<rparr>)) uids db"

definition set_read_clean_by_uids :: "instant \<Rightarrow> int \<Rightarrow> nat list \<Rightarrow> bool \<Rightarrow> mail_db \<Rightarrow> nat \<times> mail_db" where
  "set_read_clean_by_uids now folder_id uids queue_push db =
     execute_over_uids (\<lambda>chunk. update_messages
         (\<lambda>m. m_folder_id m = folder_id \<and> \<not> m_is_read m \<and> \<not> m_flags_dirty m \<and> m_uid m \<in> set chunk)
         (\<lambda>m. m\<lparr>m_is_read := True, m_flags_dirty := queue_push, m_updated_at := secs now\<rparr>)) uids db"

definition set_star_many_by_uids :: "instant \<Rightarrow> int \<Rightarrow> nat list \<Rightarrow> bool \<Rightarrow> mail_db \<Rightarrow> nat \<times> mail_db" where
  "set_star_many_by_uids now folder_id uids starred db =
     execute_over_uids (\<lambda>chunk. update_messages (\<lambda>m. m_folder_id m = folder_id \<and> m_uid m \<in> set chunk)
         (\<lambda>m. m\<lparr>m_is_starred := starred, m_flags_dirty := True, m_updated_at := secs now\<rparr>)) uids db"

definition delete_many_by_uids :: "int \<Rightarrow> nat list \<Rightarrow> mail_db \<Rightarrow> nat \<times> mail_db" where
  "delete_many_by_uids folder_id uids db =
     execute_over_uids (\<lambda>chunk. delete_messages (\<lambda>m. m_folder_id m = folder_id \<and> m_uid m \<in> set chunk)) uids db"

subsection \<open>Pending moves\<close>

definition put_pending ::
  "pending_action \<Rightarrow> int option \<Rightarrow> string \<Rightarrow> stamp \<Rightarrow> int \<Rightarrow> mail_db \<Rightarrow> mail_db" where
  "put_pending action dest_folder_id batch due_at i db =
     (if hidden db i then
        db\<lparr>db_pending := update_where (\<lambda>p. p_message_id p = i)
             (\<lambda>p. p\<lparr>p_batch := batch, p_action := pending_action_str action,
                    p_dest_folder_id := dest_folder_id, p_due_at := due_at, p_attempts := 0\<rparr>) (db_pending db)\<rparr>
      else
        db\<lparr>db_pending := db_pending db @
             [\<lparr>p_message_id = i, p_batch = batch, p_action = pending_action_str action,
               p_dest_folder_id = dest_folder_id, p_due_at = due_at, p_attempts = 0\<rparr>]\<rparr>)"

definition pending_queue ::
  "int list \<Rightarrow> pending_action \<Rightarrow> int option \<Rightarrow> string \<Rightarrow> stamp \<Rightarrow> mail_db \<Rightarrow> nat \<times> mail_db" where
  "pending_queue ids action dest_folder_id batch due_at db =
     (length ids, fold (put_pending action dest_folder_id batch due_at) ids db)"

definition cancel_batch :: "string \<Rightarrow> mail_db \<Rightarrow> nat \<times> mail_db" where
  "cancel_batch batch db =
     (count_where (\<lambda>p. p_batch p = batch) (db_pending db),
      db\<lparr>db_pending := delete_where (\<lambda>p. p_batch p = batch) (db_pending db)\<rparr>)"

record pending_move =
  v_message_id :: int
  v_folder_id :: int
  v_uid :: nat
  v_action :: pending_action
  v_dest_folder_id :: "int option"
  v_attempts :: int

definition pending_join :: "mail_db \<Rightarrow> pending_row \<Rightarrow> message option" where
  "pending_join db p = find (\<lambda>m. m_id m = p_message_id p) (db_messages db)"

definition pending_due :: "mail_db \<Rightarrow> int \<Rightarrow> stamp \<Rightarrow> pending_row \<Rightarrow> pending_move option" where
  "pending_due db account_id now_s p =
     (case pending_join db p of
        None \<Rightarrow> None
      | Some m \<Rightarrow>
          if m_account_id m = account_id \<and> p_due_at p \<le> now_s then
            map_option (\<lambda>a. \<lparr>v_message_id = p_message_id p, v_folder_id = m_folder_id m, v_uid = m_uid m,
                             v_action = a, v_dest_folder_id = p_dest_folder_id p,
                             v_attempts = p_attempts p\<rparr>) (parse_action (p_action p))
          else None)"

definition list_due :: "int \<Rightarrow> stamp \<Rightarrow> mail_db \<Rightarrow> pending_move list" where
  "list_due account_id now_s db =
     List.map_filter (pending_due db account_id now_s)
       (sort_key (\<lambda>p. (p_due_at p, p_message_id p)) (db_pending db))"

definition any_for_account :: "int \<Rightarrow> mail_db \<Rightarrow> bool" where
  "any_for_account account_id db \<longleftrightarrow>
     list_ex (\<lambda>p. case pending_join db p of None \<Rightarrow> False | Some m \<Rightarrow> m_account_id m = account_id) (db_pending db)"

definition pending_record_failure :: "int list \<Rightarrow> mail_db \<Rightarrow> mail_db" where
  "pending_record_failure ids db =
     fold (\<lambda>i d. d\<lparr>db_pending := update_where (\<lambda>p. p_message_id p = i)
              (\<lambda>p. p\<lparr>p_attempts := p_attempts p + 1\<rparr>) (db_pending d)\<rparr>) ids db"

definition pending_remove :: "int list \<Rightarrow> mail_db \<Rightarrow> mail_db" where
  "pending_remove ids db =
     fold (\<lambda>i d. d\<lparr>db_pending := delete_where (\<lambda>p. p_message_id p = i) (db_pending d)\<rparr>) ids db"

end
