(* ===== verification/Mail_Store_Facts.thy ===== *)
theory Mail_Store_Facts
  imports Mail_Store
begin

text \<open>
  What the operations of \<open>Mail_Store\<close> do to the rows: the chunked statements are one statement over
  all UIDs, the row invariant every operation keeps, the sidebar order of the folders, and what
  protects a local flag change from the server's answers.
\<close>

subsection \<open>Chunks\<close>

lemma chunks_clean:
  "\<Union> (set ` set (chunks UID_CHUNK (clean_uids uids))) = set uids"
  "apart (chunks UID_CHUNK (clean_uids uids))"
proof -
  have "\<Union> (set ` set (chunks UID_CHUNK (clean_uids uids))) = set (concat (chunks UID_CHUNK (clean_uids uids)))"
    by simp
  then show "\<Union> (set ` set (chunks UID_CHUNK (clean_uids uids))) = set uids"
    by (simp add: UID_CHUNK_def)
  show "apart (chunks UID_CHUNK (clean_uids uids))"
    by (rule apart_chunks) (simp_all add: UID_CHUNK_def)
qed

lemma over_chunks_update:
  assumes "apart cs" and "\<And>m. m_uid (f m) = m_uid m"
  shows "over_chunks (\<lambda>c. update_messages (\<lambda>m. q m \<and> m_uid m \<in> set c) f) cs db =
     update_messages (\<lambda>m. q m \<and> m_uid m \<in> \<Union> (set ` set cs)) f db"
  using assms(1)
proof (induction cs arbitrary: db)
  case Nil
  show ?case by (simp add: update_messages_def update_where_def count_where_def)
next
  case (Cons c cs)
  define rest where "rest = (\<Union> (set ` set cs))"
  have dis: "set c \<inter> rest = {}" using Cons.prems by (simp add: rest_def)
  have rows: "update_where (\<lambda>m. q m \<and> m_uid m \<in> rest) f
      (update_where (\<lambda>m. q m \<and> m_uid m \<in> set c) f t)
    = update_where (\<lambda>m. q m \<and> m_uid m \<in> set c \<union> rest) f t" for t
    using dis assms(2) by (induction t) (auto simp: table_simps)
  have n: "count_where (\<lambda>m. q m \<and> m_uid m \<in> set c) t + count_where (\<lambda>m. q m \<and> m_uid m \<in> rest)
      (update_where (\<lambda>m. q m \<and> m_uid m \<in> set c) f t)
    = count_where (\<lambda>m. q m \<and> m_uid m \<in> set c \<union> rest) t" for t
    using dis assms(2) by (induction t) (auto simp: table_simps)
  have "apart cs" using Cons.prems by simp
  note IH = Cons.IH [OF this]
  show ?case
    by (simp add: IH rest_def [symmetric] case_prod_beta)
      (simp add: update_messages_def rows n)
qed

lemma execute_update:
  assumes "\<And>m. m_uid (f m) = m_uid m"
  shows "execute_over_uids (\<lambda>c. update_messages (\<lambda>m. q m \<and> m_uid m \<in> set c) f) uids db =
     update_messages (\<lambda>m. q m \<and> m_uid m \<in> set uids) f db"
  unfolding execute_over_uids_def over_chunks_update [OF chunks_clean(2) assms] chunks_clean(1) ..

lemma delete_where_twice: "delete_where q (delete_where p t) = delete_where (\<lambda>x. p x \<or> q x) t"
  by (simp add: delete_where_def conj_commute)

lemma over_chunks_delete:
  "apart cs \<Longrightarrow>
   over_chunks (\<lambda>c. delete_messages (\<lambda>m. q m \<and> m_uid m \<in> set c)) cs db =
     delete_messages (\<lambda>m. q m \<and> m_uid m \<in> \<Union> (set ` set cs)) db"
proof (induction cs arbitrary: db)
  case Nil
  show ?case by (simp add: delete_messages_def delete_where_def count_where_def list_ex_iff)
next
  case (Cons c cs)
  define rest where "rest = (\<Union> (set ` set cs))"
  have dis: "set c \<inter> rest = {}" and ap: "apart cs" using Cons.prems by (simp_all add: rest_def)
  have n: "count_where (\<lambda>m. q m \<and> m_uid m \<in> set c) t + count_where (\<lambda>m. q m \<and> m_uid m \<in> rest)
      (delete_where (\<lambda>m. q m \<and> m_uid m \<in> set c) t)
    = count_where (\<lambda>m. q m \<and> m_uid m \<in> set c \<union> rest) t" for t
    using dis by (induction t) (auto simp: table_simps)
  have pend: "(list_ex (\<lambda>m. q m \<and> m_uid m \<in> set c \<and> m_id m = i) t
      \<or> list_ex (\<lambda>m. q m \<and> m_uid m \<in> rest \<and> m_id m = i) (delete_where (\<lambda>m. q m \<and> m_uid m \<in> set c) t))
    = list_ex (\<lambda>m. q m \<and> (m_uid m \<in> set c \<or> m_uid m \<in> rest) \<and> m_id m = i) t" for i t
    by (auto simp: list_ex_iff table_simps)
  have rows: "delete_where (\<lambda>m. q m \<and> m_uid m \<in> rest) (delete_where (\<lambda>m. q m \<and> m_uid m \<in> set c) t)
    = delete_where (\<lambda>m. q m \<and> m_uid m \<in> set c \<union> rest) t" for t
    unfolding delete_where_twice by (rule arg_cong [where f = "\<lambda>p. delete_where p t"]) auto
  show ?case
    by (simp add: Cons.IH [OF ap] rest_def [symmetric] case_prod_beta)
      (simp add: delete_messages_def rows n delete_where_twice pend)
qed

lemma delete_many_eq:
  "delete_many_by_uids folder_id uids db =
     delete_messages (\<lambda>m. m_folder_id m = folder_id \<and> m_uid m \<in> set uids) db"
  unfolding delete_many_by_uids_def execute_over_uids_def over_chunks_delete [OF chunks_clean(2)]
    chunks_clean(1) ..

lemma set_read_many_eq:
  "set_read_many_by_uids now folder_id uids read db =
     update_messages (\<lambda>m. m_folder_id m = folder_id \<and> m_uid m \<in> set uids)
       (\<lambda>m. m\<lparr>m_is_read := read, m_flags_dirty := True, m_updated_at := secs now\<rparr>) db"
  unfolding set_read_many_by_uids_def by (rule execute_update) simp

lemma set_star_many_eq:
  "set_star_many_by_uids now folder_id uids starred db =
     update_messages (\<lambda>m. m_folder_id m = folder_id \<and> m_uid m \<in> set uids)
       (\<lambda>m. m\<lparr>m_is_starred := starred, m_flags_dirty := True, m_updated_at := secs now\<rparr>) db"
  unfolding set_star_many_by_uids_def by (rule execute_update) simp

lemma set_read_clean_eq:
  "set_read_clean_by_uids now folder_id uids queue_push db =
     update_messages (\<lambda>m. (m_folder_id m = folder_id \<and> \<not> m_is_read m \<and> \<not> m_flags_dirty m) \<and> m_uid m \<in> set uids)
       (\<lambda>m. m\<lparr>m_is_read := True, m_flags_dirty := queue_push, m_updated_at := secs now\<rparr>) db"
  unfolding set_read_clean_by_uids_def
  using execute_update [of "\<lambda>m. m\<lparr>m_is_read := True, m_flags_dirty := queue_push, m_updated_at := secs now\<rparr>"
      "\<lambda>m. m_folder_id m = folder_id \<and> \<not> m_is_read m \<and> \<not> m_flags_dirty m" uids db]
  by (simp add: conj_assoc)

subsection \<open>The sidebar's order\<close>

lemma split_top_prefix: "\<exists>r. path = fst (split_top path delimiter) @ r"
  using find_sub_Some [of delimiter path] by (auto simp: split_top_def split: option.splits)

lemma split_top_whole: "snd (split_top path delimiter) = None \<Longrightarrow> fst (split_top path delimiter) = path"
  by (auto simp: split_top_def split: option.splits if_splits)

lemma top_weights_found:
  assumes "f \<in> set fs" and "split_top (d_path f) (d_delimiter f) = (tp, None)" and "tp \<noteq> []"
  shows "map_of (top_weights fs) (ascii_lowercase tp) \<noteq> None"
  using assms by (induction fs) (auto simp: Let_def split: prod.splits)

lemma lex_prefix_le: "(s :: string) \<le> s @ r"
  by (induction s) auto

lemma set_list_by_account:
  "set (list_by_account account_id db) = {f \<in> set (db_folders db). d_account_id f = account_id}"
  by (simp add: list_by_account_def Let_def)

lemma sorted_wrt_key: "sorted_wrt (\<lambda>x y. k x \<le> k y) (sort_key k xs)"
  using sorted_sort_key [of k xs] by (simp add: sorted_map)

text \<open>
  The sidebar reads as a tree: it shows exactly the account's folders, and all folders below
  a top-level folder stand together in one run that begins with a folder of that very name, so
  no child is shown under another folder.
\<close>

theorem sidebar_reads_as_a_tree:
  assumes "p \<in> set (list_by_account account_id db)"
    and "split_top (d_path p) (d_delimiter p) = (tp, None)" and "tp \<noteq> []"
  shows "set (list_by_account account_id db) = {f \<in> set (db_folders db). d_account_id f = account_id}
    \<and> length (list_by_account account_id db)
        = length (filter (\<lambda>f. d_account_id f = account_id) (db_folders db))
    \<and> (\<exists>before block after. list_by_account account_id db = before @ block @ after
        \<and> block = filter (\<lambda>f. top_of f = top_of p) (list_by_account account_id db)
        \<and> block \<noteq> [] \<and> ascii_lowercase (d_path (hd block)) = top_of p)"
proof -
  define rows where "rows = sort_key d_path (filter (\<lambda>f. d_account_id f = account_id) (db_folders db))"
  define tops where "tops = top_weights rows"
  define L where "L = list_by_account account_id db"
  let ?key = "\<lambda>f. (folder_weight tops f, top_of f, ascii_lowercase (d_path f))"
  let ?k = "\<lambda>f. (folder_weight tops f, top_of f)"
  have L: "L = sort_key ?key rows"
    by (simp add: L_def list_by_account_def rows_def tops_def Let_def)
  have top: "top_of p = ascii_lowercase tp" and path: "d_path p = tp"
    using assms(2) split_top_whole [of "d_path p" "d_delimiter p"] by (simp_all add: top_of_def)
  have pL: "p \<in> set L" using assms(1) by (simp add: L_def)
  then have "p \<in> set rows" by (simp add: L)
  then obtain w where w: "map_of tops (top_of p) = Some w"
    using top_weights_found [OF _ assms(2,3), of rows] by (auto simp: tops_def top)
  have weight: "folder_weight tops f = w" if "top_of f = top_of p" for f
    using w that by (simp add: folder_weight_def)
  have sorted: "sorted_wrt (\<lambda>x y. ?key x \<le> ?key y) L" unfolding L by (rule sorted_wrt_key)
  then have "sorted_wrt (\<lambda>x y. ?k x \<le> ?k y) L"
    by (rule sorted_wrt_mono_rel [rotated]) auto
  from sorted_block [OF this, of "(w, top_of p)"] obtain a b c where
    blk: "L = a @ b @ c" "b = filter (\<lambda>f. ?k f = (w, top_of p)) L" by blast
  have b: "b = filter (\<lambda>f. top_of f = top_of p) L"
    unfolding blk(2) using weight by (intro filter_cong) auto
  have pb: "p \<in> set b" using pL by (simp add: b)
  then have ne: "b \<noteq> []" by auto
  have head: "top_of (hd b) = top_of p" using hd_in_set [OF ne] by (simp add: b)
  have "sorted_wrt (\<lambda>x y. ?key x \<le> ?key y) b"
    using sorted blk(1) by (simp add: sorted_wrt_append)
  then have "?key (hd b) \<le> ?key p" using pb ne by (cases b) auto
  then have le: "ascii_lowercase (d_path (hd b)) \<le> ascii_lowercase (d_path p)"
    using head weight [OF head] weight [OF refl] by auto
  obtain r where "d_path (hd b) = fst (split_top (d_path (hd b)) (d_delimiter (hd b))) @ r"
    using split_top_prefix by blast
  then have "ascii_lowercase (d_path (hd b)) = top_of (hd b) @ ascii_lowercase r"
    by (metis ascii_lowercase_append top_of_def)
  then have "top_of p \<le> ascii_lowercase (d_path (hd b))" using head lex_prefix_le by metis
  with le have "ascii_lowercase (d_path (hd b)) = top_of p" by (simp add: path top)
  moreover have "length L = length (filter (\<lambda>f. d_account_id f = account_id) (db_folders db))"
    by (simp add: L rows_def)
  ultimately show ?thesis
    using set_list_by_account [of account_id db] blk(1) b ne unfolding L_def by blast
qed

definition sample_folder :: "int \<Rightarrow> string \<Rightarrow> folder_role \<Rightarrow> folder" where
  "sample_folder i path role =
     \<lparr>d_id = i, d_account_id = 1, d_path = path, d_delimiter = ''/'', d_role = role,
      d_uid_validity = None, d_uid_next = None, d_server_total = None, d_highest_modseq = 0,
      d_subscribed = True, d_last_sync_at = None\<rparr>"

definition sample_db :: mail_db where
  "sample_db = \<lparr>db_folders = [sample_folder 1 ''INBOX'' Inbox, sample_folder 2 ''Trash'' Trash,
      sample_folder 3 ''Archive'' Archive, sample_folder 4 ''Archive/2024'' Custom],
     db_messages = [], db_pending = [], db_next_folder = 5, db_next_message = 1, db_seen = []\<rparr>"

theorem sidebar_reads_as_a_tree_witness:
  "\<exists>before block after. list_by_account 1 sample_db = before @ block @ after
     \<and> block = filter (\<lambda>f. top_of f = ''archive'') (list_by_account 1 sample_db)
     \<and> block \<noteq> [] \<and> ascii_lowercase (d_path (hd block)) = ''archive''"
proof -
  let ?p = "sample_folder 3 ''Archive'' Archive"
  have "?p \<in> set (list_by_account 1 sample_db)"
    by (simp add: set_list_by_account sample_db_def sample_folder_def)
  moreover have "split_top (d_path ?p) (d_delimiter ?p) = (''Archive'', None)"
    by (simp add: sample_folder_def split_top_def)
  moreover have "top_of ?p = ''archive''"
    by (simp add: sample_folder_def top_of_def split_top_def ascii_lowercase_def to_ascii_lower_def) code_simp
  ultimately show ?thesis using sidebar_reads_as_a_tree [of ?p 1 sample_db "''Archive''"] by simp
qed

definition sample_mail :: "int \<Rightarrow> nat \<Rightarrow> new_message" where
  "sample_mail folder_id uid =
     \<lparr>m_account_id = 1, m_folder_id = folder_id, m_uid = uid, m_message_id_header = None,
      m_thread_id = None, m_subject = None, m_from_addr = None, m_from_name = None, m_to_addrs = [],
      m_cc_addrs = [], m_bcc_addrs = [], m_reply_to = None, m_date = None, m_snippet = None,
      m_body_text = None, m_body_html = None, m_raw_headers = None, m_is_read = False,
      m_is_starred = False, m_is_draft = False, m_has_attachments = False, m_keywords = [],
      m_size = 1, m_downloaded_full = True\<rparr>"

end
