(* ===== verification/Flag_Sync.thy ===== *)
theory Flag_Sync
  imports Mail_Store_Facts
begin

text \<open>
  The queue that carries read and star changes to the server (\<open>messages/flags.rs\<close>,
  \<open>push_dirty_flags\<close> and \<open>push_flags\<close> of \<open>sync/imap/engine\<close>) as a step relation: the user clicks,
  a push picks a dirty row, stores its flags on the server and clears the mark, and the sync writes
  the server's flags back, in any order. One push is under way at a time (one session does it); no
  other client changes the message's flags; drafts and Trash, whose read flag the sync forces, are
  left out by the sync rule's flags.
\<close>

type_synonym slot = "int \<times> int \<times> nat"

definition slot_of :: "'a new_message_scheme \<Rightarrow> slot" where
  "slot_of m = (m_account_id m, m_folder_id m, m_uid m)"

definition flags_of :: "'a new_message_scheme \<Rightarrow> bool \<times> bool" where
  "flags_of m = (m_is_read m, m_is_starred m)"

datatype push_state = NoPush | Picked message | Seen_Stored message | Stored message

record flag_sys =
  fs_db :: mail_db
  fs_server :: "slot \<Rightarrow> bool \<times> bool"
  fs_push :: push_state
  fs_wish :: "slot \<Rightarrow> bool \<times> bool"

text \<open>The two \<open>UID STORE\<close>s of \<open>push_flags\<close>: \<open>\\Seen\<close> first, then \<open>\\Flagged\<close>.\<close>

definition store_seen :: "message \<Rightarrow> (slot \<Rightarrow> bool \<times> bool) \<Rightarrow> slot \<Rightarrow> bool \<times> bool" where
  "store_seen m server = server(slot_of m := (m_is_read m, snd (server (slot_of m))))"

definition store_flagged :: "message \<Rightarrow> (slot \<Rightarrow> bool \<times> bool) \<Rightarrow> slot \<Rightarrow> bool \<times> bool" where
  "store_flagged m server = server(slot_of m := (fst (server (slot_of m)), m_is_starred m))"

definition wish_after :: "(message \<Rightarrow> bool) \<Rightarrow> (message \<Rightarrow> bool \<times> bool) \<Rightarrow> mail_db \<Rightarrow>
    (slot \<Rightarrow> bool \<times> bool) \<Rightarrow> slot \<Rightarrow> bool \<times> bool" where
  "wish_after p f db wish k =
     (case find (\<lambda>m. p m \<and> slot_of m = k) (db_messages db) of None \<Rightarrow> wish k | Some m \<Rightarrow> f m)"

inductive flag_step :: "flag_sys \<Rightarrow> flag_sys \<Rightarrow> bool" where
  click: "flag_step s (s\<lparr>fs_db := snd (set_flags now i r st (fs_db s)),
      fs_wish := wish_after (\<lambda>m. m_id m = i) (\<lambda>_. (r, st)) (fs_db s) (fs_wish s)\<rparr>)"
| mark_read: "flag_step s (s\<lparr>fs_db := snd (set_read_many_by_uids now fid uids r (fs_db s)),
      fs_wish := wish_after (\<lambda>m. m_folder_id m = fid \<and> m_uid m \<in> set uids)
        (\<lambda>m. (r, m_is_starred m)) (fs_db s) (fs_wish s)\<rparr>)"
| mark_star: "flag_step s (s\<lparr>fs_db := snd (set_star_many_by_uids now fid uids st (fs_db s)),
      fs_wish := wish_after (\<lambda>m. m_folder_id m = fid \<and> m_uid m \<in> set uids)
        (\<lambda>m. (m_is_read m, st)) (fs_db s) (fs_wish s)\<rparr>)"
| pick: "fs_push s = NoPush \<Longrightarrow> m \<in> set (list_flags_dirty a (fs_db s)) \<Longrightarrow>
    flag_step s (s\<lparr>fs_push := Picked m\<rparr>)"
| seen: "fs_push s = Picked m \<Longrightarrow>
    flag_step s (s\<lparr>fs_server := store_seen m (fs_server s), fs_push := Seen_Stored m\<rparr>)"
| flagged: "fs_push s = Seen_Stored m \<Longrightarrow>
    flag_step s (s\<lparr>fs_server := store_flagged m (fs_server s), fs_push := Stored m\<rparr>)"
| fail: "flag_step s (s\<lparr>fs_push := NoPush\<rparr>)"
| clear: "fs_push s = Stored m \<Longrightarrow>
    flag_step s (s\<lparr>fs_db := snd (clear_flags_dirty (m_id m) (m_is_read m) (m_is_starred m) (fs_db s)),
      fs_push := NoPush\<rparr>)"
| sync_down: "fs_server s (a, fid, uid) = (r, st) \<Longrightarrow>
    flag_step s (s\<lparr>fs_db := set_flags_by_uid now a fid uid r st d (fs_db s)\<rparr>)"
| fetch: "flags_of m = fs_server s (slot_of m) \<Longrightarrow>
    flag_step s (s\<lparr>fs_db := snd (message_upsert now m (fs_db s)),
      fs_wish := (if list_ex (same_slot m) (db_messages (fs_db s)) then fs_wish s
                  else (fs_wish s)(slot_of m := flags_of m))\<rparr>)"
| gone: "fs_push s = NoPush \<Longrightarrow> flag_step s (s\<lparr>fs_db := snd (delete_messages p (fs_db s))\<rparr>)"

text \<open>Message ids and slots are the rows' keys.\<close>

definition messages_wf :: "mail_db \<Rightarrow> bool" where
  "messages_wf db \<longleftrightarrow> distinct (map m_id (db_messages db)) \<and> distinct (map slot_of (db_messages db))
     \<and> (\<forall>m \<in> set (db_messages db). m_id m < db_next_message db)"

definition flag_inv :: "flag_sys \<Rightarrow> bool" where
  "flag_inv s \<longleftrightarrow> messages_wf (fs_db s)
     \<and> (\<forall>m \<in> set (db_messages (fs_db s)).
          flags_of m = fs_wish s (slot_of m)
          \<and> (m_flags_dirty m \<or> fs_server s (slot_of m) = fs_wish s (slot_of m)))
     \<and> (case fs_push s of
          NoPush \<Rightarrow> True
        | Picked p \<Rightarrow> \<exists>m \<in> set (db_messages (fs_db s)). m_id m = m_id p \<and> slot_of m = slot_of p
            \<and> m_flags_dirty m
        | Seen_Stored p \<Rightarrow> (\<exists>m \<in> set (db_messages (fs_db s)). m_id m = m_id p \<and> slot_of m = slot_of p
            \<and> m_flags_dirty m) \<and> fst (fs_server s (slot_of p)) = m_is_read p
        | Stored p \<Rightarrow> (\<exists>m \<in> set (db_messages (fs_db s)). m_id m = m_id p \<and> slot_of m = slot_of p
            \<and> m_flags_dirty m) \<and> fs_server s (slot_of p) = flags_of p)"

subsection \<open>The invariant\<close>

lemma messages_wf_inj:
  assumes "messages_wf db" and "m \<in> set (db_messages db)" and "m' \<in> set (db_messages db)"
  shows "slot_of m = slot_of m' \<Longrightarrow> m = m'" and "m_id m = m_id m' \<Longrightarrow> m = m'"
  using assms by (auto simp: messages_wf_def distinct_map dest: inj_onD)

lemma wish_after_row:
  assumes wf: "messages_wf db" and m: "m \<in> set (db_messages db)"
  shows "wish_after p f db wish (slot_of m) = (if p m then f m else wish (slot_of m))"
proof (cases "find (\<lambda>r. p r \<and> slot_of r = slot_of m) (db_messages db)")
  case None
  from None m have "\<not> p m" by (auto simp: find_None_iff)
  with None show ?thesis by (simp add: wish_after_def)
next
  case (Some r)
  from find_SomeD [OF this] have r: "r \<in> set (db_messages db)" "p r" "slot_of r = slot_of m" by auto
  from messages_wf_inj(1) [OF wf r(1) m r(3)] r(2) Some show ?thesis by (simp add: wish_after_def)
qed

lemma messages_wf_update:
  assumes "messages_wf db" and "\<And>m. p m \<Longrightarrow> m_id (f m) = m_id m"
    and "\<And>m. p m \<Longrightarrow> slot_of (f m) = slot_of m"
  shows "messages_wf (db\<lparr>db_messages := update_where p f (db_messages db)\<rparr>)"
proof -
  have "map m_id (update_where p f (db_messages db)) = map m_id (db_messages db)"
    by (rule map_update_where) (rule assms(2))
  moreover have "map slot_of (update_where p f (db_messages db)) = map slot_of (db_messages db)"
    by (rule map_update_where) (rule assms(3))
  moreover have "\<forall>m \<in> set (update_where p f (db_messages db)). m_id m < db_next_message db"
    using assms(1) unfolding messages_wf_def by (auto simp: update_where_def assms(2))
  ultimately show ?thesis using assms(1) by (simp add: messages_wf_def)
qed

text \<open>An update keeps the invariant when it does so row by row.\<close>

lemma flag_inv_update:
  assumes inv: "flag_inv s"
    and ids: "\<And>m. p m \<Longrightarrow> m_id (f m) = m_id m" "\<And>m. p m \<Longrightarrow> slot_of (f m) = slot_of m"
    and rows: "\<And>m. m \<in> set (db_messages (fs_db s)) \<Longrightarrow> p m \<Longrightarrow>
        flags_of (f m) = wish (slot_of m) \<and> (m_flags_dirty (f m) \<or> fs_server s (slot_of m) = wish (slot_of m))
        \<and> (fs_push s = NoPush \<or> (m_flags_dirty m \<longrightarrow> m_flags_dirty (f m)))"
    and rest: "\<And>m. m \<in> set (db_messages (fs_db s)) \<Longrightarrow> \<not> p m \<Longrightarrow> wish (slot_of m) = fs_wish s (slot_of m)"
  shows "flag_inv (s\<lparr>fs_db := (fs_db s)\<lparr>db_messages := update_where p f (db_messages (fs_db s))\<rparr>,
                     fs_wish := wish\<rparr>)"
proof -
  let ?t = "db_messages (fs_db s)"
  have wf: "messages_wf (fs_db s)" using inv by (simp add: flag_inv_def)
  have kept: "\<exists>m \<in> set (update_where p f ?t). m_id m = i \<and> slot_of m = k \<and> m_flags_dirty m"
    if dirty: "\<exists>m \<in> set ?t. m_id m = i \<and> slot_of m = k \<and> m_flags_dirty m" and busy: "fs_push s \<noteq> NoPush" for i k
  proof -
    from dirty obtain m where m: "m \<in> set ?t" "m_id m = i" "slot_of m = k" "m_flags_dirty m" by blast
    have "(if p m then f m else m) \<in> set (update_where p f ?t)"
      using m(1) unfolding update_where_def set_map by (rule imageI)
    moreover have "m_id (if p m then f m else m) = i \<and> slot_of (if p m then f m else m) = k
        \<and> m_flags_dirty (if p m then f m else m)"
      using rows [OF m(1)] m ids busy by simp
    ultimately show ?thesis by blast
  qed
  have "flags_of m = wish (slot_of m) \<and> (m_flags_dirty m \<or> fs_server s (slot_of m) = wish (slot_of m))"
    if m: "m \<in> set (update_where p f ?t)" for m
  proof -
    from m obtain r where r: "r \<in> set ?t" "m = (if p r then f r else r)" by (auto simp: update_where_def)
    with inv rows [OF r(1)] rest [OF r(1)] ids show ?thesis by (cases "p r") (auto simp: flag_inv_def)
  qed
  with messages_wf_update [OF wf ids, where p = p] inv kept show ?thesis
    unfolding flag_inv_def by (auto split: push_state.splits)
qed

lemma flag_inv_toggle:
  assumes inv: "flag_inv s"
    and f: "\<And>m. m_id (f m) = m_id m" "\<And>m. slot_of (f m) = slot_of m" "\<And>m. m_flags_dirty (f m)"
      "\<And>m. p m \<Longrightarrow> flags_of (f m) = g m"
  shows "flag_inv (s\<lparr>fs_db := (fs_db s)\<lparr>db_messages := update_where p f (db_messages (fs_db s))\<rparr>,
                     fs_wish := wish_after p g (fs_db s) (fs_wish s)\<rparr>)"
  using inv by (intro flag_inv_update) (simp_all add: f wish_after_row flag_inv_def)

lemma flag_inv_rows:
  assumes inv: "flag_inv s"
    and ids: "\<And>m. p m \<Longrightarrow> m_id (f m) = m_id m" "\<And>m. p m \<Longrightarrow> slot_of (f m) = slot_of m"
    and rows: "\<And>m. m \<in> set (db_messages (fs_db s)) \<Longrightarrow> p m \<Longrightarrow>
        flags_of (f m) = fs_wish s (slot_of m)
        \<and> (m_flags_dirty (f m) \<or> fs_server s (slot_of m) = fs_wish s (slot_of m))
        \<and> (fs_push s = NoPush \<or> (m_flags_dirty m \<longrightarrow> m_flags_dirty (f m)))"
  shows "flag_inv (s\<lparr>fs_db := (fs_db s)\<lparr>db_messages := update_where p f (db_messages (fs_db s))\<rparr>\<rparr>)"
  using flag_inv_update [where wish = "fs_wish s", OF inv ids rows] by simp

lemma flag_inv_append:
  assumes inv: "flag_inv s" and fresh: "\<And>r. r \<in> set (db_messages (fs_db s)) \<Longrightarrow> slot_of r \<noteq> slot_of m"
    and server: "flags_of m = fs_server s (slot_of m)"
  shows "flag_inv (s\<lparr>fs_db := (fs_db s)\<lparr>db_messages := db_messages (fs_db s) @ [fresh_row now m (db_next_message (fs_db s))],
      db_next_message := db_next_message (fs_db s) + 1\<rparr>, fs_wish := (fs_wish s)(slot_of m := flags_of m)\<rparr>)"
proof -
  let ?db = "fs_db s" and ?r = "fresh_row now m (db_next_message (fs_db s))"
  have r: "slot_of ?r = slot_of m" "flags_of ?r = flags_of m" "m_id ?r = db_next_message ?db"
    by (simp_all add: fresh_row_def slot_of_def flags_of_def new_message.defs)
  have wf: "messages_wf ?db" using inv by (simp add: flag_inv_def)
  have "messages_wf (?db\<lparr>db_messages := db_messages ?db @ [?r], db_next_message := db_next_message ?db + 1\<rparr>)"
    using wf fresh unfolding messages_wf_def by (fastforce simp: r)
  moreover have "flags_of x = ((fs_wish s)(slot_of m := flags_of m)) (slot_of x)
      \<and> (m_flags_dirty x \<or> fs_server s (slot_of x) = ((fs_wish s)(slot_of m := flags_of m)) (slot_of x))"
    if x: "x \<in> set (db_messages ?db @ [?r])" for x
  proof (cases "x = ?r")
    case False
    with x have "x \<in> set (db_messages ?db)" by simp
    with inv fresh show ?thesis by (auto simp: flag_inv_def)
  qed (simp add: r server)
  ultimately show ?thesis using inv unfolding flag_inv_def by (auto split: push_state.splits)
qed

lemma flag_inv_delete:
  assumes inv: "flag_inv s" and idle: "fs_push s = NoPush"
  shows "flag_inv (s\<lparr>fs_db := snd (delete_messages p (fs_db s))\<rparr>)"
  using inv idle unfolding flag_inv_def messages_wf_def delete_messages_def
  by (simp add: distinct_delete_where set_delete_where)

lemmas flag_rows = slot_of_def flags_of_def

theorem flag_inv_step:
  assumes "flag_step s t" and inv: "flag_inv s"
  shows "flag_inv t"
  using assms(1)
proof cases
  case (click i r st now)
  then show ?thesis using flag_inv_toggle [OF inv, where p = "\<lambda>m. m_id m = i" and g = "\<lambda>_. (r, st)" and
      f = "\<lambda>m. m\<lparr>m_is_read := r, m_is_starred := st, m_flags_dirty := True, m_updated_at := secs now\<rparr>"]
    by (simp add: set_flags_def Let_def flag_rows)
next
  case (mark_read fid uids r now)
  then show ?thesis using flag_inv_toggle [OF inv, where p = "\<lambda>m. m_folder_id m = fid \<and> m_uid m \<in> set uids"
      and g = "\<lambda>m. (r, m_is_starred m)"
      and f = "\<lambda>m. m\<lparr>m_is_read := r, m_flags_dirty := True, m_updated_at := secs now\<rparr>"]
    by (simp add: set_read_many_eq update_messages_def flag_rows)
next
  case (mark_star fid uids st now)
  then show ?thesis using flag_inv_toggle [OF inv, where p = "\<lambda>m. m_folder_id m = fid \<and> m_uid m \<in> set uids"
      and g = "\<lambda>m. (m_is_read m, st)"
      and f = "\<lambda>m. m\<lparr>m_is_starred := st, m_flags_dirty := True, m_updated_at := secs now\<rparr>"]
    by (simp add: set_star_many_eq update_messages_def flag_rows)
next
  case (pick m a)
  then show ?thesis using inv by (auto simp: flag_inv_def list_flags_dirty_def)
next
  case (seen m)
  from inv seen obtain r where wf: "messages_wf (fs_db s)" and r: "r \<in> set (db_messages (fs_db s))"
    "slot_of r = slot_of m" "m_flags_dirty r"
    by (auto simp: flag_inv_def)
  have "m_flags_dirty x" if "x \<in> set (db_messages (fs_db s))" "slot_of x = slot_of m" for x
    using messages_wf_inj(1) [OF wf that(1) r(1)] that(2) r by simp
  with seen inv show ?thesis by (auto simp: flag_inv_def store_seen_def)
next
  case (flagged m)
  from inv flagged obtain r where wf: "messages_wf (fs_db s)" and r: "r \<in> set (db_messages (fs_db s))"
    "slot_of r = slot_of m" "m_flags_dirty r"
    by (auto simp: flag_inv_def)
  have "m_flags_dirty x" if "x \<in> set (db_messages (fs_db s))" "slot_of x = slot_of m" for x
    using messages_wf_inj(1) [OF wf that(1) r(1)] that(2) r by simp
  with flagged inv show ?thesis by (auto simp: flag_inv_def store_flagged_def flags_of_def)
next
  case fail
  with inv show ?thesis by (auto simp: flag_inv_def split: push_state.splits)
next
  case (clear m)
  let ?p = "\<lambda>r. m_id r = m_id m \<and> m_is_read r = m_is_read m \<and> m_is_starred r = m_is_starred m"
  from inv clear have server: "fs_server s (slot_of m) = flags_of m"
    and row: "\<exists>r \<in> set (db_messages (fs_db s)). m_id r = m_id m \<and> slot_of r = slot_of m"
    and wf: "messages_wf (fs_db s)"
    by (auto simp: flag_inv_def)
  have idle: "flag_inv (s\<lparr>fs_push := NoPush\<rparr>)" using inv by (auto simp: flag_inv_def)
  have same: "slot_of r = slot_of m" if "r \<in> set (db_messages (fs_db s))" "m_id r = m_id m" for r
    using row messages_wf_inj(2) [OF wf] that by metis
  have "flag_inv ((s\<lparr>fs_push := NoPush\<rparr>)\<lparr>fs_db := (fs_db (s\<lparr>fs_push := NoPush\<rparr>))\<lparr>db_messages :=
      update_where ?p (\<lambda>m. m\<lparr>m_flags_dirty := False\<rparr>) (db_messages (fs_db (s\<lparr>fs_push := NoPush\<rparr>)))\<rparr>\<rparr>)"
  proof (rule flag_inv_rows [OF idle])
  qed (use same server inv in \<open>auto simp: flag_inv_def flag_rows\<close>)
  moreover have "s\<lparr>fs_push := NoPush, fs_db := d\<rparr> = s\<lparr>fs_db := d, fs_push := NoPush\<rparr>" for d by simp
  ultimately show ?thesis using clear by (simp add: clear_flags_dirty_def Let_def)
next
  case (sync_down a fid uid r st now d)
  then show ?thesis unfolding set_flags_by_uid_def
    by (simp, intro flag_inv_rows [OF inv])
      (use inv in \<open>auto simp: flag_inv_def flag_rows\<close>)
next
  case (fetch m now)
  show ?thesis
  proof (cases "find (same_slot m) (db_messages (fs_db s))")
    case None
    then have "\<not> list_ex (same_slot m) (db_messages (fs_db s))"
      and "\<And>r. r \<in> set (db_messages (fs_db s)) \<Longrightarrow> slot_of r \<noteq> slot_of m"
      by (auto simp: find_None_iff list_ex_iff same_slot_def slot_of_def)
    with flag_inv_append [OF inv this(2) fetch(2)] None fetch(1) show ?thesis
      by (simp add: message_upsert_def)
  next
    case (Some r)
    then have "list_ex (same_slot m) (db_messages (fs_db s))"
      using find_SomeD [OF Some] by (auto simp: list_ex_iff)
    moreover have "flag_inv (s\<lparr>fs_db := (fs_db s)\<lparr>db_messages := update_where (same_slot m) (merged_row now m) (db_messages (fs_db s))\<rparr>\<rparr>)"
      by (intro flag_inv_rows [OF inv])
        (use inv fetch(2) in \<open>auto simp: flag_inv_def flag_rows merged_row_def new_message.defs same_slot_def\<close>)
    ultimately show ?thesis using Some fetch(1) by (simp add: message_upsert_def)
  qed
next
  case (gone p)
  with flag_inv_delete [OF inv] show ?thesis by simp
qed

subsection \<open>No toggle is lost\<close>

definition flag_start :: "flag_sys \<Rightarrow> bool" where
  "flag_start s \<longleftrightarrow> db_messages (fs_db s) = [] \<and> fs_push s = NoPush"

lemma flag_inv_start: "flag_start s \<Longrightarrow> flag_inv s"
  by (simp add: flag_start_def flag_inv_def messages_wf_def)

lemma flag_inv_reach: "flag_step\<^sup>*\<^sup>* s t \<Longrightarrow> flag_inv s \<Longrightarrow> flag_inv t"
  by (induction rule: rtranclp_induct) (auto intro: flag_inv_step)


text \<open>One message, fetched unread, picked for a push as read, and unread again meanwhile.\<close>

definition run_fetch :: "flag_sys \<Rightarrow> flag_sys" where
  "run_fetch s = s\<lparr>fs_db := snd (message_upsert 0 (sample_mail 1 7) (fs_db s)),
      fs_wish := (if list_ex (same_slot (sample_mail 1 7)) (db_messages (fs_db s)) then fs_wish s
                  else (fs_wish s)(slot_of (sample_mail 1 7) := flags_of (sample_mail 1 7)))\<rparr>"

definition run_click :: "bool \<Rightarrow> flag_sys \<Rightarrow> flag_sys" where
  "run_click r s = s\<lparr>fs_db := snd (set_flags 0 1 r False (fs_db s)),
      fs_wish := wish_after (\<lambda>m. m_id m = 1) (\<lambda>_. (r, False)) (fs_db s) (fs_wish s)\<rparr>"

definition run_push :: "flag_sys \<Rightarrow> flag_sys" where
  "run_push s =
     (case fs_push s of
        NoPush \<Rightarrow> s\<lparr>fs_push := Picked (hd (list_flags_dirty 1 (fs_db s)))\<rparr>
      | Picked m \<Rightarrow> s\<lparr>fs_server := store_seen m (fs_server s), fs_push := Seen_Stored m\<rparr>
      | Seen_Stored m \<Rightarrow> s\<lparr>fs_server := store_flagged m (fs_server s), fs_push := Stored m\<rparr>
      | Stored m \<Rightarrow> s\<lparr>fs_db := snd (clear_flags_dirty (m_id m) (m_is_read m) (m_is_starred m) (fs_db s)),
          fs_push := NoPush\<rparr>)"

lemma run_push_step: "fs_push s \<noteq> NoPush \<or> list_flags_dirty 1 (fs_db s) \<noteq> [] \<Longrightarrow> flag_step s (run_push s)"
  by (cases "fs_push s")
    (auto simp: run_push_def intro: flag_step.pick [where a = 1] flag_step.seen flag_step.flagged flag_step.clear)

fun flag_run :: "nat \<Rightarrow> flag_sys" where
  "flag_run 0 = \<lparr>fs_db = sample_db, fs_server = (\<lambda>_. (False, False)), fs_push = NoPush,
      fs_wish = (\<lambda>_. (False, False))\<rparr>"
| "flag_run (Suc 0) = run_fetch (flag_run 0)"
| "flag_run (Suc (Suc 0)) = run_click True (flag_run 1)"
| "flag_run (Suc (Suc (Suc 0))) = run_push (flag_run 2)"
| "flag_run (Suc (Suc (Suc (Suc 0)))) = run_click False (flag_run 3)"
| "flag_run (Suc (Suc (Suc (Suc (Suc k))))) = run_push (flag_run (Suc (Suc (Suc (Suc k)))))"

lemma flag_run_reaches: "flag_step\<^sup>*\<^sup>* (flag_run 0) (flag_run 7)"
proof -
  have click: "flag_step s (run_click r s)" for r s
    unfolding run_click_def by (rule flag_step.click)
  have push: "flag_step (flag_run k) (run_push (flag_run k))" if "k \<in> {2, 4, 5, 6}" for k
  proof (rule run_push_step)
    have "list_flags_dirty 1 (fs_db (flag_run k)) \<noteq> []" if "k = 2" unfolding that by code_simp
    moreover have "fs_push (flag_run 4) \<noteq> NoPush" by code_simp
    moreover have "fs_push (flag_run 5) \<noteq> NoPush" by code_simp
    moreover have "fs_push (flag_run 6) \<noteq> NoPush" by code_simp
    ultimately show "fs_push (flag_run k) \<noteq> NoPush \<or> list_flags_dirty 1 (fs_db (flag_run k)) \<noteq> []"
      using that by auto
  qed
  have fetch: "flag_step (flag_run 0) (flag_run 1)"
    unfolding One_nat_def flag_run.simps(2) run_fetch_def
    by (rule flag_step.fetch) (simp add: sample_mail_def flags_of_def)
  have steps: "flag_step (flag_run k) (flag_run (Suc k))" if "k < 7" for k
  proof -
    from that consider "k = 0" | "k = 1" | "k = 2" | "k = 3" | "k = 4" | "k = 5" | "k = 6" by linarith
    then show ?thesis using fetch click push [of k]
      by cases (simp_all add: eval_nat_numeral)
  qed
  have "flag_step\<^sup>*\<^sup>* (flag_run 0) (flag_run k)" if "k \<le> 7" for k
    using that
  proof (induction k)
    case (Suc k)
    then have "flag_step\<^sup>*\<^sup>* (flag_run 0) (flag_run k)" and "flag_step (flag_run k) (flag_run (Suc k))"
      using steps [of k] by simp_all
    then show ?case by (rule rtranclp.rtrancl_into_rtrancl)
  qed simp
  then show ?thesis by blast
qed


end
