(* ===== verification/Io.thy ===== *)
theory Io
  imports Prelude
begin

text \<open>
  Fallible operations on a state: \<open>async fn \<dots> -> Result<T>\<close> is a function from the state to a
  result and the next state, \<open>?\<close> is \<open>bind_io\<close>, a \<open>match\<close> on a \<open>Result\<close> is \<open>try_io\<close> followed by a
  case. Pre- and postconditions of such programs are \<open>hoare\<close> triples with one postcondition for
  \<open>Ok\<close> and one for \<open>Err\<close>.
\<close>

type_synonym ('w, 'a) io = "'w \<Rightarrow> 'a result \<times> 'w"

definition ret_io :: "'a \<Rightarrow> ('w, 'a) io" where
  "ret_io x w = (Inr x, w)"

definition lift_io :: "'a result \<Rightarrow> ('w, 'a) io" where
  "lift_io r w = (r, w)"

definition get_io :: "('w \<Rightarrow> 'a) \<Rightarrow> ('w, 'a) io" where
  "get_io f w = (Inr (f w), w)"

definition modify_io :: "('w \<Rightarrow> 'w) \<Rightarrow> ('w, unit) io" where
  "modify_io f w = (Inr (), f w)"

definition bind_io :: "('w, 'a) io \<Rightarrow> ('a \<Rightarrow> ('w, 'b) io) \<Rightarrow> ('w, 'b) io" where
  "bind_io m k w = (case m w of (Inl e, w') \<Rightarrow> (Inl e, w') | (Inr x, w') \<Rightarrow> k x w')"

definition try_io :: "('w, 'a) io \<Rightarrow> ('w, 'a result) io" where
  "try_io m w = (case m w of (r, w') \<Rightarrow> (Inr r, w'))"

fun fold_io :: "('x \<Rightarrow> 'b \<Rightarrow> ('w, 'b) io) \<Rightarrow> 'x list \<Rightarrow> 'b \<Rightarrow> ('w, 'b) io" where
  "fold_io f [] b = ret_io b"
| "fold_io f (x # xs) b = bind_io (f x b) (fold_io f xs)"

definition each_io :: "('x \<Rightarrow> ('w, unit) io) \<Rightarrow> 'x list \<Rightarrow> ('w, unit) io" where
  "each_io f xs = fold_io (\<lambda>x _. f x) xs ()"

named_theorems io_simps \<open>the combinators, unfolded\<close>

lemma ret_io_apply [io_simps]: "ret_io x w = (Inr x, w)"
  by (simp add: ret_io_def)

lemma lift_io_apply [io_simps]: "lift_io r w = (r, w)"
  by (simp add: lift_io_def)

lemma get_io_apply [io_simps]: "get_io f w = (Inr (f w), w)"
  by (simp add: get_io_def)

lemma modify_io_apply [io_simps]: "modify_io f w = (Inr (), f w)"
  by (simp add: modify_io_def)

lemma bind_io_Inr [io_simps]: "m w = (Inr x, w') \<Longrightarrow> bind_io m k w = k x w'"
  by (simp add: bind_io_def)

lemma bind_io_Inl [io_simps]: "m w = (Inl e, w') \<Longrightarrow> bind_io m k w = (Inl e, w')"
  by (simp add: bind_io_def)

lemma bind_io_get [simp]: "bind_io (get_io f) k w = k (f w) w"
  by (simp add: io_simps)

lemma bind_io_ret [simp]: "bind_io (ret_io x) k = k x"
  by (rule ext) (simp add: io_simps)

lemma bind_io_modify [simp]: "bind_io (modify_io f) k w = k () (f w)"
  by (simp add: io_simps)

lemma bind_io_assoc: "bind_io (bind_io m k) l = bind_io m (\<lambda>x. bind_io (k x) l)"
  by (rule ext) (simp add: bind_io_def split: prod.split sum.split)

subsection \<open>Triples\<close>

definition hoare :: "('w \<Rightarrow> bool) \<Rightarrow> ('w, 'a) io \<Rightarrow> ('a \<Rightarrow> 'w \<Rightarrow> bool) \<Rightarrow> ('w \<Rightarrow> bool) \<Rightarrow> bool" where
  "hoare P m Q E \<longleftrightarrow> (\<forall>w. P w \<longrightarrow> (case m w of (Inl e, w') \<Rightarrow> E w' | (Inr x, w') \<Rightarrow> Q x w'))"

named_theorems wp \<open>rules of the triples, applied backwards\<close>

lemma hoareI:
  assumes "\<And>w e w'. P w \<Longrightarrow> m w = (Inl e, w') \<Longrightarrow> E w'"
    and "\<And>w x w'. P w \<Longrightarrow> m w = (Inr x, w') \<Longrightarrow> Q x w'"
  shows "hoare P m Q E"
  unfolding hoare_def using assms by (auto split: prod.split sum.split)

lemma hoareD:
  assumes "hoare P m Q E" and "P w"
  shows "m w = (Inr x, w') \<Longrightarrow> Q x w'" and "m w = (Inl e, w') \<Longrightarrow> E w'"
  using assms unfolding hoare_def by (fastforce split: prod.splits)+

lemma hoare_weaken:
  assumes "hoare P m Q E" and "\<And>w. P' w \<Longrightarrow> P w" and "\<And>x w. Q x w \<Longrightarrow> Q' x w" and "\<And>w. E w \<Longrightarrow> E' w"
  shows "hoare P' m Q' E'"
  by (rule hoareI) (auto dest: assms(2) hoareD [OF assms(1)] intro: assms(3,4))

lemma hoare_pre: "hoare P m Q E \<Longrightarrow> (\<And>w. P' w \<Longrightarrow> P w) \<Longrightarrow> hoare P' m Q E"
  by (erule hoare_weaken) auto

lemma hoare_ret: "hoare (Q x) (ret_io x) Q E"
  by (auto simp: hoare_def io_simps)

lemma hoare_get: "hoare (\<lambda>w. Q (f w) w) (get_io f) Q E"
  by (auto simp: hoare_def io_simps)

lemma hoare_modify: "hoare (\<lambda>w. Q () (f w)) (modify_io f) Q E"
  by (auto simp: hoare_def io_simps)

lemma hoare_lift: "hoare (\<lambda>w. case r of Inl e \<Rightarrow> E w | Inr x \<Rightarrow> Q x w) (lift_io r) Q E"
  by (auto simp: hoare_def io_simps split: sum.splits)

lemma hoare_bind:
  assumes "hoare P m R E" and "\<And>x. hoare (R x) (k x) Q E"
  shows "hoare P (bind_io m k) Q E"
proof (rule hoareI)
  fix w e w'
  assume P: "P w" and eq: "bind_io m k w = (Inl e, w')"
  show "E w'"
  proof (cases "m w")
    case (Pair r w1)
    with eq hoareD [OF assms(1) P] hoareD [OF assms(2)] show ?thesis
      by (cases r) (auto simp: bind_io_def)
  qed
next
  fix w x w'
  assume P: "P w" and eq: "bind_io m k w = (Inr x, w')"
  show "Q x w'"
  proof (cases "m w")
    case (Pair r w1)
    with eq hoareD [OF assms(1) P] hoareD [OF assms(2)] show ?thesis
      by (cases r) (auto simp: bind_io_def)
  qed
qed

lemma hoare_try:
  assumes "hoare P m (\<lambda>x. Q (Inr x)) (\<lambda>w. \<forall>e. Q (Inl e) w)"
  shows "hoare P (try_io m) Q E"
proof (rule hoareI)
  fix w e w'
  assume "try_io m w = (Inl e, w')"
  then show "E w'" by (simp add: try_io_def split: prod.splits)
next
  fix w x w'
  assume P: "P w" and "try_io m w = (Inr x, w')"
  then have m: "m w = (x, w')" by (simp add: try_io_def split: prod.splits)
  show "Q x w'"
  proof (cases x)
    case (Inl e)
    then show ?thesis using hoareD(2) [OF assms P] m by blast
  next
    case (Inr y)
    then show ?thesis using hoareD(1) [OF assms P] m by blast
  qed
qed

text \<open>A loop keeps what its body keeps.\<close>

lemma hoare_fold:
  assumes "\<And>x b. x \<in> set xs \<Longrightarrow> hoare (I b) (f x b) I E"
  shows "hoare (I b) (fold_io f xs b) I E"
  using assms
proof (induction xs arbitrary: b)
  case Nil
  show ?case by (simp add: hoare_ret)
next
  case (Cons x xs)
  have "hoare (I b) (f x b) I E" using Cons.prems by simp
  moreover have "hoare (I c) (fold_io f xs c) I E" for c by (rule Cons.IH) (simp add: Cons.prems)
  ultimately show ?case by (simp add: hoare_bind)
qed

lemma hoare_each:
  assumes "\<And>x. x \<in> set xs \<Longrightarrow> hoare I (f x) (\<lambda>_. I) E"
  shows "hoare I (each_io f xs) (\<lambda>_. I) E"
  unfolding each_io_def using assms by (rule hoare_fold)

text \<open>A loop whose body establishes something about each element, and keeps it.\<close>

lemma hoare_fold_done:
  assumes "\<And>xs x ys b. zs = xs @ x # ys \<Longrightarrow> hoare (I xs b) (f x b) (I (xs @ [x])) E"
  shows "hoare (I [] b) (fold_io f zs b) (I zs) E"
proof -
  have "hoare (I xs b) (fold_io f ys b) (I zs) E" if "zs = xs @ ys" for xs ys b
    using that
  proof (induction ys arbitrary: xs b)
    case Nil
    then show ?case by (simp add: hoare_ret)
  next
    case (Cons y ys)
    have "hoare (I xs b) (f y b) (I (xs @ [y])) E" using assms Cons.prems by simp
    moreover have "hoare (I (xs @ [y]) c) (fold_io f ys c) (I zs) E" for c
      by (rule Cons.IH) (simp add: Cons.prems)
    ultimately show ?case by (simp add: hoare_bind)
  qed
  from this [of "[]" zs] show ?thesis by simp
qed

lemma hoare_conj:
  assumes "hoare P m Q E" and "hoare P' m Q' E'"
  shows "hoare (\<lambda>w. P w \<and> P' w) m (\<lambda>x w. Q x w \<and> Q' x w) (\<lambda>w. E w \<and> E' w)"
  by (rule hoareI) (auto dest: hoareD [OF assms(1)] hoareD [OF assms(2)])

lemma hoare_if:
  "(b \<Longrightarrow> hoare P m Q E) \<Longrightarrow> (\<not> b \<Longrightarrow> hoare P m' Q E) \<Longrightarrow> hoare P (if b then m else m') Q E"
  by simp

lemma hoare_case_result:
  "(\<And>e. r = Inl e \<Longrightarrow> hoare P (f e) Q E) \<Longrightarrow> (\<And>x. r = Inr x \<Longrightarrow> hoare P (g x) Q E) \<Longrightarrow>
     hoare P (case r of Inl e \<Rightarrow> f e | Inr x \<Rightarrow> g x) Q E"
  by (cases r) auto

lemma hoare_case_option:
  "(r = None \<Longrightarrow> hoare P f Q E) \<Longrightarrow> (\<And>x. r = Some x \<Longrightarrow> hoare P (g x) Q E) \<Longrightarrow>
     hoare P (case r of None \<Rightarrow> f | Some x \<Rightarrow> g x) Q E"
  by (cases r) auto

lemma hoare_fact: "(\<And>w. P w \<Longrightarrow> F) \<Longrightarrow> (F \<Longrightarrow> hoare P m Q E) \<Longrightarrow> hoare P m Q E"
  by (cases "\<exists>w. P w") (auto simp: hoare_def)

lemma hoare_given: "(F \<Longrightarrow> hoare P m Q E) \<Longrightarrow> hoare (\<lambda>s. F \<and> P s) m Q E"
  by (auto simp: hoare_def)

lemma hoare_true: "(\<And>x. F x \<Longrightarrow> hoare P (k x) Q E) \<Longrightarrow> hoare P m (\<lambda>x s. F x \<and> P s) E \<Longrightarrow> hoare P (bind_io m k) Q E"
  by (erule hoare_bind) (rule hoare_given)

lemma hoare_trivial: "hoare P m (\<lambda>_ _. True) (\<lambda>_. True)"
  by (auto simp: hoare_def split: prod.split sum.split)

subsection \<open>Kept by the whole program\<close>

definition keeps :: "('w \<Rightarrow> bool) \<Rightarrow> ('w, 'a) io \<Rightarrow> bool" where
  "keeps I m \<longleftrightarrow> hoare I m (\<lambda>_. I) I"

named_theorems keeps_rules \<open>which programs keep a property of the state\<close>

lemma keepsD: "keeps I m \<Longrightarrow> I w \<Longrightarrow> m w = (r, w') \<Longrightarrow> I w'"
  unfolding keeps_def by (cases r) (auto dest: hoareD)

lemma keepsI: "(\<And>w r w'. I w \<Longrightarrow> m w = (r, w') \<Longrightarrow> I w') \<Longrightarrow> keeps I m"
  unfolding keeps_def by (rule hoareI) blast+

lemma keeps_ret [keeps_rules]: "keeps I (ret_io x)"
  by (auto intro: keepsI simp: io_simps)

lemma keeps_lift [keeps_rules]: "keeps I (lift_io r)"
  by (auto intro: keepsI simp: io_simps)

lemma keeps_get [keeps_rules]: "keeps I (get_io f)"
  by (auto intro: keepsI simp: io_simps)

lemma keeps_modify: "(\<And>w. I w \<Longrightarrow> I (f w)) \<Longrightarrow> keeps I (modify_io f)"
  by (auto intro: keepsI simp: io_simps)

lemma keeps_bind [keeps_rules]: "keeps I m \<Longrightarrow> (\<And>x. keeps I (k x)) \<Longrightarrow> keeps I (bind_io m k)"
  unfolding keeps_def by (rule hoare_bind)

text \<open>A step that keeps the property and establishes a fact for the rest.\<close>

lemma keeps_bind_fact:
  "hoare (\<lambda>_. True) m (\<lambda>x _. F x) (\<lambda>_. True) \<Longrightarrow> keeps I m \<Longrightarrow> (\<And>x. F x \<Longrightarrow> keeps I (k x)) \<Longrightarrow>
     keeps I (bind_io m k)"
  unfolding keeps_def
  by (rule hoare_true [where F = F], assumption, drule (1) hoare_conj, erule hoare_weaken) auto

lemma keeps_bind_lift: "(\<And>x. r = Inr x \<Longrightarrow> keeps I (k x)) \<Longrightarrow> keeps I (bind_io (lift_io r) k)"
  by (cases r) (auto simp: keeps_def hoare_def io_simps)

lemma keeps_try [keeps_rules]: "keeps I m \<Longrightarrow> keeps I (try_io m)"
  unfolding keeps_def by (rule hoare_try) simp

lemma keeps_fold [keeps_rules]: "(\<And>x b. x \<in> set xs \<Longrightarrow> keeps I (f x b)) \<Longrightarrow> keeps I (fold_io f xs b)"
  unfolding keeps_def by (rule hoare_fold)

lemma keeps_each [keeps_rules]: "(\<And>x. x \<in> set xs \<Longrightarrow> keeps I (f x)) \<Longrightarrow> keeps I (each_io f xs)"
  unfolding keeps_def by (rule hoare_each)

lemma keeps_if [keeps_rules]: "(b \<Longrightarrow> keeps I m) \<Longrightarrow> (\<not> b \<Longrightarrow> keeps I n) \<Longrightarrow> keeps I (if b then m else n)"
  by simp

lemma keeps_case_result [keeps_rules]:
  "(\<And>e. r = Inl e \<Longrightarrow> keeps I (f e)) \<Longrightarrow> (\<And>x. r = Inr x \<Longrightarrow> keeps I (g x)) \<Longrightarrow>
     keeps I (case r of Inl e \<Rightarrow> f e | Inr x \<Rightarrow> g x)"
  by (cases r) auto

lemma keeps_case_option [keeps_rules]:
  "(r = None \<Longrightarrow> keeps I f) \<Longrightarrow> (\<And>x. r = Some x \<Longrightarrow> keeps I (g x)) \<Longrightarrow>
     keeps I (case r of None \<Rightarrow> f | Some x \<Rightarrow> g x)"
  by (cases r) auto

lemma keeps_case_prod [keeps_rules]: "(\<And>x y. p = (x, y) \<Longrightarrow> keeps I (f x y)) \<Longrightarrow> keeps I (case p of (x, y) \<Rightarrow> f x y)"
  by (cases p) auto

lemma keeps_conj: "keeps I m \<Longrightarrow> keeps J m \<Longrightarrow> keeps (\<lambda>w. I w \<and> J w) m"
  unfolding keeps_def by (rule hoare_conj)

lemma keeps_hoare: "keeps I m \<Longrightarrow> hoare I m (\<lambda>_. I) I"
  by (simp add: keeps_def)

lemma with_state: "(\<lambda>w. f w w) = bind_io (get_io (\<lambda>w. w)) f"
  by (rule ext) simp

end
