(* ===== verification/Utf7.thy ===== *)
theory Utf7
  imports Text
begin

text \<open>
  Modified UTF-7 for mailbox names (\<open>sync/imap/utf7.rs\<close>) with its base64 core, on strings as the
  bytes of their UTF-8 form. Rust's own UTF-8 and UTF-16 conversions are written out; a byte, a
  UTF-16 unit and a character are naturals.
\<close>

unbundle bit_operations_syntax

subsection \<open>UTF-8 and UTF-16\<close>

definition is_scalar :: "nat \<Rightarrow> bool" where
  "is_scalar c \<longleftrightarrow> c < 0x110000 \<and> \<not> (0xD800 \<le> c \<and> c \<le> 0xDFFF)"

definition utf8_char :: "nat \<Rightarrow> nat list" where
  "utf8_char c =
     (if c < 0x80 then [c]
      else if c < 0x800 then [0xC0 + c div 64, 0x80 + c mod 64]
      else if c < 0x10000 then [0xE0 + c div 4096, 0x80 + c div 64 mod 64, 0x80 + c mod 64]
      else [0xF0 + c div 262144, 0x80 + c div 4096 mod 64, 0x80 + c div 64 mod 64, 0x80 + c mod 64])"

definition utf8 :: "nat list \<Rightarrow> string" where
  "utf8 cs = map char_of (concat (map utf8_char cs))"

fun chars_of_bytes :: "nat list \<Rightarrow> nat list" where
  "chars_of_bytes [] = []"
| "chars_of_bytes (a # s) =
     (if a < 0x80 then a # chars_of_bytes s
      else case s of [] \<Rightarrow> [] | b # s' \<Rightarrow>
        if a < 0xE0 then ((a - 0xC0) * 64 + (b - 0x80)) # chars_of_bytes s'
        else case s' of [] \<Rightarrow> [] | c # s'' \<Rightarrow>
          if a < 0xF0 then ((a - 0xE0) * 4096 + (b - 0x80) * 64 + (c - 0x80)) # chars_of_bytes s''
          else case s'' of [] \<Rightarrow> [] | d # s''' \<Rightarrow>
            ((a - 0xF0) * 262144 + (b - 0x80) * 4096 + (c - 0x80) * 64 + (d - 0x80)) # chars_of_bytes s''')"

definition chars_of :: "string \<Rightarrow> nat list" where
  "chars_of s = chars_of_bytes (map of_char s)"

definition utf16_char :: "nat \<Rightarrow> nat list" where
  "utf16_char c =
     (if c < 0x10000 then [c]
      else [0xD800 + (c - 0x10000) div 1024, 0xDC00 + (c - 0x10000) mod 1024])"

text \<open>\<open>char::decode_utf16\<close> collected: an unpaired surrogate is an error.\<close>

fun decode_utf16 :: "nat list \<Rightarrow> nat list option" where
  "decode_utf16 [] = Some []"
| "decode_utf16 (u # us) =
     (if u < 0xD800 \<or> 0xDFFF < u then map_option (Cons u) (decode_utf16 us)
      else if 0xDC00 \<le> u then None
      else case us of [] \<Rightarrow> None | v # vs \<Rightarrow>
        if 0xDC00 \<le> v \<and> v \<le> 0xDFFF
        then map_option (Cons (0x10000 + (u - 0xD800) * 1024 + (v - 0xDC00))) (decode_utf16 vs)
        else None)"

subsection \<open>Base64\<close>

definition B64_ALPHABET :: string where
  "B64_ALPHABET = ''ABCDEFGHIJKLMNOPQRSTUVWXYZabcdefghijklmnopqrstuvwxyz0123456789+/''"

text \<open>The bit groups of a chunk put together from the top, \<open>w\<close> bits each, the first at \<open>top\<close>.\<close>

definition pack :: "nat \<Rightarrow> nat \<Rightarrow> nat list \<Rightarrow> nat" where
  "pack msb w chunk = fold (\<lambda>(k, b) n. n OR push_bit (msb - w * k) b) (enumerate 0 chunk) 0"

definition base64_chunk :: "nat list \<Rightarrow> string" where
  "base64_chunk chunk =
     (let n = pack 16 8 chunk; pad = 3 - length chunk
      in map (\<lambda>k. B64_ALPHABET ! (drop_bit (18 - 6 * k) n AND 63)) [0..<4 - pad]
         @ replicate pad CHR ''='')"

definition base64_encode :: "nat list \<Rightarrow> string" where
  "base64_encode bytes = concat (map base64_chunk (chunks 3 bytes))"

definition sextet :: "char \<Rightarrow> nat option" where
  "sextet c =
     (let b = of_char c :: nat in
      if 65 \<le> b \<and> b \<le> 90 then Some (b - 65)
      else if 97 \<le> b \<and> b \<le> 122 then Some (b - 97 + 26)
      else if 48 \<le> b \<and> b \<le> 57 then Some (b - 48 + 52)
      else if b = 43 then Some 62
      else if b = 47 then Some 63
      else None)"

fun sextets :: "string \<Rightarrow> nat list option" where
  "sextets [] = Some []"
| "sextets (c # s) =
     (if c = CHR ''='' then Some []
      else case sextet c of None \<Rightarrow> None | Some v \<Rightarrow> map_option (Cons v) (sextets s))"

definition decode_chunk :: "nat list \<Rightarrow> nat list option" where
  "decode_chunk chunk =
     (let n = pack 18 6 chunk;
          out = (\<lambda>len. Some (map (\<lambda>k. drop_bit (16 - 8 * k) n AND 255) [0..<len]))
      in if length chunk = 4 then out 3 else if length chunk = 3 then out 2
         else if length chunk = 2 then out 1 else None)"

fun collect :: "'a list option list \<Rightarrow> 'a list option" where
  "collect [] = Some []"
| "collect (None # xs) = None"
| "collect (Some x # xs) = map_option (append x) (collect xs)"

definition base64_decode :: "string \<Rightarrow> nat list option" where
  "base64_decode input =
     (case sextets input of None \<Rightarrow> None | Some vals \<Rightarrow> collect (map decode_chunk (chunks 4 vals)))"

subsection \<open>Mailbox names\<close>

fun units_of :: "nat list \<Rightarrow> nat list" where
  "units_of (hi # lo # bytes) = (push_bit 8 hi OR lo) # units_of bytes"
| "units_of _ = []"

definition shift_char :: "char \<Rightarrow> bool" where
  "shift_char c \<longleftrightarrow> is_ascii_alphanumeric c \<or> c \<in> {CHR ''+'', CHR '','', CHR ''/''}"

definition decode_shift :: "string \<Rightarrow> string option" where
  "decode_shift inner =
     (if \<not> list_all shift_char inner then None
      else
        let standard = map (\<lambda>c. if c = CHR '','' then CHR ''/'' else c) inner;
            padded = standard @ replicate ((4 - length standard mod 4) mod 4) CHR ''=''
        in case base64_decode padded of
             None \<Rightarrow> None
           | Some bytes \<Rightarrow>
               if length bytes mod 2 \<noteq> 0 then None
               else map_option utf8 (decode_utf16 (units_of bytes)))"

function decode_modified_utf7 :: "string \<Rightarrow> string" where
  "decode_modified_utf7 [] = []"
| "decode_modified_utf7 (c # s) =
     (if c \<noteq> CHR 0x26 then c # decode_modified_utf7 s
      else if CHR ''-'' \<notin> set s then c # s
      else
        let inner = takeWhile (\<lambda>x. x \<noteq> CHR ''-'') s; rest = drop (Suc (length inner)) s
        in (if inner = [] then [CHR 0x26]
            else case decode_shift inner of
                   Some decoded \<Rightarrow> decoded
                 | None \<Rightarrow> c # inner @ ''-'') @ decode_modified_utf7 rest)"
  by pat_completeness auto
termination
  by (relation "measure length") auto

definition trim_pad :: "string \<Rightarrow> string" where
  "trim_pad s = rev (dropWhile (\<lambda>c. c = CHR ''='') (rev s))"

definition flush_run :: "nat list \<Rightarrow> string" where
  "flush_run run =
     (if run = [] then []
      else
        let bytes = concat (map (\<lambda>u. [drop_bit 8 u, u AND 255]) run);
            b64 = map (\<lambda>c. if c = CHR ''/'' then CHR '','' else c) (base64_encode bytes)
        in CHR 0x26 # trim_pad b64 @ ''-'')"

fun encode_chars :: "nat list \<Rightarrow> nat list \<Rightarrow> string" where
  "encode_chars run [] = flush_run run"
| "encode_chars run (ch # cs) =
     (if ch = 0x26 then flush_run run @ [CHR 0x26, CHR ''-''] @ encode_chars [] cs
      else if 0x20 \<le> ch \<and> ch \<le> 0x7e then flush_run run @ [char_of ch] @ encode_chars [] cs
      else encode_chars (run @ utf16_char ch) cs)"

definition encode_modified_utf7 :: "string \<Rightarrow> string" where
  "encode_modified_utf7 input = encode_chars [] (chars_of input)"

subsection \<open>Round trips\<close>

lemma or_eq_add: "2 ^ k dvd a \<Longrightarrow> b < 2 ^ k \<Longrightarrow> a OR b = a + (b :: nat)"
proof -
  assume a: "2 ^ k dvd a" and b: "b < 2 ^ k"
  then obtain c where c: "a = push_bit k c" by (auto simp: push_bit_eq_mult mult.commute elim!: dvdE)
  have "b = take_bit k b" using b by (simp add: take_bit_nat_eq_self)
  then have "\<not> bit b n" if "k \<le> n" for n using that by (metis bit_take_bit_iff not_le)
  then have "a AND b = 0" unfolding c by (intro bit_eqI) (auto simp: bit_simps)
  then show ?thesis by (simp add: disjunctive_add_eq_or)
qed

lemma and_63: "n AND 63 = n mod (64 :: nat)"
  using take_bit_eq_mask [of 6 n] by (simp add: take_bit_eq_mod mask_eq_exp_minus_1)

lemma and_255: "n AND 255 = n mod (256 :: nat)"
  using take_bit_eq_mask [of 8 n] by (simp add: take_bit_eq_mod mask_eq_exp_minus_1)

lemmas bits = and_63 and_255 drop_bit_eq_div push_bit_eq_mult

lemma or_add_256: "b < 256 \<Longrightarrow> a * 256 OR b = a * 256 + (b :: nat)"
  using or_eq_add [of 8 "a * 256" b] by simp

lemma pack_bytes:
  "a < 256 \<Longrightarrow> pack 16 8 [a] = a * 65536"
  "a < 256 \<Longrightarrow> b < 256 \<Longrightarrow> pack 16 8 [a, b] = a * 65536 + b * 256"
  "a < 256 \<Longrightarrow> b < 256 \<Longrightarrow> c < 256 \<Longrightarrow> pack 16 8 [a, b, c] = a * 65536 + b * 256 + c"
  using or_eq_add [of 16 "a * 65536" "b * 256"] or_eq_add [of 8 "a * 65536 + b * 256" c]
  by (simp_all add: pack_def bits dvd_add dvd_mult)

lemma pack_sextets:
  "a < 64 \<Longrightarrow> b < 64 \<Longrightarrow> pack 18 6 [a, b] = a * 262144 + b * 4096"
  "a < 64 \<Longrightarrow> b < 64 \<Longrightarrow> c < 64 \<Longrightarrow> pack 18 6 [a, b, c] = a * 262144 + b * 4096 + c * 64"
  "a < 64 \<Longrightarrow> b < 64 \<Longrightarrow> c < 64 \<Longrightarrow> d < 64 \<Longrightarrow>
     pack 18 6 [a, b, c, d] = a * 262144 + b * 4096 + c * 64 + d"
  using or_eq_add [of 18 "a * 262144" "b * 4096"] or_eq_add [of 12 "a * 262144 + b * 4096" "c * 64"]
    or_eq_add [of 6 "a * 262144 + b * 4096 + c * 64" d]
  by (simp_all add: pack_def bits dvd_add dvd_mult)

lemma digit_parts:
  fixes x :: nat
  assumes "d < m" and "n = x * m + d"
  shows "n div m = x" "n mod m = d"
  using assms by simp_all

lemma digits64:
  assumes "b < 64" "c < 64" "d < (64 :: nat)" and "a < 64"
    and n: "n = a * 262144 + b * 4096 + c * 64 + d"
  shows "n div 262144 mod 64 = a" "n div 4096 mod 64 = b" "n div 64 mod 64 = c" "n mod 64 = d"
proof -
  have e: "n div 262144 = a" by (rule digit_parts [of "b * 4096 + c * 64 + d"]) (use assms in simp_all)
  have f: "n div 4096 = a * 64 + b" by (rule digit_parts [of "c * 64 + d"]) (use assms in simp_all)
  have g: "n div 64 = (a * 64 + b) * 64 + c" "n mod 64 = d"
    by (rule digit_parts [of d _ _ "(a * 64 + b) * 64 + c"]; use assms in simp)+
  show "n div 64 mod 64 = c" unfolding g by (rule digit_parts(2) [OF assms(2) refl])
  show "n div 262144 mod 64 = a" "n div 4096 mod 64 = b" "n mod 64 = d"
    unfolding e f g using assms(1-4) by simp_all
qed

lemma digits256:
  assumes "b < 256" "c < (256 :: nat)" and "a < 256" and n: "n = a * 65536 + b * 256 + c"
  shows "n div 65536 mod 256 = a" "n div 256 mod 256 = b" "n mod 256 = c"
proof -
  have e: "n div 65536 = a" by (rule digit_parts [of "b * 256 + c"]) (use assms in simp_all)
  have f: "n div 256 = a * 256 + b" "n mod 256 = c"
    by (rule digit_parts [of c _ _ "a * 256 + b"]; use assms in simp)+
  show "n div 65536 mod 256 = a" "n div 256 mod 256 = b" "n mod 256 = c"
    unfolding e f using assms(1-3) by simp_all
qed

lemma regroup:
  "(a :: nat) * 65536 + b * 256 + c =
     a div 4 * 262144 + (a mod 4 * 16 + b div 16) * 4096 + (b mod 16 * 4 + c div 64) * 64 + c mod 64"
proof -
  have gen: "(4 * a1 + a0) * 65536 + (16 * b1 + b0) * 256 + (64 * c1 + c0) =
    a1 * 262144 + (a0 * 16 + b1) * 4096 + (b0 * 4 + c1) * 64 + c0" for a0 a1 b0 b1 c0 c1 :: nat by simp
  show ?thesis
    using gen [of "a div 4" "a mod 4" "b div 16" "b mod 16" "c div 64" "c mod 64"]
    by (simp only: mult_div_mod_eq)
qed

lemma small:
  "a < 256 \<Longrightarrow> a div 4 < (64 :: nat)" 
  "b < 256 \<Longrightarrow> a mod 4 * 16 + b div 16 < (64 :: nat)"
  "c < 256 \<Longrightarrow> b mod 16 * 4 + c div 64 < (64 :: nat)"
proof -
  have m: "a mod 4 < 4" "b mod 16 < 16" by simp_all
  show "a < 256 \<Longrightarrow> a div 4 < 64" by (simp add: less_mult_imp_div_less)
  have "b < 256 \<Longrightarrow> b div 16 < 16" by (simp add: less_mult_imp_div_less)
  with m show "b < 256 \<Longrightarrow> a mod 4 * 16 + b div 16 < 64" by linarith
  have "c < 256 \<Longrightarrow> c div 64 < 4" by (simp add: less_mult_imp_div_less)
  with m show "c < 256 \<Longrightarrow> b mod 16 * 4 + c div 64 < 64" by linarith
qed

fun sext :: "nat list \<Rightarrow> nat list" where
  "sext [] = []"
| "sext [a] = [a div 4, a mod 4 * 16]"
| "sext [a, b] = [a div 4, a mod 4 * 16 + b div 16, b mod 16 * 4]"
| "sext (a # b # c # r) =
     [a div 4, a mod 4 * 16 + b div 16, b mod 16 * 4 + c div 64, c mod 64] @ sext r"

lemma upto_small: "[0..<4] = [0, 1, 2, 3]" "[0..<3] = [0, 1, 2]" "[0..<2] = [0, 1::nat]" "[0..<1] = [0::nat]"
  by (simp_all add: upt_rec)

lemma sext_digits:
  assumes "a < 256" "b < 256" "c < (256 :: nat)"
  shows "(a * 65536 + b * 256 + c) div 262144 mod 64 = a div 4"
    "(a * 65536 + b * 256 + c) div 4096 mod 64 = a mod 4 * 16 + b div 16"
    "(a * 65536 + b * 256 + c) div 64 mod 64 = b mod 16 * 4 + c div 64"
    "(a * 65536 + b * 256 + c) mod 64 = c mod 64"
proof -
  have "c mod 64 < 64" by simp
  note d = digits64 [OF small(2) [OF assms(2)] small(3) [OF assms(3)] this small(1) [OF assms(1)] regroup]
  show "(a * 65536 + b * 256 + c) div 262144 mod 64 = a div 4" by (rule d(1))
  show "(a * 65536 + b * 256 + c) div 4096 mod 64 = a mod 4 * 16 + b div 16" by (rule d(2))
  show "(a * 65536 + b * 256 + c) div 64 mod 64 = b mod 16 * 4 + c div 64" by (rule d(3))
  show "(a * 65536 + b * 256 + c) mod 64 = c mod 64" by (rule d(4))
qed

lemma base64_chunk_at:
  "base64_chunk chunk = map ((!) B64_ALPHABET) (take (4 - (3 - length chunk))
     [pack 16 8 chunk div 262144 mod 64, pack 16 8 chunk div 4096 mod 64,
      pack 16 8 chunk div 64 mod 64, pack 16 8 chunk mod 64]) @ replicate (3 - length chunk) CHR ''=''"
proof -
  have "[0..<4 - p] = take (4 - p) [0, 1, 2, 3]" if "p \<le> 3" for p :: nat
  proof -
    from that consider "p = 0" | "p = 1" | "p = 2" | "p = 3" by linarith
    then show ?thesis by cases (simp_all add: upto_small)
  qed
  then show ?thesis
    by (simp add: base64_chunk_def bits Let_def take_map [symmetric])
qed

lemma base64_chunk_eq:
  assumes "a < 256" "b < 256" "c < 256"
  shows "base64_chunk [a] = map ((!) B64_ALPHABET) (sext [a]) @ [CHR ''='', CHR ''='']"
    and "base64_chunk [a, b] = map ((!) B64_ALPHABET) (sext [a, b]) @ [CHR ''='']"
    and "base64_chunk [a, b, c] = map ((!) B64_ALPHABET) (sext [a, b, c])"
proof -
  have z: "(0 :: nat) < 256" by simp
  have p: "pack 16 8 [a] = a * 65536 + 0 * 256 + 0" "pack 16 8 [a, b] = a * 65536 + b * 256 + 0"
    "pack 16 8 [a, b, c] = a * 65536 + b * 256 + c"
    by (simp_all add: pack_bytes assms)
  show "base64_chunk [a] = map ((!) B64_ALPHABET) (sext [a]) @ [CHR ''='', CHR ''='']"
    unfolding base64_chunk_at p sext_digits [OF assms(1) z z] by (simp add: numeral_2_eq_2)
  show "base64_chunk [a, b] = map ((!) B64_ALPHABET) (sext [a, b]) @ [CHR ''='']"
    unfolding base64_chunk_at p sext_digits [OF assms(1,2) z] by simp
  show "base64_chunk [a, b, c] = map ((!) B64_ALPHABET) (sext [a, b, c])"
    unfolding base64_chunk_at p sext_digits [OF assms] by simp
qed

lemma decode_chunk_at:
  "length chunk \<in> {2, 3, 4} \<Longrightarrow> decode_chunk chunk = Some (take (length chunk - 1)
     [pack 18 6 chunk div 65536 mod 256, pack 18 6 chunk div 256 mod 256, pack 18 6 chunk mod 256])"
  by (auto simp: decode_chunk_def bits Let_def upto_small)

lemma decode_chunk_sext:
  assumes "a < 256" "b < 256" "c < 256"
  shows "decode_chunk (sext [a]) = Some [a]" and "decode_chunk (sext [a, b]) = Some [a, b]"
    and "decode_chunk (sext [a, b, c]) = Some [a, b, c]"
proof -
  have z: "(0 :: nat) < 256" by simp
  have m: "x mod 4 * 16 < (64 :: nat)" "y mod 16 * 4 < (64 :: nat)" for x y
    using mod_less_divisor [of 4 x] mod_less_divisor [of 16 y] by linarith+
  have p: "pack 18 6 (sext [a]) = a * 65536 + 0 * 256 + 0"
      "pack 18 6 (sext [a, b]) = a * 65536 + b * 256 + 0"
      "pack 18 6 (sext [a, b, c]) = a * 65536 + b * 256 + c"
    unfolding regroup [of a 0 0] regroup [of a b 0] regroup [of a b c]
    by (simp_all only: sext.simps append_Nil2 append.simps)
      (simp_all add: pack_sextets small assms m)
  show "decode_chunk (sext [a]) = Some [a]"
    using decode_chunk_at [of "sext [a]"] unfolding p digits256 [OF z z assms(1) refl]
    by simp
  show "decode_chunk (sext [a, b]) = Some [a, b]"
    using decode_chunk_at [of "sext [a, b]"] unfolding p digits256 [OF assms(2) z assms(1) refl]
    by simp
  show "decode_chunk (sext [a, b, c]) = Some [a, b, c]"
    using decode_chunk_at [of "sext [a, b, c]"] unfolding p digits256 [OF assms(2,3,1) refl]
    by simp
qed

lemma chunks_step: "length c = n \<Longrightarrow> 0 < n \<Longrightarrow> chunks n (c @ r) = c # chunks n r"
  by (subst chunks.simps) auto

lemma chunks_last: "c \<noteq> [] \<Longrightarrow> length c \<le> n \<Longrightarrow> chunks n c = [c]"
  by (subst chunks.simps) (cases c; auto)

lemma sext_lt: "\<forall>b \<in> set bytes. b < 256 \<Longrightarrow> v \<in> set (sext bytes) \<Longrightarrow> v < 64"
proof (induction bytes rule: sext.induct)
  case (2 a)
  then show ?case using small(1) [of a] small(2) [of 0 a] by auto
next
  case (3 a b)
  then show ?case using small(1) [of a] small(2) [of b a] small(3) [of 0 b] by auto
next
  case (4 a b c r)
  then show ?case using small(1) [of a] small(2) [of b a] small(3) [of c b] by auto
qed simp

lemma base64_encode_sext:
  "\<forall>b \<in> set bytes. b < 256 \<Longrightarrow>
     \<exists>p. base64_encode bytes = map ((!) B64_ALPHABET) (sext bytes) @ replicate p CHR ''=''"
proof (induction bytes rule: sext.induct)
  case 1
  show ?case by (simp add: base64_encode_def)
next
  case (2 a)
  then show ?case using base64_chunk_eq(1) [of a 0 0]
    by (intro exI [of _ 2]) (simp add: base64_encode_def chunks_last numeral_2_eq_2)
next
  case (3 a b)
  then show ?case using base64_chunk_eq(2) [of a b 0]
    by (intro exI [of _ 1]) (simp add: base64_encode_def chunks_last)
next
  case (4 a b c r)
  then obtain p where "base64_encode r = map ((!) B64_ALPHABET) (sext r) @ replicate p CHR ''=''" by auto
  moreover have "base64_encode (a # b # c # r) = base64_chunk [a, b, c] @ base64_encode r"
    using chunks_step [of "[a, b, c]" 3 r] by (simp add: base64_encode_def)
  ultimately show ?case using 4 base64_chunk_eq(3) [of a b c] by (intro exI [of _ p]) simp
qed

lemma collect_sext:
  "\<forall>b \<in> set bytes. b < 256 \<Longrightarrow> collect (map decode_chunk (chunks 4 (sext bytes))) = Some bytes"
proof (induction bytes rule: sext.induct)
  case (2 a)
  then show ?case using decode_chunk_sext(1) [of a 0 0] by (simp add: chunks_last)
next
  case (3 a b)
  then show ?case using decode_chunk_sext(2) [of a b 0] by (simp add: chunks_last)
next
  case (4 a b c r)
  have "chunks 4 (sext (a # b # c # r)) = sext [a, b, c] # chunks 4 (sext r)"
    using chunks_step [of "sext [a, b, c]" 4 "sext r"] by simp
  with 4 show ?case using decode_chunk_sext(3) [of a b c] by simp
qed simp

lemma alphabet:
  assumes "v < 64"
  shows "sextet (B64_ALPHABET ! v) = Some v
    \<and> B64_ALPHABET ! v \<noteq> CHR ''='' \<and> shift_char (B64_ALPHABET ! v)
    \<and> B64_ALPHABET ! v \<noteq> CHR '',''"
proof -
  have all: "list_all2 (\<lambda>v c. sextet c = Some v \<and> c \<noteq> CHR ''='' \<and> shift_char c \<and> c \<noteq> CHR '','') [0..<64] B64_ALPHABET"
    by (simp add: B64_ALPHABET_def sextet_def shift_char_def is_ascii_alphanumeric_def
        is_ascii_alpha_def is_ascii_digit_def upt_rec)
  from assms list_all2_nthD2 [OF all, of v] list_all2_lengthD [OF all] show ?thesis by simp
qed

lemma sextets_alphabet:
  "\<forall>v \<in> set vs. v < 64 \<Longrightarrow> sextets (map ((!) B64_ALPHABET) vs @ replicate p CHR ''='') = Some vs"
  by (induction vs) (cases p; simp add: alphabet)+

text \<open>What base64 packs it unpacks, with any padding.\<close>

lemma base64_round_trip:
  assumes "\<forall>b \<in> set bytes. b < 256"
  shows "base64_decode (map ((!) B64_ALPHABET) (sext bytes) @ replicate p CHR ''='') = Some bytes"
  using assms sext_lt [OF assms] by (simp add: base64_decode_def sextets_alphabet collect_sext)

lemma chars_of_char:
  assumes "c < 0x110000"
  shows "chars_of_bytes (utf8_char c @ s) = c # chars_of_bytes s"
proof -
  consider "c < 0x80" | "0x80 \<le> c" "c < 0x800" | "0x800 \<le> c" "c < 0x10000" | "0x10000 \<le> c" by linarith
  then show ?thesis
  proof cases
    case 2
    define q r where qr: "q = c div 64" "r = c mod 64"
    have "q < 32" using 2 by (simp add: qr less_mult_imp_div_less)
    moreover have "q * 64 + r = c" by (simp add: qr)
    moreover have "utf8_char c = [0xC0 + q, 0x80 + r]" using 2 by (simp add: utf8_char_def qr)
    ultimately show ?thesis by simp
  next
    case 3
    define p q r where pqr: "p = c div 4096" "q = c div 64 mod 64" "r = c mod 64"
    have "p < 16" using 3 by (simp add: pqr less_mult_imp_div_less)
    moreover have "p * 4096 + q * 64 + r = c"
    proof -
      have gen: "(p * 64 + q) * 64 + r = p * 4096 + q * 64 + r" for p q r :: nat by simp
      have "c div 4096 = c div 64 div 64" by (simp add: div_mult2_eq [symmetric])
      then show ?thesis
        using gen [of "c div 64 div 64" "c div 64 mod 64" "c mod 64", symmetric] unfolding pqr
        by (simp only: div_mult_mod_eq)
    qed
    moreover have "utf8_char c = [0xE0 + p, 0x80 + q, 0x80 + r]" using 3 by (simp add: utf8_char_def pqr)
    ultimately show ?thesis by simp
  next
    case 4
    define z p q r where zpqr: "z = c div 262144" "p = c div 4096 mod 64" "q = c div 64 mod 64" "r = c mod 64"
    have "z * 262144 + p * 4096 + q * 64 + r = c"
    proof -
      have gen: "((z * 64 + p) * 64 + q) * 64 + r = z * 262144 + p * 4096 + q * 64 + r" for z p q r :: nat by simp
      have "c div 4096 = c div 64 div 64" "c div 262144 = c div 64 div 64 div 64"
        by (simp_all add: div_mult2_eq [symmetric])
      then show ?thesis
        using gen [of "c div 64 div 64 div 64" "c div 64 div 64 mod 64" "c div 64 mod 64" "c mod 64", symmetric]
        unfolding zpqr by (simp only: div_mult_mod_eq)
    qed
    moreover have "utf8_char c = [0xF0 + z, 0x80 + p, 0x80 + q, 0x80 + r]"
      using 4 by (simp add: utf8_char_def zpqr)
    ultimately show ?thesis by simp
  qed (simp add: utf8_char_def)
qed

lemma utf8_char_byte: "c < 0x110000 \<Longrightarrow> b \<in> set (utf8_char c) \<Longrightarrow> b < 256"
proof -
  assume c: "c < 0x110000" and b: "b \<in> set (utf8_char c)"
  have m: "x mod 64 < 64" for x :: nat by simp
  have "c < 0x800 \<Longrightarrow> c div 64 < 32" "c < 0x10000 \<Longrightarrow> c div 4096 < 16" "c div 262144 < 5"
    using c by (simp_all add: less_mult_imp_div_less)
  with b m [of c] m [of "c div 64"] m [of "c div 4096"] show "b < 256"
    unfolding utf8_char_def by (auto split: if_splits)
qed

lemma chars_of_utf8: "\<forall>c \<in> set cs. is_scalar c \<Longrightarrow> chars_of (utf8 cs) = cs"
proof -
  assume cs: "\<forall>c \<in> set cs. is_scalar c"
  then have "map of_char (utf8 cs) = concat (map utf8_char cs)"
    using utf8_char_byte by (fastforce simp: utf8_def is_scalar_def intro!: map_idI)
  moreover have "chars_of_bytes (concat (map utf8_char cs)) = cs"
    using cs by (induction cs) (auto simp: chars_of_char is_scalar_def)
  ultimately show ?thesis by (simp add: chars_of_def)
qed

lemma utf8_simps [simp]: "utf8 [] = []" "utf8 (a @ b) = utf8 a @ utf8 b" "c < 128 \<Longrightarrow> utf8 [c] = [char_of c]"
  by (simp_all add: utf8_def utf8_char_def)

lemma decode_utf16_char:
  assumes "is_scalar c"
  shows "decode_utf16 (utf16_char c @ us) = map_option (Cons c) (decode_utf16 us)"
proof (cases "c < 0x10000")
  case True
  with assms show ?thesis by (auto simp: utf16_char_def is_scalar_def)
next
  case False
  define h l where hl: "h = (c - 0x10000) div 1024" "l = (c - 0x10000) mod 1024"
  have "h < 1024" using assms False by (simp add: hl is_scalar_def less_mult_imp_div_less)
  moreover have "l < 1024" by (simp add: hl)
  moreover have "0x10000 + h * 1024 + l = c" unfolding hl using False by (simp only: add.assoc div_mult_mod_eq)
  moreover have "utf16_char c = [0xD800 + h, 0xDC00 + l]" using False by (simp add: utf16_char_def hl)
  ultimately show ?thesis by simp
qed

lemma decode_utf16_chars: "\<forall>c \<in> set cs. is_scalar c \<Longrightarrow> decode_utf16 (concat (map utf16_char cs)) = Some cs"
  by (induction cs) (auto simp: decode_utf16_char)

lemma utf16_char_unit: "is_scalar c \<Longrightarrow> u \<in> set (utf16_char c) \<Longrightarrow> u < 65536"
proof -
  assume "is_scalar c" "u \<in> set (utf16_char c)"
  moreover have "is_scalar c \<Longrightarrow> \<not> c < 0x10000 \<Longrightarrow> (c - 0x10000) div 1024 < 1024"
    by (simp add: is_scalar_def less_mult_imp_div_less)
  moreover have "(c - 0x10000) mod 1024 < 1024" by simp
  ultimately show "u < 65536" by (auto simp: utf16_char_def is_scalar_def split: if_splits)
qed

definition bytes_of_units :: "nat list \<Rightarrow> nat list" where
  "bytes_of_units us = concat (map (\<lambda>u. [drop_bit 8 u, u AND 255]) us)"

lemma bytes_of_units:
  "\<forall>u \<in> set us. u < 65536 \<Longrightarrow> units_of (bytes_of_units us) = us \<and> length (bytes_of_units us) mod 2 = 0
     \<and> (\<forall>b \<in> set (bytes_of_units us). b < 256)"
proof (induction us)
  case (Cons u us)
  define h l where hl: "h = u div 256" "l = u mod 256"
  have "h < 256" using Cons.prems by (simp add: hl less_mult_imp_div_less)
  moreover have "l < 256" by (simp add: hl)
  moreover have "h * 256 OR l = u" unfolding hl using or_add_256 [of "u mod 256" "u div 256"] by simp
  moreover have "bytes_of_units (u # us) = h # l # bytes_of_units us"
    by (simp add: bytes_of_units_def bits hl)
  ultimately show ?case using Cons by (simp add: push_bit_eq_mult)
qed (simp add: bytes_of_units_def)


lemma trim_pad_replicate: "CHR ''='' \<notin> set core \<Longrightarrow> trim_pad (core @ replicate p CHR ''='') = core"
proof -
  assume core: "CHR ''='' \<notin> set core"
  have "dropWhile (\<lambda>c. c = CHR ''='') (replicate p CHR ''='' @ rev core) = dropWhile (\<lambda>c. c = CHR ''='') (rev core)"
    by (rule dropWhile_append2) auto
  also have "\<dots> = rev core" using core by (cases "rev core") (auto simp: rev_swap)
  finally show ?thesis by (simp add: trim_pad_def)
qed

text \<open>One shift sequence decodes to the characters it stands for, and the text behind it follows.\<close>

lemma decode_flush:
  assumes cs: "\<forall>c \<in> set cs. is_scalar c"
  shows "decode_modified_utf7 (flush_run (concat (map utf16_char cs)) @ t) = utf8 cs @ decode_modified_utf7 t"
    (is "decode_modified_utf7 (flush_run ?run @ t) = _")
proof (cases "?run = []")
  case True
  then have "cs = []" by (cases cs) (auto simp: utf16_char_def split: if_splits)
  then show ?thesis by (simp add: flush_run_def)
next
  case False
  define bytes where "bytes = bytes_of_units ?run"
  have "\<forall>u \<in> set ?run. u < 65536" using cs utf16_char_unit by auto
  note b = bytes_of_units [OF this, folded bytes_def]
  define core where "core = map ((!) B64_ALPHABET) (sext bytes)"
  define comma where "comma = (\<lambda>c. if c = CHR ''/'' then CHR '','' else c)"
  define slash where "slash = (\<lambda>c. if c = CHR '','' then CHR ''/'' else c)"
  obtain p where p: "base64_encode bytes = core @ replicate p CHR ''=''"
    using base64_encode_sext [of bytes] b unfolding core_def by blast
  have ch: "c \<noteq> CHR ''='' \<and> shift_char c \<and> c \<noteq> CHR '',''" if "c \<in> set core" for c
    using that alphabet sext_lt [of bytes] b by (auto simp: core_def)
  have mc: "map comma (core @ replicate p CHR ''='') = map comma core @ replicate p CHR ''=''"
    by (simp add: comma_def)
  have no_pad: "CHR ''='' \<notin> set (map comma core)" using ch by (auto simp: comma_def split: if_splits)
  have flush: "flush_run ?run = CHR 0x26 # map comma core @ ''-''"
    unfolding flush_run_def Let_def bytes_of_units_def [symmetric] bytes_def [symmetric] p
      comma_def [symmetric] mc trim_pad_replicate [OF no_pad]
    using False by (simp only: if_False)
  have unslash: "map slash (map comma core) = core" using ch by (auto simp: comma_def slash_def intro!: map_idI)
  have shift: "list_all shift_char (map comma core)"
    using ch by (auto simp: comma_def list_all_iff shift_char_def)
  have dash: "CHR ''-'' \<notin> set (map comma core)"
  proof -
    have "\<not> shift_char CHR ''-''" by code_simp
    with shift show ?thesis unfolding list_all_iff by metis
  qed
  have ne: "map comma core \<noteq> []"
  proof
    assume "map comma core = []"
    then have "sext bytes = []" by (simp add: core_def)
    then have "bytes = []" by (cases bytes rule: sext.cases) simp_all
    with False show False by (cases ?run) (auto simp: bytes_def bytes_of_units_def)
  qed
  have "decode_shift (map comma core) = Some (utf8 cs)"
    using shift base64_round_trip [of bytes, folded core_def] b decode_utf16_chars [OF cs]
    unfolding decode_shift_def Let_def slash_def [symmetric] unslash by (simp del: map_map)
  moreover have "takeWhile (\<lambda>x. x \<noteq> CHR ''-'') (map comma core @ CHR ''-'' # t) = map comma core"
    using dash by (subst takeWhile_append2) (simp_all del: set_map, metis)
  ultimately show ?thesis unfolding flush using ne by (simp add: Let_def)
qed

lemma decode_plain: "c \<noteq> CHR 0x26 \<Longrightarrow> decode_modified_utf7 (c # s) = c # decode_modified_utf7 s"
  by simp

lemma decode_amp: "decode_modified_utf7 (CHR 0x26 # CHR ''-'' # s) = CHR 0x26 # decode_modified_utf7 s"
  by (simp add: Let_def)

declare decode_modified_utf7.simps [simp del]

lemma decode_encode_chars:
  assumes "\<forall>c \<in> set ds. is_scalar c" and "\<forall>c \<in> set cs. is_scalar c"
  shows "decode_modified_utf7 (encode_chars (concat (map utf16_char ds)) cs) = utf8 ds @ utf8 cs"
  using assms
proof (induction cs arbitrary: ds)
  case Nil
  then show ?case using decode_flush [of ds "[]"] by (simp add: decode_modified_utf7.simps)
next
  case (Cons c cs)
  have tail: "decode_modified_utf7 (encode_chars [] cs) = utf8 cs" using Cons.IH [of "[]"] Cons.prems by simp
  have utf8_Cons: "utf8 (c # cs) = utf8 [c] @ utf8 cs" using utf8_simps(2) [of "[c]" cs] by simp
  consider "c = 0x26" | "c \<noteq> 0x26" "0x20 \<le> c \<and> c \<le> 0x7e" | "c \<noteq> 0x26" "\<not> (0x20 \<le> c \<and> c \<le> 0x7e)" by blast
  then show ?case
  proof cases
    case 1
    have "(char_of (38 :: nat) :: char) = CHR 0x26" by code_simp
    with 1 show ?thesis using Cons.prems(1) decode_flush [of ds] tail utf8_Cons by (simp add: decode_amp)
  next
    case 2
    have "char_of c \<noteq> CHR 0x26"
    proof
      assume "char_of c = CHR 0x26"
      then have "of_char (char_of c :: char) = (38 :: nat)" by simp
      with 2 show False by simp
    qed
    with 2 show ?thesis using Cons.prems(1) decode_flush [of ds] tail utf8_Cons by (simp add: decode_plain)
  next
    case 3
    then have "encode_chars run (c # cs) = encode_chars (run @ utf16_char c) cs" for run by auto
    then show ?thesis using Cons.IH [of "ds @ [c]"] Cons.prems utf8_Cons by simp
  qed
qed

text \<open>What goes on the wire is printable ASCII.\<close>

lemma flush_run_printable:
  assumes "\<forall>c \<in> set cs. is_scalar c" and "x \<in> set (flush_run (concat (map utf16_char cs)))"
  shows "32 \<le> code x \<and> code x \<le> 126"
proof -
  define bytes where "bytes = bytes_of_units (concat (map utf16_char cs))"
  have "\<forall>u \<in> set (concat (map utf16_char cs)). u < 65536" using assms(1) utf16_char_unit by auto
  note b = bytes_of_units [OF this, folded bytes_def]
  obtain p where p: "base64_encode bytes = map ((!) B64_ALPHABET) (sext bytes) @ replicate p CHR ''=''"
    using base64_encode_sext [of bytes] b by blast
  have printable: "shift_char c \<Longrightarrow> 32 \<le> code c \<and> code c \<le> 126" for c
    by (auto simp: shift_char_def is_ascii_alphanumeric_def is_ascii_alpha_def is_ascii_digit_def)
  have enc: "32 \<le> code c \<and> code c \<le> 126" if "c \<in> set (base64_encode bytes)" for c
    using that alphabet sext_lt [of bytes] b printable unfolding p by (auto split: if_splits)
  have trim: "set (trim_pad s) \<subseteq> set s" for s
    using set_dropWhileD [of _ _ "rev s"] by (auto simp: trim_pad_def)
  define M where "M = map (\<lambda>c. if c = CHR ''/'' then CHR '','' else c) (base64_encode bytes)"
  have "x = CHR 0x26 \<or> x = CHR ''-'' \<or> x \<in> set (trim_pad M)"
    using assms(2) unfolding flush_run_def Let_def bytes_of_units_def [symmetric] bytes_def [symmetric] M_def
    by (auto split: if_splits)
  then consider "x = CHR 0x26" | "x = CHR ''-''" | "x \<in> set M" using trim by blast
  then show ?thesis using enc by cases (auto simp: M_def split: if_splits)
qed

lemma encode_chars_printable:
  assumes "\<forall>c \<in> set ds. is_scalar c" and "\<forall>c \<in> set cs. is_scalar c"
    and "x \<in> set (encode_chars (concat (map utf16_char ds)) cs)"
  shows "32 \<le> code x \<and> code x \<le> 126"
  using assms
proof (induction cs arbitrary: ds)
  case Nil
  then show ?case using flush_run_printable by auto
next
  case (Cons c cs)
  note flushed = flush_run_printable [OF Cons.prems(1)]
  have tail: "x \<in> set (encode_chars [] cs) \<Longrightarrow> ?case" using Cons.IH [of "[]"] Cons.prems by simp
  consider "c = 0x26" | "c \<noteq> 0x26" "0x20 \<le> c \<and> c \<le> 0x7e" | "c \<noteq> 0x26" "\<not> (0x20 \<le> c \<and> c \<le> 0x7e)" by blast
  then show ?case
  proof cases
    case 1
    with Cons.prems(3) flushed tail show ?thesis by auto
  next
    case 2
    with Cons.prems(3) flushed tail show ?thesis by auto
  next
    case 3
    then have "encode_chars run (c # cs) = encode_chars (run @ utf16_char c) cs" for run by auto
    then show ?thesis using Cons.IH [of "ds @ [c]"] Cons.prems by simp
  qed
qed

text \<open>
  C32. Mailbox names survive the wire: for every Unicode name, what is sent is printable ASCII and
  decodes to the name again (base64, UTF-16 surrogates and literal ampersands included).
\<close>

theorem mailbox_name_round_trip:
  assumes "\<forall>c \<in> set cs. is_scalar c"
  shows "decode_modified_utf7 (encode_modified_utf7 (utf8 cs)) = utf8 cs
    \<and> (\<forall>x \<in> set (encode_modified_utf7 (utf8 cs)). 32 \<le> code x \<and> code x \<le> 126)"
  using decode_encode_chars [of "[]" cs] encode_chars_printable [of "[]" cs] assms
  by (simp add: encode_modified_utf7_def chars_of_utf8)

text \<open>The umlaut of \<open>Entw\<close>, an ampersand, and a character beyond the basic plane.\<close>

theorem mailbox_name_round_trip_witness:
  "decode_modified_utf7 (encode_modified_utf7 (utf8 [69, 0xFC, 38, 0x1F600, 114]))
     = utf8 [69, 0xFC, 38, 0x1F600, 114]"
  using mailbox_name_round_trip [of "[69, 0xFC, 38, 0x1F600, 114]"] by (simp add: is_scalar_def)

text \<open>
  A name the decoder passes through verbatim does not come back: the encoder escapes its
  ampersand, so the name sent is not the name listed.
\<close>

lemma verbatim_name_is_not_resent:
  "decode_modified_utf7 ''A&!!!-B'' = ''A&!!!-B''"
  "encode_modified_utf7 (decode_modified_utf7 ''A&!!!-B'') = ''A&-!!!-B''"
  by code_simp+

end
