(* ===== verification/Imap_Session.thy ===== *)
theory Imap_Session
  imports Io Utf7
begin

text \<open>
  The IMAP session (\<open>sync/imap/session.rs\<close> with \<open>mailbox.rs\<close>, \<open>mutate.rs\<close>, \<open>discovery.rs\<close>,
  \<open>seq.rs\<close> and \<open>types.rs\<close>): the command loop with its timeouts and the one-way \<open>broken\<close> mark, and
  the verbs built on it with their fallbacks. What lies behind the socket is a parameter \<open>srv\<close>: the
  events, with their times in milliseconds, that follow a command. Names, flags and attributes are
  the text on the wire. Of the errors raised for replies the wording of imap-types is left out.
\<close>

subsection \<open>Commands and replies\<close>

datatype imap_flag = Seen | Flagged | Deleted | Draft | Other_Flag string

datatype select_parameter = Plain | CondStore | QResync nat nat

datatype search_key =
    All_Key | Uid_Key "nat list" | Uid_Range nat nat | Deleted_Key
  | Text_Key string | From_Key string | Subject_Key string | To_Key string | Cc_Key string | Bcc_Key string
  | Seen_Key | Unseen_Key | Flagged_Key | Unflagged_Key | SentSince string | SentBefore string
  | Or_Key search_key search_key | Not_Key search_key

datatype imap_command =
    Select string select_parameter
  | Fetch_Flags "nat list" "nat option"
  | Fetch_Full "nat list"
  | Search "search_key list"
  | Store "nat list" bool "imap_flag list"
  | Copy "nat list" string
  | Move "nat list" string
  | Expunge
  | ExpungeUid "nat list"
  | Append string "imap_flag list" string
  | Create string
  | List_Command string string
  | Lsub string string
  | Namespace
  | Noop
  | Capability
  | Enable "string list"
  | Login string string
  | Logout

datatype seq_bound = Value nat | Asterisk
datatype sequence = Single seq_bound | Range seq_bound seq_bound

datatype fetch_item =
    Uid_Item nat | Flags_Item "imap_flag list" | ModSeq_Item nat | Body_Item "string option"
  | Rfc822_Item "string option" | Other_Item

datatype imap_data =
    Exists nat
  | Vanished "sequence list"
  | Fetch "fetch_item list"
  | Search_Data "nat list"
  | List_Data "string list" "string option" "string option"
  | Lsub_Data "string list" "string option" "string option"
  | Namespace_Data "string list" "string list" "string list"
  | Capability_Data "string list"
  | Enabled_Data "string list"
  | Other_Data

datatype response_code =
    UidValidity nat | UidNext nat | HighestModSeq nat | Capability_Code "string list" | Other_Code

datatype status_kind = Ok_Kind | No_Kind | Bad_Kind

datatype imap_event =
    Command_Rejected
  | Data_Received imap_data
  | Tagged string status_kind string "response_code option"
  | Untagged "response_code option"
  | Bye string
  | Stream_Error string
  | Other_Event

text \<open>An event with the clock when the loop starts to wait for it, and how long it then takes.\<close>

type_synonym timed_event = "int \<times> int \<times> imap_event"

record command_result =
  cr_data :: "imap_data list"
  cr_codes :: "response_code option list"

subsection \<open>The command loop\<close>

definition COMMAND_TIMEOUT :: int where
  "COMMAND_TIMEOUT = 30000"

definition COMMAND_MAX :: int where
  "COMMAND_MAX = 600000"

definition read_budget :: "int \<Rightarrow> int \<Rightarrow> int option" where
  "read_budget started now =
     (let elapsed = max 0 (now - started) in
      if COMMAND_MAX < elapsed then None
      else let left = COMMAND_MAX - elapsed in if left = 0 then None else Some (min left COMMAND_TIMEOUT))"

record 's imap_session =
  conn :: 's
  tag_counter :: nat
  capabilities :: "string list"
  condstore_enabled :: bool
  qresync_enabled :: bool
  broken :: "string option"

text \<open>\<open>Display\<close> of \<open>StoreError\<close>.\<close>

fun error_text :: "store_error \<Rightarrow> string" where
  "error_text (Sql e) = ''database error: '' @ e"
| "error_text (Json e) = ''json error: '' @ e"
| "error_text (NotFound e) = ''not found: '' @ e"
| "error_text (InvalidInput e) = ''invalid input: '' @ e"
| "error_text (Keyring e) = ''keyring: '' @ e"
| "error_text (Time e) = ''time error: '' @ e"
| "error_text (Imap e) = ''imap error: '' @ e"
| "error_text (Network e) = ''network error: '' @ e"
| "error_text (Tls e) = ''tls error: '' @ e"
| "error_text (Smtp e _) = ''smtp error: '' @ e"
| "error_text (Address e) = ''address error: '' @ e"
| "error_text (Lettre e) = ''message build error: '' @ e"
| "error_text (Io e) = ''io error: '' @ e"

definition is_broken :: "('s, 'z) imap_session_scheme \<Rightarrow> bool" where
  "is_broken s \<longleftrightarrow> broken s \<noteq> None"

definition session_fail :: "store_error \<Rightarrow> (('s, 'z) imap_session_scheme, 'a) io" where
  "session_fail e s =
     (Inl e, s\<lparr>broken := (if broken s = None then Some (error_text e) else broken s)\<rparr>)"

definition tag_of :: "nat \<Rightarrow> string" where
  "tag_of n =
     (let d = string_of_nat n in ''A'' @ replicate (4 - length d) CHR ''0'' @ d)"

definition next_tag :: "(('s, 'z) imap_session_scheme, string) io" where
  "next_tag s = (Inr (tag_of (tag_counter s + 1)), s\<lparr>tag_counter := tag_counter s + 1\<rparr>)"

definition timed_out :: "string \<Rightarrow> store_error" where
  "timed_out tag = Network (''timed out waiting for server reply to '' @ tag)"

text \<open>The events a command waits through; when no more come the last read times out.\<close>

fun await_reply ::
  "string \<Rightarrow> int \<Rightarrow> timed_event list \<Rightarrow> imap_data list \<Rightarrow> response_code option list
    \<Rightarrow> (('s, 'z) imap_session_scheme, command_result) io" where
  "await_reply tag started [] dat codes = session_fail (timed_out tag)"
| "await_reply tag started ((now, wait, ev) # evs) dat codes =
     (case read_budget started now of
        None \<Rightarrow> session_fail (Network (tag @ '' took longer than 600s overall''))
      | Some budget \<Rightarrow>
          if budget < wait then session_fail (timed_out tag)
          else
            (case ev of
               Stream_Error e \<Rightarrow> session_fail (Network (''stream error: '' @ e))
             | Command_Rejected \<Rightarrow> lift_io (Inl (Network ''command rejected''))
             | Data_Received d \<Rightarrow> await_reply tag started evs (dat @ [d]) codes
             | Tagged t kind txt c \<Rightarrow>
                 if t = tag then
                   (if kind = Ok_Kind
                    then ret_io \<lparr>cr_data = dat, cr_codes = codes @ [c]\<rparr>
                    else lift_io (Inl (Network (''server returned '' @
                           (if kind = No_Kind then ''No'' else ''Bad'') @ '': '' @ txt))))
                 else await_reply tag started evs dat codes
             | Untagged c \<Rightarrow> await_reply tag started evs dat (codes @ [c])
             | Bye txt \<Rightarrow> session_fail (Network (''server sent BYE during '' @ tag @ '': '' @ txt))
             | Other_Event \<Rightarrow> await_reply tag started evs dat codes))"

type_synonym 's peer = "string \<Rightarrow> imap_command \<Rightarrow> 's \<Rightarrow> int \<times> timed_event list \<times> 's"

definition execute ::
  "'s peer \<Rightarrow> imap_command \<Rightarrow> (('s, 'z) imap_session_scheme, command_result) io" where
  "execute srv cmd s =
     (case broken s of
        Some why \<Rightarrow> (Inl (Network (''connection unusable after an earlier failure: '' @ why)), s)
      | None \<Rightarrow>
          bind_io next_tag (\<lambda>tag s1.
            (case srv tag cmd (conn s1) of
               (started, evs, c) \<Rightarrow> await_reply tag started evs [] [] (s1\<lparr>conn := c\<rparr>))) s)"

definition has_capability :: "('s, 'z) imap_session_scheme \<Rightarrow> string \<Rightarrow> bool" where
  "has_capability s cap \<longleftrightarrow> list_ex (\<lambda>c. eq_ignore_ascii_case c cap) (capabilities s)"

subsection \<open>UID sets\<close>

definition FETCH_CHUNK :: nat where
  "FETCH_CHUNK = 100"

fun vanished_range :: "sequence \<Rightarrow> (nat \<times> nat) option" where
  "vanished_range (Single (Value v)) = Some (v, v)"
| "vanished_range (Range (Value a) (Value b)) = Some (min a b, max a b)"
| "vanished_range _ = None"

definition vanished_ranges :: "sequence list \<Rightarrow> (nat \<times> nat) list" where
  "vanished_ranges sq = List.map_filter vanished_range sq"

text \<open>A sequence set holds at least one number, none of them 0.\<close>

definition uids_to_sequence_set :: "nat list \<Rightarrow> nat list result" where
  "uids_to_sequence_set uids =
     (let clean = clean_uids uids in
      if clean = [] \<or> 0 \<in> set clean then Inl (InvalidInput ''invalid sequence set'') else Inr clean)"

text \<open>The encoded name is printable ASCII, which \<open>Mailbox::try_from\<close> takes.\<close>

definition mailbox_for_wire :: "string \<Rightarrow> string result" where
  "mailbox_for_wire path = Inr (encode_modified_utf7 path)"

subsection \<open>Reading a mailbox\<close>

record select_result =
  sr_exists :: nat
  sr_uid_validity :: "nat option"
  sr_uid_next :: "nat option"
  sr_highest_modseq :: "nat option"
  sr_vanished :: "(nat \<times> nat) list"

definition select_command ::
  "('s, 'z) imap_session_scheme \<Rightarrow> string \<Rightarrow> (nat \<times> nat) option \<Rightarrow> imap_command \<times> bool" where
  "select_command s mailbox qresync =
     (if qresync_enabled s \<and> (case qresync of Some (_, m) \<Rightarrow> 0 < m | None \<Rightarrow> False) then
        (case qresync of
           Some (v, m) \<Rightarrow>
             if v \<noteq> 0 \<and> m \<noteq> 0 then (Select mailbox (QResync v m), True)
             else (Select mailbox CondStore, True)
         | None \<Rightarrow> (Select mailbox Plain, False))
      else if condstore_enabled s then (Select mailbox CondStore, True)
      else (Select mailbox Plain, False))"

fun note_data :: "imap_data \<Rightarrow> select_result \<Rightarrow> select_result" where
  "note_data (Exists n) r = r\<lparr>sr_exists := n\<rparr>"
| "note_data (Vanished uids) r = r\<lparr>sr_vanished := sr_vanished r @ vanished_ranges uids\<rparr>"
| "note_data _ r = r"

fun note_code :: "response_code option \<Rightarrow> select_result \<Rightarrow> select_result" where
  "note_code (Some (UidValidity v)) r = r\<lparr>sr_uid_validity := Some v\<rparr>"
| "note_code (Some (UidNext n)) r = r\<lparr>sr_uid_next := Some n\<rparr>"
| "note_code (Some (HighestModSeq m)) r = r\<lparr>sr_highest_modseq := Some m\<rparr>"
| "note_code _ r = r"

definition select_outcome :: "command_result \<Rightarrow> select_result" where
  "select_outcome res =
     fold note_code (cr_codes res)
       (fold note_data (cr_data res)
          \<lparr>sr_exists = 0, sr_uid_validity = None, sr_uid_next = None, sr_highest_modseq = None,
           sr_vanished = []\<rparr>)"

text \<open>
  A command with an extension, and what is done when the server refuses it: the extension goes off
  (\<open>off\<close>) and the plain command is sent. A broken connection earns no fallback.
\<close>

definition with_fallback ::
  "'s peer \<Rightarrow> imap_command \<times> bool \<Rightarrow> imap_command
    \<Rightarrow> (('s, 'z) imap_session_scheme \<Rightarrow> ('s, 'z) imap_session_scheme)
    \<Rightarrow> (('s, 'z) imap_session_scheme, command_result) io" where
  "with_fallback srv cmd plain off =
     bind_io (try_io (execute srv (fst cmd))) (\<lambda>r s.
       (case r of
          Inr res \<Rightarrow> (Inr res, s)
        | Inl e \<Rightarrow> if snd cmd \<and> \<not> is_broken s then execute srv plain (off s) else (Inl e, s)))"

definition session_select ::
  "'s peer \<Rightarrow> string \<Rightarrow> (nat \<times> nat) option \<Rightarrow> (('s, 'z) imap_session_scheme, select_result) io" where
  "session_select srv path qresync =
     bind_io (lift_io (mailbox_for_wire path)) (\<lambda>mailbox s.
       bind_io (with_fallback srv (select_command s mailbox qresync) (Select mailbox Plain)
           (\<lambda>s. s\<lparr>condstore_enabled := False, qresync_enabled := False\<rparr>))
         (\<lambda>res. ret_io (select_outcome res)) s)"

record fetched =
  ft_uid :: nat
  ft_flags :: "imap_flag list"
  ft_modseq :: "nat option"
  ft_raw :: string

fun note_item :: "fetch_item \<Rightarrow> fetched \<Rightarrow> fetched" where
  "note_item (Uid_Item u) f = f\<lparr>ft_uid := u\<rparr>"
| "note_item (Flags_Item fs) f = f\<lparr>ft_flags := ft_flags f @ fs\<rparr>"
| "note_item (ModSeq_Item m) f = f\<lparr>ft_modseq := Some m\<rparr>"
| "note_item (Body_Item b) f = f\<lparr>ft_raw := (case b of Some r \<Rightarrow> r | None \<Rightarrow> ft_raw f)\<rparr>"
| "note_item (Rfc822_Item b) f = f\<lparr>ft_raw := (case b of Some r \<Rightarrow> r | None \<Rightarrow> ft_raw f)\<rparr>"
| "note_item Other_Item f = f"

fun fetch_of :: "imap_data \<Rightarrow> fetched option" where
  "fetch_of (Fetch items) =
     (let f = fold note_item items \<lparr>ft_uid = 0, ft_flags = [], ft_modseq = None, ft_raw = []\<rparr>
      in if 0 < ft_uid f then Some f else None)"
| "fetch_of _ = None"

definition fetched_of :: "command_result \<Rightarrow> fetched list" where
  "fetched_of res = List.map_filter fetch_of (cr_data res)"

definition uid_fetch_flags_changesince ::
  "'s peer \<Rightarrow> nat list \<Rightarrow> nat \<Rightarrow> (('s, 'z) imap_session_scheme, fetched list) io" where
  "uid_fetch_flags_changesince srv uids modseq =
     (if uids = [] then ret_io []
      else
        bind_io (lift_io (uids_to_sequence_set uids)) (\<lambda>sq s.
          let since = condstore_enabled s \<and> 0 < modseq in
          bind_io (with_fallback srv (Fetch_Flags sq (if since then Some modseq else None), since)
              (Fetch_Flags sq None) (\<lambda>s. s\<lparr>condstore_enabled := False\<rparr>))
            (\<lambda>res. ret_io (fetched_of res)) s))"

definition uid_fetch_messages ::
  "'s peer \<Rightarrow> nat list \<Rightarrow> (('s, 'z) imap_session_scheme, fetched list) io" where
  "uid_fetch_messages srv uids =
     (if uids = [] then ret_io []
      else
        bind_io (lift_io (uids_to_sequence_set uids)) (\<lambda>sq.
        bind_io (execute srv (Fetch_Full sq)) (\<lambda>res. ret_io (fetched_of res))))"

fun search_uids :: "imap_data \<Rightarrow> nat list" where
  "search_uids (Search_Data us) = us"
| "search_uids _ = []"

definition uid_search ::
  "'s peer \<Rightarrow> search_key list \<Rightarrow> (('s, 'z) imap_session_scheme, nat list) io" where
  "uid_search srv criteria =
     bind_io (execute srv (Search criteria)) (\<lambda>res. ret_io (concat (map search_uids (cr_data res))))"

subsection \<open>Changing a mailbox\<close>

definition uid_store_flags ::
  "'s peer \<Rightarrow> nat list \<Rightarrow> bool \<Rightarrow> imap_flag list \<Rightarrow> (('s, 'z) imap_session_scheme, unit) io" where
  "uid_store_flags srv uids add flags =
     (if uids = [] then ret_io ()
      else
        bind_io (lift_io (uids_to_sequence_set uids)) (\<lambda>sq.
        bind_io (execute srv (Store sq add flags)) (\<lambda>_. ret_io ())))"

definition uid_copy :: "'s peer \<Rightarrow> nat list \<Rightarrow> string \<Rightarrow> (('s, 'z) imap_session_scheme, unit) io" where
  "uid_copy srv uids dest =
     (if uids = [] then ret_io ()
      else
        bind_io (lift_io (uids_to_sequence_set uids)) (\<lambda>sq.
        bind_io (lift_io (mailbox_for_wire dest)) (\<lambda>mailbox.
        bind_io (execute srv (Copy sq mailbox)) (\<lambda>_. ret_io ()))))"

definition session_expunge :: "'s peer \<Rightarrow> (('s, 'z) imap_session_scheme, unit) io" where
  "session_expunge srv = bind_io (execute srv Expunge) (\<lambda>_. ret_io ())"

definition expunge_only :: "'s peer \<Rightarrow> nat list \<Rightarrow> (('s, 'z) imap_session_scheme, unit) io" where
  "expunge_only srv uids =
     bind_io (uid_search srv [Deleted_Key]) (\<lambda>found.
       let others = length (filter (\<lambda>u. u \<notin> set uids) found) in
       if 0 < others
       then lift_io (Inl (Network (''not expunged: '' @ string_of_nat others @
              '' other message(s) in this folder are marked deleted, and the server cannot expunge by UID'')))
       else session_expunge srv)"

definition uid_expunge :: "'s peer \<Rightarrow> nat list \<Rightarrow> (('s, 'z) imap_session_scheme, unit) io" where
  "uid_expunge srv uids =
     (if uids = [] then ret_io ()
      else
        bind_io (get_io (\<lambda>s. has_capability s ''uidplus'')) (\<lambda>uidplus.
        if \<not> uidplus then expunge_only srv uids
        else
          bind_io (lift_io (uids_to_sequence_set uids)) (\<lambda>sq.
          bind_io (try_io (execute srv (ExpungeUid sq))) (\<lambda>r s.
            (case r of
               Inr _ \<Rightarrow> (Inr (), s)
             | Inl e \<Rightarrow> if is_broken s then (Inl e, s) else expunge_only srv uids s)))))"

definition copy_then_remove ::
  "'s peer \<Rightarrow> nat list \<Rightarrow> nat list \<Rightarrow> string \<Rightarrow> (('s, 'z) imap_session_scheme, unit) io" where
  "copy_then_remove srv uids sq mailbox =
     bind_io (execute srv (Copy sq mailbox)) (\<lambda>_.
     bind_io (try_io (bind_io (uid_store_flags srv uids True [Deleted]) (\<lambda>_. uid_expunge srv uids))) (\<lambda>_.
     ret_io ()))"

definition uid_move :: "'s peer \<Rightarrow> nat list \<Rightarrow> string \<Rightarrow> (('s, 'z) imap_session_scheme, unit) io" where
  "uid_move srv uids dest =
     (if uids = [] then ret_io ()
      else
        bind_io (get_io (\<lambda>s. has_capability s ''move'')) (\<lambda>has_move.
        bind_io (lift_io (uids_to_sequence_set uids)) (\<lambda>sq.
        bind_io (lift_io (mailbox_for_wire dest)) (\<lambda>mailbox.
          if has_move then
            bind_io (try_io (execute srv (Move sq mailbox))) (\<lambda>r s.
              (case r of
                 Inr _ \<Rightarrow> (Inr (), s)
               | Inl e \<Rightarrow> if is_broken s then (Inl e, s) else copy_then_remove srv uids sq mailbox s))
          else copy_then_remove srv uids sq mailbox))))"

definition session_append ::
  "'s peer \<Rightarrow> string \<Rightarrow> string \<Rightarrow> imap_flag list \<Rightarrow> (('s, 'z) imap_session_scheme, unit) io" where
  "session_append srv folder raw flags =
     bind_io (lift_io (mailbox_for_wire folder)) (\<lambda>mailbox.
     bind_io (execute srv (Append mailbox flags raw)) (\<lambda>_. ret_io ()))"

definition create_folder :: "'s peer \<Rightarrow> string \<Rightarrow> (('s, 'z) imap_session_scheme, unit) io" where
  "create_folder srv folder =
     bind_io (lift_io (mailbox_for_wire folder)) (\<lambda>mailbox.
     bind_io (execute srv (Create mailbox)) (\<lambda>_. ret_io ()))"

subsection \<open>What the server has\<close>

record discovered_folder =
  df_name :: string
  df_delimiter :: string
  df_attributes :: "string list"

text \<open>\<open>INBOX\<close> is a mailbox kind of its own (\<open>None\<close>); every other name comes in modified UTF-7.\<close>

definition discovered :: "string list \<Rightarrow> string option \<Rightarrow> string option \<Rightarrow> discovered_folder" where
  "discovered attrs delimiter mailbox =
     \<lparr>df_name = (case mailbox of None \<Rightarrow> ''INBOX'' | Some n \<Rightarrow> decode_modified_utf7 n),
      df_delimiter = (case delimiter of None \<Rightarrow> ''/'' | Some d \<Rightarrow> d),
      df_attributes = attrs\<rparr>"

fun listed_of :: "imap_data \<Rightarrow> discovered_folder option" where
  "listed_of (List_Data attrs delimiter mailbox) = Some (discovered attrs delimiter mailbox)"
| "listed_of _ = None"

fun lsub_of :: "imap_data \<Rightarrow> discovered_folder option" where
  "lsub_of (Lsub_Data attrs delimiter mailbox) = Some (discovered attrs delimiter mailbox)"
| "lsub_of _ = None"

definition session_list ::
  "'s peer \<Rightarrow> string \<Rightarrow> string \<Rightarrow> (('s, 'z) imap_session_scheme, discovered_folder list) io" where
  "session_list srv reference pattern =
     bind_io (execute srv (List_Command reference pattern)) (\<lambda>res.
     ret_io (List.map_filter listed_of (cr_data res)))"

definition session_lsub ::
  "'s peer \<Rightarrow> string \<Rightarrow> string \<Rightarrow> (('s, 'z) imap_session_scheme, discovered_folder list) io" where
  "session_lsub srv reference pattern =
     bind_io (execute srv (Lsub reference pattern)) (\<lambda>res.
     ret_io (List.map_filter lsub_of (cr_data res)))"

fun namespaces_of :: "imap_data \<Rightarrow> string list \<times> string list \<times> string list" where
  "namespaces_of (Namespace_Data p q r) = (p, q, r)"
| "namespaces_of _ = ([], [], [])"

definition session_namespace ::
  "'s peer \<Rightarrow> (('s, 'z) imap_session_scheme, string list \<times> string list \<times> string list) io" where
  "session_namespace srv =
     bind_io (try_io (execute srv Namespace)) (\<lambda>r.
       (case r of
          Inl _ \<Rightarrow> ret_io ([], [], [])
        | Inr res \<Rightarrow>
            let ns = map namespaces_of (cr_data res)
            in ret_io (concat (map fst ns), concat (map (\<lambda>n. fst (snd n)) ns), concat (map (\<lambda>n. snd (snd n)) ns))))"

definition session_noop :: "'s peer \<Rightarrow> (('s, 'z) imap_session_scheme, unit) io" where
  "session_noop srv = bind_io (execute srv Noop) (\<lambda>_. ret_io ())"

definition session_login :: "'s peer \<Rightarrow> string \<Rightarrow> string \<Rightarrow> (('s, 'z) imap_session_scheme, unit) io" where
  "session_login srv user pass = bind_io (execute srv (Login user pass)) (\<lambda>_. ret_io ())"

fun capability_data :: "imap_data \<Rightarrow> string list" where
  "capability_data (Capability_Data cs) = cs"
| "capability_data _ = []"

fun capability_code :: "response_code option \<Rightarrow> string list" where
  "capability_code (Some (Capability_Code cs)) = cs"
| "capability_code _ = []"

definition session_capability :: "'s peer \<Rightarrow> (('s, 'z) imap_session_scheme, string list) io" where
  "session_capability srv =
     bind_io (execute srv Capability) (\<lambda>res s.
       let caps = remdups_adj (sort (concat (map capability_data (cr_data res))
                    @ concat (map capability_code (cr_codes res))))
       in (Inr caps, s\<lparr>capabilities := caps\<rparr>))"

fun enabled_data :: "imap_data \<Rightarrow> string list" where
  "enabled_data (Enabled_Data cs) = map ascii_lowercase cs"
| "enabled_data _ = []"

definition enable_extensions :: "'s peer \<Rightarrow> (('s, 'z) imap_session_scheme, unit) io" where
  "enable_extensions srv s =
     (let has_enable = has_capability s ''enable'';
          has_condstore = has_capability s ''condstore'';
          has_qresync = has_capability s ''qresync'' in
      if \<not> has_condstore \<and> \<not> has_qresync then (Inr (), s)
      else
        let caps = (if has_condstore then [''CONDSTORE''] else []) @ (if has_qresync then [''QRESYNC''] else []);
            s1 = (if has_enable then
                    (case execute srv (Enable caps) s of
                       (Inl _, s') \<Rightarrow> s'
                     | (Inr res, s') \<Rightarrow>
                         let on = concat (map enabled_data (cr_data res)) in
                         s'\<lparr>condstore_enabled := condstore_enabled s' \<or> ''condstore'' \<in> set on,
                            qresync_enabled := qresync_enabled s' \<or> ''qresync'' \<in> set on\<rparr>)
                  else s)
        in (Inr (), if has_condstore \<and> \<not> condstore_enabled s1 then s1\<lparr>condstore_enabled := True\<rparr> else s1))"

end
