(* ===== verification/Imap_Folders.thy ===== *)
theory Imap_Folders
  imports Imap_Session Mail_Store_Facts Settings
begin

text \<open>
  Folder roles, paths and discovery (\<open>sync/imap/roles.rs\<close>, \<open>sync/imap/folders.rs\<close>), and the state
  the sync engine works on. Attributes are their wire text; Rust's Unicode lower-casing is the
  parameter \<open>lower\<close>. The log lines are left out.
\<close>

subsection \<open>Roles\<close>

definition attr_text :: "string list \<Rightarrow> string" where
  "attr_text attributes = ascii_lowercase (join [CHR 0x20] attributes)"

definition is_selectable :: "string list \<Rightarrow> bool" where
  "is_selectable attributes \<longleftrightarrow>
     \<not> list_ex (\<lambda>a. eq_ignore_ascii_case a (CHR 0x5C # ''noselect'')
                 \<or> eq_ignore_ascii_case a (CHR 0x5C # ''nonexistent'')) attributes"

definition leaf_of :: "string \<Rightarrow> string" where
  "leaf_of s = rev (takeWhile (\<lambda>c. c \<notin> {CHR ''/'', CHR ''.'', CHR 0x5C}) (rev s))"

definition role_from_name :: "(string \<Rightarrow> string) \<Rightarrow> string \<Rightarrow> folder_role" where
  "role_from_name lower name =
     (let leaf = trim (leaf_of (lower name)) in
      if leaf = ''inbox'' then Inbox
      else if leaf \<in> {''sent'', ''sent mail'', ''sent-mail'', ''sent items'', ''sent messages'',
          ''gesendet'', ''gesendete elemente'', ''gesendete objekte''} then Sent
      else if leaf \<in> {''draft'', ''drafts'', ''entwurf'', ''entw'' @ [CHR 0xC3, CHR 0xBC] @ ''rfe'',
          ''entwurfe'', ''entwuerfe''} then Drafts
      else if leaf \<in> {''trash'', ''deleted'', ''deleted items'', ''deleted messages'', ''papierkorb'',
          ''gel'' @ [CHR 0xC3, CHR 0xB6] @ ''scht'', ''geloscht'',
          ''gel'' @ [CHR 0xC3, CHR 0xB6] @ ''schte elemente'', ''geloeschte elemente'', ''bin''} then Trash
      else if leaf \<in> {''junk'', ''junk mail'', ''junk e-mail'', ''junk email'', ''junk-e-mail'', ''spam'',
          ''bulk mail'', ''unerw'' @ [CHR 0xC3, CHR 0xBC] @ ''nscht''} then Junk
      else if leaf \<in> {''archive'', ''archiv''} then Archive
      else Custom)"

definition map_folder_role :: "(string \<Rightarrow> string) \<Rightarrow> string list \<Rightarrow> string \<Rightarrow> folder_role" where
  "map_folder_role lower attributes name =
     (let attrs = attr_text attributes in
      if contains_sub attrs ''sent'' then Sent
      else if contains_sub attrs ''draft'' then Drafts
      else if contains_sub attrs ''trash'' then Trash
      else if contains_sub attrs ''junk'' \<or> contains_sub attrs ''spam'' then Junk
      else if contains_sub attrs ''archive'' then Archive
      else role_from_name lower name)"

subsection \<open>Paths\<close>

definition is_already_exists :: "store_error \<Rightarrow> bool" where
  "is_already_exists e =
     (let msg = ascii_lowercase (error_text e) in
      contains_sub msg ''already exists'' \<or> contains_sub msg ''alreadyexists'' \<or> contains_sub msg ''exists'')"

text \<open>\<open>str::split\<close> by a string; the empty pattern also splits at both ends.\<close>

function split_sub :: "string \<Rightarrow> string \<Rightarrow> string list" where
  "split_sub d s =
     (if d = [] then [] # map (\<lambda>c. [c]) s @ [[]]
      else (case find_sub d s of
              None \<Rightarrow> [s]
            | Some i \<Rightarrow> take i s # split_sub d (drop (i + length d) s)))"
  by pat_completeness auto
termination
proof (relation "measure (\<lambda>(d, s). length s)")
  fix d s i
  assume d: "d \<noteq> []" and "find_sub d s = Some i"
  then obtain a b where "s = a @ d @ b" "length a = i" using find_sub_Some by blast
  with d show "((d, drop (i + length d) s), (d, s)) \<in> measure (\<lambda>(d, s). length s)" by simp
qed simp

declare split_sub.simps [simp del]

definition is_control :: "nat \<Rightarrow> bool" where
  "is_control c \<longleftrightarrow> c < 32 \<or> (127 \<le> c \<and> c < 160)"

definition normalize_folder_path :: "string \<Rightarrow> string \<Rightarrow> string result" where
  "normalize_folder_path input delimiter =
     (let trimmed = trim input in
      if trimmed = [] then Inl (InvalidInput ''folder name is empty'')
      else if contains_char trimmed CHR ''*'' \<or> contains_char trimmed CHR ''%''
      then Inl (InvalidInput ''folder names may not contain * or %'')
      else
        let unified = (if delimiter \<noteq> ''/'' then replace_all ''/'' delimiter trimmed else trimmed);
            segments = map trim (split_sub delimiter unified)
        in if list_ex (\<lambda>s. s = []) segments
           then Inl (InvalidInput ''folder names may not be empty or contain empty levels'')
           else if list_ex (\<lambda>s. list_ex is_control (chars_of s)) segments
           then Inl (InvalidInput ''folder names may not contain control characters'')
           else Inr (join delimiter segments))"

subsection \<open>The engine's state\<close>

text \<open>
  \<open>ImapSync\<close> and the database behind it: the session, whether there is one, the accounts'
  ids, the cache and the settings.
\<close>

record 's world = "'s imap_session" +
  w_connected :: bool
  w_accounts :: "int list"
  w_mail :: mail_db
  w_settings :: settings_db

definition session_ready :: "('s world, unit) io" where
  "session_ready w =
     (if w_connected w then (Inr (), w) else (Inl (Network ''session disconnected''), w))"

definition db_io :: "(mail_db \<Rightarrow> 'a result \<times> mail_db) \<Rightarrow> ('s world, 'a) io" where
  "db_io f w = (case f (w_mail w) of (r, d) \<Rightarrow> (r, w\<lparr>w_mail := d\<rparr>))"

definition db_get :: "(mail_db \<Rightarrow> 'a result) \<Rightarrow> ('s world, 'a) io" where
  "db_get f w = (f (w_mail w), w)"

text \<open>An operation that cannot fail in the model.\<close>

definition db_do :: "(mail_db \<Rightarrow> 'a \<times> mail_db) \<Rightarrow> ('s world, 'a) io" where
  "db_do f = db_io (\<lambda>d. case f d of (x, d') \<Rightarrow> (Inr x, d'))"

definition account_get :: "int \<Rightarrow> ('s world, unit) io" where
  "account_get i w =
     (if i \<in> set (w_accounts w) then (Inr (), w)
      else (Inl (NotFound (''account '' @ string_of_int i)), w))"

subsection \<open>Discovery\<close>

definition FULL_DISCOVERY_INTERVAL_SECS :: int where
  "FULL_DISCOVERY_INTERVAL_SECS = 2 * 3600"

definition full_discovery_due :: "string list \<Rightarrow> string list \<Rightarrow> int option \<Rightarrow> int \<Rightarrow> bool" where
  "full_discovery_due cached_paths quick_paths last_full now =
     (if set cached_paths \<noteq> set quick_paths then True
      else (case last_full of
              None \<Rightarrow> True
            | Some t \<Rightarrow> FULL_DISCOVERY_INTERVAL_SECS \<le> max i64_min (min i64_max (now - t))))"

type_synonym found_folder = "string \<times> string \<times> folder_role"

definition note_folder :: "string \<Rightarrow> string \<Rightarrow> folder_role \<Rightarrow> found_folder list \<Rightarrow> found_folder list" where
  "note_folder name delimiter role found =
     (if name \<in> fst ` set found then found else found @ [(name, delimiter, role)])"

definition note_folders ::
  "(discovered_folder \<Rightarrow> folder_role) \<Rightarrow> discovered_folder list \<Rightarrow> found_folder list \<Rightarrow> found_folder list" where
  "note_folders role names found =
     fold (\<lambda>n found. if is_selectable (df_attributes n)
                     then note_folder (df_name n) (df_delimiter n) (role n) found else found) names found"

definition listed_role :: "(string \<Rightarrow> string) \<Rightarrow> discovered_folder \<Rightarrow> folder_role" where
  "listed_role lower n = map_folder_role lower (df_attributes n) (df_name n)"

text \<open>An auxiliary pass adds what it can; its error is logged and dropped.\<close>

definition auxiliary ::
  "('s world, 'a) io \<Rightarrow> ('a \<Rightarrow> found_folder list \<Rightarrow> ('s world, found_folder list) io)
    \<Rightarrow> found_folder list \<Rightarrow> ('s world, found_folder list) io" where
  "auxiliary ask use found =
     bind_io (try_io ask) (\<lambda>r. case r of Inl _ \<Rightarrow> ret_io found | Inr x \<Rightarrow> use x found)"

definition subtree_patterns :: "discovered_folder \<Rightarrow> string list" where
  "subtree_patterns root =
     (let base = df_name root; delim = df_delimiter root;
          pattern = (\<lambda>d. if ends_with base d then base @ ''*'' else base @ d @ ''*'')
      in pattern delim # (if delim \<noteq> ''.'' then [pattern ''.''] else []))"

definition list_under ::
  "'s peer \<Rightarrow> (string \<Rightarrow> string) \<Rightarrow> string \<Rightarrow> string \<Rightarrow> found_folder list
    \<Rightarrow> ('s world, found_folder list) io" where
  "list_under srv lower reference pattern =
     auxiliary (session_list srv reference pattern)
       (\<lambda>names found. ret_io (note_folders (listed_role lower) names found))"

definition upsert_discovered :: "int \<Rightarrow> found_folder list \<Rightarrow> ('s world, folder list) io" where
  "upsert_discovered account_id found =
     fold_io (\<lambda>(path, delimiter, role) out.
         bind_io (db_do (folder_upsert account_id path delimiter role)) (\<lambda>i.
         bind_io (db_get (folder_get i)) (\<lambda>f. ret_io (out @ [f])))) found []"

definition discover_folders ::
  "'s peer \<Rightarrow> (string \<Rightarrow> string) \<Rightarrow> int \<Rightarrow> int \<Rightarrow> ('s world, folder list) io" where
  "discover_folders srv lower now account_id =
     bind_io (session_list srv [] ''*'') (\<lambda>names.
     bind_io (auxiliary (session_lsub srv [] ''*'')
         (\<lambda>subs found. ret_io (note_folders (\<lambda>n. role_from_name lower (df_name n)) subs found))
         (note_folders (listed_role lower) names [])) (\<lambda>found.
     bind_io (auxiliary (session_list srv [] ''%'')
         (\<lambda>roots found. fold_io (list_under srv lower [])
             (concat (map subtree_patterns (filter (\<lambda>r. df_name r \<noteq> []) (take 64 roots)))) found) found) (\<lambda>found.
     bind_io (auxiliary (session_namespace srv)
         (\<lambda>(personal, other, shared) found.
             fold_io (\<lambda>prefix. list_under srv lower prefix ''*'')
               (take 12 (filter (\<lambda>p. p \<noteq> []) (personal @ other @ shared))) found) found) (\<lambda>found.
     bind_io (upsert_discovered account_id found) (\<lambda>out.
     bind_io (modify_io (\<lambda>w. w\<lparr>w_settings := set_last_full_discovery account_id now (w_settings w)\<rparr>)) (\<lambda>_.
     ret_io out))))))"

definition discover_folders_quick ::
  "'s peer \<Rightarrow> (string \<Rightarrow> string) \<Rightarrow> int \<Rightarrow> ('s world, folder list) io" where
  "discover_folders_quick srv lower account_id =
     bind_io (session_list srv [] ''*'') (\<lambda>names.
     upsert_discovered account_id (note_folders (listed_role lower) names []))"

text \<open>\<open>db_get\<close> answers from the database as it is.\<close>

lemma db_get_is: "bind_io (db_get g) k w = (case g (w_mail w) of Inl e \<Rightarrow> (Inl e, w) | Inr x \<Rightarrow> k x w)"
  by (simp add: bind_io_def db_get_def split: sum.split)

end
