(* ===== verification/Imap_Parse.thy ===== *)
theory Imap_Parse
  imports Imap_Session Mail_Store_Facts Account_Settings
begin

text \<open>
  From a fetched message to a row (\<open>sync/imap/parse.rs\<close>). The MIME parser (mail-parser) is a
  parameter: \<open>parsed_mail\<close> holds what its accessors return for one message. Which content ids a body
  shows (\<open>html::BodyImages\<close>) is a parameter as well. Attachment rows are not part of the cache model;
  of \<open>extract_attachments\<close> only the parts it lists and their inline mark are kept.
\<close>

definition flag_state :: "imap_flag list \<Rightarrow> bool \<times> bool \<times> bool" where
  "flag_state flags =
     fold (\<lambda>f (read, starred, draft).
         case f of
           Seen \<Rightarrow> (True, starred, draft)
         | Flagged \<Rightarrow> (read, True, draft)
         | Draft \<Rightarrow> (read, starred, True)
         | _ \<Rightarrow> (read, starred, draft)) flags (False, False, False)"

lemma flag_state_mem: "flag_state flags = (Seen \<in> set flags, Flagged \<in> set flags, Draft \<in> set flags)"
proof -
  have "fold (\<lambda>f (read, starred, draft).
         case f of
           Seen \<Rightarrow> (True, starred, draft)
         | Flagged \<Rightarrow> (read, True, draft)
         | Draft \<Rightarrow> (read, starred, True)
         | _ \<Rightarrow> (read, starred, draft)) flags (a, b, c)
      = (a \<or> Seen \<in> set flags, b \<or> Flagged \<in> set flags, c \<or> Draft \<in> set flags)" for a b c
    by (induction flags arbitrary: a b c) (auto split: imap_flag.splits)
  then show ?thesis by (simp add: flag_state_def)
qed

record mail_part =
  mp_len :: nat
  mp_inline_binary :: bool
  mp_content_id :: "string option"

record parsed_mail =
  pm_message_id :: "string option"
  pm_references :: "string option"
  pm_in_reply_to :: "string option"
  pm_subject :: "string option"
  pm_from :: "(string option \<times> string option) list"
  pm_from_text :: "string option"
  pm_to :: "string option list"
  pm_cc :: "string option list"
  pm_bcc :: "string option list"
  pm_reply_to :: "string option list"
  pm_date :: "string option"
  pm_body_text :: "string option"
  pm_html_part :: "(bool \<times> string option) option"
  pm_attachments :: "mail_part list"

definition MAX_ATTACHMENTS_PER_MESSAGE :: nat where
  "MAX_ATTACHMENTS_PER_MESSAGE = 50"

definition MAX_ATTACHMENT_BYTES :: nat where
  "MAX_ATTACHMENT_BYTES = 25 * 1024 * 1024"

definition real_html_body :: "parsed_mail \<Rightarrow> string option" where
  "real_html_body p =
     (case pm_html_part p of
        None \<Rightarrow> None
      | Some (is_html, body) \<Rightarrow> if is_html then body else None)"

text \<open>The inline marks of the parts listed as files (at most 50, none empty, none over 25 MiB).\<close>

definition listed_files :: "(string option \<Rightarrow> string option \<Rightarrow> bool) \<Rightarrow> parsed_mail \<Rightarrow> string option \<Rightarrow> bool list" where
  "listed_files shows p body_html =
     map (\<lambda>part. mp_inline_binary part \<or> shows body_html (mp_content_id part))
       (filter (\<lambda>part. mp_len part \<le> MAX_ATTACHMENT_BYTES \<and> mp_len part \<noteq> 0)
          (take MAX_ATTACHMENTS_PER_MESSAGE (pm_attachments p)))"

definition addr_list :: "string option list \<Rightarrow> string list" where
  "addr_list a = List.map_filter id a"

definition header_end :: "string \<Rightarrow> nat" where
  "header_end raw =
     (case find_sub [CHR 0x0D, CHR 0x0A, CHR 0x0D, CHR 0x0A] raw of
        Some i \<Rightarrow> i
      | None \<Rightarrow> (case find_sub [CHR 0x0A, CHR 0x0A] raw of Some i \<Rightarrow> i | None \<Rightarrow> length raw))"

definition non_empty :: "string option \<Rightarrow> string option" where
  "non_empty s = (case s of Some t \<Rightarrow> if t = [] then None else Some t | None \<Rightarrow> None)"

definition take_chars :: "nat \<Rightarrow> string \<Rightarrow> string" where
  "take_chars n s = utf8 (take n (chars_of s))"

definition parse_to_new ::
  "(string \<Rightarrow> parsed_mail option) \<Rightarrow> (string option \<Rightarrow> string option \<Rightarrow> bool)
    \<Rightarrow> int \<Rightarrow> int \<Rightarrow> nat \<Rightarrow> imap_flag list \<Rightarrow> string \<Rightarrow> new_message result" where
  "parse_to_new parse shows account_id folder_id uid flags raw =
     (case parse raw of
        None \<Rightarrow> Inl (InvalidInput (''cannot parse message uid '' @ string_of_nat uid))
      | Some p \<Rightarrow>
          (let (is_read, is_starred, is_draft) = flag_state flags;
               body_text = pm_body_text p;
               body_html = real_html_body p;
               files = listed_files shows p body_html;
               raw_headers = take (header_end raw) raw
           in Inr \<lparr>m_account_id = account_id, m_folder_id = folder_id, m_uid = uid,
                m_message_id_header = pm_message_id p,
                m_thread_id =
                  (case (case pm_references p of None \<Rightarrow> None
                         | Some t \<Rightarrow> (case split_whitespace t of [] \<Rightarrow> None | ws \<Rightarrow> Some (last ws))) of
                     Some t \<Rightarrow> Some t | None \<Rightarrow> pm_in_reply_to p),
                m_subject = pm_subject p,
                m_from_addr =
                  (case (case pm_from p of [] \<Rightarrow> None | (a, _) # _ \<Rightarrow> a) of
                     Some a \<Rightarrow> Some a | None \<Rightarrow> pm_from_text p),
                m_from_name =
                  (case pm_from p of [] \<Rightarrow> None | (_, n) # _ \<Rightarrow> non_empty (map_option trim n)),
                m_to_addrs = addr_list (pm_to p),
                m_cc_addrs = addr_list (pm_cc p),
                m_bcc_addrs = addr_list (pm_bcc p),
                m_reply_to = (case pm_reply_to p of [] \<Rightarrow> None | a # _ \<Rightarrow> a),
                m_date = pm_date p,
                m_snippet = map_option (\<lambda>t. take_chars 200 (join [CHR 0x20] (split_whitespace t))) body_text,
                m_body_text = body_text,
                m_body_html = body_html,
                m_raw_headers = (if raw_headers = [] then None else Some raw_headers),
                m_is_read = is_read \<or> is_draft,
                m_is_starred = is_starred,
                m_is_draft = is_draft,
                m_has_attachments =
                  list_ex Not files \<or> length files < length (pm_attachments p),
                m_keywords = [],
                m_size = length raw,
                m_downloaded_full = True\<rparr>))"

text \<open>The header block goes to the contact collector unless the folder's mail is noise.\<close>

definition collect_contacts_from_headers ::
  "settings_db \<Rightarrow> int \<Rightarrow> folder_role \<Rightarrow> string option \<Rightarrow> mail_db \<Rightarrow> mail_db" where
  "collect_contacts_from_headers settings account_id role raw_headers db =
     (if \<not> account_get_bool settings account_id COLLECT_SENT_CONTACTS then db
      else if role \<in> {Junk, Trash, Drafts} then db
      else (case raw_headers of
              None \<Rightarrow> db
            | Some headers \<Rightarrow>
                if trim headers = [] then db
                else db\<lparr>db_seen := db_seen db @ [(role, Some headers)]\<rparr>))"

subsection \<open>What the row says of the message\<close>

lemma parse_to_new_fields:
  assumes "parse_to_new parse shows a f uid flags raw = Inr m"
  shows "m_account_id m = a" "m_folder_id m = f" "m_uid m = uid"
    "m_is_read m \<longleftrightarrow> Seen \<in> set flags \<or> Draft \<in> set flags"
    "m_is_starred m \<longleftrightarrow> Flagged \<in> set flags" "m_is_draft m \<longleftrightarrow> Draft \<in> set flags"
  using assms by (auto simp: parse_to_new_def flag_state_mem Let_def split: option.splits)

lemma collect_contacts_rows [simp]:
  "db_messages (collect_contacts_from_headers st a r h db) = db_messages db"
  "db_folders (collect_contacts_from_headers st a r h db) = db_folders db"
  "db_pending (collect_contacts_from_headers st a r h db) = db_pending db"
  "db_next_message (collect_contacts_from_headers st a r h db) = db_next_message db"
  by (auto simp: collect_contacts_from_headers_def split: option.splits)

end
