(* ===== verification/Imap_Sync.thy ===== *)
theory Imap_Sync
  imports Imap_Folders Imap_Parse
begin

text \<open>
  The sync engine (\<open>sync/imap/engine.rs\<close>, \<open>engine/sync.rs\<close>, \<open>engine/mutate.rs\<close>,
  \<open>sync/imap/search.rs\<close>). A \<open>HashSet\<close> of UIDs is a list; where the code walks one the order is
  unspecified and the model takes the list's. Progress reports and logs are left out, as are the
  attachment rows. \<open>env\<close> gathers what the engine is given: the peer, the MIME parser, the body-image
  test, Unicode lower-casing and the clock.
\<close>

record 's env =
  e_srv :: "'s peer"
  e_parse :: "string \<Rightarrow> parsed_mail option"
  e_shows :: "string option \<Rightarrow> string option \<Rightarrow> bool"
  e_lower :: "string \<Rightarrow> string"
  e_now :: instant

definition FULL_SYNC_WINDOW :: nat where
  "FULL_SYNC_WINDOW = 200"

definition QUICK_SYNC_WINDOW :: nat where
  "QUICK_SYNC_WINDOW = 50"

record sync_report =
  rep_fetched :: nat
  rep_expunged :: nat

subsection \<open>Which UIDs to ask about\<close>

definition SEARCH_PAGES :: nat where
  "SEARCH_PAGES = 8"

fun search_pages ::
  "'s peer \<Rightarrow> nat \<Rightarrow> nat \<Rightarrow> nat \<Rightarrow> nat list \<Rightarrow> nat \<Rightarrow> nat \<Rightarrow> nat
    \<Rightarrow> (('s, 'z) imap_session_scheme, nat list \<times> nat) io" where
  "search_pages srv want span 0 found hi lo searched_lo = ret_io (found, searched_lo)"
| "search_pages srv want span (Suc pages) found hi lo searched_lo =
     bind_io (uid_search srv [Uid_Range lo hi]) (\<lambda>uids.
       let found = remdups (found @ uids) in
       if want \<le> length found \<or> lo \<le> 1 then ret_io (found, lo)
       else
         let hi = lo - 1 in
         if hi = 0 then ret_io (found, lo)
         else search_pages srv want span pages found hi (max (hi - (span - 1)) 1) lo)"

definition search_paged ::
  "'s peer \<Rightarrow> nat \<Rightarrow> nat \<Rightarrow> nat \<Rightarrow> (('s, 'z) imap_session_scheme, nat list \<times> nat) io" where
  "search_paged srv hi want span =
     (let span = max span 1
      in search_pages srv want span SEARCH_PAGES [] hi (max (hi - (span - 1)) 1) (max hi 1))"

definition search_recent_uids ::
  "'s peer \<Rightarrow> nat option \<Rightarrow> nat option \<Rightarrow> (('s, 'z) imap_session_scheme, nat list \<times> nat) io" where
  "search_recent_uids srv window uid_next =
     (let all = bind_io (uid_search srv [All_Key]) (\<lambda>uids. ret_io (remdups uids, 1)) in
      case window of
        None \<Rightarrow> all
      | Some n \<Rightarrow>
          let hi = (case uid_next of None \<Rightarrow> 0 | Some u \<Rightarrow> u) - 1 in
          if hi = 0 then all
          else search_paged srv hi n (max (min (n * 8) u32_max) n))"

definition folder_unchanged :: "folder \<Rightarrow> select_result \<Rightarrow> nat \<Rightarrow> nat option \<Rightarrow> bool" where
  "folder_unchanged f mb cached window \<longleftrightarrow>
     (let wanted = (case window of None \<Rightarrow> sr_exists mb | Some n \<Rightarrow> min n (sr_exists mb)) in
      wanted \<le> cached
      \<and> 0 < d_highest_modseq f
      \<and> (case sr_highest_modseq mb of None \<Rightarrow> False | Some m \<Rightarrow> m = d_highest_modseq f)
      \<and> d_uid_next f \<noteq> None
      \<and> sr_uid_next mb = d_uid_next f
      \<and> (case sr_uid_validity mb of None \<Rightarrow> False | Some v \<Rightarrow> Some v = d_uid_validity f)
      \<and> (case d_server_total f of None \<Rightarrow> False | Some t \<Rightarrow> t = sr_exists mb))"

definition newest :: "nat \<Rightarrow> nat list \<Rightarrow> nat list" where
  "newest n uids = (let sorted = sort uids in drop (length sorted - n) sorted)"

subsection \<open>The steps of a window sync\<close>

definition sweep_trash_seen :: "'s env \<Rightarrow> int \<Rightarrow> ('s world, unit) io" where
  "sweep_trash_seen env folder_id =
     bind_io session_ready (\<lambda>_.
     bind_io (get_io (\<lambda>w. list_unread_uids folder_id (w_mail w))) (\<lambda>unread.
       if unread = [] then ret_io ()
       else
         bind_io (try_io (uid_store_flags (e_srv env) unread True [Seen])) (\<lambda>stored.
         bind_io (db_do (set_read_clean_by_uids (e_now env) folder_id unread
             (case stored of Inr _ \<Rightarrow> False | Inl _ \<Rightarrow> True))) (\<lambda>_. ret_io ()))))"

definition in_ranges :: "(nat \<times> nat) list \<Rightarrow> nat \<Rightarrow> bool" where
  "in_ranges ranges u \<longleftrightarrow> list_ex (\<lambda>(lo, hi). lo \<le> u \<and> u \<le> hi) ranges"

definition delete_chunks :: "int \<Rightarrow> nat list \<Rightarrow> nat \<Rightarrow> ('s world, nat) io" where
  "delete_chunks folder_id uids =
     fold_io (\<lambda>chunk n. bind_io (db_do (delete_many_by_uids folder_id chunk)) (\<lambda>k. ret_io (n + k)))
       (chunks FETCH_CHUNK uids)"

definition drop_vanished :: "'s env \<Rightarrow> int \<Rightarrow> (nat \<times> nat) list \<Rightarrow> ('s world, nat) io" where
  "drop_vanished env folder_id vanished =
     (if vanished = [] then ret_io 0
      else
        bind_io (get_io (\<lambda>w. filter (in_ranges vanished) (list_uids folder_id (w_mail w)))) (\<lambda>named.
        bind_io (fold_io (\<lambda>chunk found.
            bind_io (lift_io (uids_to_sequence_set chunk)) (\<lambda>sq.
            bind_io (uid_search (e_srv env) [Uid_Key sq]) (\<lambda>uids. ret_io (found @ uids))))
            (chunks FETCH_CHUNK named) []) (\<lambda>still_there.
        delete_chunks folder_id (filter (\<lambda>u. u \<notin> set still_there) named) 0)))"

definition note_flags :: "'s env \<Rightarrow> folder \<Rightarrow> fetched \<Rightarrow> mail_db \<Rightarrow> mail_db" where
  "note_flags env f ft db =
     (let (read, starred, draft) = flag_state (ft_flags ft);
          read = read \<or> d_role f = Trash
      in set_flags_by_uid (e_now env) (d_account_id f) (d_id f) (ft_uid ft) (read \<or> draft) starred draft db)"

definition refresh_flags :: "'s env \<Rightarrow> folder \<Rightarrow> nat \<Rightarrow> nat list \<Rightarrow> ('s world, unit) io" where
  "refresh_flags env f since uids =
     each_io (\<lambda>chunk.
         bind_io (uid_fetch_flags_changesince (e_srv env) chunk since) (\<lambda>changed.
         modify_io (\<lambda>w. w\<lparr>w_mail := fold (note_flags env f) changed (w_mail w)\<rparr>)))
       (chunks FETCH_CHUNK uids)"

definition store_fetched ::
  "'s env \<Rightarrow> folder \<Rightarrow> (new_message \<Rightarrow> new_message) \<Rightarrow> fetched \<Rightarrow> nat \<Rightarrow> ('s world, nat) io" where
  "store_fetched env f adjust ft n =
     bind_io (lift_io (parse_to_new (e_parse env) (e_shows env) (d_account_id f) (d_id f) (ft_uid ft)
         (ft_flags ft) (ft_raw ft))) (\<lambda>parsed.
     bind_io (db_do (message_upsert (e_now env) (adjust parsed))) (\<lambda>_.
     bind_io (modify_io (\<lambda>w. w\<lparr>w_mail := collect_contacts_from_headers (w_settings w)
         (d_account_id f) (d_role f) (m_raw_headers parsed) (w_mail w)\<rparr>)) (\<lambda>_.
     ret_io (n + 1))))"

definition fetch_missing ::
  "'s env \<Rightarrow> folder \<Rightarrow> (new_message \<Rightarrow> new_message) \<Rightarrow> nat list \<Rightarrow> ('s world, nat) io" where
  "fetch_missing env f adjust missing =
     fold_io (\<lambda>chunk n.
         bind_io (uid_fetch_messages (e_srv env) chunk) (\<lambda>fetched. fold_io (store_fetched env f adjust) fetched n))
       (chunks FETCH_CHUNK missing) 0"

definition expunge_missing :: "int \<Rightarrow> nat list \<Rightarrow> ('s world, nat) io" where
  "expunge_missing folder_id uids =
     fold_io (\<lambda>u n. bind_io (db_do (delete_by_uid folder_id u)) (\<lambda>_. ret_io (n + 1))) uids 0"

definition or_else :: "'a option \<Rightarrow> 'a option \<Rightarrow> 'a option" where
  "or_else a b = (case a of Some x \<Rightarrow> Some x | None \<Rightarrow> b)"

definition or_zero :: "nat option \<Rightarrow> nat" where
  "or_zero a = (case a of Some x \<Rightarrow> x | None \<Rightarrow> 0)"

definition save_state :: "'s env \<Rightarrow> folder \<Rightarrow> select_result \<Rightarrow> nat \<Rightarrow> ('s world, unit) io" where
  "save_state env f mb modseq =
     db_io (set_sync_state (e_now env) (d_id f)
         (or_zero (or_else (sr_uid_validity mb) (d_uid_validity f)))
         (or_zero (or_else (sr_uid_next mb) (d_uid_next f)))
         (sr_exists mb) modseq)"

definition validity_differs :: "folder \<Rightarrow> select_result \<Rightarrow> bool" where
  "validity_differs f mb \<longleftrightarrow>
     (case (sr_uid_validity mb, d_uid_validity f) of (Some v, Some old) \<Rightarrow> old \<noteq> v | _ \<Rightarrow> False)"

text \<open>Steps 2 to 6, once the server has been searched.\<close>

definition sync_searched ::
  "'s env \<Rightarrow> folder \<Rightarrow> select_result \<Rightarrow> nat option \<Rightarrow> bool \<Rightarrow> nat list \<Rightarrow> nat list \<Rightarrow> nat
    \<Rightarrow> nat list \<Rightarrow> nat \<Rightarrow> ('s world, sync_report) io" where
  "sync_searched env f mb window changed old_uids local_uids expunged server_uids search_lo =
     (let in_window = (\<lambda>u. case window of None \<Rightarrow> True | Some n \<Rightarrow> u \<in> set (newest n server_uids));
          is_trash = (d_role f = Trash)
      in
      bind_io (get_io (\<lambda>w. if condstore_enabled w \<and> \<not> changed then d_highest_modseq f else 0)) (\<lambda>flags_since.
      bind_io (refresh_flags env f flags_since
          (filter (\<lambda>u. u \<in> set local_uids \<and> in_window u) server_uids)) (\<lambda>_.
      bind_io (get_io condstore_enabled) (\<lambda>condstore.
      bind_io (if condstore \<and> 0 < d_highest_modseq f
               then refresh_flags env f (d_highest_modseq f) (filter (\<lambda>u. \<not> in_window u) local_uids)
               else ret_io ()) (\<lambda>_.
      bind_io (fetch_missing env f (\<lambda>m. if is_trash then m\<lparr>m_is_read := True\<rparr> else m)
          (sort (filter (\<lambda>u. u \<notin> set local_uids \<and> in_window u) server_uids))) (\<lambda>fetched.
      bind_io (if changed then delete_chunks (d_id f) (filter (\<lambda>u. u \<notin> set server_uids) old_uids) 0
               else ret_io 0) (\<lambda>_.
      bind_io (expunge_missing (d_id f)
          (filter (\<lambda>u. search_lo \<le> u \<and> u \<notin> set server_uids) local_uids)) (\<lambda>gone.
      bind_io (if is_trash then sweep_trash_seen env (d_id f) else ret_io ()) (\<lambda>_.
      bind_io (save_state env f mb
          (or_zero (if changed then sr_highest_modseq mb
                    else or_else (sr_highest_modseq mb) (Some (d_highest_modseq f))))) (\<lambda>_.
      ret_io \<lparr>rep_fetched = fetched, rep_expunged = expunged + gone\<rparr>))))))))))"

definition sync_selected ::
  "'s env \<Rightarrow> folder \<Rightarrow> int \<Rightarrow> nat option \<Rightarrow> select_result \<Rightarrow> ('s world, sync_report) io" where
  "sync_selected env f folder_id window mb =
     (let changed = validity_differs f mb in
      bind_io (get_io (\<lambda>w. if changed then list_uids folder_id (w_mail w) else [])) (\<lambda>old_uids.
      bind_io (drop_vanished env folder_id (sr_vanished mb)) (\<lambda>expunged.
      bind_io (get_io (\<lambda>w. filter (\<lambda>u. \<not> changed \<or> u \<notin> set old_uids) (list_uids folder_id (w_mail w)))) (\<lambda>local_uids.
        if \<not> changed \<and> sr_vanished mb = [] \<and> folder_unchanged f mb (length local_uids) window then
          bind_io (if d_role f = Trash then sweep_trash_seen env folder_id else ret_io ()) (\<lambda>_.
          bind_io (save_state env f mb
              (or_zero (or_else (sr_highest_modseq mb) (Some (d_highest_modseq f))))) (\<lambda>_.
          ret_io \<lparr>rep_fetched = 0, rep_expunged = 0\<rparr>))
        else
          bind_io (search_recent_uids (e_srv env) window (sr_uid_next mb)) (\<lambda>(server_uids, search_lo).
          sync_searched env f mb window changed old_uids local_uids expunged server_uids search_lo)))))"

definition sync_folder_window ::
  "'s env \<Rightarrow> int \<Rightarrow> nat option \<Rightarrow> ('s world, sync_report) io" where
  "sync_folder_window env folder_id window =
     bind_io (db_get (folder_get folder_id)) (\<lambda>f.
     bind_io (account_get (d_account_id f)) (\<lambda>_.
     bind_io session_ready (\<lambda>_.
     bind_io (session_select (e_srv env) (d_path f)
         (map_option (\<lambda>v. (v, d_highest_modseq f)) (d_uid_validity f))) (\<lambda>mb.
     sync_selected env f folder_id window mb))))"

subsection \<open>Older mail\<close>

definition fill_older :: "'s env \<Rightarrow> folder \<Rightarrow> select_result \<Rightarrow> nat \<Rightarrow> nat \<Rightarrow> ('s world, sync_report) io" where
  "fill_older env f mb batch hi =
     bind_io (lift_io (if hi = 0 then Inl (InvalidInput ''seq: 1:0'') else Inr ())) (\<lambda>_.
     bind_io (uid_search (e_srv env) [Uid_Range 1 hi]) (\<lambda>server_uids.
     bind_io (get_io (\<lambda>w. list_uids (d_id f) (w_mail w))) (\<lambda>local_uids.
     bind_io (fetch_missing env f id
         (sort (take batch (filter (\<lambda>u. u \<notin> set local_uids) (rev (sort server_uids)))))) (\<lambda>fetched.
     bind_io (db_io (set_sync_state (e_now env) (d_id f)
         (or_zero (or_else (sr_uid_validity mb) (d_uid_validity f)))
         (or_zero (or_else (d_uid_next f) (sr_uid_next mb)))
         (sr_exists mb) (d_highest_modseq f))) (\<lambda>_.
     ret_io \<lparr>rep_fetched = fetched, rep_expunged = 0\<rparr>)))))"

definition sync_older :: "'s env \<Rightarrow> int \<Rightarrow> nat \<Rightarrow> ('s world, sync_report) io" where
  "sync_older env folder_id batch =
     bind_io (db_get (folder_get folder_id)) (\<lambda>f.
     bind_io (account_get (d_account_id f)) (\<lambda>_.
     bind_io session_ready (\<lambda>_.
     bind_io (session_select (e_srv env) (d_path f) None) (\<lambda>mb.
       if validity_differs f mb then sync_folder_window env folder_id (Some FULL_SYNC_WINDOW)
       else
         bind_io (get_io (\<lambda>w. max_uid folder_id (w_mail w))) (\<lambda>newest_uid.
           case newest_uid of
             None \<Rightarrow> sync_folder_window env folder_id (Some FULL_SYNC_WINDOW)
           | Some hi \<Rightarrow> fill_older env f mb batch hi)))))"

end
