(* ===== verification/Imap_Mutate.thy ===== *)
theory Imap_Mutate
  imports Imap_Sync
begin

text \<open>
  What the user's actions do on the server (\<open>engine/mutate.rs\<close>, and \<open>push_flags\<close> and
  \<open>push_dirty_flags\<close>): flags, deletes, moves, folder creation, and the queue of pending moves.
\<close>

definition sync_folders :: "'s env \<Rightarrow> int \<Rightarrow> ('s world, folder list) io" where
  "sync_folders env account_id =
     bind_io session_ready (\<lambda>_. discover_folders (e_srv env) (e_lower env) (secs (e_now env)) account_id)"

definition sync_folders_quick :: "'s env \<Rightarrow> int \<Rightarrow> ('s world, folder list) io" where
  "sync_folders_quick env account_id =
     bind_io session_ready (\<lambda>_. discover_folders_quick (e_srv env) (e_lower env) account_id)"

subsection \<open>Flags\<close>

definition push_flags :: "'s env \<Rightarrow> message \<Rightarrow> ('s world, unit) io" where
  "push_flags env m =
     bind_io (db_get (folder_get (m_folder_id m))) (\<lambda>f.
     bind_io session_ready (\<lambda>_.
     bind_io (session_select (e_srv env) (d_path f) None) (\<lambda>_.
     bind_io (uid_store_flags (e_srv env) [m_uid m] (m_is_read m) [Seen]) (\<lambda>_.
     uid_store_flags (e_srv env) [m_uid m] (m_is_starred m) [Flagged]))))"

definition push_dirty_flags :: "'s env \<Rightarrow> int \<Rightarrow> ('s world, nat) io" where
  "push_dirty_flags env account_id =
     bind_io (get_io (\<lambda>w. list_flags_dirty account_id (w_mail w))) (\<lambda>dirty.
       fold_io (\<lambda>m pushed.
           bind_io (try_io (push_flags env m)) (\<lambda>r.
             case r of
               Inl _ \<Rightarrow> ret_io pushed
             | Inr _ \<Rightarrow>
                 bind_io (db_do (clear_flags_dirty (m_id m) (m_is_read m) (m_is_starred m))) (\<lambda>_.
                 ret_io (pushed + 1)))) dirty 0)"

subsection \<open>Copies and folders\<close>

definition append_to_folder :: "'s env \<Rightarrow> string \<Rightarrow> string \<Rightarrow> ('s world, unit) io" where
  "append_to_folder env folder_path raw =
     bind_io session_ready (\<lambda>_. session_append (e_srv env) folder_path raw [Seen])"

definition append_draft :: "'s env \<Rightarrow> string \<Rightarrow> string \<Rightarrow> ('s world, unit) io" where
  "append_draft env folder_path raw =
     bind_io session_ready (\<lambda>_. session_append (e_srv env) folder_path raw [Draft])"

definition create_prefix :: "'s env \<Rightarrow> string \<Rightarrow> string \<Rightarrow> string \<Rightarrow> ('s world, string) io" where
  "create_prefix env delimiter segment prefix =
     (let prefix = (if prefix \<noteq> [] then prefix @ delimiter else prefix) @ segment in
      bind_io session_ready (\<lambda>_.
      bind_io (try_io (create_folder (e_srv env) prefix)) (\<lambda>r.
        case r of
          Inr _ \<Rightarrow> ret_io prefix
        | Inl e \<Rightarrow> if is_already_exists e then ret_io prefix else lift_io (Inl e))))"

definition create_folder_path ::
  "'s env \<Rightarrow> int \<Rightarrow> string \<Rightarrow> string \<Rightarrow> ('s world, folder) io" where
  "create_folder_path env account_id path delimiter =
     bind_io (lift_io (normalize_folder_path path delimiter)) (\<lambda>normalized.
     bind_io (fold_io (create_prefix env delimiter) (split_sub delimiter normalized) []) (\<lambda>_.
     bind_io (sync_folders env account_id) (\<lambda>_.
     bind_io (try_io (db_get (folder_get_by_path account_id normalized))) (\<lambda>r.
       case r of
         Inr f \<Rightarrow> ret_io f
       | Inl _ \<Rightarrow> lift_io (Inl (InvalidInput (''server did not list '' @ normalized)))))))"

subsection \<open>Deletes and moves\<close>

definition delete_message :: "'s env \<Rightarrow> int \<Rightarrow> ('s world, unit) io" where
  "delete_message env message_id =
     bind_io (db_get (message_get message_id)) (\<lambda>m.
     bind_io (db_get (folder_get (m_folder_id m))) (\<lambda>f.
     bind_io session_ready (\<lambda>_.
     bind_io (session_select (e_srv env) (d_path f) None) (\<lambda>_.
     bind_io (uid_store_flags (e_srv env) [m_uid m] True [Deleted]) (\<lambda>_.
     bind_io (uid_expunge (e_srv env) [m_uid m]) (\<lambda>_.
     db_io (message_delete message_id)))))))"

definition forget_uids :: "int \<Rightarrow> nat list \<Rightarrow> ('s world, nat) io" where
  "forget_uids folder_id uids =
     bind_io (db_do (delete_many_by_uids folder_id uids)) (\<lambda>count.
     bind_io (modify_io (\<lambda>w. w\<lparr>w_mail := note_removed_on_server folder_id count (w_mail w)\<rparr>)) (\<lambda>_.
     ret_io count))"

definition is_trash_path :: "folder list \<Rightarrow> string \<Rightarrow> bool" where
  "is_trash_path known path \<longleftrightarrow>
     (case find (\<lambda>f. d_role f = Trash) known of None \<Rightarrow> False | Some t \<Rightarrow> d_path t = path)"

definition move_uids_to :: "'s env \<Rightarrow> int \<Rightarrow> nat list \<Rightarrow> string \<Rightarrow> ('s world, nat) io" where
  "move_uids_to env src_folder_id uids dest_path =
     (let clean = clean_uids uids in
      if clean = [] then ret_io 0
      else
        bind_io (db_get (folder_get src_folder_id)) (\<lambda>src.
        if d_path src = dest_path then ret_io 0
        else
          bind_io (get_io (\<lambda>w. is_trash_path (list_by_account (d_account_id src) (w_mail w)) dest_path)) (\<lambda>to_trash.
          bind_io session_ready (\<lambda>_.
          bind_io (session_select (e_srv env) (d_path src) None) (\<lambda>_.
          bind_io (if to_trash
                   then bind_io (try_io (uid_store_flags (e_srv env) clean True [Seen])) (\<lambda>_. ret_io ())
                   else ret_io ()) (\<lambda>_.
          bind_io (uid_move (e_srv env) clean dest_path) (\<lambda>_.
          forget_uids src_folder_id clean)))))))"

definition purge_uids :: "'s env \<Rightarrow> int \<Rightarrow> nat list \<Rightarrow> ('s world, nat) io" where
  "purge_uids env folder_id uids =
     (if uids = [] then ret_io 0
      else
        bind_io (db_get (folder_get folder_id)) (\<lambda>f.
        bind_io session_ready (\<lambda>_.
        bind_io (session_select (e_srv env) (d_path f) None) (\<lambda>_.
        bind_io (uid_store_flags (e_srv env) uids True [Deleted]) (\<lambda>_.
        bind_io (uid_expunge (e_srv env) uids) (\<lambda>_.
        forget_uids folder_id uids))))))"

subsection \<open>Pending moves\<close>

definition MAX_PENDING_ATTEMPTS :: int where
  "MAX_PENDING_ATTEMPTS = 5"

type_synonym move_group = "int \<times> pending_action \<times> int option"
type_synonym pending_item = "int \<times> nat \<times> int"

fun add_to_group ::
  "move_group \<Rightarrow> pending_item \<Rightarrow> (move_group \<times> pending_item list) list \<Rightarrow> (move_group \<times> pending_item list) list" where
  "add_to_group key item [] = [(key, [item])]"
| "add_to_group key item ((k, items) # groups) =
     (if k = key then (k, items @ [item]) # groups else (k, items) # add_to_group key item groups)"

definition group_moves :: "pending_move list \<Rightarrow> (move_group \<times> pending_item list) list" where
  "group_moves due =
     fold (\<lambda>p. add_to_group (v_folder_id p, v_action p, v_dest_folder_id p)
                 (v_message_id p, v_uid p, v_attempts p)) due []"

definition pending_failed :: "pending_item list \<Rightarrow> mail_db \<Rightarrow> mail_db" where
  "pending_failed items db =
     (let gives_up = (\<lambda>(_, _, attempts). MAX_PENDING_ATTEMPTS \<le> attempts + 1);
          give_up = map fst (filter gives_up items);
          retry = map fst (filter (\<lambda>i. \<not> gives_up i) items)
      in pending_record_failure retry (if give_up \<noteq> [] then pending_remove give_up db else db))"

definition path_by_role :: "folder list \<Rightarrow> int \<Rightarrow> folder_role \<Rightarrow> string option" where
  "path_by_role known src_id role =
     map_option d_path (find (\<lambda>f. d_role f = role \<and> d_id f \<noteq> src_id) known)"

definition pending_target ::
  "'s env \<Rightarrow> int \<Rightarrow> int \<Rightarrow> pending_action \<Rightarrow> int option \<Rightarrow> ('s world, string option) io" where
  "pending_target env account_id src_id action dest_id =
     bind_io (get_io (\<lambda>w. list_by_account account_id (w_mail w))) (\<lambda>known.
       case action of
         To_Trash \<Rightarrow> ret_io (path_by_role known src_id Trash)
       | To_Folder \<Rightarrow>
           ret_io (case dest_id of
               None \<Rightarrow> None
             | Some i \<Rightarrow> map_option d_path (find (\<lambda>f. d_id f = i \<and> d_id f \<noteq> src_id) known))
       | To_Archive \<Rightarrow>
           (case dest_id of
              Some i \<Rightarrow> ret_io (map_option d_path (find (\<lambda>f. d_id f = i) known))
            | None \<Rightarrow>
                (case path_by_role known src_id Archive of
                   Some p \<Rightarrow> ret_io (Some p)
                 | None \<Rightarrow>
                     bind_io (create_folder_path env account_id ''Archive''
                         (case known of [] \<Rightarrow> ''/'' | f # _ \<Rightarrow> d_delimiter f)) (\<lambda>created.
                     ret_io (if d_id created \<noteq> src_id then Some (d_path created) else None)))))"

definition push_group ::
  "'s env \<Rightarrow> int \<Rightarrow> move_group \<times> pending_item list \<Rightarrow> nat \<Rightarrow> ('s world, nat) io" where
  "push_group env account_id = (\<lambda>((src_id, action, dest_id), items) moved.
     (let ids = map fst items; uids = map (\<lambda>i. fst (snd i)) items;
          failed = modify_io (\<lambda>w. w\<lparr>w_mail := pending_failed items (w_mail w)\<rparr>) in
      bind_io (try_io (pending_target env account_id src_id action dest_id)) (\<lambda>r.
        case r of
          Inr None \<Rightarrow>
            bind_io (modify_io (\<lambda>w. w\<lparr>w_mail := pending_remove ids (w_mail w)\<rparr>)) (\<lambda>_. ret_io moved)
        | Inl _ \<Rightarrow> bind_io failed (\<lambda>_. ret_io moved)
        | Inr (Some dest) \<Rightarrow>
            bind_io (try_io (move_uids_to env src_id uids dest)) (\<lambda>r.
              case r of
                Inr n \<Rightarrow> ret_io (moved + n)
              | Inl _ \<Rightarrow> bind_io failed (\<lambda>_. ret_io moved)))))"

definition push_due_moves :: "'s env \<Rightarrow> int \<Rightarrow> ('s world, nat) io" where
  "push_due_moves env account_id =
     bind_io (get_io (\<lambda>w. list_due account_id (secs (e_now env)) (w_mail w))) (\<lambda>due.
     fold_io (push_group env account_id) (group_moves due) 0)"

end
