(* ===== verification/Imap_Session_Facts.thy ===== *)
theory Imap_Session_Facts
  imports Imap_Session
begin

text \<open>
  What the command loop promises: a command that succeeds was answered under its own tag and in
  time, a connection that failed is never written to again, and the rule by which every verb is
  reasoned about (\<open>hoare_execute\<close>): the loop hands over exactly what \<open>answer\<close> reads off the events.
\<close>

subsection \<open>What the events say\<close>

fun answer :: "string \<Rightarrow> timed_event list \<Rightarrow> command_result option" where
  "answer tag [] = None"
| "answer tag ((now, wait, ev) # evs) =
     (case ev of
        Data_Received d \<Rightarrow> map_option (\<lambda>r. r\<lparr>cr_data := d # cr_data r\<rparr>) (answer tag evs)
      | Untagged c \<Rightarrow> map_option (\<lambda>r. r\<lparr>cr_codes := c # cr_codes r\<rparr>) (answer tag evs)
      | Tagged t kind txt c \<Rightarrow>
          if t = tag then (if kind = Ok_Kind then Some \<lparr>cr_data = [], cr_codes = [c]\<rparr> else None)
          else answer tag evs
      | Other_Event \<Rightarrow> answer tag evs
      | _ \<Rightarrow> None)"

lemma broken_self [simp]: "\<exists>b. s = s\<lparr>broken := b\<rparr>"
  by (rule exI [of _ "broken s"]) simp

lemma session_fail_frame: "session_fail e s = (r, s') \<Longrightarrow> r = Inl e \<and> (\<exists>b. s' = s\<lparr>broken := b\<rparr>)"
  by (auto simp: session_fail_def)

lemma await_reply_frame:
  "await_reply tag started evs dat codes s = (r, s') \<Longrightarrow> \<exists>b. s' = s\<lparr>broken := b\<rparr>"
proof (induction tag started evs dat codes arbitrary: s s' rule: await_reply.induct)
  case (1 tag started dat codes)
  then show ?case by (auto dest: session_fail_frame)
next
  case (2 tag started now wait ev evs dat codes)
  then show ?case
    by (auto simp: lift_io_def ret_io_def dest: session_fail_frame
        split: option.splits if_splits imap_event.splits)
qed

lemma await_reply_Ok:
  "await_reply tag started evs dat codes s = (Inr r, s') \<Longrightarrow>
     s' = s \<and> (\<exists>a. answer tag evs = Some a \<and> r = \<lparr>cr_data = dat @ cr_data a, cr_codes = codes @ cr_codes a\<rparr>)"
proof (induction tag started evs dat codes arbitrary: s s' rule: await_reply.induct)
  case (1 tag started dat codes)
  then show ?case by (simp add: session_fail_def)
next
  case (2 tag started now wait ev evs dat codes)
  from "2.prems" obtain b where b: "read_budget started now = Some b" "\<not> b < wait"
    by (auto simp: session_fail_def split: option.splits if_splits)
  note IH = "2.IH" [OF b]
  show ?case
  proof (cases ev)
    case (Data_Received d)
    with IH(1) [OF Data_Received] "2.prems" b show ?thesis by fastforce
  next
    case (Tagged t kind msg c)
    show ?thesis
    proof (cases "t = tag")
      case True
      with "2.prems" b Tagged show ?thesis
        by (auto simp: ret_io_def lift_io_def split: if_splits)
    next
      case False
      with IH(2) [OF Tagged] "2.prems" b Tagged show ?thesis by fastforce
    qed
  next
    case (Untagged c)
    with IH(3) [OF Untagged] "2.prems" b show ?thesis by fastforce
  next
    case Other_Event
    with IH(4) [OF Other_Event] "2.prems" b show ?thesis by fastforce
  qed (use "2.prems" b in \<open>simp_all add: session_fail_def lift_io_def\<close>)
qed

subsection \<open>One command\<close>

lemma execute_broken: "broken s = Some why \<Longrightarrow>
    execute srv cmd s = (Inl (Network (''connection unusable after an earlier failure: '' @ why)), s)"
  by (simp add: execute_def)

lemma execute_sent:
  assumes "broken s = None" and "srv (tag_of (tag_counter s + 1)) cmd (conn s) = (st, evs, c)"
  shows "execute srv cmd s =
    await_reply (tag_of (tag_counter s + 1)) st evs [] []
      (s\<lparr>tag_counter := tag_counter s + 1, conn := c\<rparr>)"
  using assms by (simp add: execute_def next_tag_def bind_io_def)

text \<open>The rule for every verb: what holds however the command ends, and what a reply adds.\<close>

lemma hoare_execute:
  assumes "\<And>s. P s \<Longrightarrow> broken s \<noteq> None \<Longrightarrow> E s"
    and "\<And>s tag st evs c n b. P s \<Longrightarrow> broken s = None \<Longrightarrow> srv tag cmd (conn s) = (st, evs, c) \<Longrightarrow>
      E (s\<lparr>tag_counter := n, conn := c, broken := b\<rparr>)"
    and "\<And>s tag st evs c n r. P s \<Longrightarrow> broken s = None \<Longrightarrow> srv tag cmd (conn s) = (st, evs, c) \<Longrightarrow>
      answer tag evs = Some r \<Longrightarrow> Q r (s\<lparr>tag_counter := n, conn := c\<rparr>)"
  shows "hoare P (execute srv cmd) Q E"
proof (rule hoareI)
  fix s e s'
  assume P: "P s" and run: "execute srv cmd s = (Inl e, s')"
  show "E s'"
  proof (cases "broken s")
    case None
    obtain st evs c where srv: "srv (tag_of (tag_counter s + 1)) cmd (conn s) = (st, evs, c)"
      by (cases "srv (tag_of (tag_counter s + 1)) cmd (conn s)")
    from run obtain b where "s' = s\<lparr>tag_counter := tag_counter s + 1, conn := c\<rparr>\<lparr>broken := b\<rparr>"
      unfolding execute_sent [where s = s and srv = srv, OF None srv] by (auto dest: await_reply_frame)
    then show ?thesis using assms(2) [OF P None srv, where n = "tag_counter s + 1" and b = b] by simp
  next
    case (Some why)
    with run have "s' = s" by (simp add: execute_broken)
    with assms(1) P Some show ?thesis by simp
  qed
next
  fix s r s'
  assume P: "P s" and run: "execute srv cmd s = (Inr r, s')"
  then have None: "broken s = None" by (cases "broken s") (simp_all add: execute_broken)
  obtain st evs c where srv: "srv (tag_of (tag_counter s + 1)) cmd (conn s) = (st, evs, c)"
    by (cases "srv (tag_of (tag_counter s + 1)) cmd (conn s)")
  from run show "Q r s'"
    unfolding execute_sent [where s = s and srv = srv, OF None srv]
    using assms(3) [OF P None srv] by (auto dest!: await_reply_Ok)
qed

subsection \<open>Answered, and in time\<close>

definition in_time :: "int \<Rightarrow> timed_event \<Rightarrow> bool" where
  "in_time started = (\<lambda>(now, wait, _). wait \<le> COMMAND_TIMEOUT \<and> max 0 (now - started) + wait \<le> COMMAND_MAX)"

fun data_event :: "timed_event \<Rightarrow> imap_data option" where
  "data_event (_, _, Data_Received d) = Some d"
| "data_event _ = None"

lemma read_budget_in_time:
  "read_budget started now = Some b \<Longrightarrow> \<not> b < wait \<Longrightarrow> in_time started (now, wait, ev)"
  by (auto simp: read_budget_def in_time_def COMMAND_MAX_def COMMAND_TIMEOUT_def Let_def split: if_splits)

lemma await_reply_in_time:
  "await_reply tag started evs dat codes s = (Inr r, s') \<Longrightarrow>
     \<exists>before now wait msg c after. evs = before @ (now, wait, Tagged tag Ok_Kind msg c) # after
       \<and> list_all (in_time started) (before @ [(now, wait, Tagged tag Ok_Kind msg c)])
       \<and> cr_data r = dat @ List.map_filter data_event before"
proof (induction tag started evs dat codes arbitrary: s s' rule: await_reply.induct)
  case (1 tag started dat codes)
  then show ?case by (simp add: session_fail_def)
next
  case (2 tag started now wait ev evs dat codes)
  from "2.prems" obtain b where b: "read_budget started now = Some b" "\<not> b < wait"
    by (auto simp: session_fail_def split: option.splits if_splits)
  note IH = "2.IH" [OF b]
  have now: "in_time started (now, wait, ev)" using b by (rule read_budget_in_time)
  have step: ?case
    if "\<exists>before n w msg c after. evs = before @ (n, w, Tagged tag Ok_Kind msg c) # after
       \<and> list_all (in_time started) (before @ [(n, w, Tagged tag Ok_Kind msg c)])
       \<and> cr_data r = (dat @ more) @ List.map_filter data_event before"
      and "more = List.map_filter data_event [(now, wait, ev)]" for more
  proof -
    from that obtain before n w msg c after where
      "evs = before @ (n, w, Tagged tag Ok_Kind msg c) # after"
      "list_all (in_time started) (before @ [(n, w, Tagged tag Ok_Kind msg c)])"
      "cr_data r = (dat @ more) @ List.map_filter data_event before" by blast
    with now that(2) show ?case
      by (intro exI [of _ "(now, wait, ev) # before"] exI [of _ n] exI [of _ w] exI [of _ msg]
          exI [of _ c] exI [of _ after]) (auto simp: List.map_filter_def)
  qed
  show ?case
  proof (cases ev)
    case (Data_Received d)
    with IH(1) [OF Data_Received] "2.prems" b show ?thesis
      by (intro step [of "[d]"]) (simp_all add: List.map_filter_def)
  next
    case (Tagged t kind msg c)
    show ?thesis
    proof (cases "t = tag")
      case True
      with "2.prems" b Tagged have "ev = Tagged tag Ok_Kind msg c" "cr_data r = dat"
        by (auto simp: ret_io_def lift_io_def split: if_splits)
      with now show ?thesis
        by (intro exI [of _ "[]"] exI [of _ now] exI [of _ wait] exI [of _ msg] exI [of _ c]
            exI [of _ evs]) (simp add: List.map_filter_def)
    next
      case False
      with IH(2) [OF Tagged] "2.prems" b Tagged show ?thesis
        by (intro step [of "[]"]) (simp_all add: List.map_filter_def)
    qed
  next
    case (Untagged c)
    with IH(3) [OF Untagged] "2.prems" b show ?thesis
      by (intro step [of "[]"]) (simp_all add: List.map_filter_def)
  next
    case Other_Event
    with IH(4) [OF Other_Event] "2.prems" b show ?thesis
      by (intro step [of "[]"]) (simp_all add: List.map_filter_def)
  qed (use "2.prems" b in \<open>simp_all add: session_fail_def lift_io_def\<close>)
qed

text \<open>
  C33. A command that succeeds was sent on a connection that had never failed, and was answered with
  \<open>OK\<close> under its own tag: every event up to that answer took at most 30 seconds to come and came
  within 600 seconds of the start, and the data handed to the caller is exactly the data received
  before the answer, in order.
\<close>

theorem success_is_answered_in_time:
  assumes "execute srv cmd s = (Inr r, s')"
    and "srv (tag_of (tag_counter s + 1)) cmd (conn s) = (started, evs, c)"
  shows "broken s = None \<and> s' = s\<lparr>tag_counter := tag_counter s + 1, conn := c\<rparr>
    \<and> (\<exists>before now wait msg code after.
          evs = before @ (now, wait, Tagged (tag_of (tag_counter s + 1)) Ok_Kind msg code) # after
        \<and> list_all (in_time started)
            (before @ [(now, wait, Tagged (tag_of (tag_counter s + 1)) Ok_Kind msg code)])
        \<and> cr_data r = List.map_filter data_event before)"
proof -
  from assms(1) have None: "broken s = None" by (cases "broken s") (simp_all add: execute_broken)
  have run: "await_reply (tag_of (tag_counter s + 1)) started evs [] []
      (s\<lparr>tag_counter := tag_counter s + 1, conn := c\<rparr>) = (Inr r, s')"
    using assms(1) unfolding execute_sent [where s = s and srv = srv, OF None assms(2)] .
  from await_reply_Ok [OF run] await_reply_in_time [OF run] None show ?thesis by simp
qed

text \<open>A server that greets every command with one untagged event, then says OK after a second.\<close>

definition calm_server :: "nat peer" where
  "calm_server tag cmd c =
     (0, [(0, 10, Data_Received (Exists 3)), (10, 1000, Tagged tag Ok_Kind ''done'' None)], c + 1)"

definition calm_session :: "nat imap_session" where
  "calm_session = \<lparr>conn = 0, tag_counter = 0, capabilities = [], condstore_enabled = False,
     qresync_enabled = False, broken = None\<rparr>"

lemma calm_answers:
  "execute calm_server Noop calm_session
     = (Inr \<lparr>cr_data = [Exists 3], cr_codes = [None]\<rparr>, calm_session\<lparr>tag_counter := 1, conn := 1\<rparr>)"
  by (simp add: execute_def calm_session_def next_tag_def bind_io_def calm_server_def read_budget_def
      COMMAND_MAX_def COMMAND_TIMEOUT_def ret_io_def)

theorem success_is_answered_in_time_witness:
  "\<exists>before now wait msg code after.
     [(0, 10, Data_Received (Exists 3)), (10, 1000, Tagged (tag_of 1) Ok_Kind ''done'' None)]
       = before @ (now, wait, Tagged (tag_of 1) Ok_Kind msg code) # after
     \<and> [Exists 3] = List.map_filter data_event before"
proof -
  have "calm_server (tag_of (tag_counter calm_session + 1)) Noop (conn calm_session)
      = (0, [(0, 10, Data_Received (Exists 3)), (10, 1000, Tagged (tag_of 1) Ok_Kind ''done'' None)], 1)"
    by (simp add: calm_server_def calm_session_def)
  from success_is_answered_in_time [OF calm_answers this] show ?thesis
    by (simp add: calm_session_def) blast
qed

subsection \<open>A failed connection is left alone\<close>

text \<open>On a broken session the operation sends nothing, and the first failure stays on record.\<close>

definition silent :: "(('s, 'z) imap_session_scheme, 'a) io \<Rightarrow> bool" where
  "silent m \<longleftrightarrow> (\<forall>s why. broken s = Some why \<longrightarrow>
     conn (snd (m s)) = conn s \<and> tag_counter (snd (m s)) = tag_counter s \<and> broken (snd (m s)) = Some why)"

named_theorems verb_defs \<open>the verbs and the combinators, unfolded\<close>

lemmas [verb_defs] = bind_io_def try_io_def lift_io_def ret_io_def get_io_def execute_broken
  is_broken_def with_fallback_def mailbox_for_wire_def Let_def

lemma silent_reads:
  "silent (session_select srv path qresync)"
  "silent (uid_fetch_flags_changesince srv uids modseq)"
  "silent (uid_fetch_messages srv uids)"
  "silent (uid_search srv keys)"
  by (auto simp: silent_def verb_defs session_select_def uid_fetch_flags_changesince_def
      uid_fetch_messages_def uid_search_def split: sum.splits)

lemma silent_writes:
  "silent (uid_store_flags srv uids add flags)"
  "silent (uid_copy srv uids dest)"
  "silent (session_expunge srv)"
  "silent (uid_expunge srv uids)"
  "silent (uid_move srv uids dest)"
  "silent (session_append srv path raw flags)"
  "silent (create_folder srv path)"
  by (auto simp: silent_def verb_defs uid_store_flags_def uid_copy_def session_expunge_def
      uid_expunge_def expunge_only_def uid_move_def copy_then_remove_def session_append_def
      create_folder_def uid_search_def split: sum.splits)

lemma silent_rest:
  "silent (session_list srv reference pattern)"
  "silent (session_lsub srv reference pattern)"
  "silent (session_namespace srv)"
  "silent (session_noop srv)"
  "silent (session_login srv user password)"
  "silent (session_capability srv)"
  "silent (enable_extensions srv)"
  by (auto simp: silent_def verb_defs session_list_def session_lsub_def session_namespace_def
      session_noop_def session_login_def session_capability_def enable_extensions_def split: sum.splits)

text \<open>
  Once a session has failed (timeout, stream error, BYE), no operation sends another byte over
  it: the connection and the tag counter stay as they are and the first failure stays on record.
\<close>

theorem broken_session_is_silent:
  "silent (session_select srv path qresync) \<and> silent (uid_fetch_flags_changesince srv uids modseq)
   \<and> silent (uid_fetch_messages srv uids) \<and> silent (uid_search srv keys)
   \<and> silent (uid_store_flags srv uids add flags) \<and> silent (uid_copy srv uids dest)
   \<and> silent (session_expunge srv) \<and> silent (uid_expunge srv uids) \<and> silent (uid_move srv uids dest)
   \<and> silent (session_append srv path raw flags) \<and> silent (create_folder srv path)
   \<and> silent (session_list srv reference pattern) \<and> silent (session_lsub srv reference pattern)
   \<and> silent (session_namespace srv) \<and> silent (session_noop srv)
   \<and> silent (session_login srv user password) \<and> silent (session_capability srv)
   \<and> silent (enable_extensions srv)"
  by (simp add: silent_reads silent_writes silent_rest)

subsection \<open>The verbs without the state argument\<close>

lemma fallback_eq:
  "(\<lambda>s. case r of Inr _ \<Rightarrow> (Inr x, s) | Inl e \<Rightarrow> if is_broken s then (Inl e, s) else m s)
   = (case r of
        Inl e \<Rightarrow> bind_io (get_io is_broken) (\<lambda>b. if b then lift_io (Inl e) else m)
      | Inr _ \<Rightarrow> ret_io x)"
  by (rule ext) (simp add: io_simps split: sum.split)

lemma with_fallback_eq:
  "with_fallback srv cmd plain off =
     bind_io (try_io (execute srv (fst cmd))) (\<lambda>r.
       case r of
         Inl e \<Rightarrow> bind_io (get_io (\<lambda>s. snd cmd \<and> \<not> is_broken s)) (\<lambda>b.
             if b then bind_io (modify_io off) (\<lambda>_. execute srv plain) else lift_io (Inl e))
       | Inr res \<Rightarrow> ret_io res)"
  unfolding with_fallback_def
  by (rule arg_cong [where f = "bind_io _"], rule ext, rule ext) (auto simp: io_simps split: sum.split)

lemma session_select_eq:
  "session_select srv path qresync =
     bind_io (lift_io (mailbox_for_wire path)) (\<lambda>mailbox.
     bind_io (get_io (\<lambda>s. select_command s mailbox qresync)) (\<lambda>cmd.
     bind_io (with_fallback srv cmd (Select mailbox Plain)
         (\<lambda>s. s\<lparr>condstore_enabled := False, qresync_enabled := False\<rparr>))
       (\<lambda>res. ret_io (select_outcome res))))"
  unfolding session_select_def
  by (rule arg_cong [where f = "bind_io _"], rule ext, rule ext) simp

lemma uid_fetch_flags_eq:
  "uid_fetch_flags_changesince srv uids modseq =
     (if uids = [] then ret_io []
      else
        bind_io (lift_io (uids_to_sequence_set uids)) (\<lambda>sq.
        bind_io (get_io (\<lambda>s. condstore_enabled s \<and> 0 < modseq)) (\<lambda>since.
        bind_io (with_fallback srv (Fetch_Flags sq (if since then Some modseq else None), since)
            (Fetch_Flags sq None) (\<lambda>s. s\<lparr>condstore_enabled := False\<rparr>))
          (\<lambda>res. ret_io (fetched_of res)))))"
  unfolding uid_fetch_flags_changesince_def
  by (rule if_cong [OF refl refl], rule arg_cong [where f = "bind_io _"], rule ext, rule ext)
    (simp add: Let_def)

lemma uid_expunge_eq:
  "uid_expunge srv uids =
     (if uids = [] then ret_io ()
      else
        bind_io (get_io (\<lambda>s. has_capability s ''uidplus'')) (\<lambda>uidplus.
        if \<not> uidplus then expunge_only srv uids
        else
          bind_io (lift_io (uids_to_sequence_set uids)) (\<lambda>sq.
          bind_io (try_io (execute srv (ExpungeUid sq))) (\<lambda>r.
            case r of
              Inl e \<Rightarrow> bind_io (get_io is_broken) (\<lambda>b. if b then lift_io (Inl e) else expunge_only srv uids)
            | Inr _ \<Rightarrow> ret_io ()))))"
  unfolding uid_expunge_def fallback_eq ..

lemma uid_move_eq:
  "uid_move srv uids dest =
     (if uids = [] then ret_io ()
      else
        bind_io (get_io (\<lambda>s. has_capability s ''move'')) (\<lambda>has_move.
        bind_io (lift_io (uids_to_sequence_set uids)) (\<lambda>sq.
        bind_io (lift_io (mailbox_for_wire dest)) (\<lambda>mailbox.
          if has_move then
            bind_io (try_io (execute srv (Move sq mailbox))) (\<lambda>r.
              case r of
                Inl e \<Rightarrow> bind_io (get_io is_broken) (\<lambda>b.
                    if b then lift_io (Inl e) else copy_then_remove srv uids sq mailbox)
              | Inr _ \<Rightarrow> ret_io ())
          else copy_then_remove srv uids sq mailbox))))"
  unfolding uid_move_def fallback_eq ..

lemma sequence_set_same: "uids_to_sequence_set uids = Inr sq \<Longrightarrow> set sq = set uids"
  by (auto simp: uids_to_sequence_set_def Let_def split: if_splits)

lemma select_command_is: "\<exists>p on. select_command s mailbox qresync = (Select mailbox p, on)"
  by (auto simp: select_command_def split: option.split)

text \<open>The rule for \<open>SELECT\<close> with its fallback to the plain form.\<close>

lemma hoare_session_select:
  fixes P :: "('s, 'z) imap_session_scheme \<Rightarrow> bool"
  assumes select: "\<And>par. hoare P (execute srv (Select (encode_modified_utf7 path) par)) (\<lambda>_. Q) P"
    and off: "\<And>s. P s \<Longrightarrow> P (s\<lparr>condstore_enabled := False, qresync_enabled := False\<rparr>)"
  shows "hoare P (session_select srv path qresync) (\<lambda>_. Q) P"
proof -
  let ?b = "encode_modified_utf7 path"
  let ?off = "\<lambda>s :: ('s, 'z) imap_session_scheme. s\<lparr>condstore_enabled := False, qresync_enabled := False\<rparr>"
  have fb: "hoare P (with_fallback srv (Select ?b p, on) (Select ?b Plain) ?off) (\<lambda>_. Q) P" for p on
    unfolding with_fallback_eq fst_conv snd_conv
  proof (rule hoare_bind [OF hoare_try])
    show "hoare P (execute srv (Select ?b p))
        (\<lambda>r s. case Inr r of Inl e \<Rightarrow> P s | Inr r \<Rightarrow> Q s) (\<lambda>s. \<forall>e. case Inl e of Inl e \<Rightarrow> P s | Inr r \<Rightarrow> Q s)"
      using select by simp
  next
    fix r :: "command_result result"
    show "hoare (\<lambda>s. case r of Inl e \<Rightarrow> P s | Inr r \<Rightarrow> Q s)
        (case r of
           Inl e \<Rightarrow> bind_io (get_io (\<lambda>s. on \<and> \<not> is_broken s)) (\<lambda>b.
               if b then bind_io (modify_io ?off) (\<lambda>_. execute srv (Select ?b Plain)) else lift_io (Inl e))
         | Inr res \<Rightarrow> ret_io res)
        (\<lambda>_. Q) P"
    proof (cases r)
      case (Inl e)
      have "hoare P (bind_io (modify_io ?off) (\<lambda>_. execute srv (Select ?b Plain))) (\<lambda>_. Q) P"
        by (rule hoare_bind [OF _ select]) (simp add: hoare_def io_simps off)
      then show ?thesis using Inl by (auto simp: hoare_def io_simps split: prod.split sum.split)
    next
      case (Inr res)
      then show ?thesis by (simp add: hoare_def io_simps)
    qed
  qed
  have "hoare P (with_fallback srv (select_command s ?b qresync) (Select ?b Plain) ?off) (\<lambda>_. Q) P"
    for s :: "('s, 'z) imap_session_scheme"
    using select_command_is [of s ?b qresync] fb by auto
  then show ?thesis
    unfolding session_select_eq mailbox_for_wire_def
    by (fastforce simp: hoare_def bind_io_def get_io_def ret_io_def lift_io_def split: prod.splits sum.splits)
qed

end
