(* ===== verification/Imap_Sync_Facts.thy ===== *)
theory Imap_Sync_Facts
  imports Imap_Sync Imap_Session_Facts
begin

text \<open>
  What a folder sync does to the cache. Of the server only this is assumed, and named where it is
  used: a search that is answered names the mail it holds (\<open>finds_all\<close>, \<open>finds_only\<close>), a fetch hands
  over what was asked for (\<open>hands_over\<close>), and the UIDVALIDITY and UIDNEXT it reports mean what they
  say (\<open>same_mailbox\<close>).
\<close>

subsection \<open>Searches\<close>

fun asked_for :: "nat \<Rightarrow> search_key \<Rightarrow> bool" where
  "asked_for u All_Key = True"
| "asked_for u (Uid_Key us) = (u \<in> set us)"
| "asked_for u (Uid_Range lo hi) = (lo \<le> u \<and> u \<le> hi)"
| "asked_for u _ = False"

definition found_in :: "command_result \<Rightarrow> nat set" where
  "found_in r = set (concat (map search_uids (cr_data r)))"

definition finds_all :: "'s peer \<Rightarrow> nat set \<Rightarrow> bool" where
  "finds_all srv K \<longleftrightarrow>
     (\<forall>tag ks c st evs c' r. srv tag (Search ks) c = (st, evs, c') \<longrightarrow> answer tag evs = Some r \<longrightarrow>
        {u \<in> K. list_all (asked_for u) ks} \<subseteq> found_in r)"

definition finds_only :: "'s peer \<Rightarrow> nat set \<Rightarrow> bool" where
  "finds_only srv P \<longleftrightarrow>
     (\<forall>tag ks c st evs c' r. srv tag (Search ks) c = (st, evs, c') \<longrightarrow> answer tag evs = Some r \<longrightarrow>
        found_in r \<subseteq> {u \<in> P. list_all (asked_for u) ks})"

lemma hoare_search:
  assumes "\<And>tag c st evs c' r. srv tag (Search ks) c = (st, evs, c') \<Longrightarrow> answer tag evs = Some r \<Longrightarrow>
      R (found_in r)"
  shows "hoare (\<lambda>_. True) (uid_search srv ks) (\<lambda>us _. R (set us) \<and> True) (\<lambda>_. True)"
  unfolding uid_search_def
proof (rule hoare_bind)
  show "hoare (\<lambda>_. True) (execute srv (Search ks)) (\<lambda>r _. R (found_in r)) (\<lambda>_. True)"
    by (rule hoare_execute) (auto intro: assms)
next
  fix r
  show "hoare (\<lambda>_. R (found_in r)) (ret_io (concat (map search_uids (cr_data r))))
      (\<lambda>us _. R (set us) \<and> True) (\<lambda>_. True)"
    by (simp add: hoare_def io_simps found_in_def)
qed

text \<open>
  The pages searched so far cover the UIDs from \<open>searched_lo\<close> up to the highest one, \<open>U\<close>, and the
  next page starts right below.
\<close>

definition covers :: "nat set \<Rightarrow> nat set \<Rightarrow> nat \<Rightarrow> nat \<Rightarrow> nat list \<Rightarrow> bool" where
  "covers K P U lo found \<longleftrightarrow>
     {u \<in> K. lo \<le> u \<and> u \<le> U} \<subseteq> set found \<and> set found \<subseteq> {u \<in> P. lo \<le> u \<and> u \<le> U} \<and> distinct found"

lemma hoare_search_page:
  assumes "finds_all srv K" and "finds_only srv P"
  shows "hoare (\<lambda>_. True) (uid_search srv [Uid_Range lo hi])
    (\<lambda>us _. ({u \<in> K. lo \<le> u \<and> u \<le> hi} \<subseteq> set us \<and> set us \<subseteq> {u \<in> P. lo \<le> u \<and> u \<le> hi}) \<and> True) (\<lambda>_. True)"
proof (rule hoare_search)
  fix tag c st evs c' r
  assume "srv tag (Search [Uid_Range lo hi]) c = (st, evs, c')" and "answer tag evs = Some r"
  then have "{u \<in> K. list_all (asked_for u) [Uid_Range lo hi]} \<subseteq> found_in r"
    "found_in r \<subseteq> {u \<in> P. list_all (asked_for u) [Uid_Range lo hi]}"
    using assms unfolding finds_all_def finds_only_def by blast+
  then show "{u \<in> K. lo \<le> u \<and> u \<le> hi} \<subseteq> found_in r \<and> found_in r \<subseteq> {u \<in> P. lo \<le> u \<and> u \<le> hi}" by simp
qed

lemma covers_page:
  assumes "covers K P U (hi + 1) found" and "hi \<le> U" and "lo \<le> hi + 1"
    and "{u \<in> K. lo \<le> u \<and> u \<le> hi} \<subseteq> set uids" and "set uids \<subseteq> {u \<in> P. lo \<le> u \<and> u \<le> hi}"
  shows "covers K P U lo (remdups (found @ uids))"
proof -
  have "u \<in> set found \<union> set uids" if "u \<in> K" "lo \<le> u" "u \<le> U" for u
    using that assms(1,4) by (cases "u \<le> hi") (auto simp: covers_def)
  moreover have "set found \<union> set uids \<subseteq> {u \<in> P. lo \<le> u \<and> u \<le> U}"
    using assms by (auto simp: covers_def)
  ultimately show ?thesis by (auto simp: covers_def)
qed

definition searched_enough :: "nat \<Rightarrow> nat \<Rightarrow> nat \<Rightarrow> nat \<Rightarrow> nat list \<Rightarrow> nat \<Rightarrow> bool" where
  "searched_enough want span pages hi found lo \<longleftrightarrow>
     want \<le> length found \<or> lo = 1 \<or> lo + pages * span = hi + 1"

lemma search_pages_cover:
  fixes srv :: "'s peer"
  assumes "finds_all srv K" and "finds_only srv P" and "0 < span" and "0 < hi"
    and "lo = max (hi - (span - 1)) 1" and "covers K P U (hi + 1) found" and "hi \<le> U"
  shows "hoare (\<lambda>_ :: ('s, 'z) imap_session_scheme. True) (search_pages srv want span (Suc pages) found hi lo searched_lo)
    (\<lambda>r _. covers K P U (snd r) (fst r) \<and> searched_enough want span (Suc pages) hi (fst r) (snd r)) (\<lambda>_. True)"
  using assms(4-7)
proof (induction pages arbitrary: found hi lo searched_lo)
  case 0
  have "searched_enough want span (Suc 0) hi f lo" for f
    using 0 assms(3) by (auto simp: searched_enough_def)
  then show ?case
    unfolding search_pages.simps Let_def
    by (intro hoare_true [OF _ hoare_search_page [OF assms(1,2)]])
      (use 0 assms(3) in \<open>auto simp: hoare_def io_simps intro!: covers_page [where hi = hi]\<close>)
next
  case (Suc pages)
  show ?case
    unfolding search_pages.simps(2) [of srv want span "Suc pages"] Let_def
  proof (rule hoare_true [OF _ hoare_search_page [OF assms(1,2)]])
    fix uids
    assume p: "{u \<in> K. lo \<le> u \<and> u \<le> hi} \<subseteq> set uids \<and> set uids \<subseteq> {u \<in> P. lo \<le> u \<and> u \<le> hi}"
    let ?found = "remdups (found @ uids)"
    have c: "covers K P U lo ?found"
      using covers_page [of K P U hi found lo uids] Suc.prems p by simp
    have next_page: "hoare (\<lambda>_ :: ('s, 'z) imap_session_scheme. True)
        (search_pages srv want span (Suc pages) ?found (lo - 1) (max (lo - 1 - (span - 1)) 1) lo)
        (\<lambda>r _. covers K P U (snd r) (fst r) \<and> searched_enough want span (Suc (Suc pages)) hi (fst r) (snd r)) (\<lambda>_. True)"
      if "\<not> lo \<le> 1"
    proof (rule hoare_weaken [OF Suc.IH])
      have "lo - 1 + 1 = lo" using that by simp
      with c show "covers K P U (lo - 1 + 1) ?found" by simp
      show "0 < lo - 1" using that by simp
      show "lo - 1 \<le> U" using that Suc.prems by auto
      have "lo - 1 + 1 + span = hi + 1" using that Suc.prems(2) assms(3) by simp
      then show "covers K P U (snd r) (fst r) \<and> searched_enough want span (Suc (Suc pages)) hi (fst r) (snd r)"
        if "covers K P U (snd r) (fst r) \<and> searched_enough want span (Suc pages) (lo - 1) (fst r) (snd r)" for r
        using that by (auto simp: searched_enough_def)
    qed simp_all
    show "hoare (\<lambda>_ :: ('s, 'z) imap_session_scheme. True)
        (if want \<le> length ?found \<or> lo \<le> 1 then ret_io (?found, lo)
         else if lo - 1 = 0 then ret_io (?found, lo)
         else search_pages srv want span (Suc pages) ?found (lo - 1) (max (lo - 1 - (span - 1)) 1) lo)
        (\<lambda>r _. covers K P U (snd r) (fst r) \<and> searched_enough want span (Suc (Suc pages)) hi (fst r) (snd r)) (\<lambda>_. True)"
    proof (cases "want \<le> length ?found \<or> lo \<le> 1")
      case True
      with c Suc.prems(2) have "searched_enough want span (Suc (Suc pages)) hi ?found lo"
        by (auto simp: searched_enough_def)
      with True c show ?thesis by (simp add: hoare_def io_simps)
    next
      case False
      then have "\<not> lo \<le> 1" "lo - 1 \<noteq> 0" by auto
      show ?thesis unfolding if_not_P [OF False] if_not_P [OF \<open>lo - 1 \<noteq> 0\<close>]
        by (rule next_page [OF \<open>\<not> lo \<le> 1\<close>])
    qed
  qed
qed

lemma search_pages_low: "0 < hi \<Longrightarrow> 1 \<le> max (hi - (span - 1)) (1 :: nat)"
  by simp

definition highest_asked :: "nat option \<Rightarrow> nat" where
  "highest_asked uid_next = (case uid_next of None \<Rightarrow> 0 | Some u \<Rightarrow> u) - 1"

definition page_span :: "nat \<Rightarrow> nat" where
  "page_span n = max (max (min (n * 8) u32_max) n) 1"

lemma search_recent_cover:
  fixes srv :: "'s peer"
  assumes "finds_all srv K" and "finds_only srv P"
    and "\<And>n u. uid_next = Some n \<Longrightarrow> u \<in> K \<union> P \<Longrightarrow> u < n" and "0 \<notin> P"
  shows "hoare (\<lambda>_ :: ('s, 'z) imap_session_scheme. True) (search_recent_uids srv window uid_next)
    (\<lambda>r _. {u \<in> K. snd r \<le> u} \<subseteq> set (fst r) \<and> set (fst r) \<subseteq> {u \<in> P. snd r \<le> u} \<and> distinct (fst r)
       \<and> (\<forall>n. window = Some n \<longrightarrow>
            searched_enough n (page_span n) SEARCH_PAGES (highest_asked uid_next) (fst r) (snd r))) (\<lambda>_. True)"
proof -
  let ?Q = "\<lambda>r _. {u \<in> K. snd r \<le> u} \<subseteq> set (fst r) \<and> set (fst r) \<subseteq> {u \<in> P. snd r \<le> u} \<and> distinct (fst r)
       \<and> (\<forall>n. window = Some n \<longrightarrow>
            searched_enough n (page_span n) SEARCH_PAGES (highest_asked uid_next) (fst r) (snd r))"
  have all: "hoare (\<lambda>_ :: ('s, 'z) imap_session_scheme. True)
      (bind_io (uid_search srv [All_Key]) (\<lambda>uids. ret_io (remdups uids, 1))) ?Q (\<lambda>_. True)"
  proof (rule hoare_true [OF _ hoare_search [where R = "\<lambda>U. K \<subseteq> U \<and> U \<subseteq> P"]])
    fix tag c st evs c' r
    assume "srv tag (Search [All_Key]) c = (st, evs, c')" and "answer tag evs = Some r"
    then have "{u \<in> K. list_all (asked_for u) [All_Key]} \<subseteq> found_in r"
      "found_in r \<subseteq> {u \<in> P. list_all (asked_for u) [All_Key]}"
      using assms(1,2) unfolding finds_all_def finds_only_def by blast+
    then show "K \<subseteq> found_in r \<and> found_in r \<subseteq> P" by simp
  next
    fix uids
    assume "K \<subseteq> set uids \<and> set uids \<subseteq> P"
    moreover have "1 \<le> u" if "u \<in> P" for u using that assms(4) by (cases u) auto
    ultimately show "hoare (\<lambda>_ :: ('s, 'z) imap_session_scheme. True) (ret_io (remdups uids, 1)) ?Q (\<lambda>_. True)"
      by (auto simp: hoare_def io_simps searched_enough_def)
  qed
  show ?thesis
  proof (cases "window = None \<or> highest_asked uid_next = 0")
    case True
    then have "search_recent_uids srv window uid_next
        = (bind_io (uid_search srv [All_Key]) (\<lambda>uids. ret_io (remdups uids, 1)) :: (('s, 'z) imap_session_scheme, _) io)"
      by (auto simp: search_recent_uids_def highest_asked_def Let_def split: option.splits)
    with all show ?thesis by simp
  next
    case False
    then obtain n where n: "window = Some n" "0 < highest_asked uid_next" by auto
    let ?U = "highest_asked uid_next"
    obtain top_uid where top: "uid_next = Some top_uid"
      using n(2) by (cases uid_next) (simp_all add: highest_asked_def)
    have below: "u \<le> ?U" if "u \<in> K \<union> P" for u
      using assms(3) [OF top that] by (simp add: highest_asked_def top)
    have run: "search_recent_uids srv window uid_next
        = (search_pages srv n (page_span n) (Suc 7) [] ?U (max (?U - (page_span n - 1)) 1) (max ?U 1)
            :: (('s, 'z) imap_session_scheme, _) io)"
      using n by (simp add: search_recent_uids_def search_paged_def Let_def highest_asked_def page_span_def
          SEARCH_PAGES_def)
    have "covers K P ?U (?U + 1) []" by (auto simp: covers_def)
    have "covers K P ?U l f \<longleftrightarrow> {u \<in> K. l \<le> u} \<subseteq> set f \<and> set f \<subseteq> {u \<in> P. l \<le> u} \<and> distinct f" for l f
    proof -
      have "{u \<in> S. l \<le> u \<and> u \<le> ?U} = {u \<in> S. l \<le> u}" if "S \<subseteq> K \<union> P" for S using below that by auto
      then show ?thesis unfolding covers_def by simp
    qed
    note covers_all = this
    have "0 < page_span n" by (simp add: page_span_def)
    from search_pages_cover [OF assms(1,2) this n(2) refl \<open>covers K P ?U (?U + 1) []\<close> order.refl, of n 7 "max ?U 1"]
    show ?thesis unfolding run
      by (rule hoare_weaken) (simp_all add: covers_all n(1) SEARCH_PAGES_def)
  qed
qed

text \<open>
  C27. The windowed search names exactly what the server holds from the UID it reports as searched
  upwards, without duplicates, so no page it did not ask about is taken for empty; and it stops
  short of the window only at UID 1 or after eight full pages.
\<close>

theorem recent_search_is_exact:
  assumes "finds_all srv P" and "finds_only srv P" and "0 \<notin> P"
    and "\<And>n u. uid_next = Some n \<Longrightarrow> u \<in> P \<Longrightarrow> u < n"
    and "search_recent_uids srv window uid_next s = (Inr (found, lo), s')"
  shows "set found = {u \<in> P. lo \<le> u} \<and> distinct found
    \<and> (\<forall>n. window = Some n \<longrightarrow>
         n \<le> length found \<or> lo = 1 \<or> lo + SEARCH_PAGES * page_span n = highest_asked uid_next + 1)"
proof -
  have "hoare (\<lambda>_. True) (search_recent_uids srv window uid_next)
    (\<lambda>r _. {u \<in> P. snd r \<le> u} \<subseteq> set (fst r) \<and> set (fst r) \<subseteq> {u \<in> P. snd r \<le> u} \<and> distinct (fst r)
       \<and> (\<forall>n. window = Some n \<longrightarrow>
            searched_enough n (page_span n) SEARCH_PAGES (highest_asked uid_next) (fst r) (snd r))) (\<lambda>_. True)"
    using assms by (intro search_recent_cover) auto
  from hoareD(1) [OF this TrueI assms(5)] show ?thesis unfolding searched_enough_def by auto
qed

subsection \<open>Rows that stay\<close>

definition on_mail :: "(mail_db \<Rightarrow> bool) \<Rightarrow> 's world \<Rightarrow> bool" where
  "on_mail I w \<longleftrightarrow> I (w_mail w)"

lemma on_mail_simps [simp]:
  "on_mail I (w\<lparr>tag_counter := n\<rparr>) = on_mail I w" "on_mail I (w\<lparr>broken := b\<rparr>) = on_mail I w"
  "on_mail I (w\<lparr>conn := c\<rparr>) = on_mail I w" "on_mail I (w\<lparr>condstore_enabled := x\<rparr>) = on_mail I w"
  "on_mail I (w\<lparr>qresync_enabled := x\<rparr>) = on_mail I w" "on_mail I (w\<lparr>w_mail := d\<rparr>) = I d"
  "on_mail I (w\<lparr>w_settings := e\<rparr>) = on_mail I w"
  by (simp_all add: on_mail_def)

text \<open>Talking to the server does not touch the cache.\<close>

lemma keeps_mail_execute [keeps_rules]: "keeps (on_mail I) (execute srv cmd)"
  unfolding keeps_def by (rule hoare_execute) simp_all

lemma keeps_mail_off [keeps_rules]:
  "keeps (on_mail I) (modify_io (\<lambda>s. s\<lparr>condstore_enabled := False\<rparr>))"
  "keeps (on_mail I) (modify_io (\<lambda>s. s\<lparr>condstore_enabled := False, qresync_enabled := False\<rparr>))"
  by (auto intro!: keepsI simp: io_simps)

lemma keeps_mail_verbs [keeps_rules]:
  "keeps (on_mail I) (uid_search srv ks)"
  "keeps (on_mail I) (uid_fetch_messages srv uids)"
  "keeps (on_mail I) (uid_fetch_flags_changesince srv uids modseq)"
  "keeps (on_mail I) (uid_store_flags srv uids add flags)"
  "keeps (on_mail I) (session_select srv path q)"
  unfolding uid_search_def uid_fetch_messages_def uid_fetch_flags_eq uid_store_flags_def session_select_eq
    with_fallback_eq
  by (intro keeps_rules)+

lemma keeps_mail_search [keeps_rules]: "keeps (on_mail I) (search_recent_uids srv window uid_next)"
proof -
  have pages: "keeps (on_mail I) (search_pages srv want span n found hi lo low)" for want span n found hi lo low
    by (induction n arbitrary: found hi lo low) (unfold search_pages.simps Let_def, (intro keeps_rules; assumption?)+)
  show ?thesis
    unfolding search_recent_uids_def search_paged_def Let_def by (intro keeps_rules pages)
qed

lemma keeps_mail_db: "(\<And>d. I d \<Longrightarrow> I (snd (f d))) \<Longrightarrow> keeps (on_mail I) (db_io f)"
  by (rule keepsI) (auto simp: db_io_def on_mail_def split_beta)

lemma keeps_mail_do: "(\<And>d. I d \<Longrightarrow> I (snd (f d))) \<Longrightarrow> keeps (on_mail I) (db_do f)"
  unfolding db_do_def by (rule keeps_mail_db) (simp add: split_beta)

lemma keeps_mail_ready [keeps_rules]:
  "keeps (on_mail I) session_ready" "keeps (on_mail I) (account_get i)" "keeps (on_mail I) (db_get h)"
  by (auto intro!: keepsI simp: session_ready_def account_get_def db_get_def split: if_splits)

definition row_kept :: "message \<Rightarrow> mail_db \<Rightarrow> bool" where
  "row_kept m db \<longleftrightarrow> (\<exists>r \<in> set (db_messages db).
     m_id r = m_id m \<and> same_slot m r
     \<and> (m_flags_dirty m \<longrightarrow> m_flags_dirty r \<and> m_is_read r = m_is_read m \<and> m_is_starred r = m_is_starred m))"

lemma row_kept_update:
  assumes "row_kept m db" and "\<And>r. p r \<Longrightarrow> m_id (f r) = m_id r \<and> same_slot r (f r)"
    and "\<And>r. p r \<Longrightarrow> m_flags_dirty r \<Longrightarrow>
      m_flags_dirty (f r) \<and> m_is_read (f r) = m_is_read r \<and> m_is_starred (f r) = m_is_starred r"
  shows "row_kept m (db\<lparr>db_messages := update_where p f (db_messages db)\<rparr>)"
proof -
  let ?db' = "db\<lparr>db_messages := update_where p f (db_messages db)\<rparr>"
  from assms(1) obtain r where r: "r \<in> set (db_messages db)" "m_id r = m_id m" "same_slot m r"
    "m_flags_dirty m \<longrightarrow> m_flags_dirty r \<and> m_is_read r = m_is_read m \<and> m_is_starred r = m_is_starred m"
    by (auto simp: row_kept_def)
  let ?r = "if p r then f r else r"
  have "?r \<in> set (db_messages ?db')" using r(1) by (auto simp: set_update_where)
  moreover have "m_id ?r = m_id m" "same_slot m ?r" using r assms(2) by (auto simp: same_slot_def)
  moreover have "m_flags_dirty m \<longrightarrow> m_flags_dirty ?r \<and> m_is_read ?r = m_is_read m \<and> m_is_starred ?r = m_is_starred m"
    using r(4) assms(3) by auto
  ultimately show ?thesis unfolding row_kept_def by blast
qed

lemma row_kept_delete:
  assumes "row_kept m db" and "\<And>r. same_slot m r \<Longrightarrow> \<not> p r"
  shows "row_kept m (snd (delete_messages p db))"
  using assms unfolding row_kept_def delete_messages_def by (fastforce simp: table_simps)

lemma row_kept_rows: "row_kept m db \<Longrightarrow> db_messages db' = db_messages db \<Longrightarrow> row_kept m db'"
  by (simp add: row_kept_def)

lemma row_kept_note_flags: "row_kept m db \<Longrightarrow> row_kept m (note_flags env f ft db)"
  unfolding note_flags_def set_flags_by_uid_def Let_def split_beta
  by (erule row_kept_update) (auto simp: same_slot_def)

lemma row_kept_upsert: "row_kept m db \<Longrightarrow> row_kept m (snd (message_upsert now n db))"
proof (cases "find (same_slot n) (db_messages db)")
  case None
  then show "row_kept m db \<Longrightarrow> ?thesis" by (auto simp: message_upsert_def row_kept_def)
next
  case (Some r)
  then have "snd (message_upsert now n db)
      = db\<lparr>db_messages := update_where (same_slot n) (merged_row now n) (db_messages db)\<rparr>"
    by (simp add: message_upsert_def)
  then show "row_kept m db \<Longrightarrow> ?thesis"
    by (simp only:) (erule row_kept_update; auto simp: merged_row_def same_slot_def new_message.defs)
qed

lemma row_kept_sweep: "row_kept m db \<Longrightarrow> row_kept m (snd (set_read_clean_by_uids now fid uids q db))"
  unfolding set_read_clean_eq update_messages_def snd_conv
  by (erule row_kept_update) (auto simp: same_slot_def)

lemma row_kept_forget:
  "row_kept m db \<Longrightarrow> \<not> (m_folder_id m = fid \<and> m_uid m \<in> set uids) \<Longrightarrow> row_kept m (snd (delete_many_by_uids fid uids db))"
  unfolding delete_many_eq by (rule row_kept_delete) (auto simp: same_slot_def)

lemma row_kept_forget_one:
  "row_kept m db \<Longrightarrow> \<not> (m_folder_id m = fid \<and> m_uid m = u) \<Longrightarrow> row_kept m (snd (delete_by_uid fid u db))"
  unfolding delete_by_uid_def split_beta snd_conv
  by (rule row_kept_delete) (auto simp: same_slot_def)

lemma row_kept_state: "row_kept m db \<Longrightarrow> row_kept m (snd (set_sync_state now i v n t h db))"
  by (erule row_kept_rows) (simp add: set_sync_state_def update_folder_def Let_def)

subsection \<open>The steps of a sync keep the rows the server holds\<close>

lemma keeps_contacts:
  "keeps (on_mail (row_kept m)) (modify_io (\<lambda>w. w\<lparr>w_mail :=
     collect_contacts_from_headers (w_settings w) a r h (w_mail w)\<rparr>))"
  by (rule keeps_modify) (auto simp: on_mail_def intro: row_kept_rows)

lemma keeps_fetch_missing: "keeps (on_mail (row_kept m)) (fetch_missing env f adjust uids)"
  unfolding fetch_missing_def store_fetched_def
  by (intro keeps_rules keeps_contacts keeps_mail_do row_kept_upsert)

lemma keeps_refresh_flags: "keeps (on_mail (row_kept m)) (refresh_flags env f since uids)"
proof -
  have "row_kept m (fold (note_flags env f) fs d)" if "row_kept m d" for fs d
    using that by (induction fs arbitrary: d) (simp_all add: row_kept_note_flags)
  then have "keeps (on_mail (row_kept m)) (modify_io (\<lambda>w. w\<lparr>w_mail := fold (note_flags env f) fs (w_mail w)\<rparr>))" for fs
    by (intro keeps_modify) (simp add: on_mail_def)
  then show ?thesis unfolding refresh_flags_def by (intro keeps_rules)
qed

lemma keeps_sweep: "keeps (on_mail (row_kept m)) (sweep_trash_seen env fid)"
  unfolding sweep_trash_seen_def by (intro keeps_rules keeps_mail_do row_kept_sweep)

lemma keeps_save_state: "keeps (on_mail (row_kept m)) (save_state env f mb modseq)"
  unfolding save_state_def by (intro keeps_mail_db row_kept_state)

lemma set_chunk: "0 < n \<Longrightarrow> c \<in> set (chunks n xs) \<Longrightarrow> set c \<subseteq> set xs"
  by (metis Union_upper concat_chunks image_eqI set_concat)

lemma keeps_delete_chunks:
  assumes "m_folder_id m = fid \<Longrightarrow> m_uid m \<notin> set uids"
  shows "keeps (on_mail (row_kept m)) (delete_chunks fid uids n)"
  unfolding delete_chunks_def
proof (intro keeps_rules keeps_mail_do)
  fix chunk d
  assume "chunk \<in> set (chunks FETCH_CHUNK uids)" and "row_kept m d"
  then show "row_kept m (snd (delete_many_by_uids fid chunk d))"
    using assms set_chunk [of FETCH_CHUNK chunk uids] by (intro row_kept_forget) (auto simp: FETCH_CHUNK_def)
qed

lemma keeps_expunge_missing:
  assumes "m_folder_id m = fid \<Longrightarrow> m_uid m \<notin> set uids"
  shows "keeps (on_mail (row_kept m)) (expunge_missing fid uids)"
  unfolding expunge_missing_def
  using assms by (intro keeps_rules keeps_mail_do row_kept_forget_one) auto

text \<open>A \<open>VANISHED\<close> report is only believed for mail a search no longer finds.\<close>

lemma vanished_search:
  fixes srv :: "'s peer"
  assumes "finds_all srv K"
  shows "hoare (\<lambda>_ :: ('s, 'z) imap_session_scheme. True)
    (fold_io (\<lambda>chunk found.
        bind_io (lift_io (uids_to_sequence_set chunk)) (\<lambda>sq.
        bind_io (uid_search srv [Uid_Key sq]) (\<lambda>uids. ret_io (found @ uids))))
      (chunks FETCH_CHUNK named) [])
    (\<lambda>still _. K \<inter> set named \<subseteq> set still) (\<lambda>_. True)"
proof -
  let ?I = "\<lambda>past still (_ :: ('s, 'z) imap_session_scheme). K \<inter> set (concat past) \<subseteq> set still"
  let ?f = "\<lambda>chunk found. bind_io (lift_io (uids_to_sequence_set chunk)) (\<lambda>sq.
        bind_io (uid_search srv [Uid_Key sq]) (\<lambda>uids. ret_io (found @ uids)))
      :: (('s, 'z) imap_session_scheme, nat list) io"
  have "hoare (?I past b) (?f chunk b) (?I (past @ [chunk])) (\<lambda>_. True)" for past chunk b
  proof (cases "uids_to_sequence_set chunk")
    case (Inl e)
    then show ?thesis by (simp add: hoare_def io_simps)
  next
    case (Inr sq)
    have "hoare (\<lambda>_ :: ('s, 'z) imap_session_scheme. True) (uid_search srv [Uid_Key sq])
        (\<lambda>us _. K \<inter> set chunk \<subseteq> set us \<and> True) (\<lambda>_. True)"
    proof (rule hoare_search)
      fix tag c st evs c' r
      assume "srv tag (Search [Uid_Key sq]) c = (st, evs, c')" and "answer tag evs = Some r"
      then have "{u \<in> K. list_all (asked_for u) [Uid_Key sq]} \<subseteq> found_in r"
        using assms unfolding finds_all_def by blast
      then show "K \<inter> set chunk \<subseteq> found_in r" using sequence_set_same [OF Inr] by auto
    qed
    then have step: "hoare (\<lambda>_ :: ('s, 'z) imap_session_scheme. True) (?f chunk b)
        (\<lambda>still _. K \<inter> set chunk \<subseteq> set still \<and> set b \<subseteq> set still) (\<lambda>_. True)"
      unfolding Inr by (simp add: hoare_def io_simps bind_io_def split: prod.splits sum.splits) blast
    show ?thesis
    proof (rule hoareI)
      fix s x s'
      assume seen: "K \<inter> set (concat past) \<subseteq> set b" and run: "?f chunk b s = (Inr x, s')"
      from hoareD(1) [OF step TrueI run] seen show "K \<inter> set (concat (past @ [chunk])) \<subseteq> set x"
        unfolding concat_append set_append by auto
    qed simp
  qed
  from hoare_fold_done [where I = ?I and f = ?f and zs = "chunks FETCH_CHUNK named" and b = "[]", OF this]
  show ?thesis by (simp add: FETCH_CHUNK_def)
qed

lemma keeps_drop_vanished:
  assumes "finds_all (e_srv env) K" and "m_folder_id m = fid \<Longrightarrow> m_uid m \<in> K"
  shows "keeps (on_mail (row_kept m)) (drop_vanished env fid vanished)"
  unfolding drop_vanished_def
proof (intro keeps_if keeps_ret keeps_bind [OF keeps_get] keeps_bind_fact [OF vanished_search [OF assms(1)]])
  fix named still
  assume "K \<inter> set named \<subseteq> set still"
  then show "keeps (on_mail (row_kept m)) (delete_chunks fid (filter (\<lambda>u. u \<notin> set still) named) 0)"
    using assms(2) by (intro keeps_delete_chunks) auto
qed (intro keeps_rules)

text \<open>
  Each \<open>SELECT\<close> that is answered reports the mailbox the cache knows: its UIDVALIDITY is not another
  one, and its UIDNEXT, where given, is above every UID of the mail it held during the sync.
\<close>

definition same_mailbox :: "'s peer \<Rightarrow> nat set \<Rightarrow> folder \<Rightarrow> bool" where
  "same_mailbox srv P f \<longleftrightarrow>
     (\<forall>tag b p c st evs c' r. srv tag (Select b p) c = (st, evs, c') \<longrightarrow> answer tag evs = Some r \<longrightarrow>
        \<not> validity_differs f (select_outcome r)
        \<and> (\<forall>n. sr_uid_next (select_outcome r) = Some n \<longrightarrow> (\<forall>u \<in> P. u < n)))"

lemma hoare_select_fact:
  assumes "\<And>tag b p c st evs c' r. srv tag (Select b p) c = (st, evs, c') \<Longrightarrow> answer tag evs = Some r \<Longrightarrow>
      F (select_outcome r)"
  shows "hoare (\<lambda>_. True) (session_select srv path q) (\<lambda>mb _. F mb) (\<lambda>_. True)"
proof -
  have cmd: "hoare (\<lambda>_. True) (execute srv (Select b p)) (\<lambda>r _. F (select_outcome r)) (\<lambda>_. True)" for b p
    by (rule hoare_execute) (auto intro: assms)
  have fb: "hoare (\<lambda>_. True) (with_fallback srv (Select b p, on) (Select b Plain) off)
      (\<lambda>r _. F (select_outcome r)) (\<lambda>_. True)" for b p on off
    using cmd unfolding with_fallback_eq
    by (fastforce simp: hoare_def bind_io_def try_io_def get_io_def ret_io_def lift_io_def modify_io_def
        split: prod.splits sum.splits)
  show ?thesis
  proof (rule hoareI)
    fix s mb s'
    assume run: "session_select srv path q s = (Inr mb, s')"
    obtain b p on where sel: "select_command s (encode_modified_utf7 path) q = (Select b p, on)"
        "b = encode_modified_utf7 path"
      using select_command_is by blast
    from run obtain r where "with_fallback srv (Select b p, on) (Select b Plain)
        (\<lambda>s. s\<lparr>condstore_enabled := False, qresync_enabled := False\<rparr>) s = (Inr r, s')" "mb = select_outcome r"
      unfolding session_select_eq mailbox_for_wire_def
      by (auto simp: bind_io_def lift_io_def get_io_def ret_io_def sel split: prod.splits sum.splits)
    with hoareD(1) [OF fb TrueI] show "F mb" by blast
  qed simp
qed

lemma keeps_sync_searched:
  assumes "m_folder_id m = d_id f \<Longrightarrow> search_lo \<le> m_uid m \<Longrightarrow> m_uid m \<in> set server_uids"
  shows "keeps (on_mail (row_kept m))
    (sync_searched env f mb window False old_uids local_uids expunged server_uids search_lo)"
proof -
  have gone: "keeps (on_mail (row_kept m)) (expunge_missing (d_id f)
      (filter (\<lambda>u. search_lo \<le> u \<and> u \<notin> set server_uids) local_uids))"
    using assms by (intro keeps_expunge_missing) auto
  show ?thesis
    unfolding sync_searched_def Let_def if_False
    by (intro keeps_rules keeps_refresh_flags keeps_fetch_missing keeps_sweep keeps_save_state gone)
qed

lemma keeps_sync_selected:
  fixes env :: "'s env"
  assumes "finds_all (e_srv env) K" and "finds_only (e_srv env) P" and "0 \<notin> P" and "d_id f = fid"
    and "m_folder_id m = fid \<Longrightarrow> m_uid m \<in> K"
    and mb: "\<not> validity_differs f mb" "\<And>n u. sr_uid_next mb = Some n \<Longrightarrow> u \<in> K \<union> P \<Longrightarrow> u < n"
  shows "keeps (on_mail (row_kept m) :: 's world \<Rightarrow> bool) (sync_selected env f fid window mb)"
proof -
  have searched: "keeps (on_mail (row_kept m) :: 's world \<Rightarrow> bool)
      (bind_io (search_recent_uids (e_srv env) window (sr_uid_next mb)) (\<lambda>(server_uids, search_lo).
         sync_searched env f mb window False old_uids local_uids expunged server_uids search_lo))"
    for old_uids local_uids expunged
  proof (rule keeps_bind_fact [where F = "\<lambda>r. {u \<in> K. snd r \<le> u} \<subseteq> set (fst r)"])
    show "hoare (\<lambda>_ :: 's world. True) (search_recent_uids (e_srv env) window (sr_uid_next mb))
        (\<lambda>r _. {u \<in> K. snd r \<le> u} \<subseteq> set (fst r)) (\<lambda>_. True)"
      by (rule hoare_weaken [OF search_recent_cover [OF assms(1,2) mb(2) assms(3)]]) simp_all
  next
    fix r :: "nat list \<times> nat"
    assume "{u \<in> K. snd r \<le> u} \<subseteq> set (fst r)"
    then show "keeps (on_mail (row_kept m) :: 's world \<Rightarrow> bool) (case r of (server_uids, search_lo) \<Rightarrow>
         sync_searched env f mb window False old_uids local_uids expunged server_uids search_lo)"
      using assms(4,5) by (cases r) (auto intro!: keeps_sync_searched)
  qed (intro keeps_rules)
  have "validity_differs f mb = False" using mb by simp
  then show ?thesis
    unfolding sync_selected_def Let_def
    by (simp only:)
      (intro keeps_bind [OF keeps_get] keeps_bind [OF keeps_drop_vanished [OF assms(1,5)]] keeps_if
        searched keeps_bind [OF keeps_if] keeps_bind [OF keeps_save_state] keeps_sweep keeps_ret)
qed

lemma same_mailboxD:
  assumes "same_mailbox srv P f"
  shows "hoare (\<lambda>_. True) (session_select srv path q)
    (\<lambda>mb _. \<not> validity_differs f mb \<and> (\<forall>n. sr_uid_next mb = Some n \<longrightarrow> (\<forall>u \<in> P. u < n))) (\<lambda>_. True)"
  using assms unfolding same_mailbox_def by (intro hoare_select_fact) blast

lemma folder_get_id: "folder_get i db = Inr f \<Longrightarrow> d_id f = i"
  by (auto simp: folder_get_def dest: find_SomeD split: option.splits)

text \<open>
  C7. A sync never drops a cached mail the server still holds. Whatever else the server answers
  (wrong \<open>VANISHED\<close> ranges, errors, a broken connection) and wherever the sync stops, a row whose UID
  stays on the server under the same UIDVALIDITY, and every row of another folder, is still cached
  after it, under the same id; and flags the user changed and that were not pushed yet stay.
\<close>

theorem sync_keeps_what_the_server_holds:
  assumes "finds_all (e_srv env) K" and "finds_only (e_srv env) P" and "0 \<notin> P"
    and "same_mailbox (e_srv env) (K \<union> P) f" and "folder_get fid (w_mail w) = Inr f"
    and "m \<in> set (db_messages (w_mail w))" and "m_folder_id m = fid \<Longrightarrow> m_uid m \<in> K"
  shows "row_kept m (w_mail (snd (sync_folder_window env fid window w)))"
proof -
  have "keeps (on_mail (row_kept m))
     (bind_io (account_get (d_account_id f)) (\<lambda>_.
      bind_io session_ready (\<lambda>_.
      bind_io (session_select (e_srv env) (d_path f)
          (map_option (\<lambda>v. (v, d_highest_modseq f)) (d_uid_validity f))) (\<lambda>mb.
      sync_selected env f fid window mb))))" (is "keeps _ ?prog")
    by (intro keeps_bind [OF keeps_mail_ready(2)] keeps_bind [OF keeps_mail_ready(1)]
        keeps_bind_fact [OF same_mailboxD [OF assms(4)] keeps_mail_verbs(5)]
        keeps_sync_selected [OF assms(1-3) folder_get_id [OF assms(5)] assms(7)]) auto
  moreover have "sync_folder_window env fid window w = ?prog w"
    by (simp add: sync_folder_window_def db_get_is assms(5))
  moreover have "on_mail (row_kept m) w"
    using assms(6) unfolding on_mail_def row_kept_def same_slot_def by blast
  ultimately show ?thesis
    using keepsD [OF _ _ prod.collapse [symmetric]] by (metis on_mail_def)
qed

end
