(* ===== verification/Flag_Refinement.thy ===== *)
theory Flag_Refinement
  imports Flag_Sync Imap_Mutate Imap_Sync_Facts
begin

text \<open>
  \<open>push_dirty_flags\<close> of the engine, run over a session on a server, refines the abstract queue of
  \<open>Flag_Sync\<close>: whatever the server answers and wherever the run breaks off, the cache and the
  flags on the server change as some sequence of \<open>flag_step\<close>s. So what holds of every run of the queue
  holds of the engine.
\<close>

subsection \<open>What is relied on\<close>

text \<open>The flags (read, starred) of the mail a connection's server holds, and the selected mailbox.\<close>

record 's flag_view =
  fv_flags :: "'s \<Rightarrow> (string \<times> nat) \<rightharpoonup> bool \<times> bool"
  fv_selected :: "'s \<Rightarrow> string option"

definition flags_stored :: "bool \<Rightarrow> imap_flag list \<Rightarrow> bool \<times> bool \<Rightarrow> bool \<times> bool" where
  "flags_stored add fl x =
     (if Seen \<in> set fl then add else fst x, if Flagged \<in> set fl then add else snd x)"

definition after_store ::
  "'s flag_view \<Rightarrow> nat list \<Rightarrow> bool \<Rightarrow> imap_flag list \<Rightarrow> 's \<Rightarrow> (string \<times> nat) \<rightharpoonup> bool \<times> bool" where
  "after_store v us add fl c = (\<lambda>k.
     if fv_selected v c = Some (fst k) \<and> snd k \<in> set us then map_option (flags_stored add fl) (fv_flags v c k)
     else fv_flags v c k)"

text \<open>
  A \<open>SELECT\<close> changes no flags and, answered, selects; a \<open>STORE\<close> sets the flags of the selected mailbox's
  mail or fails, and then may have set them or not. Mail may go, but does not change otherwise.
\<close>

definition stores_flags :: "'s flag_view \<Rightarrow> 's peer \<Rightarrow> bool" where
  "stores_flags v srv \<longleftrightarrow> (\<forall>tag cmd c st evs c'. srv tag cmd c = (st, evs, c') \<longrightarrow>
     (case cmd of
        Select b _ \<Rightarrow> fv_flags v c' \<subseteq>\<^sub>m fv_flags v c
          \<and> (\<forall>r. answer tag evs = Some r \<longrightarrow> fv_selected v c' = Some b)
      | Store us add fl \<Rightarrow> fv_selected v c' = fv_selected v c
          \<and> (fv_flags v c' \<subseteq>\<^sub>m fv_flags v c \<or> fv_flags v c' \<subseteq>\<^sub>m after_store v us add fl c)
          \<and> (\<forall>r. answer tag evs = Some r \<longrightarrow> fv_flags v c' \<subseteq>\<^sub>m after_store v us add fl c)
      | _ \<Rightarrow> True))"

text \<open>Folders of the account are told apart by their id as by their name on the wire.\<close>

definition names_apart :: "int \<Rightarrow> folder list \<Rightarrow> bool" where
  "names_apart acc fs \<longleftrightarrow> (\<forall>f \<in> set fs. \<forall>g \<in> set fs. d_account_id f = acc \<longrightarrow> d_account_id g = acc \<longrightarrow>
     (encode_modified_utf7 (d_path f) = encode_modified_utf7 (d_path g) \<longleftrightarrow> d_id f = d_id g))"

definition flags_agree :: "'s flag_view \<Rightarrow> int \<Rightarrow> folder list \<Rightarrow> 's \<Rightarrow> (slot \<Rightarrow> bool \<times> bool) \<Rightarrow> bool" where
  "flags_agree v acc fs c server \<longleftrightarrow> (\<forall>f \<in> set fs. d_account_id f = acc \<longrightarrow> (\<forall>u x.
     fv_flags v c (encode_modified_utf7 (d_path f), u) = Some x \<longrightarrow> server (acc, d_id f, u) = x))"

text \<open>The world as a state of the queue, reached from \<open>s0\<close>, with the push at \<open>p\<close>.\<close>

definition sim :: "'s flag_view \<Rightarrow> int \<Rightarrow> flag_sys \<Rightarrow> push_state \<Rightarrow> 's world \<Rightarrow> bool" where
  "sim v acc s0 p w \<longleftrightarrow> (\<exists>s. flag_step\<^sup>*\<^sup>* s0 s \<and> fs_db s = w_mail w \<and> fs_push s = p
     \<and> flags_agree v acc (db_folders (w_mail w)) (conn w) (fs_server s))"

lemma sim_step:
  assumes "sim v acc s0 p w" and "\<And>s. fs_db s = w_mail w \<Longrightarrow> fs_push s = p \<Longrightarrow>
      flags_agree v acc (db_folders (w_mail w)) (conn w) (fs_server s) \<Longrightarrow>
      \<exists>t. flag_step s t \<and> fs_db t = w_mail w' \<and> fs_push t = q
        \<and> flags_agree v acc (db_folders (w_mail w')) (conn w') (fs_server t)"
  shows "sim v acc s0 q w'"
  using assms unfolding sim_def by (metis rtranclp.rtrancl_into_rtrancl)

lemma flags_agree_le: "flags_agree v acc fs c server \<Longrightarrow> fv_flags v c' \<subseteq>\<^sub>m fv_flags v c \<Longrightarrow> flags_agree v acc fs c' server"
  unfolding flags_agree_def map_le_def by (metis domI)

lemma sim_le: "sim v acc s0 p w \<Longrightarrow> w_mail w' = w_mail w \<Longrightarrow> fv_flags v (conn w') \<subseteq>\<^sub>m fv_flags v (conn w) \<Longrightarrow> sim v acc s0 p w'"
  unfolding sim_def using flags_agree_le by metis

lemma sim_abort: "sim v acc s0 p w \<Longrightarrow> sim v acc s0 NoPush w"
  by (erule sim_step) (rule exI, rule conjI [OF flag_step.fail], simp)

subsection \<open>The commands of a push\<close>

lemma sim_select:
  assumes srv: "stores_flags v srv"
  shows "hoare (sim v acc s0 p) (session_select srv path None)
    (\<lambda>_ w. sim v acc s0 p w \<and> fv_selected v (conn w) = Some (encode_modified_utf7 path)) (sim v acc s0 p)"
    (is "hoare ?P _ (\<lambda>_. ?Q) ?P")
proof -
  have select: "hoare ?P (execute srv (Select (encode_modified_utf7 path) par)) (\<lambda>_. ?Q) ?P" for par
    using srv unfolding stores_flags_def
    by (intro hoare_execute) (force elim: sim_le)+
  show ?thesis
  proof (rule hoare_session_select)
    show "hoare ?P (execute srv (Select (encode_modified_utf7 path) par)) (\<lambda>_. ?Q) ?P" for par by (rule select)
  qed (simp add: sim_def)
qed

text \<open>A \<open>STORE\<close> on the mail the push has picked, as one step of the queue.\<close>

lemma flags_agree_store:
  assumes agree: "flags_agree v acc fs c server" and apart: "names_apart acc fs"
    and f: "f \<in> set fs" "d_account_id f = acc" "d_id f = fid"
    and sel: "fv_selected v c = Some (encode_modified_utf7 (d_path f))"
    and le: "fv_flags v c' \<subseteq>\<^sub>m after_store v [u] add fl c"
  shows "flags_agree v acc fs c' (server((acc, fid, u) := flags_stored add fl (server (acc, fid, u))))"
  unfolding flags_agree_def
proof (intro ballI allI impI)
  fix g u' x
  assume g: "g \<in> set fs" "d_account_id g = acc"
    and x: "fv_flags v c' (encode_modified_utf7 (d_path g), u') = Some x"
  have same: "encode_modified_utf7 (d_path f) = encode_modified_utf7 (d_path g) \<longleftrightarrow> fid = d_id g"
    using apart f g unfolding names_apart_def by blast
  from le x have "after_store v [u] add fl c (encode_modified_utf7 (d_path g), u') = Some x"
    unfolding map_le_def by (metis domI)
  then have 1: "(if fid = d_id g \<and> u' = u then map_option (flags_stored add fl) (fv_flags v c (encode_modified_utf7 (d_path g), u'))
      else fv_flags v c (encode_modified_utf7 (d_path g), u')) = Some x"
    using sel same unfolding after_store_def by auto
  have held: "server (acc, d_id g, u') = y" if "fv_flags v c (encode_modified_utf7 (d_path g), u') = Some y" for y
    using agree g that unfolding flags_agree_def by blast
  show "(server((acc, fid, u) := flags_stored add fl (server (acc, fid, u)))) (acc, d_id g, u') = x"
  proof (cases "fid = d_id g \<and> u' = u")
    case True
    with 1 obtain y where "fv_flags v c (encode_modified_utf7 (d_path g), u') = Some y" "x = flags_stored add fl y" by auto
    with True held show ?thesis by simp
  next
    case False
    with 1 have "fv_flags v c (encode_modified_utf7 (d_path g), u') = Some x" by (metis (no_types))
    with False held show ?thesis by auto
  qed
qed

lemma sim_store:
  fixes srv :: "'s peer"
  assumes srv: "stores_flags v srv"
    and step: "\<And>s. fs_push s = p \<Longrightarrow> flag_step s (s\<lparr>fs_server := (fs_server s)((acc, fid, u) :=
        flags_stored add fl (fs_server s (acc, fid, u))), fs_push := q\<rparr>)"
    and f: "f \<in> set (db_folders db)" "d_account_id f = acc" "d_id f = fid" and apart: "names_apart acc (db_folders db)"
  shows "hoare (\<lambda>w. sim v acc s0 p w \<and> fv_selected v (conn w) = Some (encode_modified_utf7 (d_path f))
      \<and> w_mail w = db) (uid_store_flags srv [u] add fl)
    (\<lambda>_ w. sim v acc s0 q w \<and> fv_selected v (conn w) = Some (encode_modified_utf7 (d_path f))
      \<and> w_mail w = db) (\<lambda>w. sim v acc s0 NoPush w \<and> w_mail w = db)"
    (is "hoare ?P _ (\<lambda>_. ?Q) ?E")
proof -
  have stored: "sim v acc s0 q w'"
    if "?P w" "w_mail w' = w_mail w" "fv_flags v (conn w') \<subseteq>\<^sub>m after_store v [u] add fl (conn w)" for w w'
  proof (rule sim_step)
    show "sim v acc s0 p w" using that(1) by blast
  next
    fix s :: flag_sys
    assume s: "fs_db s = w_mail w" "fs_push s = p" "flags_agree v acc (db_folders (w_mail w)) (conn w) (fs_server s)"
    have "flags_agree v acc (db_folders db) (conn w') ((fs_server s)((acc, fid, u) := flags_stored add fl (fs_server s (acc, fid, u))))"
      using flags_agree_store [OF _ apart f _ that(3)] s(3) that(1) by auto
    then show "\<exists>t. flag_step s t \<and> fs_db t = w_mail w' \<and> fs_push t = q
        \<and> flags_agree v acc (db_folders (w_mail w')) (conn w') (fs_server t)"
      using step [OF s(2)] s(1) that(1,2)
      by (intro exI [of _ "s\<lparr>fs_server := (fs_server s)((acc, fid, u) := flags_stored add fl (fs_server s (acc, fid, u))),
        fs_push := q\<rparr>"]) simp
  qed
  have "hoare ?P (execute srv (Store [u] add fl)) (\<lambda>_. ?Q) ?E"
  proof (rule hoare_execute)
    fix s assume "?P s" then show "?E s" by (blast intro: sim_abort)
  next
    fix s tag st evs c n b
    assume P: "?P s" and run: "srv tag (Store [u] add fl) (conn s) = (st, evs, c)"
    let ?s = "s\<lparr>tag_counter := n, conn := c, broken := b\<rparr>"
    from srv run have "fv_flags v c \<subseteq>\<^sub>m fv_flags v (conn s) \<or> fv_flags v c \<subseteq>\<^sub>m after_store v [u] add fl (conn s)"
      unfolding stores_flags_def by fastforce
    then have "sim v acc s0 p ?s \<or> sim v acc s0 q ?s"
      using stored [OF P, of ?s] sim_le [of v acc s0 p s ?s] P by auto
    then show "?E ?s" using P by (auto intro: sim_abort)
  next
    fix s tag st evs c n r
    assume P: "?P s" and run: "srv tag (Store [u] add fl) (conn s) = (st, evs, c)" "answer tag evs = Some r"
    from srv run have "fv_flags v c \<subseteq>\<^sub>m after_store v [u] add fl (conn s)" "fv_selected v c = fv_selected v (conn s)"
      unfolding stores_flags_def by fastforce+
    then show "?Q (s\<lparr>tag_counter := n, conn := c\<rparr>)" using P stored [OF P, of "s\<lparr>tag_counter := n, conn := c\<rparr>"] by simp
  qed
  note store = this
  show ?thesis
  proof (cases "u = 0")
    case True
    then show ?thesis
      by (auto simp: uid_store_flags_def uids_to_sequence_set_def clean_uids_def hoare_def io_simps intro: sim_abort)
  next
    case False
    then have "(uid_store_flags srv [u] add fl :: ('s world, unit) io) = bind_io (execute srv (Store [u] add fl)) (\<lambda>_. ret_io ())"
      by (intro ext) (simp add: uid_store_flags_def uids_to_sequence_set_def clean_uids_def bind_io_def lift_io_def)
    then show ?thesis by (simp only:) (rule hoare_bind, rule store, rule hoare_ret)
  qed
qed

subsection \<open>One message, and the run\<close>

lemma sim_ready: "hoare (sim v acc s0 p) session_ready (\<lambda>_. sim v acc s0 p) (sim v acc s0 p)"
  by (auto simp: hoare_def session_ready_def)

text \<open>The rows are as they were: only the mail's own state moves the queue.\<close>

lemma sim_push_flags:
  assumes srv: "stores_flags v (e_srv env)" and apart: "names_apart acc (db_folders db)"
    and m: "m_account_id m = acc" "m \<in> set (list_flags_dirty acc db)"
    and owned: "\<forall>f \<in> set (db_folders db). d_id f = m_folder_id m \<longrightarrow> d_account_id f = acc"
  shows "hoare (\<lambda>w. sim v acc s0 NoPush w \<and> w_mail w = db) (push_flags env m)
    (\<lambda>_ w. sim v acc s0 (Stored m) w \<and> w_mail w = db) (\<lambda>w. sim v acc s0 NoPush w \<and> w_mail w = db)"
proof -
  let ?at = "\<lambda>p f w. sim v acc s0 p w \<and> fv_selected v (conn w) = Some (encode_modified_utf7 (d_path f)) \<and> w_mail w = db"
  let ?E = "\<lambda>w. sim v acc s0 NoPush w \<and> w_mail w = db"
  have slot: "slot_of m = (acc, m_folder_id m, m_uid m)" using m(1) by (simp add: slot_of_def)
  have stores: "hoare (?at (Picked m) f)
      (bind_io (uid_store_flags (e_srv env) [m_uid m] (m_is_read m) [Seen]) (\<lambda>_.
       uid_store_flags (e_srv env) [m_uid m] (m_is_starred m) [Flagged]))
      (\<lambda>_ w. sim v acc s0 (Stored m) w \<and> w_mail w = db) ?E"
    if f: "f \<in> set (db_folders db)" "d_account_id f = acc" "d_id f = m_folder_id m" for f
  proof (rule hoare_bind)
    show "hoare (?at (Picked m) f) (uid_store_flags (e_srv env) [m_uid m] (m_is_read m) [Seen])
        (\<lambda>_. ?at (Seen_Stored m) f) ?E"
      using flag_step.seen by (intro sim_store [OF srv _ f apart]) (force simp: store_seen_def slot flags_stored_def)
    have "hoare (?at (Seen_Stored m) f) (uid_store_flags (e_srv env) [m_uid m] (m_is_starred m) [Flagged])
        (\<lambda>_. ?at (Stored m) f) ?E"
      using flag_step.flagged by (intro sim_store [OF srv _ f apart]) (force simp: store_flagged_def slot flags_stored_def)
    then show "hoare (?at (Seen_Stored m) f) (uid_store_flags (e_srv env) [m_uid m] (m_is_starred m) [Flagged])
        (\<lambda>_ w. sim v acc s0 (Stored m) w \<and> w_mail w = db) ?E"
      by (rule hoare_weaken) auto
  qed
  have run: "hoare (\<lambda>w. sim v acc s0 (Picked m) w \<and> w_mail w = db) (push_flags env m)
      (\<lambda>_ w. sim v acc s0 (Stored m) w \<and> w_mail w = db) ?E"
    unfolding push_flags_def
  proof (rule hoare_bind)
    show "hoare (\<lambda>w. sim v acc s0 (Picked m) w \<and> w_mail w = db) (db_get (folder_get (m_folder_id m)))
        (\<lambda>f w. (f \<in> set (db_folders db) \<and> d_id f = m_folder_id m) \<and> sim v acc s0 (Picked m) w \<and> w_mail w = db) ?E"
      by (auto simp: hoare_def db_get_def folder_get_def intro: sim_abort dest: find_SomeD split: option.split)
  next
    fix f :: folder
    have select: "hoare (\<lambda>w. sim v acc s0 (Picked m) w \<and> w_mail w = db) (session_select (e_srv env) (d_path f) None)
        (\<lambda>_. ?at (Picked m) f) ?E"
      by (rule hoare_weaken [OF hoare_conj [OF sim_select [OF srv, where p = "Picked m"]
              keeps_hoare [OF keeps_mail_verbs(5) [of "\<lambda>d. d = db", unfolded on_mail_def]]]])
        (auto intro: sim_abort)
    have ready: "hoare (\<lambda>w. sim v acc s0 (Picked m) w \<and> w_mail w = db) session_ready
        (\<lambda>_ w. sim v acc s0 (Picked m) w \<and> w_mail w = db) ?E"
      by (auto simp: hoare_def session_ready_def intro: sim_abort)
    show "hoare (\<lambda>w. (f \<in> set (db_folders db) \<and> d_id f = m_folder_id m) \<and> sim v acc s0 (Picked m) w \<and> w_mail w = db)
        (bind_io session_ready (\<lambda>_.
         bind_io (session_select (e_srv env) (d_path f) None) (\<lambda>_.
         bind_io (uid_store_flags (e_srv env) [m_uid m] (m_is_read m) [Seen]) (\<lambda>_.
         uid_store_flags (e_srv env) [m_uid m] (m_is_starred m) [Flagged]))))
        (\<lambda>_ w. sim v acc s0 (Stored m) w \<and> w_mail w = db) ?E"
    proof (rule hoare_given, elim conjE)
      assume f: "f \<in> set (db_folders db)" "d_id f = m_folder_id m"
      with owned have "d_account_id f = acc" by blast
      then show "hoare (\<lambda>w. sim v acc s0 (Picked m) w \<and> w_mail w = db)
          (bind_io session_ready (\<lambda>_.
           bind_io (session_select (e_srv env) (d_path f) None) (\<lambda>_.
           bind_io (uid_store_flags (e_srv env) [m_uid m] (m_is_read m) [Seen]) (\<lambda>_.
           uid_store_flags (e_srv env) [m_uid m] (m_is_starred m) [Flagged]))))
          (\<lambda>_ w. sim v acc s0 (Stored m) w \<and> w_mail w = db) ?E"
        by (intro hoare_bind [OF ready] hoare_bind [OF select] stores f)
    qed
  qed
  show ?thesis
  proof (rule hoare_pre [OF run])
    fix w
    assume w: "sim v acc s0 NoPush w \<and> w_mail w = db"
    have "sim v acc s0 (Picked m) w"
    proof (rule sim_step)
      fix s :: flag_sys
      assume s: "fs_db s = w_mail w" "fs_push s = NoPush" "flags_agree v acc (db_folders (w_mail w)) (conn w) (fs_server s)"
      then show "\<exists>t. flag_step s t \<and> fs_db t = w_mail w \<and> fs_push t = Picked m
          \<and> flags_agree v acc (db_folders (w_mail w)) (conn w) (fs_server t)"
        using flag_step.pick [OF s(2), of m acc] m(2) w by (intro exI [of _ "s\<lparr>fs_push := Picked m\<rparr>"]) simp
    qed (use w in blast)
    then show "sim v acc s0 (Picked m) w \<and> w_mail w = db" using w by blast
  qed
qed

lemma sim_clear:
  assumes "sim v acc s0 (Stored m) w"
  shows "sim v acc s0 NoPush (w\<lparr>w_mail := snd (clear_flags_dirty (m_id m) (m_is_read m) (m_is_starred m) (w_mail w))\<rparr>)"
proof (rule sim_step [OF assms])
  fix s :: flag_sys
  assume s: "fs_db s = w_mail w" "fs_push s = Stored m" "flags_agree v acc (db_folders (w_mail w)) (conn w) (fs_server s)"
  let ?d = "snd (clear_flags_dirty (m_id m) (m_is_read m) (m_is_starred m) (w_mail w))"
  have "db_folders ?d = db_folders (w_mail w)" by (simp add: clear_flags_dirty_def Let_def)
  then show "\<exists>t. flag_step s t \<and> fs_db t = w_mail (w\<lparr>w_mail := ?d\<rparr>) \<and> fs_push t = NoPush
      \<and> flags_agree v acc (db_folders (w_mail (w\<lparr>w_mail := ?d\<rparr>))) (conn (w\<lparr>w_mail := ?d\<rparr>)) (fs_server t)"
    using flag_step.clear [OF s(2)] s(1,3) by (intro exI [of _ "s\<lparr>fs_db := ?d, fs_push := NoPush\<rparr>"]) simp
qed

text \<open>What the rest of the run needs of the cache.\<close>

definition still_dirty :: "int \<Rightarrow> message list \<Rightarrow> folder list \<Rightarrow> mail_db \<Rightarrow> bool" where
  "still_dirty acc ms fs db \<longleftrightarrow> messages_wf db \<and> db_folders db = fs \<and> set ms \<subseteq> set (list_flags_dirty acc db)"

lemma set_list_flags_dirty: "set (list_flags_dirty acc db) = {m \<in> set (db_messages db). m_account_id m = acc \<and> m_flags_dirty m}"
  by (auto simp: list_flags_dirty_def)

lemma still_dirty_clear:
  assumes "still_dirty acc (m # ms) fs db" and "distinct (m # ms)"
  shows "still_dirty acc ms fs (snd (clear_flags_dirty (m_id m) r st db))"
proof -
  have wf: "messages_wf db" and rows: "set (m # ms) \<subseteq> set (db_messages db)"
    using assms(1) by (auto simp: still_dirty_def set_list_flags_dirty)
  have "messages_wf (snd (clear_flags_dirty (m_id m) r st db))"
    using wf by (simp add: clear_flags_dirty_def Let_def messages_wf_update slot_of_def)
  moreover have "x \<in> set (list_flags_dirty acc (snd (clear_flags_dirty (m_id m) r st db)))" if "x \<in> set ms" for x
  proof -
    have "x \<noteq> m" using that assms(2) by auto
    then have "m_id x \<noteq> m_id m" using messages_wf_inj(2) [OF wf] rows that by auto
    then show ?thesis
      using assms(1) that unfolding still_dirty_def set_list_flags_dirty
      by (auto simp: clear_flags_dirty_def Let_def update_where_def set_list_flags_dirty intro!: image_eqI [of _ _ x])
  qed
  ultimately show ?thesis using assms(1) by (auto simp: still_dirty_def clear_flags_dirty_def Let_def)
qed

lemma sim_push_one:
  assumes srv: "stores_flags v (e_srv env)" and apart: "names_apart acc fs"
    and owned: "\<forall>f \<in> set fs. d_id f = m_folder_id m \<longrightarrow> d_account_id f = acc" and d: "distinct (m # ms)"
  shows "hoare (\<lambda>w. sim v acc s0 NoPush w \<and> still_dirty acc (m # ms) fs (w_mail w))
    (bind_io (try_io (push_flags env m)) (\<lambda>r.
       case r of
         Inl _ \<Rightarrow> ret_io pushed
       | Inr _ \<Rightarrow> bind_io (db_do (clear_flags_dirty (m_id m) (m_is_read m) (m_is_starred m))) (\<lambda>_. ret_io (pushed + 1))))
    (\<lambda>_ w. sim v acc s0 NoPush w \<and> still_dirty acc ms fs (w_mail w)) (\<lambda>_. False)"
proof -
  have "sim v acc s0 NoPush w2 \<and> still_dirty acc ms fs (w_mail w2)"
    if w: "sim v acc s0 NoPush w" "still_dirty acc (m # ms) fs (w_mail w)" and run: "push_flags env m w = (r, w1)"
      and w2: "w2 = (case r of Inl _ \<Rightarrow> w1 | Inr _ \<Rightarrow>
            w1\<lparr>w_mail := snd (clear_flags_dirty (m_id m) (m_is_read m) (m_is_starred m) (w_mail w1))\<rparr>)" for w w1 w2 r
  proof -
    have m: "m_account_id m = acc" "m \<in> set (list_flags_dirty acc (w_mail w))"
      and fs: "db_folders (w_mail w) = fs"
      using w(2) by (auto simp: still_dirty_def set_list_flags_dirty)
    from sim_push_flags [OF srv apart [folded fs] m owned [folded fs]]
    have h: "hoare (\<lambda>u. sim v acc s0 NoPush u \<and> w_mail u = w_mail w) (push_flags env m)
        (\<lambda>_ u. sim v acc s0 (Stored m) u \<and> w_mail u = w_mail w) (\<lambda>u. sim v acc s0 NoPush u \<and> w_mail u = w_mail w)" .
    show ?thesis
    proof (cases r)
      case (Inl e)
      from hoareD(2) [OF h _ run [unfolded Inl]] w w2 Inl show ?thesis
        by (auto simp: still_dirty_def)
    next
      case (Inr x)
      from hoareD(1) [OF h _ run [unfolded Inr]] w have "sim v acc s0 (Stored m) w1" "w_mail w1 = w_mail w" by auto
      with sim_clear [OF this(1)] still_dirty_clear [OF w(2) d] w2 Inr show ?thesis by simp
    qed
  qed
  then show ?thesis
    by (fastforce simp: hoare_def bind_io_def try_io_def db_do_def db_io_def ret_io_def split: prod.splits sum.splits)
qed

subsection \<open>The refinement\<close>

definition mail_owned :: "int \<Rightarrow> mail_db \<Rightarrow> bool" where
  "mail_owned acc db \<longleftrightarrow> (\<forall>m \<in> set (db_messages db). m_account_id m = acc \<longrightarrow>
     (\<forall>f \<in> set (db_folders db). d_id f = m_folder_id m \<longrightarrow> d_account_id f = acc))"

lemma push_dirty_simulates:
  assumes srv: "stores_flags v (e_srv env)" and apart: "names_apart acc (db_folders (w_mail w))"
    and wf: "messages_wf (w_mail w)" and owned: "mail_owned acc (w_mail w)"
    and s: "fs_db s = w_mail w" "fs_push s = NoPush" "flags_agree v acc (db_folders (w_mail w)) (conn w) (fs_server s)"
    and run: "push_dirty_flags env acc w = (r, w')"
  shows "\<exists>pushed. r = Inr pushed \<and> sim v acc s NoPush w'"
proof -
  let ?dirty = "list_flags_dirty acc (w_mail w)" and ?fs = "db_folders (w_mail w)"
  have "distinct (db_messages (w_mail w))" using wf by (simp add: messages_wf_def distinct_map)
  then have d: "distinct ?dirty" by (simp add: list_flags_dirty_def)
  let ?I = "\<lambda>(ms :: message list) (_ :: nat) w. sim v acc s NoPush w \<and> still_dirty acc (drop (length ms) ?dirty) ?fs (w_mail w)"
  let ?body = "\<lambda>m pushed. bind_io (try_io (push_flags env m)) (\<lambda>r.
       case r of
         Inl _ \<Rightarrow> ret_io pushed
       | Inr _ \<Rightarrow> bind_io (db_do (clear_flags_dirty (m_id m) (m_is_read m) (m_is_starred m))) (\<lambda>_. ret_io (pushed + 1)))"
  have step: "hoare (?I xs b) (?body m b) (?I (xs @ [m])) (\<lambda>_. False)" if split: "?dirty = xs @ m # ys" for xs m ys b
  proof -
    have here: "drop (length xs) ?dirty = m # ys" "drop (length (xs @ [m])) ?dirty = ys" using split by simp_all
    have "distinct (m # ys)" using d split by (metis distinct_append)
    moreover have "\<forall>f \<in> set ?fs. d_id f = m_folder_id m \<longrightarrow> d_account_id f = acc"
    proof -
      have "m \<in> set ?dirty" using split by simp
      then show ?thesis using owned unfolding set_list_flags_dirty mail_owned_def by blast
    qed
    ultimately show ?thesis
      unfolding here by (intro sim_push_one [OF srv apart])
  qed
  have all: "hoare (?I [] 0) (fold_io ?body ?dirty 0) (?I ?dirty) (\<lambda>_. False)"
    by (rule hoare_fold_done) (rule step)
  have start: "?I [] 0 w" using s wf by (auto simp: sim_def still_dirty_def)
  have run': "fold_io ?body ?dirty 0 w = (r, w')" using run unfolding push_dirty_flags_def bind_io_get .
  obtain n where r: "r = Inr n" using hoareD(2) [OF all start] run' by (cases r) auto
  from hoareD(1) [OF all start run' [unfolded r]] r show ?thesis by blast
qed

text \<open>
  C9. The engine's push of read and star changes refines the abstract queue of \<open>Flag_Sync\<close>: from any
  state of the queue that has the engine's cache and agrees with the server's flags, the run ends
  without an error, and cache and server end in a state the queue reaches by its own steps, whatever
  the server refused and wherever it failed.
\<close>

theorem push_refines_flag_queue:
  assumes "stores_flags v (e_srv env)" and "names_apart acc (db_folders (w_mail w))"
    and "messages_wf (w_mail w)" and "mail_owned acc (w_mail w)"
    and "fs_db s = w_mail w" "fs_push s = NoPush" "flags_agree v acc (db_folders (w_mail w)) (conn w) (fs_server s)"
    and "push_dirty_flags env acc w = (r, w')"
  shows "\<exists>pushed s'. r = Inr pushed \<and> flag_step\<^sup>*\<^sup>* s s' \<and> fs_db s' = w_mail w' \<and> fs_push s' = NoPush
    \<and> flags_agree v acc (db_folders (w_mail w')) (conn w') (fs_server s')"
  using push_dirty_simulates [OF assms] unfolding sim_def by blast

subsection \<open>What it means for the mail\<close>

text \<open>Mail of the account that is not marked has on the server the flags it has in the cache.\<close>

definition flags_in_step :: "'s flag_view \<Rightarrow> int \<Rightarrow> 's world \<Rightarrow> bool" where
  "flags_in_step v acc w \<longleftrightarrow> (\<forall>m \<in> set (db_messages (w_mail w)). \<forall>f \<in> set (db_folders (w_mail w)). \<forall>x.
     m_account_id m = acc \<longrightarrow> d_id f = m_folder_id m \<longrightarrow> \<not> m_flags_dirty m \<longrightarrow>
     fv_flags v (conn w) (encode_modified_utf7 (d_path f), m_uid m) = Some x \<longrightarrow> x = flags_of m)"

definition wish_of :: "mail_db \<Rightarrow> slot \<Rightarrow> bool \<times> bool" where
  "wish_of db k = (case find (\<lambda>m. slot_of m = k) (db_messages db) of Some m \<Rightarrow> flags_of m | None \<Rightarrow> (False, False))"

definition server_of :: "'s flag_view \<Rightarrow> int \<Rightarrow> 's world \<Rightarrow> slot \<Rightarrow> bool \<times> bool" where
  "server_of v acc w = (\<lambda>(a, fid, u).
     (case find (\<lambda>f. d_account_id f = a \<and> d_id f = fid \<and> a = acc) (db_folders (w_mail w)) of
        None \<Rightarrow> wish_of (w_mail w) (a, fid, u)
      | Some f \<Rightarrow> (case fv_flags v (conn w) (encode_modified_utf7 (d_path f), u) of
            None \<Rightarrow> wish_of (w_mail w) (a, fid, u) | Some x \<Rightarrow> x)))"

lemma server_of_agrees:
  assumes "names_apart acc (db_folders (w_mail w))"
  shows "flags_agree v acc (db_folders (w_mail w)) (conn w) (server_of v acc w)"
  unfolding flags_agree_def
proof (intro ballI impI allI)
  fix f u x
  assume f: "f \<in> set (db_folders (w_mail w))" "d_account_id f = acc"
    and x: "fv_flags v (conn w) (encode_modified_utf7 (d_path f), u) = Some x"
  obtain g where g: "find (\<lambda>g. d_account_id g = acc \<and> d_id g = d_id f) (db_folders (w_mail w)) = Some g"
    using f by (cases "find (\<lambda>g. d_account_id g = acc \<and> d_id g = d_id f) (db_folders (w_mail w))") (auto simp: find_None_iff)
  then have "encode_modified_utf7 (d_path g) = encode_modified_utf7 (d_path f)"
    using f assms unfolding names_apart_def by (auto dest!: find_SomeD)
  then show "server_of v acc w (acc, d_id f, u) = x" using g x by (simp add: server_of_def)
qed

lemma flags_in_step_start:
  assumes wf: "messages_wf (w_mail w)" and "flags_in_step v acc w"
  shows "flag_inv \<lparr>fs_db = w_mail w, fs_server = server_of v acc w, fs_push = NoPush, fs_wish = wish_of (w_mail w)\<rparr>"
proof -
  have wish: "wish_of (w_mail w) (slot_of m) = flags_of m" if "m \<in> set (db_messages (w_mail w))" for m
  proof (cases "find (\<lambda>r. slot_of r = slot_of m) (db_messages (w_mail w))")
    case None
    then show ?thesis using that by (auto simp: find_None_iff)
  next
    case (Some r)
    have "r = m" using find_SomeD [OF Some] messages_wf_inj(1) [OF wf _ that] by blast
    with Some show ?thesis by (simp add: wish_of_def)
  qed
  have "server_of v acc w (slot_of m) = flags_of m"
    if m: "m \<in> set (db_messages (w_mail w))" "\<not> m_flags_dirty m" for m
  proof (cases "find (\<lambda>f. d_account_id f = m_account_id m \<and> d_id f = m_folder_id m \<and> m_account_id m = acc) (db_folders (w_mail w))")
    case None
    then show ?thesis using wish [OF m(1)] by (simp add: server_of_def slot_of_def)
  next
    case (Some f)
    with find_SomeD [OF Some] m assms(2) wish [OF m(1)] show ?thesis
      unfolding flags_in_step_def by (auto simp: server_of_def slot_of_def split: option.split)
  qed
  with wish wf show ?thesis by (auto simp: flag_inv_def)
qed

lemma keeps_mail_owned: "keeps (on_mail (mail_owned acc)) (push_dirty_flags env acc)"
  unfolding push_dirty_flags_def push_flags_def
  by (intro keeps_rules keeps_mail_do) (auto simp: mail_owned_def clear_flags_dirty_def Let_def table_simps)

text \<open>
  C10. A push never leaves a difference unmarked: if before it every unmarked message has the same flags
  on the server as in the cache, so has every unmarked message afterwards. A mark is cleared only
  when the server has the flags, also when a \<open>STORE\<close> in between is refused, lost or half done.
\<close>

theorem push_keeps_flags_in_step:
  assumes "stores_flags v (e_srv env)" and "names_apart acc (db_folders (w_mail w))"
    and "messages_wf (w_mail w)" and "mail_owned acc (w_mail w)"
    and "flags_in_step v acc w" and "push_dirty_flags env acc w = (r, w')"
  shows "flags_in_step v acc w'"
proof -
  define s where "s = \<lparr>fs_db = w_mail w, fs_server = server_of v acc w, fs_push = NoPush, fs_wish = wish_of (w_mail w)\<rparr>"
  have "mail_owned acc (w_mail w')"
    using keepsD [OF keeps_mail_owned _ assms(6)] assms(4) by (simp add: on_mail_def)
  moreover have agree: "flags_agree v acc (db_folders (w_mail w)) (conn w) (fs_server s)"
    unfolding s_def using server_of_agrees [OF assms(2)] by simp
  from push_dirty_simulates [OF assms(1-4) _ _ this assms(6)] obtain s' where
    s': "flag_step\<^sup>*\<^sup>* s s'" "fs_db s' = w_mail w'" "fs_push s' = NoPush"
      "flags_agree v acc (db_folders (w_mail w')) (conn w') (fs_server s')"
    unfolding sim_def s_def by auto
  have "flag_inv s'"
    using flag_inv_reach [OF s'(1)] flags_in_step_start [OF assms(3,5)] by (simp add: s_def)
  ultimately show ?thesis
    using s' unfolding flags_in_step_def flag_inv_def flags_agree_def mail_owned_def
    by (fastforce simp: slot_of_def)
qed

end
