(* ===== verification/Undo.thy ===== *)
theory Undo
  imports Imap_Mutate
begin

text \<open>
  Undoable delete, archive and move (\<open>undo.rs\<close>), actions on a selection across folders (\<open>bulk.rs\<close>)
  and the timer that pushes after the grace period (\<open>undo/grace.rs\<close>). The batch name, a fresh UUID,
  is an argument. Errors are the text the user reads. Checking a session out of the pool is the
  parameter \<open>checkout\<close>.
\<close>

subsection \<open>Queueing one folder's share\<close>

definition UNDO_GRACE_SECS :: int where
  "UNDO_GRACE_SECS = 8"

datatype move_target = Target_Trash | Target_Archive | Target_Folder string

datatype queued = Queued_Pending string nat string | Queued_Permanent | Queued_AlreadyThere

datatype share = Share_Pending nat pending_action string | Share_Permanent | Share_AlreadyThere

definition other_trash :: "folder \<Rightarrow> folder \<Rightarrow> bool" where
  "other_trash src f \<longleftrightarrow> d_role f = Trash \<and> d_id f \<noteq> d_id src"

definition delete_is_permanent :: "folder \<Rightarrow> folder list \<Rightarrow> bool" where
  "delete_is_permanent src known \<longleftrightarrow> d_role src = Junk \<or> \<not> list_ex (other_trash src) known"

record delete_prompt =
  dp_permanent :: bool
  dp_ask :: bool

definition delete_prompt_for :: "bool \<Rightarrow> bool \<Rightarrow> bool option list \<Rightarrow> delete_prompt" where
  "delete_prompt_for confirm_pref bulk permanent =
     (let perm = (permanent = [] \<or> list_ex (\<lambda>p. p \<noteq> Some False) permanent)
      in \<lparr>dp_permanent = perm, dp_ask = perm \<or> bulk \<or> confirm_pref\<rparr>)"

definition move_label :: "pending_action \<Rightarrow> nat \<Rightarrow> string \<Rightarrow> string" where
  "move_label action count place =
     (case action of
        To_Archive \<Rightarrow> ''Archived '' @ string_of_nat count @ '' to '' @ place
      | _ \<Rightarrow> ''Moved '' @ string_of_nat count @ '' to '' @ place)"

datatype destination = Dest pending_action "int option" string | Dest_Permanent | Dest_Here | Dest_Unknown string

definition destination_of :: "folder \<Rightarrow> folder list \<Rightarrow> move_target \<Rightarrow> destination" where
  "destination_of src known target =
     (case target of
        Target_Trash \<Rightarrow>
          if delete_is_permanent src known then Dest_Permanent
          else Dest To_Trash None (case find (other_trash src) known of None \<Rightarrow> [] | Some t \<Rightarrow> d_path t)
      | Target_Archive \<Rightarrow>
          (case find (\<lambda>f. d_role f = Archive) known of
             Some a \<Rightarrow> if d_id a = d_id src then Dest_Here else Dest To_Archive (Some (d_id a)) (d_path a)
           | None \<Rightarrow> Dest To_Archive None ''Archive'')
      | Target_Folder path \<Rightarrow>
          (case find (\<lambda>f. d_path f = path) known of
             None \<Rightarrow> Dest_Unknown (''unknown folder '' @ path)
           | Some d \<Rightarrow> if d_id d = d_id src then Dest_Here else Dest To_Folder (Some (d_id d)) (d_path d)))"

definition queue_into ::
  "instant \<Rightarrow> int \<Rightarrow> int \<Rightarrow> nat list \<Rightarrow> move_target \<Rightarrow> string \<Rightarrow> int \<Rightarrow> mail_db
    \<Rightarrow> (string + share) \<times> mail_db" where
  "queue_into now account_id folder_id uids target batch grace_secs db =
     (if uids = [] then (Inl ''no messages selected'', db)
      else (case folder_get folder_id db of
          Inl _ \<Rightarrow> (Inl ''unknown folder'', db)
        | Inr src \<Rightarrow>
            if d_account_id src \<noteq> account_id then (Inl ''folder does not belong to this account'', db)
            else (case destination_of src (list_by_account account_id db) target of
                Dest_Permanent \<Rightarrow> (Inr Share_Permanent, db)
              | Dest_Here \<Rightarrow> (Inr Share_AlreadyThere, db)
              | Dest_Unknown e \<Rightarrow> (Inl e, db)
              | Dest action dest_id place \<Rightarrow>
                  let ids = ids_by_uids folder_id uids db in
                  if ids = [] then (Inl ''message is no longer available'', db)
                  else (case pending_queue ids action dest_id batch (secs (now + grace_secs * ns_per_sec)) db of
                      (count, db') \<Rightarrow> (Inr (Share_Pending count action place), db')))))"

definition queue_with_grace ::
  "instant \<Rightarrow> string \<Rightarrow> int \<Rightarrow> int \<Rightarrow> nat list \<Rightarrow> move_target \<Rightarrow> int \<Rightarrow> mail_db
    \<Rightarrow> (string + queued) \<times> mail_db" where
  "queue_with_grace now batch account_id folder_id uids target grace_secs db =
     (case queue_into now account_id folder_id uids target batch grace_secs db of
        (Inl e, db') \<Rightarrow> (Inl e, db')
      | (Inr (Share_Pending count action place), db') \<Rightarrow>
          (Inr (Queued_Pending batch count (move_label action count place)), db')
      | (Inr Share_Permanent, db') \<Rightarrow> (Inr Queued_Permanent, db')
      | (Inr Share_AlreadyThere, db') \<Rightarrow> (Inr Queued_AlreadyThere, db'))"

definition queue_move :: "instant \<Rightarrow> string \<Rightarrow> int \<Rightarrow> int \<Rightarrow> nat list \<Rightarrow> move_target \<Rightarrow> mail_db
    \<Rightarrow> (string + queued) \<times> mail_db" where
  "queue_move now batch account_id folder_id uids target db =
     queue_with_grace now batch account_id folder_id uids target UNDO_GRACE_SECS db"

definition queue_move_now :: "instant \<Rightarrow> string \<Rightarrow> int \<Rightarrow> int \<Rightarrow> nat list \<Rightarrow> move_target \<Rightarrow> mail_db
    \<Rightarrow> (string + queued) \<times> mail_db" where
  "queue_move_now now batch account_id folder_id uids target db =
     queue_with_grace now batch account_id folder_id uids target 0 db"

definition undo_batch :: "string \<Rightarrow> mail_db \<Rightarrow> nat \<times> mail_db" where
  "undo_batch batch db = cancel_batch batch db"

definition undone_text :: "nat \<Rightarrow> string" where
  "undone_text restored =
     (if restored = 0 then ''Too late to undo '' @ em_dash @ '' already done on the server''
      else if restored = 1 then ''Undone: 1 message is back''
      else ''Undone: '' @ string_of_nat restored @ '' messages are back'')"

subsection \<open>Pushing\<close>

record pushed =
  ps_flags :: nat
  ps_moves :: nat

definition no_push :: pushed where
  "no_push = \<lparr>ps_flags = 0, ps_moves = 0\<rparr>"

definition has_local_changes :: "instant \<Rightarrow> int \<Rightarrow> mail_db \<Rightarrow> bool" where
  "has_local_changes now account_id db \<longleftrightarrow>
     list_flags_dirty account_id db \<noteq> [] \<or> list_due account_id (secs now) db \<noteq> []"

definition push_local_changes ::
  "'s env \<Rightarrow> ('s world, unit) io \<Rightarrow> int \<Rightarrow> ('s world, pushed) io" where
  "push_local_changes env checkout account_id =
     bind_io (get_io (\<lambda>w. has_local_changes (e_now env) account_id (w_mail w))) (\<lambda>any.
       if \<not> any then ret_io no_push
       else
         bind_io (try_io (bind_io (account_get account_id) (\<lambda>_. checkout))) (\<lambda>r.
           case r of
             Inl _ \<Rightarrow> ret_io no_push
           | Inr _ \<Rightarrow>
               bind_io (push_dirty_flags env account_id) (\<lambda>flags.
               bind_io (push_due_moves env account_id) (\<lambda>moves.
               ret_io \<lparr>ps_flags = flags, ps_moves = moves\<rparr>))))"

subsection \<open>Selections across folders\<close>

type_synonym groups = "(int \<times> nat list) list"

fun add_hit :: "string \<times> nat \<Rightarrow> (string \<times> nat list) list \<Rightarrow> (string \<times> nat list) list" where
  "add_hit (path, uid) [] = [(path, [uid])]"
| "add_hit (path, uid) ((p, uids) # rest) =
     (if p = path then (p, if uid \<in> set uids then uids else uids @ [uid]) # rest
      else (p, uids) # add_hit (path, uid) rest)"

fun resolve_paths :: "mail_db \<Rightarrow> int \<Rightarrow> (string \<times> nat list) list \<Rightarrow> string + groups" where
  "resolve_paths db account_id [] = Inr []"
| "resolve_paths db account_id ((path, uids) # rest) =
     (case folder_get_by_path account_id path db of
        Inl _ \<Rightarrow> Inl (''unknown folder '' @ path)
      | Inr f \<Rightarrow> (case resolve_paths db account_id rest of
                   Inl e \<Rightarrow> Inl e | Inr gs \<Rightarrow> Inr ((d_id f, uids) # gs)))"

definition resolve_hits :: "mail_db \<Rightarrow> int \<Rightarrow> (string \<times> nat) list \<Rightarrow> string + groups" where
  "resolve_hits db account_id hits = resolve_paths db account_id (fold add_hit hits [])"

fun over_groups :: "(int \<Rightarrow> nat list \<Rightarrow> mail_db \<Rightarrow> nat \<times> mail_db) \<Rightarrow> groups \<Rightarrow> mail_db \<Rightarrow> nat \<times> mail_db" where
  "over_groups stmt [] db = (0, db)"
| "over_groups stmt ((folder_id, uids) # gs) db =
     (case stmt folder_id uids db of (n, db') \<Rightarrow>
        (case over_groups stmt gs db' of (k, db'') \<Rightarrow> (n + k, db'')))"

definition bulk_set_read :: "instant \<Rightarrow> groups \<Rightarrow> bool \<Rightarrow> mail_db \<Rightarrow> nat \<times> mail_db" where
  "bulk_set_read now gs read db = over_groups (\<lambda>f uids. set_read_many_by_uids now f uids read) gs db"

definition bulk_set_starred :: "instant \<Rightarrow> groups \<Rightarrow> bool \<Rightarrow> mail_db \<Rightarrow> nat \<times> mail_db" where
  "bulk_set_starred now gs starred db = over_groups (\<lambda>f uids. set_star_many_by_uids now f uids starred) gs db"

record moved =
  mv_batch :: "string option"
  mv_label :: string
  mv_permanent :: groups

record move_progress =
  mp_permanent :: groups
  mp_queued :: "(pending_action \<times> string) option"
  mp_count :: nat

definition queue_group ::
  "instant \<Rightarrow> int \<Rightarrow> move_target \<Rightarrow> string \<Rightarrow> int \<times> nat list \<Rightarrow> move_progress \<Rightarrow> mail_db
    \<Rightarrow> (string + move_progress) \<times> mail_db" where
  "queue_group now account_id target batch g acc db =
     (case queue_into now account_id (fst g) (snd g) target batch UNDO_GRACE_SECS db of
        (Inl e, db') \<Rightarrow> (Inl e, db')
      | (Inr (Share_Pending n action place), db') \<Rightarrow>
          (Inr (acc\<lparr>mp_count := mp_count acc + n,
                    mp_queued := (case mp_queued acc of None \<Rightarrow> Some (action, place) | q \<Rightarrow> q)\<rparr>), db')
      | (Inr Share_Permanent, db') \<Rightarrow> (Inr (acc\<lparr>mp_permanent := mp_permanent acc @ [g]\<rparr>), db')
      | (Inr Share_AlreadyThere, db') \<Rightarrow> (Inr acc, db'))"

fun queue_groups ::
  "instant \<Rightarrow> int \<Rightarrow> move_target \<Rightarrow> string \<Rightarrow> groups \<Rightarrow> move_progress \<Rightarrow> mail_db
    \<Rightarrow> (string + move_progress) \<times> mail_db" where
  "queue_groups now account_id target batch [] acc db = (Inr acc, db)"
| "queue_groups now account_id target batch (g # gs) acc db =
     (case queue_group now account_id target batch g acc db of
        (Inl e, db') \<Rightarrow> (Inl e, db')
      | (Inr acc', db') \<Rightarrow> queue_groups now account_id target batch gs acc' db')"

definition bulk_queue_move ::
  "instant \<Rightarrow> string \<Rightarrow> int \<Rightarrow> groups \<Rightarrow> move_target \<Rightarrow> mail_db \<Rightarrow> (string + moved) \<times> mail_db" where
  "bulk_queue_move now batch account_id gs target db =
     (case queue_groups now account_id target batch gs
             \<lparr>mp_permanent = [], mp_queued = None, mp_count = 0\<rparr> db of
        (Inl e, db') \<Rightarrow> (Inl e, db')
      | (Inr acc, db') \<Rightarrow>
          (Inr (case mp_queued acc of
                  Some (action, place) \<Rightarrow>
                    \<lparr>mv_batch = Some batch, mv_label = move_label action (mp_count acc) place,
                     mv_permanent = mp_permanent acc\<rparr>
                | None \<Rightarrow>
                    \<lparr>mv_batch = None, mv_label = (if mp_permanent acc = [] then ''Already here'' else []),
                     mv_permanent = mp_permanent acc\<rparr>), db'))"

record purged =
  pg_deleted :: nat
  pg_failed :: "string option"

definition purge_status :: "purged \<Rightarrow> string" where
  "purge_status p =
     (case pg_failed p of
        None \<Rightarrow> ''Deleted '' @ string_of_nat (pg_deleted p) @ '' permanently''
      | Some e \<Rightarrow> ''Deleted '' @ string_of_nat (pg_deleted p) @ '' permanently, then failed: '' @ e)"

fun owned :: "mail_db \<Rightarrow> int \<Rightarrow> groups \<Rightarrow> string option" where
  "owned db account_id [] = None"
| "owned db account_id ((folder_id, uids) # gs) =
     (case folder_get folder_id db of
        Inl e \<Rightarrow> Some (error_text e)
      | Inr f \<Rightarrow> if d_account_id f \<noteq> account_id then Some ''folder does not belong to this account''
                 else owned db account_id gs)"

fun purge_groups :: "'s env \<Rightarrow> groups \<Rightarrow> nat \<Rightarrow> 's world \<Rightarrow> (string + purged) \<times> 's world" where
  "purge_groups env [] deleted w = (Inr \<lparr>pg_deleted = deleted, pg_failed = None\<rparr>, w)"
| "purge_groups env ((folder_id, uids) # gs) deleted w =
     (case purge_uids env folder_id uids w of
        (Inr n, w') \<Rightarrow> purge_groups env gs (deleted + n) w'
      | (Inl e, w') \<Rightarrow>
          if deleted = 0 then (Inl (error_text e), w')
          else (Inr \<lparr>pg_deleted = deleted, pg_failed = Some (error_text e)\<rparr>, w'))"

definition bulk_purge ::
  "'s env \<Rightarrow> ('s world \<Rightarrow> (string + unit) \<times> 's world) \<Rightarrow> int \<Rightarrow> groups \<Rightarrow> 's world
    \<Rightarrow> (string + purged) \<times> 's world" where
  "bulk_purge env checkout account_id gs w =
     (case owned (w_mail w) account_id gs of
        Some e \<Rightarrow> (Inl e, w)
      | None \<Rightarrow>
          (case checkout w of
             (Inl e, w') \<Rightarrow> (Inl e, w')
           | (Inr _, w') \<Rightarrow> purge_groups env gs 0 w'))"

end
