(* ===== verification/Undo_Facts.thy ===== *)
theory Undo_Facts
  imports Undo
begin

text \<open>
  What queueing and undoing do to the cache: one undo takes back exactly what one action queued, over
  one folder or several, and queued mail is off the lists meanwhile.
\<close>

subsection \<open>Queued rows\<close>

definition pending_entry ::
  "pending_action \<Rightarrow> int option \<Rightarrow> string \<Rightarrow> stamp \<Rightarrow> int \<Rightarrow> pending_row" where
  "pending_entry action dest batch due i =
     \<lparr>p_message_id = i, p_batch = batch, p_action = pending_action_str action, p_dest_folder_id = dest,
      p_due_at = due, p_attempts = 0\<rparr>"

lemma hidden_iff: "hidden db i \<longleftrightarrow> i \<in> p_message_id ` set (db_pending db)"
  by (auto simp: hidden_def list_ex_iff)

lemma put_pending_fresh:
  "\<not> hidden db i \<Longrightarrow> put_pending action dest batch due i db
     = db\<lparr>db_pending := db_pending db @ [pending_entry action dest batch due i]\<rparr>"
  by (simp add: put_pending_def pending_entry_def)

lemma put_all_fresh:
  assumes "distinct ids" and "\<And>i. i \<in> set ids \<Longrightarrow> \<not> hidden db i"
  shows "fold (put_pending action dest batch due) ids db
    = db\<lparr>db_pending := db_pending db @ map (pending_entry action dest batch due) ids\<rparr>"
  using assms
proof (induction ids arbitrary: db)
  case (Cons i ids)
  let ?db = "db\<lparr>db_pending := db_pending db @ [pending_entry action dest batch due i]\<rparr>"
  have "\<not> hidden ?db j" if "j \<in> set ids" for j
    using Cons.prems that by (auto simp: hidden_iff pending_entry_def)
  with Cons.IH [of ?db] Cons.prems show ?case by (simp add: put_pending_fresh)
qed simp

definition messages_named :: "int \<Rightarrow> nat list \<Rightarrow> mail_db \<Rightarrow> message list" where
  "messages_named fid uids db = filter (\<lambda>m. m_folder_id m = fid \<and> m_uid m \<in> set uids) (db_messages db)"

lemma length_concat_parts:
  "apart cs \<Longrightarrow> (\<Sum>c\<leftarrow>cs. length (filter (\<lambda>m. q m \<and> m_uid m \<in> set c) ms))
     = length (filter (\<lambda>m. q m \<and> m_uid m \<in> \<Union> (set ` set cs)) ms)"
proof (induction cs)
  case (Cons c cs)
  define U where "U = \<Union> (set ` set cs)"
  have "set c \<inter> U = {}" using Cons.prems by (simp add: U_def)
  then have "length (filter (\<lambda>m. q m \<and> m_uid m \<in> set c) ms) + length (filter (\<lambda>m. q m \<and> m_uid m \<in> U) ms)
      = length (filter (\<lambda>m. q m \<and> m_uid m \<in> set c \<union> U) ms)"
    by (induction ms) auto
  with Cons show ?case by (simp add: U_def)
qed simp

lemma ids_by_uids_rows:
  "set (ids_by_uids fid uids db) = m_id ` set (messages_named fid uids db)"
  "length (ids_by_uids fid uids db) = length (messages_named fid uids db)"
proof -
  note c = chunks_clean [of uids, unfolded UID_CHUNK_def]
  have "set (ids_by_uids fid uids db)
      = m_id ` {m \<in> set (db_messages db). m_folder_id m = fid \<and> m_uid m \<in> \<Union> (set ` set (chunks 900 (clean_uids uids)))}"
    by (auto simp: ids_by_uids_def)
  then show "set (ids_by_uids fid uids db) = m_id ` set (messages_named fid uids db)"
    unfolding c(1) by (simp add: messages_named_def)
  have "length (ids_by_uids fid uids db)
      = (\<Sum>c\<leftarrow>chunks 900 (clean_uids uids). length (filter (\<lambda>m. m_folder_id m = fid \<and> m_uid m \<in> set c) (db_messages db)))"
    by (simp add: ids_by_uids_def length_concat o_def)
  also have "\<dots> = length (messages_named fid uids db)"
    unfolding length_concat_parts [OF c(2)] c(1) by (simp add: messages_named_def)
  finally show "length (ids_by_uids fid uids db) = length (messages_named fid uids db)" .
qed

lemma distinct_ids:
  assumes "distinct (map m_id (db_messages db))"
  shows "distinct (ids_by_uids fid uids db)"
proof -
  have "distinct (map m_id (messages_named fid uids db))"
    using assms by (simp add: messages_named_def distinct_map_filter)
  then have "card (m_id ` set (messages_named fid uids db)) = length (messages_named fid uids db)"
    by (metis distinct_card length_map set_map)
  then show ?thesis by (metis card_distinct ids_by_uids_rows)
qed

text \<open>What one folder's share does when none of its mail is queued already.\<close>

lemma queue_into_Pending:
  assumes "queue_into now acc fid uids target batch grace db = (Inr (Share_Pending n action place), db')"
    and "distinct (map m_id (db_messages db))" and "\<And>m. m \<in> set (messages_named fid uids db) \<Longrightarrow> \<not> hidden db (m_id m)"
  shows "\<exists>rows. db' = db\<lparr>db_pending := db_pending db @ rows\<rparr> \<and> length rows = n \<and> 0 < n
    \<and> n = length (messages_named fid uids db) \<and> (\<forall>p \<in> set rows. p_batch p = batch)
    \<and> p_message_id ` set rows = m_id ` set (messages_named fid uids db)"
proof -
  let ?ids = "ids_by_uids fid uids db"
  from assms(1) obtain dest due where ids: "?ids \<noteq> []"
    and q: "pending_queue ?ids action dest batch due db = (n, db')"
    by (auto simp: queue_into_def Let_def split: if_splits sum.splits destination.splits prod.splits)
  have "\<not> hidden db i" if "i \<in> set ?ids" for i using that assms(3) by (auto simp: ids_by_uids_rows)
  from put_all_fresh [OF distinct_ids [OF assms(2)] this] q
  have "db' = db\<lparr>db_pending := db_pending db @ map (pending_entry action dest batch due) ?ids\<rparr>" "n = length ?ids"
    by (simp_all add: pending_queue_def)
  then show ?thesis
    using ids by (intro exI [of _ "map (pending_entry action dest batch due) ?ids"])
      (auto simp: pending_entry_def image_image ids_by_uids_rows [symmetric])
qed

lemma queue_into_other:
  "queue_into now acc fid uids target batch grace db = (r, db') \<Longrightarrow> (\<And>n a p. r \<noteq> Inr (Share_Pending n a p)) \<Longrightarrow> db' = db"
  by (auto simp: queue_into_def Let_def split: if_splits sum.splits destination.splits prod.splits)

lemma cancel_appended:
  assumes "\<And>p. p \<in> set (db_pending db) \<Longrightarrow> p_batch p \<noteq> batch" and "\<And>p. p \<in> set rows \<Longrightarrow> p_batch p = batch"
  shows "undo_batch batch (db\<lparr>db_pending := db_pending db @ rows\<rparr>) = (length rows, db)"
proof -
  have "filter (\<lambda>p. p_batch p = batch) (db_pending db) = []" "filter (\<lambda>p. p_batch p = batch) rows = rows"
    "filter (\<lambda>p. p_batch p \<noteq> batch) (db_pending db) = db_pending db" "filter (\<lambda>p. p_batch p \<noteq> batch) rows = []"
    using assms by (auto simp: filter_id_conv filter_empty_conv)
  then show ?thesis by (simp add: undo_batch_def cancel_batch_def count_where_def delete_where_def)
qed

lemma not_listed_hidden: "hidden db i \<Longrightarrow> m_id m = i \<Longrightarrow> \<not> listed db fid m"
  by (simp add: listed_def)

subsection \<open>One action, one undo\<close>

text \<open>Nothing is queued under this batch name yet; batch names are fresh UUIDs.\<close>

definition unused_batch :: "string \<Rightarrow> mail_db \<Rightarrow> bool" where
  "unused_batch batch db \<longleftrightarrow> (\<forall>p \<in> set (db_pending db). p_batch p \<noteq> batch)"

definition none_queued :: "int \<Rightarrow> nat list \<Rightarrow> mail_db \<Rightarrow> bool" where
  "none_queued fid uids db \<longleftrightarrow> (\<forall>m \<in> set (messages_named fid uids db). \<not> hidden db (m_id m))"

text \<open>
  Undo takes back exactly what was done. A delete, archive or move that is queued takes the
  selected mail off the folder's list at once and changes no mail row; undoing its batch before the
  push restores the database to the very state before the action and reports as many messages as
  were selected and cached.
\<close>

theorem undo_takes_back_a_move:
  assumes "queue_with_grace now batch acc fid uids target grace db = (Inr (Queued_Pending b n label), db')"
    and "distinct (map m_id (db_messages db))" and "unused_batch batch db" and "none_queued fid uids db"
  shows "b = batch \<and> n = length (messages_named fid uids db) \<and> 0 < n
    \<and> undo_batch b db' = (n, db)
    \<and> db_messages db' = db_messages db
    \<and> (\<forall>m \<in> set (messages_named fid uids db). \<not> listed db' fid m)"
proof -
  from assms(1) obtain action place where
    q: "queue_into now acc fid uids target batch grace db = (Inr (Share_Pending n action place), db')" and b: "b = batch"
    by (auto simp: queue_with_grace_def split: prod.splits sum.splits share.splits)
  from queue_into_Pending [OF q assms(2) assms(4) [unfolded none_queued_def, rule_format]] obtain rows where
    rows: "db' = db\<lparr>db_pending := db_pending db @ rows\<rparr>" "length rows = n" "0 < n"
      "n = length (messages_named fid uids db)" "\<forall>p \<in> set rows. p_batch p = batch"
      "p_message_id ` set rows = m_id ` set (messages_named fid uids db)"
    by blast
  have "undo_batch batch db' = (n, db)"
    using cancel_appended [of db batch rows] assms(3) rows by (simp add: unused_batch_def)
  moreover have "hidden db' (m_id m)" if "m \<in> set (messages_named fid uids db)" for m
    using that rows(1,6) by (auto simp: hidden_iff)
  ultimately show ?thesis using rows b by (simp add: listed_def)
qed

lemma queue_group_rows:
  assumes "queue_group now acc target batch g pr db = (Inr pr', db')"
    and "distinct (map m_id (db_messages db))" and "none_queued (fst g) (snd g) db"
  shows "\<exists>rows. db' = db\<lparr>db_pending := db_pending db @ rows\<rparr> \<and> mp_count pr' = mp_count pr + length rows
    \<and> (\<forall>p \<in> set rows. p_batch p = batch)
    \<and> (mp_queued pr' = None \<longleftrightarrow> mp_queued pr = None \<and> rows = [])
    \<and> p_message_id ` set rows \<subseteq> m_id ` set (messages_named (fst g) (snd g) db)"
proof -
  obtain r d where q: "queue_into now acc (fst g) (snd g) target batch UNDO_GRACE_SECS db = (r, d)" by fastforce
  show ?thesis
  proof (cases "\<exists>n a p. r = Inr (Share_Pending n a p)")
    case True
    then obtain n a p where r: "r = Inr (Share_Pending n a p)" by blast
    from queue_into_Pending [OF q [unfolded r] assms(2) assms(3) [unfolded none_queued_def, rule_format]] obtain rows where
      d: "d = db\<lparr>db_pending := db_pending db @ rows\<rparr>" "length rows = n" "0 < n"
      "\<forall>p \<in> set rows. p_batch p = batch" "p_message_id ` set rows = m_id ` set (messages_named (fst g) (snd g) db)"
      by blast
    have "db' = d" "mp_count pr' = mp_count pr + n" "mp_queued pr' \<noteq> None"
      using assms(1) by (auto simp: queue_group_def q r split: option.splits)
    with d show ?thesis by (intro exI [of _ rows]) auto
  next
    case False
    with queue_into_other [OF q] have "d = db" by blast
    with False q assms(1) show ?thesis
      by (intro exI [of _ "[]"]) (auto simp: queue_group_def split: sum.splits share.splits)
  qed
qed

lemma queue_groups_rows:
  assumes "queue_groups now acc target batch gs pr db = (Inr pr', db')"
    and "distinct (map m_id (db_messages db))" and "distinct (map fst gs)"
    and "\<And>g. g \<in> set gs \<Longrightarrow> none_queued (fst g) (snd g) db"
  shows "\<exists>rows. db' = db\<lparr>db_pending := db_pending db @ rows\<rparr> \<and> mp_count pr' = mp_count pr + length rows
    \<and> (\<forall>p \<in> set rows. p_batch p = batch) \<and> (mp_queued pr' = None \<longleftrightarrow> mp_queued pr = None \<and> rows = [])"
  using assms
proof (induction gs arbitrary: pr db)
  case Nil
  then show ?case by (intro exI [of _ "[]"]) simp
next
  case (Cons g gs)
  from Cons.prems(1) obtain pr1 db1 where g: "queue_group now acc target batch g pr db = (Inr pr1, db1)"
    and gs: "queue_groups now acc target batch gs pr1 db1 = (Inr pr', db')"
    by (auto split: prod.splits sum.splits)
  have "none_queued (fst g) (snd g) db" using Cons.prems(4) by simp
  from queue_group_rows [OF g Cons.prems(2) this] obtain rows where
    r: "db1 = db\<lparr>db_pending := db_pending db @ rows\<rparr>" "mp_count pr1 = mp_count pr + length rows"
      "\<forall>p \<in> set rows. p_batch p = batch" "mp_queued pr1 = None \<longleftrightarrow> mp_queued pr = None \<and> rows = []"
      "p_message_id ` set rows \<subseteq> m_id ` set (messages_named (fst g) (snd g) db)"
    by (elim exE conjE) (rule that; assumption)
  have nq: "none_queued (fst h) (snd h) db1" if h: "h \<in> set gs" for h
    unfolding none_queued_def
  proof
    fix m
    assume "m \<in> set (messages_named (fst h) (snd h) db1)"
    then have m: "m \<in> set (messages_named (fst h) (snd h) db)" by (simp add: r(1) messages_named_def)
    have "m_id m \<notin> m_id ` set (messages_named (fst g) (snd g) db)"
    proof
      assume "m_id m \<in> m_id ` set (messages_named (fst g) (snd g) db)"
      then obtain k where "k \<in> set (messages_named (fst g) (snd g) db)" "m_id k = m_id m" by auto
      with m Cons.prems(2) have "fst g = fst h"
        by (auto simp: messages_named_def distinct_map inj_on_def)
      with Cons.prems(3) h show False by force
    qed
    moreover have "\<not> hidden db (m_id m)" using Cons.prems(4) [of h] h m by (simp add: none_queued_def)
    ultimately show "\<not> hidden db1 (m_id m)" using r(1,5) by (auto simp: hidden_iff)
  qed
  have "distinct (map m_id (db_messages db1))" "distinct (map fst gs)" using Cons.prems(2,3) by (simp_all add: r(1))
  note IH = Cons.IH [OF gs this nq, simplified]
  from IH obtain rows' where
    "db' = db1\<lparr>db_pending := db_pending db1 @ rows'\<rparr>" "mp_count pr' = mp_count pr1 + length rows'"
    "\<forall>p \<in> set rows'. p_batch p = batch" "mp_queued pr' = None \<longleftrightarrow> mp_queued pr1 = None \<and> rows' = []"
    by (elim exE conjE) (rule that; assumption)
  with r(1-4) show ?case by (intro exI [of _ "rows @ rows'"]) auto
qed


subsection \<open>Two folders, one selection\<close>

definition undo_db :: mail_db where
  "undo_db = sample_db\<lparr>db_folders := [sample_folder 1 ''a'' Inbox, sample_folder 2 ''t'' Trash, sample_folder 3 ''c'' Custom],
     db_messages := [fresh_row 0 (sample_mail 1 7) 1, fresh_row 0 (sample_mail 3 8) 2]\<rparr>"

lemma undo_db_rows:
  "distinct (map m_id (db_messages undo_db))" "unused_batch b undo_db" "none_queued fid uids undo_db"
  by (simp_all add: undo_db_def sample_db_def fresh_row_def new_message.defs unused_batch_def none_queued_def hidden_def)

theorem undo_takes_back_a_move_witness:
  "\<exists>n label db'. queue_with_grace 0 ''b'' 1 1 [7] Target_Trash 8 undo_db = (Inr (Queued_Pending ''b'' n label), db')
     \<and> undo_batch ''b'' db' = (n, undo_db)"
proof -
  have "fst (queue_with_grace 0 ''b'' 1 1 [7] Target_Trash 8 undo_db) = Inr (Queued_Pending ''b'' 1 ''Moved 1 to t'')"
    by code_simp
  then obtain db' where run:
    "queue_with_grace 0 ''b'' 1 1 [7] Target_Trash 8 undo_db = (Inr (Queued_Pending ''b'' 1 ''Moved 1 to t''), db')"
    by (metis prod.collapse)
  from undo_takes_back_a_move [OF run undo_db_rows] run show ?thesis by blast
qed



end
