(* ===== verification/Grace_Timer.thy ===== *)
theory Grace_Timer
  imports Undo "HOL-Library.Multiset"
begin

text \<open>
  The timer behind the undo window (\<open>undo/grace.rs\<close>): a queue of \<open>(deadline, account)\<close>, earliest
  first, and one loop that fires an account's deadlines. Moments are nanoseconds of the monotonic
  clock. The locale \<open>deadline_queue\<close> states what the loop needs of \<open>BinaryHeap<Reverse<_>>\<close>; the
  model's queue is a sorted list.
\<close>

locale deadline_queue =
  fixes put :: "'d :: linorder \<Rightarrow> 'q \<Rightarrow> 'q" and least :: "'q \<Rightarrow> ('d \<times> 'q) option"
    and content :: "'q \<Rightarrow> 'd multiset" and ok :: "'q \<Rightarrow> bool"
  assumes put_content: "content (put d q) = add_mset d (content q)"
    and put_ok: "ok q \<Longrightarrow> ok (put d q)"
    and least_None: "ok q \<Longrightarrow> least q = None \<longleftrightarrow> content q = {#}"
    and least_content: "ok q \<Longrightarrow> least q = Some (d, r) \<Longrightarrow> content q = add_mset d (content r)"
    and least_ok: "ok q \<Longrightarrow> least q = Some (d, r) \<Longrightarrow> ok r"
    and least_first: "ok q \<Longrightarrow> least q = Some (d, r) \<Longrightarrow> x \<in># content q \<Longrightarrow> d \<le> x"
begin

lemma put_all_content: "content (fold put ds q) = mset ds + content q"
  by (induction ds arbitrary: q) (simp_all add: put_content)

lemma put_all_ok: "ok q \<Longrightarrow> ok (fold put ds q)"
  by (induction ds arbitrary: q) (simp_all add: put_ok)

lemma least_put: "ok q \<Longrightarrow> \<exists>e r. least (put d q) = Some (e, r) \<and> e \<le> d"
proof -
  assume q: "ok q"
  then have "least (put d q) \<noteq> None" using least_None [OF put_ok [OF q]] by (simp add: put_content)
  then obtain e r where "least (put d q) = Some (e, r)" by auto
  with least_first [OF put_ok [OF q] this, of d] show ?thesis by (auto simp: put_content)
qed

end

type_synonym deadlines = "(int \<times> int) list"

definition pop_least :: "deadlines \<Rightarrow> ((int \<times> int) \<times> deadlines) option" where
  "pop_least q = (case q of [] \<Rightarrow> None | d # r \<Rightarrow> Some (d, r))"

interpretation heap: deadline_queue insort pop_least mset sorted
  by unfold_locales (auto simp: pop_least_def sorted_insort split: list.splits)

definition COALESCE :: int where
  "COALESCE = 2 * ns_per_sec"

definition grace_delay :: int where
  "grace_delay = (max UNDO_GRACE_SECS 0 + 1) * ns_per_sec"

definition schedule_push :: "int \<Rightarrow> int \<Rightarrow> deadlines \<Rightarrow> deadlines" where
  "schedule_push now account_id q = insort (now + grace_delay, account_id) q"

text \<open>Later deadlines of the fired account ride along; the others are put back.\<close>

fun ride_along :: "int \<Rightarrow> int \<Rightarrow> deadlines \<Rightarrow> deadlines \<times> deadlines" where
  "ride_along at account [] = ([], [])"
| "ride_along at account ((later, other) # q) =
     (if other = account \<and> later \<le> at + COALESCE then ride_along at account q
      else if at + COALESCE < later then ([(later, other)], q)
      else (case ride_along at account q of (rest, q') \<Rightarrow> ((later, other) # rest, q')))"

datatype timer_action = Sleep | Wait_Until int | Fire int deadlines

definition timer_step :: "int \<Rightarrow> deadlines \<Rightarrow> timer_action" where
  "timer_step now q =
     (case pop_least q of
        None \<Rightarrow> Sleep
      | Some ((at, account), q') \<Rightarrow>
          if now < at then Wait_Until at
          else (case ride_along at account q' of (rest, q'') \<Rightarrow> Fire account (fold insort rest q'')))"

lemma ride_along_content:
  "sorted q \<Longrightarrow> ride_along at account q = (rest, q') \<Longrightarrow>
     mset rest + mset q' = filter_mset (\<lambda>d. \<not> (snd d = account \<and> fst d \<le> at + COALESCE)) (mset q)
     \<and> sorted q'"
proof (induction at account q arbitrary: rest q' rule: ride_along.induct)
  case (2 at account later other q)
  consider "other = account" "later \<le> at + COALESCE" | "at + COALESCE < later"
    | "\<not> (other = account \<and> later \<le> at + COALESCE)" "\<not> at + COALESCE < later" by linarith
  then show ?case
  proof cases
    case 1
    with 2 show ?thesis by simp
  next
    case 2
    have "\<forall>d \<in> set q. at + COALESCE < fst d"
      using "2.prems"(1) \<open>at + COALESCE < later\<close> by (fastforce simp: less_eq_prod_def)
    then have "filter_mset (\<lambda>d. \<not> (snd d = account \<and> fst d \<le> at + COALESCE)) (mset q) = mset q"
      by (intro filter_mset_eq_conv [THEN iffD2]) auto
    with 2 "2.prems" show ?thesis by auto
  next
    case 3
    obtain r s where rs: "ride_along at account q = (r, s)" by fastforce
    have "sorted q" using "2.prems"(1) by simp
    from "2.IH"(2) [OF 3(1) 3(2) this rs] 3 "2.prems" rs show ?thesis by auto
  qed
qed simp

lemma timer_step_Fire:
  assumes "sorted q" and "timer_step now q = Fire a q'"
  obtains at r where "q = (at, a) # r" "at \<le> now" "sorted q'"
    "mset q' = filter_mset (\<lambda>d. \<not> (snd d = a \<and> fst d \<le> at + COALESCE)) (mset q)"
proof -
  from assms(2) obtain at r rest s where q: "q = (at, a) # r" "at \<le> now"
      and rs: "ride_along at a r = (rest, s)" and q': "q' = fold insort rest s"
    by (auto simp: timer_step_def pop_least_def split: list.splits prod.splits if_splits option.splits)
  have "sorted r" using assms(1) q(1) by simp
  note c = ride_along_content [OF this rs]
  have "mset q' = mset rest + mset s" unfolding q' by (rule heap.put_all_content)
  moreover have "sorted q'" unfolding q' by (rule heap.put_all_ok) (use c in simp)
  ultimately show thesis
    using that [OF q] c q(1) by (simp add: COALESCE_def)
qed

lemma timer_step_shorter: "sorted q \<Longrightarrow> timer_step now q = Fire a q' \<Longrightarrow> length q' < length q"
proof -
  assume "sorted q" and "timer_step now q = Fire a q'"
  then obtain at r where q: "q = (at, a) # r" and
    m: "mset q' = filter_mset (\<lambda>d. \<not> (snd d = a \<and> fst d \<le> at + COALESCE)) (mset q)"
    by (rule timer_step_Fire)
  have "size (mset q') = size (filter_mset (\<lambda>d. \<not> (snd d = a \<and> fst d \<le> at + COALESCE)) (mset r))"
    unfolding m q by (simp add: COALESCE_def)
  also have "\<dots> \<le> size (mset r)" by (rule size_filter_mset_lesseq)
  finally show ?thesis using q by simp
qed

text \<open>The loop until it sleeps or waits, the clock standing still: the accounts it pushes, in order.\<close>

function fire_due :: "int \<Rightarrow> deadlines \<Rightarrow> int list \<times> deadlines" where
  "fire_due now q =
     (if \<not> sorted q then ([], q)
      else (case timer_step now q of
              Fire a q' \<Rightarrow> (case fire_due now q' of (as, r) \<Rightarrow> (a # as, r))
            | _ \<Rightarrow> ([], q)))"
  by pat_completeness auto
termination
  by (relation "measure (\<lambda>(now, q). length q)") (auto dest: timer_step_shorter)

declare fire_due.simps [simp del]

text \<open>
  C34. The undo timer misses nobody: whatever is queued, running it at some moment pushes exactly the
  accounts that have a deadline at or before that moment, leaves only deadlines still to come, and
  drops no deadline except those of a pushed account at most two seconds ahead.
\<close>

theorem timer_covers_every_deadline:
  assumes "sorted q" and "fire_due now q = (pushed, rest)"
  shows "set pushed = snd ` {d \<in> set q. fst d \<le> now}
    \<and> (\<forall>d \<in> set rest. now < fst d) \<and> set rest \<subseteq> set q
    \<and> (\<forall>d \<in> set q - set rest. snd d \<in> set pushed \<and> fst d \<le> now + COALESCE)"
  using assms
proof (induction now q arbitrary: pushed rest rule: fire_due.induct)
  case (1 now q)
  show ?case
  proof (cases "timer_step now q")
    case Sleep
    with 1 have "pushed = []" "rest = q" by (simp_all add: fire_due.simps [of now q])
    moreover from Sleep have "q = []"
      by (auto simp: timer_step_def pop_least_def split: list.splits prod.splits if_splits)
    ultimately show ?thesis by simp
  next
    case (Wait_Until at)
    with 1 have pr: "pushed = []" "rest = q" by (simp_all add: fire_due.simps [of now q])
    from Wait_Until obtain a r where "q = (at, a) # r" "now < at"
      by (auto simp: timer_step_def pop_least_def split: list.splits prod.splits if_splits)
    with "1.prems"(1) have "\<forall>d \<in> set q. now < fst d" by (fastforce simp: less_eq_prod_def)
    with pr show ?thesis by fastforce
  next
    case (Fire a q')
    obtain as r where f: "fire_due now q' = (as, r)" by fastforce
    with Fire 1 have pr: "pushed = a # as" "rest = r" by (simp_all add: fire_due.simps [of now q])
    from timer_step_Fire [OF "1.prems"(1) Fire] obtain at t where q: "q = (at, a) # t" "at \<le> now"
      and s: "sorted q'" and m: "mset q' = filter_mset (\<lambda>d. \<not> (snd d = a \<and> fst d \<le> at + COALESCE)) (mset q)"
      by blast
    have set_q': "set q' = {d \<in> set q. \<not> (snd d = a \<and> fst d \<le> at + COALESCE)}"
      using arg_cong [OF m, of set_mset] by simp
    have "\<not> \<not> sorted q" using "1.prems"(1) by simp
    note IH = "1.IH" [OF this Fire s f]
    have "(at, a) \<in> {d \<in> set q. fst d \<le> now}" using q by simp
    then have "a \<in> snd ` {d \<in> set q. fst d \<le> now}" by (rule rev_image_eqI) simp
    then have due: "snd ` {d \<in> set q. fst d \<le> now} = insert a (snd ` {d \<in> set q'. fst d \<le> now})"
      unfolding set_q' by auto
    have dropped: "\<forall>d \<in> set q - set q'. snd d = a \<and> fst d \<le> now + COALESCE"
      using q(2) by (auto simp: set_q')
    have "set q' \<subseteq> set q" by (auto simp: set_q')
    with IH have sub: "set r \<subseteq> set q" by blast
    have "\<forall>d \<in> set q - set r. snd d \<in> set (a # as) \<and> fst d \<le> now + COALESCE"
    proof
      fix d assume "d \<in> set q - set r"
      with IH dropped show "snd d \<in> set (a # as) \<and> fst d \<le> now + COALESCE"
        by (cases "d \<in> set q'") (simp, blast, simp)
    qed
    with IH due sub show ?thesis unfolding pr by simp
  qed
qed

theorem timer_covers_every_deadline_witness:
  "set (fst (fire_due (9 * ns_per_sec) [(9 * ns_per_sec, 1), (10 * ns_per_sec, 1), (10 * ns_per_sec, 2)])) = {1}"
proof -
  let ?q = "[(9 * ns_per_sec, 1), (10 * ns_per_sec, 1), (10 * ns_per_sec, 2)] :: deadlines"
  have "sorted ?q" by (simp add: less_eq_prod_def)
  from timer_covers_every_deadline [OF this, of "9 * ns_per_sec"]
  have "set (fst (fire_due (9 * ns_per_sec) ?q)) = snd ` {d \<in> set ?q. fst d \<le> 9 * ns_per_sec}"
    by (cases "fire_due (9 * ns_per_sec) ?q") simp
  also have "{d \<in> set ?q. fst d \<le> 9 * ns_per_sec} = {(9 * ns_per_sec, 1)}" by auto
  finally show ?thesis by simp
qed

end
