(* ===== verification/Imap_Safety.thy ===== *)
theory Imap_Safety
  imports Imap_Mutate Imap_Session_Facts
begin

text \<open>
  What moving and deleting do to the mail on the server. The server is not part of the program: what
  the client relies on is stated as \<open>keeps_promises\<close>, of a view of the connection that says which
  mail stands in which slot (mailbox and UID), which slots are marked deleted and which mailbox is
  selected. No promise is made for the time between a search and the expunge that rests on it.
\<close>

type_synonym slot = "string \<times> nat"

record ('s, 'm) server_view =
  sv_box :: "'s \<Rightarrow> slot \<Rightarrow> 'm option"
  sv_marked :: "'s \<Rightarrow> slot set"
  sv_selected :: "'s \<Rightarrow> string option"

text \<open>The slots a command may empty.\<close>

definition may_remove :: "('s, 'm) server_view \<Rightarrow> imap_command \<Rightarrow> 's \<Rightarrow> slot set" where
  "may_remove v cmd c =
     (case sv_selected v c of
        None \<Rightarrow> {}
      | Some b \<Rightarrow>
          (case cmd of
             Expunge \<Rightarrow> {k \<in> sv_marked v c. fst k = b}
           | ExpungeUid us \<Rightarrow> {b} \<times> set us
           | Move us _ \<Rightarrow> {b} \<times> set us
           | _ \<Rightarrow> {}))"

text \<open>What holds after a command, however it was answered.\<close>

definition always_promised :: "('s, 'm) server_view \<Rightarrow> imap_command \<Rightarrow> 's \<Rightarrow> 's \<Rightarrow> bool" where
  "always_promised v cmd c c' \<longleftrightarrow>
     (\<forall>k x. sv_box v c k = Some x \<longrightarrow> k \<notin> may_remove v cmd c \<longrightarrow> sv_box v c' k = Some x)
   \<and> (case cmd of
        Select _ _ \<Rightarrow> True
      | _ \<Rightarrow> sv_selected v c' = sv_selected v c)
   \<and> (case cmd of
        Search _ \<Rightarrow> sv_marked v c' \<subseteq> sv_marked v c
      | Move us dest \<Rightarrow>
          (\<forall>b u x. sv_selected v c = Some b \<longrightarrow> u \<in> set us \<longrightarrow> sv_box v c (b, u) = Some x \<longrightarrow>
             (\<exists>k. sv_box v c' k = Some x))
      | _ \<Rightarrow> True)"

text \<open>What an \<open>OK\<close> adds. A copy gets a UID that was not in use, hence none of those copied.\<close>

definition ok_promised ::
  "('s, 'm) server_view \<Rightarrow> imap_command \<Rightarrow> 's \<Rightarrow> 's \<Rightarrow> command_result \<Rightarrow> bool" where
  "ok_promised v cmd c c' r \<longleftrightarrow>
     (case cmd of
        Select b _ \<Rightarrow> sv_selected v c' = Some b
      | Search ks \<Rightarrow>
          ks = [Deleted_Key] \<longrightarrow>
            (\<forall>b u. sv_selected v c = Some b \<longrightarrow> (b, u) \<in> sv_marked v c \<longrightarrow>
               u \<in> set (concat (map search_uids (cr_data r))))
      | Copy us dest \<Rightarrow>
          (\<forall>b u x. sv_selected v c = Some b \<longrightarrow> u \<in> set us \<longrightarrow> sv_box v c (b, u) = Some x \<longrightarrow>
             (\<exists>k. k \<notin> {b} \<times> set us \<and> sv_box v c' k = Some x))
      | _ \<Rightarrow> True)"

definition keeps_promises :: "('s, 'm) server_view \<Rightarrow> 's peer \<Rightarrow> bool" where
  "keeps_promises v srv \<longleftrightarrow>
     (\<forall>tag cmd c st evs c'. srv tag cmd c = (st, evs, c') \<longrightarrow>
        always_promised v cmd c c' \<and> (\<forall>r. answer tag evs = Some r \<longrightarrow> ok_promised v cmd c c' r))"

lemma promisesD:
  assumes "keeps_promises v srv" and "srv tag cmd c = (st, evs, c')"
  shows "always_promised v cmd c c'" and "answer tag evs = Some r \<Longrightarrow> ok_promised v cmd c c' r"
  using assms unfolding keeps_promises_def by blast+

text \<open>Properties of the connection alone, through the verbs.\<close>

definition on_conn :: "('s \<Rightarrow> bool) \<Rightarrow> ('s, 'z) imap_session_scheme \<Rightarrow> bool" where
  "on_conn I s \<longleftrightarrow> I (conn s)"

lemma on_conn_simps [simp]:
  "on_conn I (s\<lparr>tag_counter := n\<rparr>) = on_conn I s"
  "on_conn I (s\<lparr>broken := b\<rparr>) = on_conn I s"
  "on_conn I (s\<lparr>conn := c\<rparr>) = I c"
  "on_conn I (s\<lparr>condstore_enabled := x\<rparr>) = on_conn I s"
  "on_conn I (s\<lparr>qresync_enabled := x\<rparr>) = on_conn I s"
  "on_conn I (s\<lparr>capabilities := cs\<rparr>) = on_conn I s"
  by (simp_all add: on_conn_def)

lemma on_conn_world [simp]:
  "on_conn I (w\<lparr>w_mail := d\<rparr>) = on_conn I w"
  "on_conn I (w\<lparr>w_settings := e\<rparr>) = on_conn I w"
  by (simp_all add: on_conn_def)

lemma conn_execute:
  assumes "keeps_promises v srv"
    and "\<And>c c'. I c \<Longrightarrow> always_promised v cmd c c' \<Longrightarrow> E c'"
    and "\<And>c c' r. I c \<Longrightarrow> always_promised v cmd c c' \<Longrightarrow> ok_promised v cmd c c' r \<Longrightarrow> Q r c'"
    and "\<And>c. I c \<Longrightarrow> E c"
  shows "hoare (on_conn I) (execute srv cmd) (\<lambda>r. on_conn (Q r)) (on_conn E)"
proof (rule hoare_execute)
  fix s :: "('a, 'z) imap_session_scheme"
  assume "on_conn I s"
  then show "on_conn E s" by (simp add: on_conn_def assms(4))
next
  fix s :: "('a, 'z) imap_session_scheme" and tag st evs c n b
  assume "on_conn I s" and "srv tag cmd (conn s) = (st, evs, c)"
  then show "on_conn E (s\<lparr>tag_counter := n, conn := c, broken := b\<rparr>)"
    using assms(2) promisesD(1) [OF assms(1)] by (simp add: on_conn_def)
next
  fix s :: "('a, 'z) imap_session_scheme" and tag st evs c n r
  assume "on_conn I s" and srv: "srv tag cmd (conn s) = (st, evs, c)" and "answer tag evs = Some r"
  then show "on_conn (Q r) (s\<lparr>tag_counter := n, conn := c\<rparr>)"
    using assms(3) promisesD [OF assms(1) srv] by (simp add: on_conn_def)
qed

subsection \<open>Facts kept outside a set of slots\<close>

text \<open>\<open>I\<close> survives any command that empties slots of \<open>T\<close> only.\<close>

definition stable_outside :: "('s, 'm) server_view \<Rightarrow> slot set \<Rightarrow> ('s \<Rightarrow> bool) \<Rightarrow> bool" where
  "stable_outside v T I \<longleftrightarrow>
     (\<forall>c c'. I c \<longrightarrow> (\<forall>k x. sv_box v c k = Some x \<longrightarrow> k \<notin> T \<longrightarrow> sv_box v c' k = Some x) \<longrightarrow> I c')"

definition selecting :: "('s, 'm) server_view \<Rightarrow> string \<Rightarrow> ('s \<Rightarrow> bool) \<Rightarrow> 's \<Rightarrow> bool" where
  "selecting v b I c \<longleftrightarrow> sv_selected v c = Some b \<and> I c"

lemma stable_step:
  assumes "stable_outside v T I" and "I c" and "always_promised v cmd c c'" and "may_remove v cmd c \<subseteq> T"
  shows "I c'"
  using assms unfolding stable_outside_def always_promised_def by blast



definition removes_mail :: "imap_command \<Rightarrow> bool" where
  "removes_mail cmd \<longleftrightarrow> (case cmd of Expunge \<Rightarrow> True | ExpungeUid _ \<Rightarrow> True | Move _ _ \<Rightarrow> True | _ \<Rightarrow> False)"

definition is_select :: "imap_command \<Rightarrow> bool" where
  "is_select cmd \<longleftrightarrow> (case cmd of Select _ _ \<Rightarrow> True | _ \<Rightarrow> False)"

lemma removes_mail_simps [simp]:
  "\<not> removes_mail (Select b p)" "\<not> removes_mail (Fetch_Flags us m)" "\<not> removes_mail (Fetch_Full us)"
  "\<not> removes_mail (Search ks)" "\<not> removes_mail (Store us add fs)" "\<not> removes_mail (Copy us d)"
  "\<not> removes_mail (Append d fs raw)" "\<not> removes_mail (Create d)" "\<not> removes_mail (List_Command r pat)"
  "\<not> removes_mail (Lsub r pat)" "\<not> removes_mail Namespace" "\<not> removes_mail Noop"
  by (simp_all add: removes_mail_def)

lemma is_select_simps [simp]:
  "\<not> is_select (Fetch_Flags us m)" "\<not> is_select (Fetch_Full us)"
  "\<not> is_select (Search ks)" "\<not> is_select (Store us add fs)" "\<not> is_select (Copy us d)"
  "\<not> is_select (Append d fs raw)" "\<not> is_select (ExpungeUid us)" "\<not> is_select Expunge"
  by (simp_all add: is_select_def)

lemma may_remove_none: "\<not> removes_mail cmd \<Longrightarrow> may_remove v cmd c = {}"
  by (auto simp: may_remove_def removes_mail_def split: option.splits imap_command.splits)

lemma not_select_stays:
  "always_promised v cmd c c' \<Longrightarrow> \<not> is_select cmd \<Longrightarrow> sv_selected v c' = sv_selected v c"
  unfolding always_promised_def is_select_def by (cases cmd) simp_all

lemma keeps_harmless:
  assumes "keeps_promises v srv" and "stable_outside v T I" and "\<not> removes_mail cmd"
  shows "keeps (on_conn I) (execute srv cmd)"
proof -
  have "I c'" if "I c" "always_promised v cmd c c'" for c c'
    by (rule stable_step [OF assms(2) that]) (simp add: may_remove_none [OF assms(3)])
  then show ?thesis
    unfolding keeps_def by (intro conn_execute [OF assms(1)]) auto
qed

lemma keeps_harmless_at:
  assumes "keeps_promises v srv" and "stable_outside v T I"
    and "\<not> is_select cmd" and "\<And>c. selecting v b I c \<Longrightarrow> may_remove v cmd c \<subseteq> T"
  shows "keeps (on_conn (selecting v b I)) (execute srv cmd)"
proof -
  have step: "selecting v b I c'" if "selecting v b I c" "always_promised v cmd c c'" for c c'
    using that stable_step [OF assms(2) _ that(2) assms(4) [OF that(1)]] not_select_stays [OF that(2) assms(3)]
    by (simp add: selecting_def)
  then show ?thesis
    unfolding keeps_def by (intro conn_execute [OF assms(1)]) auto
qed

lemma keeps_quiet_at:
  assumes "keeps_promises v srv" and "stable_outside v T I" and "\<not> is_select cmd" and "\<not> removes_mail cmd"
  shows "keeps (on_conn (selecting v b I)) (execute srv cmd)"
  using assms(1-3) by (rule keeps_harmless_at) (simp add: may_remove_none [OF assms(4)])

lemma selecting_only: "on_conn (selecting v b I) s \<Longrightarrow> on_conn I s"
  by (simp add: on_conn_def selecting_def)

text \<open>After a \<open>SELECT\<close> that succeeded the mailbox is the one asked for.\<close>

lemma select_executes:
  assumes "keeps_promises v srv" and "stable_outside v T I"
  shows "hoare (on_conn I) (execute srv (Select b p)) (\<lambda>_. on_conn (selecting v b I)) (on_conn I)"
  using stable_step [OF assms(2)] may_remove_none [of "Select b p" v]
  by (intro conn_execute [OF assms(1)]) (auto simp: selecting_def ok_promised_def)

lemma session_select_selects:
  assumes "keeps_promises v srv" and "stable_outside v T I"
  shows "hoare (on_conn I) (session_select srv path qresync)
    (\<lambda>_. on_conn (selecting v (encode_modified_utf7 path) I)) (on_conn I)"
  using select_executes [OF assms] by (rule hoare_session_select) (simp add: on_conn_def)

subsection \<open>Deleting by UID\<close>

lemma lift_sequence_set: "hoare P (lift_io (uids_to_sequence_set uids)) (\<lambda>sq s. set sq = set uids \<and> P s) P"
  using sequence_set_same by (auto simp: hoare_def io_simps split: sum.split)

lemma keeps_store:
  assumes "keeps_promises v srv" and "stable_outside v T I"
  shows "keeps (on_conn (selecting v b I)) (uid_store_flags srv uids add flags)"
  unfolding uid_store_flags_def
  by (intro keeps_rules keeps_quiet_at [OF assms]) simp_all

lemma keeps_search:
  assumes "keeps_promises v srv" and "stable_outside v T I"
  shows "keeps (on_conn (selecting v b I)) (uid_search srv keys)"
  unfolding uid_search_def
  by (intro keeps_rules keeps_quiet_at [OF assms]) simp_all

text \<open>
  Without UIDPLUS the mailbox is only expunged when the server names no other message as deleted.
\<close>

definition only_these_marked :: "('s, 'm) server_view \<Rightarrow> string \<Rightarrow> nat set \<Rightarrow> 's \<Rightarrow> bool" where
  "only_these_marked v b U c \<longleftrightarrow> (\<forall>u. (b, u) \<in> sv_marked v c \<longrightarrow> u \<in> U)"

lemma search_deleted:
  assumes "keeps_promises v srv" and "stable_outside v T I"
  shows "hoare (on_conn (selecting v b I)) (uid_search srv [Deleted_Key])
    (\<lambda>found. on_conn (\<lambda>c. selecting v b I c \<and> only_these_marked v b (set found) c))
    (on_conn (selecting v b I))"
  unfolding uid_search_def
proof (rule hoare_bind)
  have step: "selecting v b I c'"
    if "selecting v b I c" "always_promised v (Search [Deleted_Key]) c c'" for c c'
    using that stable_step [OF assms(2) _ that(2)] not_select_stays [OF that(2)]
    by (simp add: selecting_def may_remove_none)
  show "hoare (on_conn (selecting v b I)) (execute srv (Search [Deleted_Key]))
      (\<lambda>r. on_conn (\<lambda>c. selecting v b I c
          \<and> only_these_marked v b (set (concat (map search_uids (cr_data r)))) c))
      (on_conn (selecting v b I))"
  proof (rule conn_execute [OF assms(1)])
    fix c c' r
    assume c: "selecting v b I c" and p: "always_promised v (Search [Deleted_Key]) c c'"
      and ok: "ok_promised v (Search [Deleted_Key]) c c' r"
    from p have "sv_marked v c' \<subseteq> sv_marked v c" by (simp add: always_promised_def)
    with ok c have "only_these_marked v b (set (concat (map search_uids (cr_data r)))) c'"
      unfolding ok_promised_def only_these_marked_def selecting_def by auto
    with step [OF c p]
    show "selecting v b I c' \<and> only_these_marked v b (set (concat (map search_uids (cr_data r)))) c'" by simp
  qed (use step in blast)+
next
  fix r
  show "hoare (on_conn (\<lambda>c. selecting v b I c
          \<and> only_these_marked v b (set (concat (map search_uids (cr_data r)))) c))
      (ret_io (concat (map search_uids (cr_data r))))
      (\<lambda>found. on_conn (\<lambda>c. selecting v b I c \<and> only_these_marked v b (set found) c))
      (on_conn (selecting v b I))"
    by (simp add: hoare_def io_simps)
qed

lemma expunge_of_these:
  assumes "keeps_promises v srv" and "stable_outside v T I" and "{b} \<times> U \<subseteq> T"
  shows "hoare (on_conn (\<lambda>c. selecting v b I c \<and> only_these_marked v b U c)) (execute srv Expunge)
    (\<lambda>_. on_conn (selecting v b I)) (on_conn (selecting v b I))"
proof -
  have step: "selecting v b I c'"
    if "selecting v b I c" "only_these_marked v b U c" "always_promised v Expunge c c'" for c c'
  proof -
    have "may_remove v Expunge c \<subseteq> T"
      using that(1,2) assms(3) by (auto simp: may_remove_def selecting_def only_these_marked_def)
    with that show ?thesis
      using stable_step [OF assms(2) _ that(3)] not_select_stays [OF that(3)] by (simp add: selecting_def)
  qed
  show ?thesis by (rule conn_execute [OF assms(1)]) (auto intro: step)
qed

lemma keeps_expunge_only:
  fixes srv :: "'s peer"
  assumes "keeps_promises v srv" and "stable_outside v T I" and "{b} \<times> set uids \<subseteq> T"
  shows "keeps (on_conn (selecting v b I) :: ('s, 'z) imap_session_scheme \<Rightarrow> bool) (expunge_only srv uids)"
  unfolding keeps_def expunge_only_def
proof (rule hoare_bind [OF search_deleted [OF assms(1,2)]])
  fix found
  let ?P = "on_conn (\<lambda>c. selecting v b I c \<and> only_these_marked v b (set found) c)
    :: ('s, 'z) imap_session_scheme \<Rightarrow> bool"
  have "hoare ?P (session_expunge srv) (\<lambda>_. on_conn (selecting v b I)) (on_conn (selecting v b I))"
    if "set found \<subseteq> set uids"
    unfolding session_expunge_def
  proof (rule hoare_bind [OF hoare_pre [OF expunge_of_these [OF assms]]])
    show "on_conn (\<lambda>c. selecting v b I c \<and> only_these_marked v b (set uids) c) s" if "?P s" for s
      using that \<open>set found \<subseteq> set uids\<close> by (auto simp: on_conn_def only_these_marked_def)
  next
    show "hoare (on_conn (selecting v b I)) (ret_io ()) (\<lambda>_. on_conn (selecting v b I)) (on_conn (selecting v b I))"
      by (rule hoare_ret)
  qed
  moreover have "set found \<subseteq> set uids" if "length (filter (\<lambda>u. u \<notin> set uids) found) = 0"
    using that by (auto simp: filter_empty_conv)
  moreover have "hoare ?P (lift_io (Inl e)) (\<lambda>_. on_conn (selecting v b I)) (on_conn (selecting v b I))" for e
    by (simp add: hoare_def io_simps on_conn_def)
  ultimately show "hoare ?P
      (let others = length (filter (\<lambda>u. u \<notin> set uids) found) in
       if 0 < others
       then lift_io (Inl (Network (''not expunged: '' @ string_of_nat others @
              '' other message(s) in this folder are marked deleted, and the server cannot expunge by UID'')))
       else session_expunge srv)
      (\<lambda>_. on_conn (selecting v b I)) (on_conn (selecting v b I))"
    unfolding Let_def by (cases "0 < length (filter (\<lambda>u. u \<notin> set uids) found)") simp_all
qed

lemma keeps_uid_expunge:
  fixes srv :: "'s peer"
  assumes "keeps_promises v srv" and "stable_outside v T I" and "{b} \<times> set uids \<subseteq> T"
  shows "keeps (on_conn (selecting v b I)) (uid_expunge srv uids)"
proof -
  have sq: "keeps (on_conn (selecting v b I)) (execute srv (ExpungeUid sq))"
    if "uids_to_sequence_set uids = Inr sq" for sq
    using sequence_set_same [OF that] assms(3)
    by (intro keeps_harmless_at [OF assms(1,2)]) (auto simp: may_remove_def selecting_def)
  show ?thesis
    unfolding uid_expunge_eq
    by (intro keeps_if keeps_bind_lift keeps_bind [OF keeps_get] keeps_bind [OF keeps_try [OF sq]]
        keeps_case_result keeps_ret keeps_lift keeps_expunge_only [OF assms])
qed

subsection \<open>The engine's deletes\<close>

lemma keeps_store_ops [keeps_rules]:
  "keeps (on_conn I) (db_io f)" "keeps (on_conn I) (db_get g)" "keeps (on_conn I) (db_do h)"
  "keeps (on_conn I) (account_get i)" "keeps (on_conn I) session_ready"
  "keeps (on_conn I) (modify_io (\<lambda>w. w\<lparr>w_mail := d w\<rparr>))"
  by (auto intro!: keepsI simp: on_conn_def db_io_def db_get_def db_do_def account_get_def
      session_ready_def io_simps split: prod.splits if_splits)

lemma keeps_forget: "keeps (on_conn I) (forget_uids folder_id uids)"
  unfolding forget_uids_def by (intro keeps_rules)

lemma keeps_selected_part:
  assumes "keeps_promises v srv" and "stable_outside v T I"
    and "keeps (on_conn (selecting v (encode_modified_utf7 path) I)) rest"
  shows "keeps (on_conn I) (bind_io (session_select srv path q) (\<lambda>_. rest))"
  unfolding keeps_def
proof (rule hoare_bind [OF session_select_selects [OF assms(1,2)]])
  show "hoare (on_conn (selecting v (encode_modified_utf7 path) I)) rest (\<lambda>_. on_conn I) (on_conn I)"
    by (rule hoare_weaken [OF keeps_hoare [OF assms(3)]]) (auto dest: selecting_only)
qed

lemma keeps_deleting:
  assumes "keeps_promises v srv" and "stable_outside v T I" and "{encode_modified_utf7 path} \<times> set uids \<subseteq> T"
    and "\<And>J. keeps (on_conn J) rest"
  shows "keeps (on_conn I)
    (bind_io session_ready (\<lambda>_.
     bind_io (session_select srv path None) (\<lambda>_.
     bind_io (uid_store_flags srv uids True [Deleted]) (\<lambda>_.
     bind_io (uid_expunge srv uids) (\<lambda>_. rest)))))"
  by (intro keeps_bind [OF keeps_store_ops(5)] keeps_selected_part [OF assms(1,2)]
      keeps_bind [OF keeps_store [OF assms(1,2)]] keeps_bind [OF keeps_uid_expunge [OF assms(1-3)]] assms(4))

text \<open>The mail outside \<open>T\<close> stands where it stood.\<close>

definition untouched :: "('s, 'm) server_view \<Rightarrow> 's \<Rightarrow> slot set \<Rightarrow> 's \<Rightarrow> bool" where
  "untouched v c\<^sub>0 T c \<longleftrightarrow> (\<forall>k x. sv_box v c\<^sub>0 k = Some x \<longrightarrow> k \<notin> T \<longrightarrow> sv_box v c k = Some x)"

lemma stable_untouched: "stable_outside v T (untouched v c T)"
  unfolding stable_outside_def untouched_def by blast

lemma keeps_run:
  assumes "keeps (on_conn I) m" and "I (conn w)" and "m w = (r, w')"
  shows "I (conn w')"
  using keepsD [OF assms(1) _ assms(3)] assms(2) by (simp add: on_conn_def)


subsection \<open>Moving\<close>

lemma stays_put:
  "always_promised v cmd c c' \<Longrightarrow> sv_box v c k = Some x \<Longrightarrow> k \<notin> may_remove v cmd c \<Longrightarrow> sv_box v c' k = Some x"
  unfolding always_promised_def by blast

text \<open>Each mail of \<open>X\<close> stands somewhere outside \<open>T\<close>.\<close>

definition kept :: "('s, 'm) server_view \<Rightarrow> 'm set \<Rightarrow> slot set \<Rightarrow> 's \<Rightarrow> bool" where
  "kept v X T c \<longleftrightarrow> (\<forall>x \<in> X. \<exists>k. k \<notin> T \<and> sv_box v c k = Some x)"

lemma stable_kept: "stable_outside v T (kept v X T)"
  unfolding stable_outside_def kept_def by blast

lemma kept_less: "kept v X T c \<Longrightarrow> kept v X {} c"
  unfolding kept_def by blast

lemma copy_keeps:
  assumes "keeps_promises v srv"
  shows "hoare (on_conn (selecting v b (kept v X {}))) (execute srv (Copy us dest))
    (\<lambda>_. on_conn (selecting v b (kept v X ({b} \<times> set us)))) (on_conn (selecting v b (kept v X {})))"
proof (rule conn_execute [OF assms])
  fix c c'
  assume c: "selecting v b (kept v X {}) c" and p: "always_promised v (Copy us dest) c c'"
  then show E: "selecting v b (kept v X {}) c'"
    using stable_step [OF stable_kept _ p] not_select_stays [OF p]
    by (simp add: selecting_def may_remove_none)
  fix r
  assume ok: "ok_promised v (Copy us dest) c c' r"
  have "\<exists>k. k \<notin> {b} \<times> set us \<and> sv_box v c' k = Some x" if "x \<in> X" for x
  proof -
    from c that obtain k where k: "sv_box v c k = Some x" by (auto simp: selecting_def kept_def)
    show ?thesis
    proof (cases "k \<in> {b} \<times> set us")
      case True
      then obtain u where "k = (b, u)" "u \<in> set us" by auto
      with k ok c show ?thesis by (simp add: ok_promised_def selecting_def)
    next
      case False
      moreover have "sv_box v c' k = Some x" by (rule stays_put [OF p k]) (simp add: may_remove_none)
      ultimately show ?thesis by blast
    qed
  qed
  then show "selecting v b (kept v X ({b} \<times> set us)) c'" using E by (simp add: selecting_def kept_def)
qed

lemma move_keeps:
  assumes "keeps_promises v srv"
  shows "keeps (on_conn (selecting v b (kept v X {}))) (execute srv (Move us dest))"
proof -
  have "selecting v b (kept v X {}) c'"
    if c: "selecting v b (kept v X {}) c" and p: "always_promised v (Move us dest) c c'" for c c'
  proof -
    have "\<exists>k. sv_box v c' k = Some x" if "x \<in> X" for x
    proof -
      from c that obtain k where k: "sv_box v c k = Some x" by (auto simp: selecting_def kept_def)
      show ?thesis
      proof (cases "k \<in> {b} \<times> set us")
        case True
        with k p c show ?thesis by (auto simp: always_promised_def selecting_def)
      next
        case False
        with c have "k \<notin> may_remove v (Move us dest) c" by (simp add: may_remove_def selecting_def)
        with stays_put [OF p k] show ?thesis by blast
      qed
    qed
    with c p show ?thesis using not_select_stays [OF p] by (simp add: selecting_def kept_def is_select_def)
  qed
  then show ?thesis unfolding keeps_def by (intro conn_execute [OF assms]) auto
qed

lemma copy_then_remove_keeps:
  assumes "keeps_promises v srv" and "set sq = set uids"
  shows "keeps (on_conn (selecting v b (kept v X {}))) (copy_then_remove srv uids sq mailbox)"
  unfolding keeps_def copy_then_remove_def
proof (rule hoare_bind [OF copy_keeps [OF assms(1)]])
  let ?J = "selecting v b (kept v X ({b} \<times> set uids))"
  have "keeps (on_conn ?J) (bind_io (try_io (bind_io (uid_store_flags srv uids True [Deleted])
      (\<lambda>_. uid_expunge srv uids))) (\<lambda>_. ret_io ()))"
    by (intro keeps_rules keeps_store [OF assms(1) stable_kept]
        keeps_uid_expunge [OF assms(1) stable_kept subset_refl])
  then show "hoare (on_conn (selecting v b (kept v X ({b} \<times> set sq))))
      (bind_io (try_io (bind_io (uid_store_flags srv uids True [Deleted]) (\<lambda>_. uid_expunge srv uids)))
        (\<lambda>_. ret_io ()))
      (\<lambda>_. on_conn (selecting v b (kept v X {}))) (on_conn (selecting v b (kept v X {})))"
    unfolding assms(2)
    by (rule hoare_weaken [OF keeps_hoare]) (auto simp: on_conn_def selecting_def dest: kept_less)
qed

lemma uid_move_keeps:
  assumes "keeps_promises v srv"
  shows "keeps (on_conn (selecting v b (kept v X {}))) (uid_move srv uids dest)"
  unfolding uid_move_eq
  by (intro keeps_if keeps_bind_lift keeps_bind [OF keeps_get] keeps_bind [OF keeps_try [OF move_keeps [OF assms]]]
      keeps_case_result keeps_ret keeps_lift copy_then_remove_keeps [OF assms] sequence_set_same)

lemma keeps_move_uids:
  assumes "keeps_promises v (e_srv env)"
  shows "keeps (on_conn (kept v X {})) (move_uids_to env src uids dest)"
  unfolding move_uids_to_def Let_def
  by (intro keeps_if keeps_ret keeps_bind [OF keeps_store_ops(2)] keeps_bind [OF keeps_store_ops(5)]
      keeps_bind [OF keeps_get] keeps_selected_part [OF assms stable_kept]
      keeps_bind [OF uid_move_keeps [OF assms]] keeps_forget
      keeps_bind [OF keeps_if] keeps_bind [OF keeps_try]
      keeps_store [OF assms stable_kept])

lemma keeps_list_under:
  assumes "keeps_promises v srv" and "stable_outside v T I"
  shows "keeps (on_conn I) (list_under srv lower reference pattern found)"
  unfolding list_under_def auxiliary_def session_list_def
  by (intro keeps_rules keeps_harmless [OF assms]) simp_all

lemma keeps_discover:
  assumes "keeps_promises v srv" and "stable_outside v T I"
  shows "keeps (on_conn I) (discover_folders srv lower now account_id)"
proof -
  have settings: "keeps (on_conn I) (modify_io (\<lambda>w. w\<lparr>w_settings := f w\<rparr>))" for f
    by (rule keeps_modify) simp
  show ?thesis
    unfolding discover_folders_def auxiliary_def upsert_discovered_def session_list_def session_lsub_def
      session_namespace_def Let_def split_beta
    by (intro keeps_rules settings keeps_list_under [OF assms] keeps_harmless [OF assms]) simp_all
qed

lemma keeps_create_path:
  assumes "keeps_promises v (e_srv env)" and "stable_outside v T I"
  shows "keeps (on_conn I) (create_folder_path env account_id path delimiter)"
  unfolding create_folder_path_def create_prefix_def create_folder_def sync_folders_def Let_def
  by (intro keeps_rules keeps_discover [OF assms] keeps_harmless [OF assms]) simp_all

lemma keeps_pending_target:
  assumes "keeps_promises v (e_srv env)" and "stable_outside v T I"
  shows "keeps (on_conn I) (pending_target env account_id src action dest)"
  unfolding pending_target_def
  by (cases action; simp only: pending_action.case)
    (intro keeps_rules keeps_create_path [OF assms])+

lemma keeps_push_group:
  assumes "keeps_promises v (e_srv env)"
  shows "keeps (on_conn (kept v X {})) (push_group env account_id g n)"
  unfolding push_group_def Let_def split_beta
  by (intro keeps_rules keeps_pending_target [OF assms stable_kept] keeps_move_uids [OF assms])

text \<open>
  C5. Carrying out queued deletes, archives and moves never loses a mail: whatever the server
  answers, and wherever a group stops, every mail that stood on the server before the push stands in
  some mailbox after it, also where the server lacks MOVE and the client copies, marks and expunges.
\<close>

theorem pushing_moves_loses_no_mail:
  assumes "keeps_promises v (e_srv env)" and "push_due_moves env account_id w = (r, w')"
    and "sv_box v (conn w) k = Some x"
  shows "\<exists>k'. sv_box v (conn w') k' = Some x"
proof -
  have "keeps (on_conn (kept v {x} {})) (push_due_moves env account_id)"
    unfolding push_due_moves_def by (intro keeps_rules keeps_push_group [OF assms(1)])
  moreover have "kept v {x} {} (conn w)" unfolding kept_def using assms(3) by blast
  ultimately have "kept v {x} {} (conn w')" using assms(2) by (rule keeps_run)
  then show ?thesis by (simp add: kept_def)
qed

end
