(* ===== verification/Pending_Progress.thy ===== *)
theory Pending_Progress
  imports Imap_Mutate Imap_Sync_Facts
begin

text \<open>
  Every push of the queued moves makes progress: a due move is carried out, dropped, or charged one
  of its five attempts, whatever the server does.
\<close>

subsection \<open>What a push does to the cache\<close>

text \<open>The five ways a push of moves changes the database.\<close>

definition push_stable :: "(mail_db \<Rightarrow> bool) \<Rightarrow> bool" where
  "push_stable I \<longleftrightarrow> (\<forall>d. I d \<longrightarrow>
     (\<forall>fid uids. I (snd (delete_many_by_uids fid uids d)))
   \<and> (\<forall>fid n. I (note_removed_on_server fid n d))
   \<and> (\<forall>ids. I (pending_remove ids d))
   \<and> (\<forall>items. I (pending_failed items d))
   \<and> (\<forall>a p dl r. I (snd (folder_upsert a p dl r d))))"

lemma push_stableD:
  assumes "push_stable I" and "I d"
  shows "I (snd (delete_many_by_uids fid uids d))" "I (note_removed_on_server fid n d)"
    "I (pending_remove ids d)" "I (pending_failed items d)" "I (snd (folder_upsert a p dl r d))"
  using assms unfolding push_stable_def by blast+

lemma keeps_mail_more [keeps_rules]:
  "keeps (on_mail I) (expunge_only srv uids)"
  "keeps (on_mail I) (session_list srv rf pat)"
  "keeps (on_mail I) (session_lsub srv rf pat)"
  "keeps (on_mail I) (session_namespace srv)"
  "keeps (on_mail I) (create_folder srv path)"
  unfolding expunge_only_def session_expunge_def session_list_def session_lsub_def session_namespace_def
    create_folder_def Let_def
  by (intro keeps_rules)+

lemma keeps_mail_uid_expunge [keeps_rules]: "keeps (on_mail I) (uid_expunge srv uids)"
  unfolding uid_expunge_eq by (intro keeps_rules)

lemma keeps_mail_copy [keeps_rules]: "keeps (on_mail I) (copy_then_remove srv uids sq mailbox)"
  unfolding copy_then_remove_def by (intro keeps_rules)

lemma keeps_mail_uid_move [keeps_rules]: "keeps (on_mail I) (uid_move srv uids dest)"
  unfolding uid_move_eq by (intro keeps_rules)

lemma keeps_mail_settings [keeps_rules]: "keeps (on_mail I) (modify_io (\<lambda>w. w\<lparr>w_settings := f w\<rparr>))"
  by (rule keeps_modify) simp

lemma keeps_mail_modify: "(\<And>d. I d \<Longrightarrow> I (f d)) \<Longrightarrow> keeps (on_mail I) (modify_io (\<lambda>w. w\<lparr>w_mail := f (w_mail w)\<rparr>))"
  by (rule keeps_modify) (simp add: on_mail_def)

lemma keeps_mail_discover:
  assumes "push_stable I"
  shows "keeps (on_mail I) (discover_folders srv lower now account_id)"
  unfolding discover_folders_def auxiliary_def upsert_discovered_def list_under_def Let_def split_beta
  by (intro keeps_rules keeps_mail_do push_stableD [OF assms])

lemma keeps_mail_create_path:
  assumes "push_stable I"
  shows "keeps (on_mail I) (create_folder_path env account_id path delimiter)"
  unfolding create_folder_path_def create_prefix_def sync_folders_def Let_def
  by (intro keeps_rules keeps_mail_discover [OF assms])

lemma keeps_mail_target:
  assumes "push_stable I"
  shows "keeps (on_mail I) (pending_target env account_id src action dest)"
  unfolding pending_target_def
  by (cases action; simp only: pending_action.case) (intro keeps_rules keeps_mail_create_path [OF assms])+

lemma keeps_mail_move_uids:
  assumes "push_stable I"
  shows "keeps (on_mail I) (move_uids_to env src uids dest)"
  unfolding move_uids_to_def forget_uids_def Let_def
  by (intro keeps_rules keeps_mail_do keeps_mail_modify push_stableD [OF assms])

lemma keeps_mail_push_group:
  assumes "push_stable I"
  shows "keeps (on_mail I) (push_group env account_id g n)"
  unfolding push_group_def Let_def split_beta
  by (intro keeps_rules keeps_mail_target [OF assms] keeps_mail_move_uids [OF assms] keeps_mail_modify
      push_stableD [OF assms])

subsection \<open>The tables\<close>

text \<open>
  What the schema enforces: primary keys, the unique path per account, and the foreign keys (a
  message's folder belongs to the message's account).
\<close>

definition paths_unique :: "folder list \<Rightarrow> bool" where
  "paths_unique fs \<longleftrightarrow> (\<forall>f \<in> set fs. \<forall>g \<in> set fs.
     d_account_id f = d_account_id g \<longrightarrow> d_path f = d_path g \<longrightarrow> d_id f = d_id g)"

definition rows_referenced :: "mail_db \<Rightarrow> bool" where
  "rows_referenced db \<longleftrightarrow> (\<forall>p \<in> set (db_pending db). \<exists>m \<in> set (db_messages db). m_id m = p_message_id p)"

definition folders_owned :: "mail_db \<Rightarrow> bool" where
  "folders_owned db \<longleftrightarrow> (\<forall>m \<in> set (db_messages db). m_folder_id m < db_next_folder db
     \<and> (\<forall>f \<in> set (db_folders db). d_id f = m_folder_id m \<longrightarrow> d_account_id f = m_account_id m))"

definition schema_ok :: "mail_db \<Rightarrow> bool" where
  "schema_ok db \<longleftrightarrow> distinct (map m_id (db_messages db)) \<and> distinct (map p_message_id (db_pending db))
     \<and> rows_referenced db \<and> folders_owned db \<and> paths_unique (db_folders db)"

subsection \<open>The five changes in normal form\<close>

lemma pending_remove_eq:
  "pending_remove ids db = db\<lparr>db_pending := delete_where (\<lambda>p. p_message_id p \<in> set ids) (db_pending db)\<rparr>"
  unfolding pending_remove_def
  by (induction ids arbitrary: db) (auto simp: delete_where_def intro!: mail_db.equality filter_cong)

lemma record_failure_eq:
  "pending_record_failure ids db = db\<lparr>db_pending := map (\<lambda>p. p\<lparr>p_attempts :=
     p_attempts p + int (count_list ids (p_message_id p))\<rparr>) (db_pending db)\<rparr>"
  unfolding pending_record_failure_def
  by (induction ids arbitrary: db) (auto simp: update_where_def intro!: mail_db.equality)

lemma pending_failed_fields:
  "db_messages (pending_failed items db) = db_messages db" "db_folders (pending_failed items db) = db_folders db"
  "db_next_folder (pending_failed items db) = db_next_folder db"
  by (simp_all add: pending_failed_def Let_def pending_remove_eq record_failure_eq)

definition gives_up :: "pending_item \<Rightarrow> bool" where
  "gives_up i \<longleftrightarrow> MAX_PENDING_ATTEMPTS \<le> snd (snd i) + 1"

lemma pending_failed_rows:
  "db_pending (pending_failed items db) = map (\<lambda>p. p\<lparr>p_attempts :=
      p_attempts p + int (count_list (map fst (filter (\<lambda>i. \<not> gives_up i) items)) (p_message_id p))\<rparr>)
    (filter (\<lambda>p. p_message_id p \<notin> fst ` {i \<in> set items. gives_up i}) (db_pending db))"
proof -
  have g: "(\<lambda>(_, _, attempts). MAX_PENDING_ATTEMPTS \<le> attempts + 1) = gives_up"
    by (auto simp: gives_up_def)
  have none: "{i \<in> set items. gives_up i} = {}" if "filter gives_up items = []"
    using that by (auto simp: filter_empty_conv)
  show ?thesis
    by (cases "filter gives_up items = []")
      (simp_all add: pending_failed_def Let_def pending_remove_eq record_failure_eq delete_where_def g none)
qed

subsection \<open>One move, followed through the pushes\<close>

text \<open>The state of the move \<open>d\<close> after at least \<open>k\<close> charged pushes.\<close>

definition tracked :: "int \<Rightarrow> pending_move \<Rightarrow> stamp \<Rightarrow> int \<Rightarrow> mail_db \<Rightarrow> bool" where
  "tracked acc d due k db \<longleftrightarrow> schema_ok db
     \<and> (\<forall>m \<in> set (db_messages db). m_id m = v_message_id d \<longrightarrow>
          m_folder_id m = v_folder_id d \<and> m_uid m = v_uid d \<and> m_account_id m = acc)
     \<and> (\<forall>p \<in> set (db_pending db). p_message_id p = v_message_id d \<longrightarrow>
          parse_action (p_action p) = Some (v_action d) \<and> p_dest_folder_id p = v_dest_folder_id d
          \<and> p_due_at p = due \<and> k \<le> p_attempts p)"

lemma paths_unique_map:
  assumes "paths_unique fs" and "\<And>f. d_id (h f) = d_id f" "\<And>f. d_account_id (h f) = d_account_id f" "\<And>f. d_path (h f) = d_path f"
  shows "paths_unique (map h fs)"
  using assms(1) unfolding paths_unique_def by (simp only: list.set_map ball_simps assms(2-4))

lemma schema_folders:
  assumes "schema_ok db" and "\<And>f. d_id (h f) = d_id f" "\<And>f. d_account_id (h f) = d_account_id f" "\<And>f. d_path (h f) = d_path f"
  shows "schema_ok (db\<lparr>db_folders := map h (db_folders db)\<rparr>)"
  using assms(1) paths_unique_map [OF _ assms(2-4)]
  by (simp add: schema_ok_def rows_referenced_def folders_owned_def assms(2,3))

lemma schema_upsert:
  assumes "schema_ok db" shows "schema_ok (snd (folder_upsert a p dl r db))"
proof (cases "find (\<lambda>f. d_account_id f = a \<and> d_path f = p) (db_folders db)")
  case None
  then have new: "\<forall>f \<in> set (db_folders db). d_account_id f = a \<longrightarrow> d_path f \<noteq> p" by (auto simp: find_None_iff)
  have "paths_unique (fs @ [f])"
    if "paths_unique fs" "\<forall>g \<in> set fs. d_account_id g = d_account_id f \<longrightarrow> d_path g \<noteq> d_path f" for fs f
    using that unfolding paths_unique_def by (metis UnE empty_iff insert_iff list.set(1,2) set_append)
  moreover have "folders_owned (snd (folder_upsert a p dl r db))"
    using assms None unfolding schema_ok_def folders_owned_def folder_upsert_def by fastforce
  ultimately show ?thesis using None assms new
    by (simp add: folder_upsert_def schema_ok_def rows_referenced_def)
next
  case (Some f)
  with assms show ?thesis
    by (simp add: folder_upsert_def update_where_def schema_folders)
qed

lemma schema_delete:
  assumes "schema_ok db" shows "schema_ok (snd (delete_messages q db))"
proof -
  have "rows_referenced (snd (delete_messages q db))"
    using assms unfolding schema_ok_def rows_referenced_def
    by (simp add: delete_messages_def table_simps list_ex_iff) metis
  then show ?thesis
    using assms
    by (simp add: delete_messages_def schema_ok_def folders_owned_def distinct_delete_where table_simps)
qed

lemma schema_rows:
  assumes "schema_ok db" and "map p_message_id rows = map p_message_id (filter q (db_pending db))"
  shows "schema_ok (db\<lparr>db_pending := rows\<rparr>)"
proof -
  have "distinct (map p_message_id rows)"
    using assms by (simp add: schema_ok_def distinct_map_filter)
  moreover have "p_message_id ` set rows \<subseteq> p_message_id ` set (db_pending db)"
    using assms(2) by (metis filter_is_subset image_mono list.set_map)
  then have "rows_referenced (db\<lparr>db_pending := rows\<rparr>)"
    using assms(1) by (fastforce simp: schema_ok_def rows_referenced_def)
  ultimately show ?thesis using assms(1) by (simp add: schema_ok_def folders_owned_def)
qed

text \<open>Each of the five changes only drops mail, drops rows and charges attempts.\<close>

lemma tracked_rows:
  assumes "tracked acc d due k db" and "\<forall>p. \<exists>n. 0 \<le> n \<and> h p = p\<lparr>p_attempts := p_attempts p + n\<rparr>"
  shows "tracked acc d due k (db\<lparr>db_pending := map h (filter q (db_pending db))\<rparr>)"
proof -
  have h: "p_message_id (h p) = p_message_id p" "p_action (h p) = p_action p" "p_due_at (h p) = p_due_at p"
    "p_dest_folder_id (h p) = p_dest_folder_id p" "p_attempts p \<le> p_attempts (h p)" for p
    using assms(2) [rule_format, of p] by auto
  have "schema_ok (db\<lparr>db_pending := map h (filter q (db_pending db))\<rparr>)"
    using assms(1) by (intro schema_rows [where q = q]) (simp_all add: tracked_def h)
  then show ?thesis
    using assms(1) h(5) by (auto simp: tracked_def h intro: order_trans)
qed

lemma pending_failed_is_rows:
  "pending_failed items db = db\<lparr>db_pending := db_pending (pending_failed items db)\<rparr>"
  by (simp add: pending_failed_def Let_def pending_remove_eq record_failure_eq)

lemma tracked_stable: "push_stable (tracked acc d due k)"
  unfolding push_stable_def
proof (intro allI impI conjI)
  fix db fid uids n ids items a p dl r
  assume t: "tracked acc d due k db"
  show "tracked acc d due k (snd (delete_many_by_uids fid uids db))"
    using t schema_delete [of db "\<lambda>m. m_folder_id m = fid \<and> m_uid m \<in> set uids"] unfolding delete_many_eq tracked_def
    by (simp add: delete_messages_def table_simps)
  show "tracked acc d due k (note_removed_on_server fid n db)"
    using t schema_folders unfolding tracked_def note_removed_on_server_def update_where_def by simp
  show "tracked acc d due k (pending_remove ids db)"
  proof -
    have "\<forall>p :: pending_row. \<exists>n. 0 \<le> n \<and> p = p\<lparr>p_attempts := p_attempts p + n\<rparr>"
      by (intro allI exI [of _ 0]) simp
    from tracked_rows [OF t this] show ?thesis by (simp add: pending_remove_eq delete_where_def)
  qed
  show "tracked acc d due k (pending_failed items db)"
    by (subst pending_failed_is_rows, unfold pending_failed_rows, rule tracked_rows [OF t]) (metis of_nat_0_le_iff)
  show "tracked acc d due k (snd (folder_upsert a p dl r db))"
    using t schema_upsert [of db a p dl r] unfolding tracked_def
    by (auto simp: folder_upsert_def split: option.splits)
qed

text \<open>A charged move: dropped, or one attempt further and below the limit.\<close>

definition gone :: "int \<Rightarrow> mail_db \<Rightarrow> bool" where
  "gone i db \<longleftrightarrow> (\<forall>p \<in> set (db_pending db). p_message_id p \<noteq> i)"

definition charged :: "int \<Rightarrow> pending_move \<Rightarrow> stamp \<Rightarrow> mail_db \<Rightarrow> bool" where
  "charged acc d due db \<longleftrightarrow> tracked acc d due (v_attempts d + 1) db
     \<and> (gone (v_message_id d) db \<or> v_attempts d + 1 < MAX_PENDING_ATTEMPTS)"

lemma gone_stable: "push_stable (gone i)"
  unfolding push_stable_def gone_def
  by (simp add: delete_many_eq delete_messages_def note_removed_on_server_def pending_remove_eq pending_failed_rows
      folder_upsert_def table_simps split: option.split)

lemma push_stable_conj: "push_stable I \<Longrightarrow> push_stable J \<Longrightarrow> push_stable (\<lambda>db. I db \<and> J db)"
  by (simp add: push_stable_def)

lemma charged_stable: "push_stable (charged acc d due)"
proof -
  have "push_stable (\<lambda>db. gone (v_message_id d) db \<or> v_attempts d + 1 < MAX_PENDING_ATTEMPTS)"
    using gone_stable by (cases "v_attempts d + 1 < MAX_PENDING_ATTEMPTS") (simp_all add: push_stable_def)
  from push_stable_conj [OF tracked_stable this] show ?thesis unfolding charged_def .
qed

lemma gone_is_charged:
  assumes "tracked acc d due k db" and "gone (v_message_id d) db" shows "charged acc d due db"
  using assms unfolding charged_def tracked_def gone_def by blast

lemma charged_by_failure:
  assumes t: "tracked acc d due (v_attempts d) db" and d: "(v_message_id d, v_uid d, v_attempts d) \<in> set items"
  shows "charged acc d due (pending_failed items db)"
proof (cases "v_message_id d \<in> fst ` {i \<in> set items. gives_up i}")
  case True
  then have "gone (v_message_id d) (pending_failed items db)"
    by (simp only: gone_def pending_failed_rows set_map set_filter) force
  from gone_is_charged [OF push_stableD(4) [OF tracked_stable t] this] show ?thesis .
next
  case False
  with d have below: "\<not> gives_up (v_message_id d, v_uid d, v_attempts d)" by force
  with d have "v_message_id d \<in> set (map fst (filter (\<lambda>i. \<not> gives_up i) items))" by force
  then have "0 < count_list (map fst (filter (\<lambda>i. \<not> gives_up i) items)) (v_message_id d)"
    by (metis count_list_0_iff gr_zeroI)
  then have "\<forall>p \<in> set (db_pending (pending_failed items db)). p_message_id p = v_message_id d \<longrightarrow> v_attempts d + 1 \<le> p_attempts p"
    using t by (fastforce simp: pending_failed_rows tracked_def)
  moreover have "v_attempts d + 1 < MAX_PENDING_ATTEMPTS" using below by (simp add: gives_up_def)
  ultimately show ?thesis
    using push_stableD(4) [OF tracked_stable t, of items] unfolding charged_def tracked_def by auto
qed

lemma charged_by_removal:
  assumes t: "tracked acc d due (v_attempts d) db" and d: "(v_message_id d, v_uid d, v_attempts d) \<in> set items"
  shows "charged acc d due (pending_remove (map fst items) db)"
proof (rule gone_is_charged [OF push_stableD(3) [OF tracked_stable t]])
  show "gone (v_message_id d) (pending_remove (map fst items) db)"
    using d by (force simp: gone_def pending_remove_eq table_simps)
qed

lemma charged_by_move:
  assumes t: "tracked acc d due (v_attempts d) db" and d: "v_uid d \<in> set uids"
  shows "charged acc d due (snd (delete_many_by_uids (v_folder_id d) uids db))"
proof (rule gone_is_charged [OF push_stableD(1) [OF tracked_stable t]])
  show "gone (v_message_id d) (snd (delete_many_by_uids (v_folder_id d) uids db))"
    using t d unfolding delete_many_eq gone_def tracked_def schema_ok_def rows_referenced_def
    by (fastforce simp: delete_messages_def table_simps list_ex_iff)
qed

subsection \<open>The target is another folder\<close>

definition elsewhere :: "int \<Rightarrow> string \<Rightarrow> mail_db \<Rightarrow> bool" where
  "elsewhere i path db \<longleftrightarrow> (\<forall>f \<in> set (db_folders db). d_id f = i \<longrightarrow> d_path f \<noteq> path)"

lemma elsewhereI:
  assumes t: "tracked acc d due k db" and "\<not> gone (v_message_id d) db"
    and g: "g \<in> set (db_folders db)" "d_account_id g = acc" "d_id g \<noteq> v_folder_id d"
  shows "elsewhere (v_folder_id d) (d_path g) db"
proof -
  from assms(2) obtain m where m: "m \<in> set (db_messages db)" "m_id m = v_message_id d"
    using t unfolding gone_def tracked_def schema_ok_def rows_referenced_def by fastforce
  have "d_path f \<noteq> d_path g" if f: "f \<in> set (db_folders db)" "d_id f = v_folder_id d" for f
  proof
    assume "d_path f = d_path g"
    moreover have "d_account_id f = acc" using t m f unfolding tracked_def schema_ok_def folders_owned_def by metis
    ultimately have "d_id f = d_id g" using t f(1) g unfolding tracked_def schema_ok_def paths_unique_def by metis
    then show False using f g by simp
  qed
  then show ?thesis by (simp add: elsewhere_def)
qed

text \<open>What the rest of the group may rely on.\<close>

definition ready_to_move :: "int \<Rightarrow> pending_move \<Rightarrow> stamp \<Rightarrow> string \<Rightarrow> mail_db \<Rightarrow> bool" where
  "ready_to_move acc d due path db \<longleftrightarrow> tracked acc d due (v_attempts d) db
     \<and> (gone (v_message_id d) db \<or> elsewhere (v_folder_id d) path db)"

lemma ready_folder:
  assumes "tracked acc d due (v_attempts d) db" "g \<in> set (db_folders db)" "d_account_id g = acc" "d_id g \<noteq> v_folder_id d"
  shows "ready_to_move acc d due (d_path g) db"
  using assms elsewhereI unfolding ready_to_move_def by blast

lemma hoare_create_path:
  assumes "push_stable I"
  shows "hoare (on_mail I) (create_folder_path env acc path delim)
    (\<lambda>g. on_mail (\<lambda>db. I db \<and> g \<in> set (db_folders db) \<and> d_account_id g = acc)) (on_mail I)"
proof (rule hoareI)
  fix w e w'
  assume "on_mail I w" "create_folder_path env acc path delim w = (Inl e, w')"
  then show "on_mail I w'" using keepsD [OF keeps_mail_create_path [OF assms]] by blast
next
  fix w g w'
  assume I: "on_mail I w" and run: "create_folder_path env acc path delim w = (Inr g, w')"
  then have "on_mail I w'" using keepsD [OF keeps_mail_create_path [OF assms]] by blast
  moreover from run have "\<exists>p. folder_get_by_path acc p (w_mail w') = Inr g"
    unfolding create_folder_path_def
    by (auto simp: bind_io_def try_io_def db_get_def lift_io_def ret_io_def split: prod.splits sum.splits)
  then have "g \<in> set (db_folders (w_mail w'))" "d_account_id g = acc"
    by (auto simp: folder_get_by_path_def dest: find_SomeD split: option.splits)
  ultimately show "on_mail (\<lambda>db. I db \<and> g \<in> set (db_folders db) \<and> d_account_id g = acc) w'"
    by (simp add: on_mail_def)
qed

lemma hoare_target:
  assumes "v_dest_folder_id d \<noteq> Some (v_folder_id d)"
  shows "hoare (on_mail (tracked acc d due (v_attempts d)))
    (pending_target env acc (v_folder_id d) (v_action d) (v_dest_folder_id d))
    (\<lambda>r. case r of None \<Rightarrow> on_mail (tracked acc d due (v_attempts d)) | Some p \<Rightarrow> on_mail (ready_to_move acc d due p))
    (on_mail (tracked acc d due (v_attempts d)))" (is "hoare ?T _ ?Q _")
proof (rule hoareI)
  fix w e w'
  assume "?T w" "pending_target env acc (v_folder_id d) (v_action d) (v_dest_folder_id d) w = (Inl e, w')"
  then show "?T w'" using keepsD [OF keeps_mail_target [OF tracked_stable]] by blast
next
  fix w r w'
  assume T: "?T w" and run: "pending_target env acc (v_folder_id d) (v_action d) (v_dest_folder_id d) w = (Inr r, w')"
  define known where "known = list_by_account acc (w_mail w)"
  have listed: "?Q (map_option d_path (find P known)) w"
    if "\<And>g. find P known = Some g \<Longrightarrow> d_id g \<noteq> v_folder_id d" for P
  proof (cases "find P known")
    case None
    then show ?thesis using T by simp
  next
    case (Some g)
    then have "g \<in> set known" by (auto dest: find_SomeD)
    then show ?thesis using Some that T ready_folder
      by (auto simp: known_def set_list_by_account on_mail_def)
  qed
  have by_role: "?Q (path_by_role known (v_folder_id d) role) w" for role
    unfolding path_by_role_def by (rule listed) (auto dest: find_SomeD)
  show "?Q r w'"
  proof (cases "v_action d")
    case To_Trash
    then show ?thesis using run by_role [of Trash] by (auto simp: pending_target_def io_simps known_def)
  next
    case To_Folder
    have "?Q (map_option d_path (find (\<lambda>f. d_id f = i \<and> d_id f \<noteq> v_folder_id d) known)) w" for i
      by (rule listed) (auto dest: find_SomeD)
    then show ?thesis using run To_Folder T
      by (cases "v_dest_folder_id d") (auto simp: pending_target_def io_simps known_def)
  next
    case To_Archive
    show ?thesis
    proof (cases "v_dest_folder_id d")
      case (Some i)
      have "?Q (map_option d_path (find (\<lambda>f. d_id f = i) known)) w"
        using assms Some by (intro listed) (auto dest: find_SomeD)
      moreover have "r = map_option d_path (find (\<lambda>f. d_id f = i) known)" "w' = w"
        using run To_Archive Some by (auto simp: pending_target_def io_simps known_def)
      ultimately show ?thesis by (simp only:)
    next
      case None
      show ?thesis
      proof (cases "path_by_role known (v_folder_id d) Archive")
        case (Some p)
        then show ?thesis using run To_Archive None by_role [of Archive]
          by (simp add: pending_target_def io_simps known_def)
      next
        case no_role: None
        with run To_Archive None have
          "bind_io (create_folder_path env acc ''Archive'' (case known of [] \<Rightarrow> ''/'' | f # _ \<Rightarrow> d_delimiter f))
             (\<lambda>g. ret_io (if d_id g \<noteq> v_folder_id d then Some (d_path g) else None)) w = (Inr r, w')"
          by (simp add: pending_target_def known_def)
        then obtain delim g w1 where
          create: "create_folder_path env acc ''Archive'' delim w = (Inr g, w1)"
          and r: "r = (if d_id g \<noteq> v_folder_id d then Some (d_path g) else None)" "w' = w1"
          by (auto simp: bind_io_def ret_io_def split: prod.splits sum.splits)
        from hoareD(1) [OF hoare_create_path [OF tracked_stable] T create] r ready_folder show ?thesis
          by (auto simp: on_mail_def)
      qed
    qed
  qed
qed

subsection \<open>One group, and all of them\<close>

lemma keeps_ok: "keeps I m \<Longrightarrow> hoare I m (\<lambda>_. I) (\<lambda>_. True)"
  by (auto simp: keeps_def elim: hoare_weaken)

lemma move_uids_charges:
  fixes w :: "'s world"
  assumes ready: "on_mail (ready_to_move acc d due path) w" and u: "v_uid d \<in> set uids"
    and run: "move_uids_to env (v_folder_id d) uids path w = (Inr n, w')"
  shows "on_mail (charged acc d due) w'"
proof (cases "gone (v_message_id d) (w_mail w)")
  case True
  then have "on_mail (charged acc d due) w"
    using ready by (auto simp: on_mail_def ready_to_move_def intro: gone_is_charged)
  from keepsD [OF keeps_mail_move_uids [OF charged_stable] this run] show ?thesis .
next
  case False
  have "v_uid d \<in> set (clean_uids uids)" using u by (simp add: clean_uids_def)
  then have clean: "v_uid d \<in> set (clean_uids uids)" "clean_uids uids \<noteq> []" by (metis empty_iff list.set(1))+
  from run clean(2) obtain src where src: "folder_get (v_folder_id d) (w_mail w) = Inr src"
    unfolding move_uids_to_def Let_def by (auto simp: db_get_is split: sum.splits)
  then have "src \<in> set (db_folders (w_mail w))" "d_id src = v_folder_id d"
    by (auto simp: folder_get_def dest: find_SomeD split: option.splits)
  with ready False have "d_path src \<noteq> path" by (auto simp: on_mail_def ready_to_move_def elsewhere_def)
  have forget: "hoare (on_mail (tracked acc d due (v_attempts d))) (forget_uids (v_folder_id d) (clean_uids uids))
      (\<lambda>_. on_mail (charged acc d due)) (\<lambda>_. True)"
    unfolding hoare_def forget_uids_def db_do_def db_io_def on_mail_def
    using charged_by_move [OF _ clean(1)] push_stableD(2) [OF charged_stable]
    by (auto simp: io_simps bind_io_def ret_io_def split_beta)
  define rest :: "bool \<Rightarrow> ('s world, nat) io" where "rest to_trash =
       bind_io session_ready (\<lambda>_.
       bind_io (session_select (e_srv env) (d_path src) None) (\<lambda>_.
       bind_io (if to_trash
                then bind_io (try_io (uid_store_flags (e_srv env) (clean_uids uids) True [Seen])) (\<lambda>_. ret_io ())
                else ret_io ()) (\<lambda>_.
       bind_io (uid_move (e_srv env) (clean_uids uids) path) (\<lambda>_.
       forget_uids (v_folder_id d) (clean_uids uids)))))" for to_trash
  have rest: "hoare (on_mail (tracked acc d due (v_attempts d))) (rest to_trash)
      (\<lambda>_. on_mail (charged acc d due)) (\<lambda>_. True)" for to_trash
    unfolding rest_def by (intro hoare_bind [OF keeps_ok] forget keeps_rules)
  have "rest (is_trash_path (list_by_account (d_account_id src) (w_mail w)) path) w = (Inr n, w')"
    using run clean(2) src \<open>d_path src \<noteq> path\<close> by (simp add: move_uids_to_def Let_def rest_def db_get_is)
  moreover have "on_mail (tracked acc d due (v_attempts d)) w" using ready by (simp add: on_mail_def ready_to_move_def)
  ultimately show ?thesis using hoareD(1) [OF rest] by blast
qed

definition in_group :: "pending_move \<Rightarrow> move_group \<times> pending_item list \<Rightarrow> bool" where
  "in_group d g \<longleftrightarrow> fst g = (v_folder_id d, v_action d, v_dest_folder_id d)
     \<and> (v_message_id d, v_uid d, v_attempts d) \<in> set (snd g)"

lemma push_group_charges:
  assumes "in_group d g" and "v_dest_folder_id d \<noteq> Some (v_folder_id d)"
    and T: "on_mail (tracked acc d due (v_attempts d)) w" and run: "push_group env acc g n w = (r, w')"
  shows "on_mail (charged acc d due) w'"
proof -
  obtain items where g: "g = ((v_folder_id d, v_action d, v_dest_folder_id d), items)"
    and d: "(v_message_id d, v_uid d, v_attempts d) \<in> set items"
    using assms(1) by (cases g) (auto simp: in_group_def)
  have fails: "on_mail (charged acc d due) (w\<lparr>w_mail := pending_failed items (w_mail w)\<rparr>)"
    if "on_mail (tracked acc d due (v_attempts d)) w" for w :: "'a world"
    using charged_by_failure [OF _ d] that by (simp add: on_mail_def)
  obtain t w1 where target: "pending_target env acc (v_folder_id d) (v_action d) (v_dest_folder_id d) w = (t, w1)"
    by (cases "pending_target env acc (v_folder_id d) (v_action d) (v_dest_folder_id d) w")
  note goal = hoareD [OF hoare_target [OF assms(2)] T]
  show ?thesis
  proof (cases t)
    case (Inl e)
    with goal(2) target have "on_mail (tracked acc d due (v_attempts d)) w1" by blast
    with run target Inl fails show ?thesis
      by (auto simp: g push_group_def Let_def bind_io_def try_io_def io_simps)
  next
    case (Inr p)
    note found = goal(1) [OF target [unfolded Inr]]
    show ?thesis
    proof (cases p)
      case None
      with found charged_by_removal [OF _ d] run target Inr show ?thesis
        by (auto simp: g push_group_def Let_def bind_io_def try_io_def io_simps on_mail_def)
    next
      case (Some path)
      let ?uids = "map (\<lambda>i. fst (snd i)) items"
      obtain m w2 where move: "move_uids_to env (v_folder_id d) ?uids path w1 = (m, w2)"
        by (cases "move_uids_to env (v_folder_id d) ?uids path w1")
      have u: "v_uid d \<in> set ?uids" using d by force
      show ?thesis
      proof (cases m)
        case (Inl e)
        have "on_mail (tracked acc d due (v_attempts d)) w1" using found Some by (simp add: on_mail_def ready_to_move_def)
        from fails [OF keepsD [OF keeps_mail_move_uids [OF tracked_stable] this move]] show ?thesis
          using run target \<open>t = Inr p\<close> Some move Inl
          by (auto simp: g push_group_def Let_def bind_io_def try_io_def io_simps)
      next
        case (Inr k)
        from move_uids_charges [OF _ u move [unfolded Inr]] found Some show ?thesis
          using run target \<open>t = Inr p\<close> move Inr
          by (auto simp: g push_group_def Let_def bind_io_def try_io_def io_simps)
      qed
    qed
  qed
qed

text \<open>A group is never given up with an error, so every group is tried.\<close>

lemma push_group_answers: "\<exists>k w'. push_group env acc g n w = (Inr k, w')"
  by (cases g) (auto simp: push_group_def Let_def bind_io_def try_io_def io_simps split: prod.split sum.split option.split)

definition filed :: "move_group \<Rightarrow> pending_item \<Rightarrow> (move_group \<times> pending_item list) list \<Rightarrow> bool" where
  "filed k i gs \<longleftrightarrow> (\<exists>js. (k, js) \<in> set gs \<and> i \<in> set js)"

lemma filed_here: "filed key item (add_to_group key item gs)"
  unfolding filed_def by (induction key item gs rule: add_to_group.induct) auto

lemma filed_stays: "filed k i gs \<Longrightarrow> filed k i (add_to_group key item gs)"
proof (induction key item gs rule: add_to_group.induct)
  case (2 key item k' ls gs)
  have cons: "filed k i ((c, js) # hs) \<longleftrightarrow> k = c \<and> i \<in> set js \<or> filed k i hs" for c js hs
    by (auto simp: filed_def)
  show ?case using 2 by (auto simp: cons)
qed (simp add: filed_def)

lemma due_in_group:
  assumes "d \<in> set due" shows "\<exists>g \<in> set (group_moves due). in_group d g"
proof -
  let ?key = "\<lambda>p. (v_folder_id p, v_action p, v_dest_folder_id p)" and ?item = "\<lambda>p. (v_message_id p, v_uid p, v_attempts p)"
  have "filed (?key d) (?item d) (fold (\<lambda>p. add_to_group (?key p) (?item p)) due gs)"
    if "d \<in> set due \<or> filed (?key d) (?item d) gs" for gs
    using that
  proof (induction due arbitrary: gs)
    case (Cons p due)
    have "d \<in> set due \<or> filed (?key d) (?item d) (add_to_group (?key p) (?item p) gs)"
      using Cons.prems filed_here filed_stays by auto
    then show ?case unfolding fold_Cons o_apply by (rule Cons.IH)
  qed simp
  then have "filed (?key d) (?item d) (group_moves due)" using assms unfolding group_moves_def by blast
  then show ?thesis unfolding filed_def in_group_def by (metis fst_conv snd_conv)
qed

lemma charged_tracked: "charged acc d due db \<Longrightarrow> tracked acc d due (v_attempts d) db"
  unfolding charged_def tracked_def by fastforce

lemma push_all_charges:
  assumes d: "d \<in> set (list_due acc (secs (e_now env)) (w_mail w))"
    and dest: "v_dest_folder_id d \<noteq> Some (v_folder_id d)"
    and T: "on_mail (tracked acc d due (v_attempts d)) w"
  shows "\<exists>k w'. push_due_moves env acc w = (Inr k, w') \<and> on_mail (charged acc d due) w'"
proof -
  let ?gs = "group_moves (list_due acc (secs (e_now env)) (w_mail w))"
  let ?I = "\<lambda>gs (_ :: nat). on_mail (\<lambda>db. tracked acc d due (v_attempts d) db
      \<and> ((\<exists>g \<in> set gs. in_group d g) \<longrightarrow> charged acc d due db))"
  have step: "hoare (?I xs n) (push_group env acc g n) (?I (xs @ [g])) (\<lambda>_. False)" for xs g n
  proof (rule hoareI)
    fix w e w'
    assume "push_group env acc g n w = (Inl e, w')"
    then show False using push_group_answers [of env acc g n w] by auto
  next
    fix w k w'
    assume I: "?I xs n w" and run: "push_group env acc g n w = (Inr k, w')"
    then have T: "on_mail (tracked acc d due (v_attempts d)) w" by (simp add: on_mail_def)
    note kept = keepsD [OF keeps_mail_push_group, OF _ _ run]
    have "on_mail (charged acc d due) w'" if "in_group d g"
      using push_group_charges [OF that dest T run] .
    moreover have "on_mail (charged acc d due) w'" if "\<exists>g \<in> set xs. in_group d g"
      using kept [OF charged_stable] I that by (simp add: on_mail_def)
    moreover have "on_mail (tracked acc d due (v_attempts d)) w'" using kept [OF tracked_stable T] .
    ultimately show "?I (xs @ [g]) k w'" by (auto simp: on_mail_def)
  qed
  have all: "hoare (?I [] 0) (fold_io (push_group env acc) ?gs 0) (?I ?gs) (\<lambda>_. False)"
    by (rule hoare_fold_done) (rule step)
  obtain r w' where run: "fold_io (push_group env acc) ?gs 0 w = (r, w')" by (cases "fold_io (push_group env acc) ?gs 0 w")
  have start: "?I [] 0 w" using T by (simp add: on_mail_def)
  obtain k where r: "r = Inr k" using hoareD(2) [OF all start] run by (cases r) auto
  from hoareD(1) [OF all start run [unfolded r]] due_in_group [OF d] have "on_mail (charged acc d due) w'"
    by (simp add: on_mail_def)
  then show ?thesis using run r by (simp add: push_due_moves_def)
qed

subsection \<open>Pushing again and again\<close>

text \<open>
  Pushes of one account, each with its own clock and server and whatever session it then has; the
  cache is what the previous push left.
\<close>

fun push_rounds :: "int \<Rightarrow> ('s env \<times> 's world) list \<Rightarrow> mail_db \<Rightarrow> mail_db" where
  "push_rounds acc [] db = db"
| "push_rounds acc ((env, w) # rounds) db =
     push_rounds acc rounds (w_mail (snd (push_due_moves env acc (w\<lparr>w_mail := db\<rparr>))))"

lemma keeps_mail_push_due: "push_stable I \<Longrightarrow> keeps (on_mail I) (push_due_moves env acc)"
  unfolding push_due_moves_def by (intro keeps_rules keeps_mail_push_group)

lemma push_due_keeps:
  assumes "push_stable I" and "I db" shows "I (w_mail (snd (push_due_moves env acc (w\<lparr>w_mail := db\<rparr>))))"
  using keepsD [OF keeps_mail_push_due [OF assms(1)] _ prod.collapse [symmetric], of "w\<lparr>w_mail := db\<rparr>"] assms(2)
  by (simp add: on_mail_def)

lemma gone_for_good: "gone i db \<Longrightarrow> gone i (push_rounds acc rounds db)"
proof (induction acc rounds db rule: push_rounds.induct)
  case (2 acc env w rounds db)
  from 2(1) [OF push_due_keeps [OF gone_stable 2(2)]] show ?case by simp
qed simp

lemma tracked_due:
  assumes t: "tracked acc d due k db" and p: "p \<in> set (db_pending db)" "p_message_id p = v_message_id d" and "due \<le> now"
  shows "d\<lparr>v_attempts := p_attempts p\<rparr> \<in> set (list_due acc now db)"
proof -
  from t p(1) obtain m where "m \<in> set (db_messages db)" "m_id m = p_message_id p"
    unfolding tracked_def schema_ok_def rows_referenced_def by blast
  then obtain m' where m': "pending_join db p = Some m'"
    unfolding pending_join_def by (cases "find (\<lambda>m. m_id m = p_message_id p) (db_messages db)") (auto simp: find_None_iff)
  then have "m' \<in> set (db_messages db)" "m_id m' = v_message_id d"
    using p(2) unfolding pending_join_def by (auto dest: find_SomeD)
  with t p m' assms(4) have "pending_due db acc now p = Some (d\<lparr>v_attempts := p_attempts p\<rparr>)"
    by (auto simp: tracked_def pending_due_def)
  then show ?thesis using p(1) unfolding list_due_def List.map_filter_def by force
qed

lemma one_row:
  assumes "schema_ok db" and "p \<in> set (db_pending db)" "q \<in> set (db_pending db)" and "p_message_id p = p_message_id q"
  shows "p = q"
  using assms unfolding schema_ok_def by (metis distinct_map inj_onD)

lemma due_tracked:
  assumes "schema_ok db" and "d \<in> set (list_due acc now db)"
  shows "\<exists>due \<le> now. tracked acc d due (v_attempts d) db"
proof -
  from assms(2) obtain p where p: "p \<in> set (db_pending db)" "pending_due db acc now p = Some d"
    unfolding list_due_def List.map_filter_def by auto
  then obtain m a where m: "pending_join db p = Some m" "m_account_id m = acc" "p_due_at p \<le> now"
    "parse_action (p_action p) = Some a"
    and d: "d = \<lparr>v_message_id = p_message_id p, v_folder_id = m_folder_id m, v_uid = m_uid m, v_action = a,
                  v_dest_folder_id = p_dest_folder_id p, v_attempts = p_attempts p\<rparr>"
    by (auto simp: pending_due_def split: option.splits if_splits)
  have mm: "m \<in> set (db_messages db)" "m_id m = p_message_id p" using m(1) unfolding pending_join_def by (auto dest: find_SomeD)
  have "m' = m" if "m' \<in> set (db_messages db)" "m_id m' = p_message_id p" for m'
    using assms(1) mm that unfolding schema_ok_def by (metis distinct_map inj_onD)
  moreover have "p' = p" if "p' \<in> set (db_pending db)" "p_message_id p' = p_message_id p" for p'
    using one_row [OF assms(1) that(1) p(1) that(2)] .
  ultimately have "tracked acc d (p_due_at p) (v_attempts d) db"
    using assms(1) m d by (auto simp: tracked_def)
  then show ?thesis using m(3) by blast
qed

lemma rounds_charge:
  assumes "tracked acc d due (v_attempts d) db" and "v_dest_folder_id d \<noteq> Some (v_folder_id d)"
    and "\<forall>r \<in> set rounds. due \<le> secs (e_now (fst r))" and "rounds \<noteq> []"
  shows "gone (v_message_id d) (push_rounds acc rounds db) \<or> v_attempts d + int (length rounds) < MAX_PENDING_ATTEMPTS"
  using assms
proof (induction acc rounds db arbitrary: d rule: push_rounds.induct)
  case (2 acc env w rounds db)
  let ?db = "w_mail (snd (push_due_moves env acc (w\<lparr>w_mail := db\<rparr>)))"
  show ?case
  proof (cases "gone (v_message_id d) ?db \<or> gone (v_message_id d) db")
    case True
    then show ?thesis by (auto intro: gone_for_good push_due_keeps [OF gone_stable])
  next
    case False
    then obtain p where p: "p \<in> set (db_pending db)" "p_message_id p = v_message_id d" by (auto simp: gone_def)
    define d' where "d' = d\<lparr>v_attempts := p_attempts p\<rparr>"
    have same: "v_message_id d' = v_message_id d" "v_dest_folder_id d' \<noteq> Some (v_folder_id d')" "v_attempts d \<le> v_attempts d'"
      using 2(2,3) p by (auto simp: d'_def tracked_def)
    have "schema_ok db" using 2(2) by (simp add: tracked_def)
    then have "p_attempts p \<le> p_attempts p'" if "p' \<in> set (db_pending db)" "p_message_id p' = v_message_id d" for p'
      using one_row [OF _ that(1) p(1)] p(2) that(2) by simp
    then have "tracked acc d' due (v_attempts d') db"
      using 2(2) unfolding tracked_def by (simp add: d'_def)
    then have "on_mail (tracked acc d' due (v_attempts d')) (w\<lparr>w_mail := db\<rparr>)" by (simp add: on_mail_def)
    moreover have "d' \<in> set (list_due acc (secs (e_now env)) (w_mail (w\<lparr>w_mail := db\<rparr>)))"
      using tracked_due [OF 2(2) p] 2(4) by (simp add: d'_def)
    ultimately have charged: "charged acc d' due ?db"
      using push_all_charges [OF _ same(2)] by (fastforce simp: on_mail_def)
    with False same have below: "v_attempts d' + 1 < MAX_PENDING_ATTEMPTS" by (simp add: charged_def)
    let ?d = "d'\<lparr>v_attempts := v_attempts d' + 1\<rparr>"
    have "tracked acc ?d due (v_attempts ?d) ?db" using charged by (simp add: charged_def tracked_def)
    from 2(1) [OF this] show ?thesis
      using same below 2(4) by (cases "rounds = []") auto
  qed
qed simp


text \<open>
  C23. Five pushes settle every queued move: whatever the servers answer, whatever sessions the pushes run
  on and however their clocks differ past the deadline, no row for the message is left after them.
\<close>

theorem queued_moves_settle:
  assumes "schema_ok db" and "d \<in> set (list_due acc now db)" and "v_dest_folder_id d \<noteq> Some (v_folder_id d)"
    and "0 \<le> v_attempts d" and "\<forall>r \<in> set rounds. now \<le> secs (e_now (fst r))"
    and "MAX_PENDING_ATTEMPTS \<le> int (length rounds)"
  shows "\<forall>p \<in> set (db_pending (push_rounds acc rounds db)). p_message_id p \<noteq> v_message_id d"
proof -
  from due_tracked [OF assms(1,2)] obtain due where t: "due \<le> now" "tracked acc d due (v_attempts d) db" by blast
  have later: "\<forall>r \<in> set rounds. due \<le> secs (e_now (fst r))" and some: "rounds \<noteq> []"
    using assms(5,6) t(1) by (auto simp: MAX_PENDING_ATTEMPTS_def)
  from rounds_charge [OF t(2) assms(3) later some] assms(4,6) show ?thesis by (auto simp: gone_def)
qed

end
