(* ===== verification/Reference_Server.thy ===== *)
theory Reference_Server
  imports Imap_Safety Pending_Progress
begin

text \<open>
  A small IMAP server, to show that what the client relies on can be met and to run the engine on:
  mailboxes hold mail text and flags under UIDs, every command is answered with \<open>OK\<close>, copies
  get a UID above every UID in use.
\<close>

record ref_state =
  rs_rows :: "(slot \<times> string \<times> imap_flag list) list"
  rs_selected :: "string option"

definition rs_uids :: "ref_state \<Rightarrow> nat list" where
  "rs_uids c = (case rs_selected c of
       None \<Rightarrow> []
     | Some b \<Rightarrow> map (\<lambda>r. snd (fst r)) (filter (\<lambda>r. fst (fst r) = b) (rs_rows c)))"

definition rs_get :: "ref_state \<Rightarrow> nat \<Rightarrow> (string \<times> imap_flag list) option" where
  "rs_get c u = (case rs_selected c of None \<Rightarrow> None | Some b \<Rightarrow> map_of (rs_rows c) (b, u))"

definition rs_base :: "ref_state \<Rightarrow> nat list \<Rightarrow> nat" where
  "rs_base c us = Suc (sum_list (map (\<lambda>r. snd (fst r)) (rs_rows c)) + sum_list us)"

definition rs_copies :: "ref_state \<Rightarrow> nat list \<Rightarrow> string \<Rightarrow> (slot \<times> string \<times> imap_flag list) list" where
  "rs_copies c us dest =
     List.map_filter (\<lambda>u. map_option (\<lambda>e. ((dest, rs_base c us + u), e)) (rs_get c u)) us"

definition rs_drop :: "(slot \<Rightarrow> bool) \<Rightarrow> ref_state \<Rightarrow> ref_state" where
  "rs_drop p c = c\<lparr>rs_rows := filter (\<lambda>r. \<not> p (fst r)) (rs_rows c)\<rparr>"

definition rs_here :: "ref_state \<Rightarrow> slot \<Rightarrow> bool" where
  "rs_here c k \<longleftrightarrow> rs_selected c = Some (fst k)"

definition rs_deleted :: "ref_state \<Rightarrow> slot \<Rightarrow> bool" where
  "rs_deleted c k \<longleftrightarrow> (case map_of (rs_rows c) k of None \<Rightarrow> False | Some (_, fs) \<Rightarrow> Deleted \<in> set fs)"

fun rs_matches :: "ref_state \<Rightarrow> search_key \<Rightarrow> nat \<Rightarrow> bool" where
  "rs_matches c All_Key u = True"
| "rs_matches c (Uid_Key us) u = (u \<in> set us)"
| "rs_matches c (Uid_Range lo hi) u = (lo \<le> u \<and> u \<le> hi)"
| "rs_matches c Deleted_Key u = (case rs_selected c of None \<Rightarrow> False | Some b \<Rightarrow> rs_deleted c (b, u))"
| "rs_matches c _ u = True"

definition rs_store :: "nat list \<Rightarrow> bool \<Rightarrow> imap_flag list \<Rightarrow> ref_state \<Rightarrow> ref_state" where
  "rs_store us add fs c =
     c\<lparr>rs_rows := map (\<lambda>(k, raw, gs).
         (k, raw, if \<not> (rs_here c k \<and> snd k \<in> set us) then gs
                  else if add then gs @ fs else filter (\<lambda>f. f \<notin> set fs) gs)) (rs_rows c)\<rparr>"

definition rs_fetch :: "bool \<Rightarrow> ref_state \<Rightarrow> nat \<Rightarrow> imap_data option" where
  "rs_fetch full c u =
     map_option (\<lambda>(raw, fs). Fetch ([Uid_Item u, Flags_Item fs] @ (if full then [Body_Item (Some raw)] else [])))
       (rs_get c u)"

definition rs_run :: "imap_command \<Rightarrow> ref_state \<Rightarrow> imap_data list \<times> ref_state" where
  "rs_run cmd c =
     (case cmd of
        Select b _ \<Rightarrow> let c' = c\<lparr>rs_selected := Some b\<rparr> in ([Exists (length (rs_uids c'))], c')
      | Search ks \<Rightarrow> ([Search_Data (filter (\<lambda>u. list_all (\<lambda>k. rs_matches c k u) ks) (rs_uids c))], c)
      | Fetch_Flags us _ \<Rightarrow> (List.map_filter (rs_fetch False c) us, c)
      | Fetch_Full us \<Rightarrow> (List.map_filter (rs_fetch True c) us, c)
      | Store us add fs \<Rightarrow> ([], rs_store us add fs c)
      | Copy us dest \<Rightarrow> ([], c\<lparr>rs_rows := rs_rows c @ rs_copies c us dest\<rparr>)
      | Move us dest \<Rightarrow>
          ([], (rs_drop (\<lambda>k. rs_here c k \<and> snd k \<in> set us) c)
                 \<lparr>rs_rows := rs_rows (rs_drop (\<lambda>k. rs_here c k \<and> snd k \<in> set us) c) @ rs_copies c us dest\<rparr>)
      | Expunge \<Rightarrow> ([], rs_drop (\<lambda>k. rs_here c k \<and> rs_deleted c k) c)
      | ExpungeUid us \<Rightarrow> ([], rs_drop (\<lambda>k. rs_here c k \<and> rs_deleted c k \<and> snd k \<in> set us) c)
      | Append b fs raw \<Rightarrow> ([], c\<lparr>rs_rows := rs_rows c @ [((b, rs_base c []), raw, fs)]\<rparr>)
      | _ \<Rightarrow> ([], c))"

definition ref_server :: "ref_state peer" where
  "ref_server tag cmd c =
     (case rs_run cmd c of (dat, c') \<Rightarrow>
        (0, map (\<lambda>d. (0, 0, Data_Received d)) dat @ [(0, 0, Tagged tag Ok_Kind [] None)], c'))"

definition ref_view :: "(ref_state, string) server_view" where
  "ref_view = \<lparr>sv_box = (\<lambda>c k. map_option fst (map_of (rs_rows c) k)), sv_marked = (\<lambda>c. {k. rs_deleted c k}),
     sv_selected = rs_selected\<rparr>"

lemma ref_view_simps [simp]:
  "sv_box ref_view c k = map_option fst (map_of (rs_rows c) k)"
  "sv_marked ref_view c = {k. rs_deleted c k}"
  "sv_selected ref_view c = rs_selected c"
  by (simp_all add: ref_view_def)

lemma answer_data:
  "answer tag (map (\<lambda>d. (0, 0, Data_Received d)) dat @ [(0, 0, Tagged tag Ok_Kind [] None)])
     = Some \<lparr>cr_data = dat, cr_codes = [None]\<rparr>"
  by (induction dat) simp_all

lemma map_of_filter_key: "map_of (filter (\<lambda>r. \<not> p (fst r)) xs) k = (if p k then None else map_of xs k)"
  by (induction xs) auto

lemma map_of_drop [simp]: "map_of (rs_rows (rs_drop p c)) k = (if p k then None else map_of (rs_rows c) k)"
  by (simp add: rs_drop_def map_of_filter_key)

lemma rs_uid_less: "map_of (rs_rows c) (b, u) = Some e \<Longrightarrow> u < rs_base c us"
proof -
  assume "map_of (rs_rows c) (b, u) = Some e"
  then have "u \<in> set (map (\<lambda>r. snd (fst r)) (rs_rows c))" by (force dest: map_of_SomeD)
  from member_le_sum_list [OF this] show ?thesis by (simp add: rs_base_def)
qed

lemma rs_asked_less: "u \<in> set us \<Longrightarrow> u < rs_base c us"
  using member_le_sum_list [of u us] by (simp add: rs_base_def)

lemma map_of_copies:
  "u \<in> set us \<Longrightarrow> rs_get c u = Some e \<Longrightarrow> map_of (rs_copies c us dest) (dest, rs_base c us + u) = Some e"
proof -
  have "map_of (List.map_filter (\<lambda>u. map_option (\<lambda>e. ((dest, n + u), e)) (rs_get c u)) xs) (dest, n + u) = Some e"
    if "u \<in> set xs" "rs_get c u = Some e" for xs n
    using that by (induction xs) (auto simp: List.map_filter_simps split: option.split)
  then show "u \<in> set us \<Longrightarrow> rs_get c u = Some e \<Longrightarrow> ?thesis" by (simp add: rs_copies_def)
qed

lemma map_of_store_box: "map_option fst (map_of (rs_rows (rs_store us add fs c)) k) = map_option fst (map_of (rs_rows c) k)"
proof -
  have "map_option fst (map_of (map (\<lambda>(k, raw, gs). (k, raw, g k gs)) xs) k)
      = map_option fst (map_of xs k)" for g and xs :: "(slot \<times> string \<times> imap_flag list) list"
    by (induction xs) auto
  then show ?thesis by (simp add: rs_store_def)
qed

lemma rs_selected_simps [simp]:
  "rs_selected (rs_drop p c) = rs_selected c" "rs_selected (rs_store us add fs c) = rs_selected c"
  by (simp_all add: rs_drop_def rs_store_def)

lemma rs_fresh: "map_of (rs_rows c) (b, rs_base c us + u) = None"
  using rs_uid_less [of c b "rs_base c us + u" _ us] by (cases "map_of (rs_rows c) (b, rs_base c us + u)") auto

lemma copied:
  assumes "u \<in> set us" and "rs_get c u = Some e" and "map_of rows (dest, rs_base c us + u) = None"
  shows "map_of (rows @ rs_copies c us dest) (dest, rs_base c us + u) = Some e"
  using map_of_copies [OF assms(1,2)] assms(3) by (simp add: map_add_def)

lemma box_append: "map_of rows k = Some e \<Longrightarrow> map_of (rows @ others) k = Some e"
  by (simp add: map_add_def)

lemma rs_moved_there:
  assumes "rs_selected c = Some b" and "u \<in> set us" and "map_option fst (map_of (rs_rows c) (b, u)) = Some x"
    and "rows = rs_rows c \<or> rows = rs_rows (rs_drop p c)"
  shows "\<exists>k. k \<notin> {b} \<times> set us \<and> map_option fst (map_of (rows @ rs_copies c us dest) k) = Some x"
proof -
  from assms obtain e where e: "rs_get c u = Some e" "fst e = x" by (auto simp: rs_get_def)
  have "map_of rows (dest, rs_base c us + u) = None" using assms(4) by (auto simp: rs_fresh)
  note copied [OF assms(2) e(1) this]
  moreover have "rs_base c us + u \<notin> set us" using rs_asked_less [of _ us c] by fastforce
  ultimately show ?thesis using e(2) by (intro exI [of _ "(dest, rs_base c us + u)"]) simp
qed

lemma ref_always: "always_promised ref_view cmd c (snd (rs_run cmd c))"
proof (cases cmd)
  case (Store us add fs)
  then show ?thesis by (simp add: always_promised_def rs_run_def map_of_store_box)
next
  case (Copy us dest)
  then show ?thesis by (auto simp: always_promised_def rs_run_def map_add_def split: option.split)
next
  case (Move us dest)
  let ?p = "\<lambda>k. rs_here c k \<and> snd k \<in> set us"
  define c' where "c' = snd (rs_run (Move us dest) c)"
  have c': "rs_rows c' = rs_rows (rs_drop ?p c) @ rs_copies c us dest" "rs_selected c' = rs_selected c"
    by (simp_all add: c'_def rs_run_def)
  have stay: "map_option fst (map_of (rs_rows c') k) = Some x"
    if "map_option fst (map_of (rs_rows c) k) = Some x" "k \<notin> may_remove ref_view (Move us dest) c" for k x
  proof -
    have "\<not> ?p k" using that(2) by (cases k) (auto simp: may_remove_def rs_here_def)
    with that(1) show ?thesis unfolding c' by (auto simp: map_add_def)
  qed
  have gone: "\<exists>k. map_option fst (map_of (rs_rows c') k) = Some x"
    if "rs_selected c = Some b" "u \<in> set us" "map_option fst (map_of (rs_rows c) (b, u)) = Some x" for b u x
    using rs_moved_there [OF that, where p = ?p and dest = dest and rows = "rs_rows (rs_drop ?p c)"] unfolding c' by blast
  show ?thesis
    unfolding always_promised_def Move c'_def [symmetric] ref_view_simps imap_command.case
    using stay gone c'(2) by blast
next
  case Expunge
  then show ?thesis by (auto simp: always_promised_def rs_run_def may_remove_def rs_here_def)
next
  case (ExpungeUid us)
  then show ?thesis by (auto simp: always_promised_def rs_run_def may_remove_def rs_here_def)
next
  case (Append b fs raw)
  then show ?thesis by (auto simp: always_promised_def rs_run_def map_add_def split: option.split)
qed (simp_all add: always_promised_def rs_run_def Let_def)

lemma ref_ok:
  assumes "cr_data r = fst (rs_run cmd c)"
  shows "ok_promised ref_view cmd c (snd (rs_run cmd c)) r"
proof (cases cmd)
  case (Select b p)
  then show ?thesis by (simp add: ok_promised_def rs_run_def Let_def)
next
  case (Search ks)
  then show ?thesis
    using assms by (force simp: ok_promised_def rs_run_def rs_uids_def rs_deleted_def
        dest: map_of_SomeD split: option.splits)
next
  case (Copy us dest)
  then show ?thesis
    using rs_moved_there [where rows = "rs_rows c" and c = c and us = us and dest = dest]
    unfolding ok_promised_def by (simp add: rs_run_def)
qed (simp_all add: ok_promised_def)

lemma ref_server_run:
  "ref_server tag cmd c = (st, evs, c') \<Longrightarrow>
     c' = snd (rs_run cmd c) \<and> answer tag evs = Some \<lparr>cr_data = fst (rs_run cmd c), cr_codes = [None]\<rparr>"
  by (auto simp: ref_server_def answer_data split: prod.splits)

text \<open>The reference server meets everything the client relies on.\<close>

lemma ref_keeps_promises: "keeps_promises ref_view ref_server"
  unfolding keeps_promises_def
  using ref_server_run ref_always ref_ok by (metis command_result.select_convs(1) option.inject)

subsection \<open>A cache in front of it\<close>

definition ref_env :: "ref_state env" where
  "ref_env = \<lparr>e_srv = ref_server, e_parse = (\<lambda>_. None), e_shows = (\<lambda>_ _. False), e_lower = id,
     e_now = at_stamp 100\<rparr>"

definition ref_mail :: "nat \<Rightarrow> message" where
  "ref_mail u = fresh_row 0 (sample_mail 1 u) (int u)"

definition ref_db :: mail_db where
  "ref_db = sample_db\<lparr>db_messages := [ref_mail 1, ref_mail 2],
     db_pending := [\<lparr>p_message_id = 1, p_batch = ''b'', p_action = ''trash'', p_dest_folder_id = None,
                     p_due_at = 50, p_attempts = 0\<rparr>]\<rparr>"

definition ref_start :: ref_state where
  "ref_start = \<lparr>rs_rows = [((''INBOX'', 1), ''one'', []), ((''INBOX'', 2), ''two'', [Deleted])],
     rs_selected = None\<rparr>"

definition ref_world :: "ref_state world" where
  "ref_world = \<lparr>conn = ref_start, tag_counter = 0, capabilities = [], condstore_enabled = False,
     qresync_enabled = False, broken = None, w_connected = True, w_accounts = [1],
     w_mail = ref_db, w_settings = \<lparr>app_values = Map.empty, account_values = (\<lambda>_. Map.empty)\<rparr>\<rparr>"


theorem pushing_moves_loses_no_mail_witness:
  "\<exists>k. sv_box ref_view (conn (snd (push_due_moves ref_env 1 ref_world))) k = Some ''one''"
proof -
  have "keeps_promises ref_view (e_srv ref_env)" by (simp add: ref_env_def ref_keeps_promises)
  moreover have "sv_box ref_view (conn ref_world) (''INBOX'', 1) = Some ''one''"
    by (simp add: ref_world_def ref_start_def)
  ultimately show ?thesis
    using pushing_moves_loses_no_mail [where w = ref_world and env = ref_env and account_id = 1]
    by (metis prod.collapse)
qed

definition ref_move :: pending_move where
  "ref_move = \<lparr>v_message_id = 1, v_folder_id = 1, v_uid = 1, v_action = To_Trash, v_dest_folder_id = None,
     v_attempts = 0\<rparr>"

lemma ref_schema_ok: "schema_ok ref_db"
  by (simp add: schema_ok_def rows_referenced_def folders_owned_def paths_unique_def ref_db_def sample_db_def
      sample_folder_def ref_mail_def fresh_row_def sample_mail_def new_message.defs)

lemma ref_move_due: "ref_move \<in> set (list_due 1 100 ref_db)"
  by (simp add: ref_move_def list_due_def pending_due_def pending_join_def List.map_filter_def ref_db_def
      ref_mail_def fresh_row_def sample_mail_def new_message.defs parse_action_def)


text \<open>Five pushes against a server that refuses every command.\<close>

definition refusing_env :: "ref_state env" where
  "refusing_env = \<lparr>e_srv = (\<lambda>tag cmd c. (0, [(0, 0, Tagged tag No_Kind ''no'' None)], c)), e_parse = (\<lambda>_. None),
     e_shows = (\<lambda>_ _. False), e_lower = id, e_now = at_stamp 100\<rparr>"

theorem queued_moves_settle_witness:
  "filter (\<lambda>p. p_message_id p = 1) (db_pending (push_rounds 1 (replicate 5 (refusing_env, ref_world)) ref_db)) = []"
proof -
  have "v_dest_folder_id ref_move \<noteq> Some (v_folder_id ref_move)" "0 \<le> v_attempts ref_move"
    by (simp_all add: ref_move_def)
  moreover have "\<forall>r \<in> set (replicate 5 (refusing_env, ref_world)). 100 \<le> secs (e_now (fst r))"
    by (simp add: refusing_env_def)
  moreover have "MAX_PENDING_ATTEMPTS \<le> int (length (replicate 5 (refusing_env, ref_world)))"
    by (simp add: MAX_PENDING_ATTEMPTS_def)
  ultimately show ?thesis
    using queued_moves_settle [OF ref_schema_ok ref_move_due, where rounds = "replicate 5 (refusing_env, ref_world)"]
    by (simp add: ref_move_def filter_empty_conv)
qed

end
