(* ===== verification/Reference_Flags.thy ===== *)
theory Reference_Flags
  imports Reference_Server Flag_Refinement
begin

text \<open>The reference server stores flags as \<open>Flag_Refinement\<close> relies on, and a cache in front of it.\<close>

definition ref_flags :: "ref_state flag_view" where
  "ref_flags = \<lparr>fv_flags = (\<lambda>c k. map_option (\<lambda>(_, fs). (Seen \<in> set fs, Flagged \<in> set fs)) (map_of (rs_rows c) k)),
     fv_selected = rs_selected\<rparr>"

lemma map_of_keyed: "map_of (map (\<lambda>(k, raw, fs). (k, raw, h k fs)) rows) k = map_option (\<lambda>(raw, fs). (raw, h k fs)) (map_of rows k)"
  by (induction rows) auto

lemma ref_after_store: "fv_flags ref_flags (rs_store us add fs c) = after_store ref_flags us add fs c"
proof (rule ext)
  fix k :: "string \<times> nat"
  show "fv_flags ref_flags (rs_store us add fs c) k = after_store ref_flags us add fs c k"
    by (cases "map_of (rs_rows c) k"; cases add)
      (auto simp: rs_store_def after_store_def ref_flags_def map_of_keyed rs_here_def flags_stored_def)
qed

lemma ref_stores_flags: "stores_flags ref_flags ref_server"
  unfolding stores_flags_def
proof (intro allI impI)
  fix tag cmd c st evs c'
  assume "ref_server tag cmd c = (st, evs, c')"
  from ref_server_run [OF this] show "case cmd of
        Select b _ \<Rightarrow> fv_flags ref_flags c' \<subseteq>\<^sub>m fv_flags ref_flags c
          \<and> (\<forall>r. answer tag evs = Some r \<longrightarrow> fv_selected ref_flags c' = Some b)
      | Store us add fl \<Rightarrow> fv_selected ref_flags c' = fv_selected ref_flags c
          \<and> (fv_flags ref_flags c' \<subseteq>\<^sub>m fv_flags ref_flags c \<or> fv_flags ref_flags c' \<subseteq>\<^sub>m after_store ref_flags us add fl c)
          \<and> (\<forall>r. answer tag evs = Some r \<longrightarrow> fv_flags ref_flags c' \<subseteq>\<^sub>m after_store ref_flags us add fl c)
      | _ \<Rightarrow> True"
  proof (cases cmd)
    case (Store us add fl)
    then show ?thesis using ref_server_run [OF \<open>ref_server tag cmd c = (st, evs, c')\<close>]
      by (simp add: rs_run_def ref_after_store) (simp add: ref_flags_def rs_store_def)
  qed (auto simp: rs_run_def ref_flags_def Let_def)
qed

subsection \<open>A toggled mail in the cache\<close>

definition toggled_db :: mail_db where
  "toggled_db = sample_db\<lparr>db_folders := [sample_folder 1 ''INBOX'' Inbox], db_next_message := 3,
     db_messages := [(ref_mail 1)\<lparr>m_is_starred := True, m_flags_dirty := True\<rparr>, ref_mail 2]\<rparr>"

definition toggled_world :: "ref_state world" where
  "toggled_world = ref_world\<lparr>w_mail := toggled_db,
     conn := \<lparr>rs_rows = [((encode_modified_utf7 ''INBOX'', 1), ''one'', []), ((encode_modified_utf7 ''INBOX'', 2), ''two'', [])],
              rs_selected = None\<rparr>\<rparr>"

lemmas toggled_defs = toggled_world_def toggled_db_def ref_world_def sample_db_def sample_folder_def ref_mail_def
  fresh_row_def sample_mail_def new_message.defs ref_flags_def flags_of_def slot_of_def

lemma toggled_ok:
  "names_apart 1 (db_folders (w_mail toggled_world))" "messages_wf (w_mail toggled_world)"
  "mail_owned 1 (w_mail toggled_world)" "stores_flags ref_flags (e_srv ref_env)"
  using ref_stores_flags by (simp_all add: names_apart_def messages_wf_def mail_owned_def toggled_defs ref_env_def)

lemma toggled_in_step: "flags_in_step ref_flags 1 toggled_world"
  by (simp add: flags_in_step_def toggled_defs)

theorem push_refines_flag_queue_witness:
  "\<exists>pushed s' w'. push_dirty_flags ref_env 1 toggled_world = (Inr pushed, w')
     \<and> flag_step\<^sup>*\<^sup>* \<lparr>fs_db = toggled_db, fs_server = server_of ref_flags 1 toggled_world, fs_push = NoPush,
          fs_wish = wish_of toggled_db\<rparr> s' \<and> fs_db s' = w_mail w'"
proof -
  obtain r w' where run: "push_dirty_flags ref_env 1 toggled_world = (r, w')"
    by (cases "push_dirty_flags ref_env 1 toggled_world")
  from push_refines_flag_queue [OF toggled_ok(4,1-3) _ _ _ run, where s = "\<lparr>fs_db = toggled_db,
      fs_server = server_of ref_flags 1 toggled_world, fs_push = NoPush, fs_wish = wish_of toggled_db\<rparr>"]
    server_of_agrees [OF toggled_ok(1)] run
  show ?thesis by (auto simp: toggled_world_def)
qed

theorem push_keeps_flags_in_step_witness:
  "flags_in_step ref_flags 1 (snd (push_dirty_flags ref_env 1 toggled_world))"
  by (rule push_keeps_flags_in_step [OF toggled_ok(4,1-3) toggled_in_step prod.collapse [symmetric]])

end
