(* ===== verification/Imap_Sync_Window.thy ===== *)
theory Imap_Sync_Window
  imports Imap_Sync_Facts
begin

text \<open>
  What a sync that reports success has achieved: the newest mail of the folder is cached, and what
  the searched part of the folder no longer holds is gone from the cache. The theory ends with a
  read-only server that meets what the sync theorems assume.
\<close>

subsection \<open>Cached UIDs\<close>

definition cached :: "int \<Rightarrow> nat \<Rightarrow> mail_db \<Rightarrow> bool" where
  "cached fid u db \<longleftrightarrow> u \<in> set (list_uids fid db)"

lemma cached_iff: "cached fid u db \<longleftrightarrow> (\<exists>r \<in> set (db_messages db). m_folder_id r = fid \<and> m_uid r = u)"
  unfolding cached_def list_uids_def set_map set_filter by blast

lemma cached_row: "cached fid u db \<longleftrightarrow>
    (\<exists>m. m_folder_id m = fid \<and> m_uid m = u \<and> \<not> m_flags_dirty m \<and> row_kept m db)"
proof
  assume "cached fid u db"
  then obtain r where r: "r \<in> set (db_messages db)" "m_folder_id r = fid" "m_uid r = u"
    by (auto simp: cached_iff)
  then show "\<exists>m. m_folder_id m = fid \<and> m_uid m = u \<and> \<not> m_flags_dirty m \<and> row_kept m db"
    by (intro exI [of _ "r\<lparr>m_flags_dirty := False\<rparr>"]) (auto simp: row_kept_def same_slot_def)
next
  assume "\<exists>m. m_folder_id m = fid \<and> m_uid m = u \<and> \<not> m_flags_dirty m \<and> row_kept m db"
  then obtain m :: message and r where "m_folder_id m = fid" "m_uid m = u" "r \<in> set (db_messages db)" "same_slot m r"
    unfolding row_kept_def by blast
  then show "cached fid u db" unfolding cached_iff same_slot_def by auto
qed

lemma keeps_cached:
  assumes "\<And>m. m_folder_id m = fid \<Longrightarrow> m_uid m = u \<Longrightarrow> keeps (on_mail (row_kept m)) p"
  shows "keeps (on_mail (cached fid u)) p"
proof (rule keepsI)
  fix w r w'
  assume "on_mail (cached fid u) w" and run: "p w = (r, w')"
  then obtain m where m: "m_folder_id m = fid" "m_uid m = u" "\<not> m_flags_dirty m" "on_mail (row_kept m) w"
    by (auto simp: on_mail_def cached_row)
  with keepsD [OF assms [OF m(1,2)] m(4) run] show "on_mail (cached fid u) w'"
    by (auto simp: on_mail_def cached_row)
qed

definition holds_uids :: "int \<Rightarrow> nat set \<Rightarrow> mail_db \<Rightarrow> bool" where
  "holds_uids fid S db \<longleftrightarrow> (\<forall>u \<in> S. cached fid u db)"

lemma keeps_holds:
  assumes "\<And>m. m_folder_id m = fid \<Longrightarrow> m_uid m \<in> S \<Longrightarrow> keeps (on_mail (row_kept m)) p"
  shows "keeps (on_mail (holds_uids fid S)) p"
proof (rule keepsI)
  fix w r w'
  assume w: "on_mail (holds_uids fid S) w" and run: "p w = (r, w')"
  have "cached fid u (w_mail w')" if "u \<in> S" for u
  proof -
    have k: "keeps (on_mail (cached fid u)) p" using assms that by (intro keeps_cached) auto
    have "on_mail (cached fid u) w" using w that by (simp add: on_mail_def holds_uids_def)
    from keepsD [OF k this run] show ?thesis by (simp add: on_mail_def)
  qed
  then show "on_mail (holds_uids fid S) w'" by (simp add: on_mail_def holds_uids_def)
qed

lemma holds_union: "holds_uids fid (S \<union> T) db \<longleftrightarrow> holds_uids fid S db \<and> holds_uids fid T db"
  by (auto simp: holds_uids_def)

lemma holds_subset: "holds_uids fid T db \<Longrightarrow> S \<subseteq> T \<Longrightarrow> holds_uids fid S db"
  by (auto simp: holds_uids_def)

lemma keeps_note_flags: "keeps (on_mail (holds_uids fid S)) (refresh_flags env f since uids)"
  by (intro keeps_holds keeps_refresh_flags)

subsection \<open>Fetching\<close>

text \<open>An answered fetch hands over every mail asked for that the server holds.\<close>

definition hands_over :: "'s peer \<Rightarrow> nat set \<Rightarrow> bool" where
  "hands_over srv K \<longleftrightarrow>
     (\<forall>tag us c st evs c' r. srv tag (Fetch_Full us) c = (st, evs, c') \<longrightarrow> answer tag evs = Some r \<longrightarrow>
        set us \<inter> K \<subseteq> ft_uid ` set (fetched_of r))"

lemma upsert_cached: "m_folder_id n = fid \<Longrightarrow> cached fid (m_uid n) (snd (message_upsert now n db))"
proof (cases "find (same_slot n) (db_messages db)")
  case None
  then show "m_folder_id n = fid \<Longrightarrow> ?thesis"
    by (simp add: message_upsert_def cached_iff fresh_row_def new_message.defs)
next
  case (Some r)
  then have "r \<in> set (db_messages db)" "same_slot n r" by (auto dest: find_SomeD)
  moreover have "snd (message_upsert now n db)
      = db\<lparr>db_messages := update_where (same_slot n) (merged_row now n) (db_messages db)\<rparr>"
    using Some by (simp add: message_upsert_def)
  moreover have "m_folder_id (merged_row now n r) = m_folder_id n" "m_uid (merged_row now n r) = m_uid n"
    by (simp_all add: merged_row_def new_message.defs)
  ultimately show "m_folder_id n = fid \<Longrightarrow> ?thesis"
    unfolding cached_iff by (auto simp: set_update_where)
qed

lemma fetch_reply:
  assumes "hands_over srv K"
  shows "hoare (\<lambda>_. True) (uid_fetch_messages srv uids)
    (\<lambda>fts _. set uids \<inter> K \<subseteq> ft_uid ` set fts) (\<lambda>_. True)"
proof (cases "uids = []")
  case True
  then show ?thesis by (simp add: uid_fetch_messages_def hoare_def io_simps)
next
  case False
  show ?thesis
  proof (cases "uids_to_sequence_set uids")
    case (Inl e)
    with False show ?thesis by (simp add: uid_fetch_messages_def hoare_def io_simps)
  next
    case (Inr sq)
    have "hoare (\<lambda>_. True) (execute srv (Fetch_Full sq)) (\<lambda>r _. set sq \<inter> K \<subseteq> ft_uid ` set (fetched_of r)) (\<lambda>_. True)"
      using assms unfolding hands_over_def by (intro hoare_execute) blast+
    then show ?thesis
      using False Inr sequence_set_same [OF Inr]
      by (fastforce simp: uid_fetch_messages_def hoare_def bind_io_def lift_io_def ret_io_def
          split: prod.splits sum.splits)
  qed
qed

lemma store_caches:
  assumes "\<And>n. m_folder_id (adjust n) = m_folder_id n \<and> m_uid (adjust n) = m_uid n"
  shows "hoare (on_mail (holds_uids (d_id f) S)) (store_fetched env f adjust ft n)
    (\<lambda>_. on_mail (holds_uids (d_id f) (insert (ft_uid ft) S))) (\<lambda>_. True)"
proof (rule hoareI)
  fix w k w'
  assume S: "on_mail (holds_uids (d_id f) S) w" and run: "store_fetched env f adjust ft n w = (Inr k, w')"
  from run obtain new where new: "parse_to_new (e_parse env) (e_shows env) (d_account_id f) (d_id f)
      (ft_uid ft) (ft_flags ft) (ft_raw ft) = Inr new"
    and w': "db_messages (w_mail w') = db_messages (snd (message_upsert (e_now env) (adjust new) (w_mail w)))"
    by (auto simp: store_fetched_def io_simps bind_io_def db_do_def db_io_def split: sum.splits prod.splits)
  have "m_folder_id (adjust new) = d_id f" "m_uid (adjust new) = ft_uid ft"
    using parse_to_new_fields(2,3) [OF new] assms by simp_all
  then have "cached (d_id f) (ft_uid ft) (w_mail w')"
    using upsert_cached [of "adjust new" "d_id f" "e_now env" "w_mail w"] w' by (simp add: cached_def list_uids_def)
  moreover have "keeps (on_mail (holds_uids (d_id f) S)) (store_fetched env f adjust ft n)"
    unfolding store_fetched_def
    by (intro keeps_holds) (intro keeps_rules keeps_contacts keeps_mail_do row_kept_upsert)
  note keepsD [OF this S run]
  ultimately show "on_mail (holds_uids (d_id f) (insert (ft_uid ft) S)) w'"
    by (auto simp: on_mail_def holds_uids_def)
qed simp

lemma store_all_caches:
  assumes "\<And>n. m_folder_id (adjust n) = m_folder_id n \<and> m_uid (adjust n) = m_uid n"
  shows "hoare (on_mail (holds_uids (d_id f) S)) (fold_io (store_fetched env f adjust) fts n)
    (\<lambda>_. on_mail (holds_uids (d_id f) (ft_uid ` set fts \<union> S))) (\<lambda>_. True)"
proof -
  have "hoare (on_mail (holds_uids (d_id f) (ft_uid ` set past \<union> S))) (store_fetched env f adjust ft b)
      (\<lambda>_. on_mail (holds_uids (d_id f) (ft_uid ` set (past @ [ft]) \<union> S))) (\<lambda>_. True)" for past ft b
    using store_caches [OF assms, of f "ft_uid ` set past \<union> S" env ft b] by simp
  from hoare_fold_done [where I = "\<lambda>past _. on_mail (holds_uids (d_id f) (ft_uid ` set past \<union> S))"
      and f = "store_fetched env f adjust" and zs = fts and b = n, OF this]
  show ?thesis by simp
qed

lemma fetch_missing_caches:
  fixes env :: "'s env"
  assumes "\<And>n. m_folder_id (adjust n) = m_folder_id n \<and> m_uid (adjust n) = m_uid n"
    and "hands_over (e_srv env) K"
  shows "hoare (on_mail (holds_uids (d_id f) S)) (fetch_missing env f adjust missing)
    (\<lambda>_. on_mail (holds_uids (d_id f) (set missing \<inter> K \<union> S))) (\<lambda>_. True)"
proof -
  let ?H = "\<lambda>past. on_mail (holds_uids (d_id f) (set (concat past) \<inter> K \<union> S)) :: 's world \<Rightarrow> bool"
  let ?f = "\<lambda>chunk n. bind_io (uid_fetch_messages (e_srv env) chunk) (\<lambda>fetched. fold_io (store_fetched env f adjust) fetched n)"
  have "hoare (?H past) (?f chunk b) (\<lambda>_. ?H (past @ [chunk])) (\<lambda>_. True)" for past chunk b
  proof (rule hoare_true [where F = "\<lambda>fts. set chunk \<inter> K \<subseteq> ft_uid ` set fts"])
    have "keeps (?H past) (uid_fetch_messages (e_srv env) chunk)" by (rule keeps_mail_verbs)
    from hoare_conj [OF fetch_reply [OF assms(2)] keeps_hoare [OF this]]
    show "hoare (?H past) (uid_fetch_messages (e_srv env) chunk)
        (\<lambda>fts s. set chunk \<inter> K \<subseteq> ft_uid ` set fts \<and> ?H past s) (\<lambda>_. True)"
      by (rule hoare_weaken) auto
  next
    fix fts :: "fetched list"
    assume "set chunk \<inter> K \<subseteq> ft_uid ` set fts"
    then have sub: "set (concat (past @ [chunk])) \<inter> K \<union> S \<subseteq> ft_uid ` set fts \<union> (set (concat past) \<inter> K \<union> S)" by auto
    show "hoare (?H past) (fold_io (store_fetched env f adjust) fts b) (\<lambda>_. ?H (past @ [chunk])) (\<lambda>_. True)"
      by (rule hoare_weaken [OF store_all_caches [OF assms(1)]]) (auto simp only: on_mail_def intro: holds_subset [OF _ sub])
  qed
  from hoare_fold_done [where I = "\<lambda>past _. ?H past" and f = ?f and zs = "chunks FETCH_CHUNK missing" and b = 0, OF this]
  show ?thesis unfolding fetch_missing_def by (simp add: FETCH_CHUNK_def)
qed

subsection \<open>Expunging\<close>

definition lacks_uids :: "int \<Rightarrow> nat set \<Rightarrow> mail_db \<Rightarrow> bool" where
  "lacks_uids fid S db \<longleftrightarrow> (\<forall>u \<in> S. \<not> cached fid u db)"

lemma delete_by_uid_rows:
  "cached fid v (snd (delete_by_uid fid u db)) \<longleftrightarrow> v \<noteq> u \<and> cached fid v db"
  by (auto simp: delete_by_uid_def delete_messages_def cached_iff table_simps)

lemma bind_db_do: "bind_io (db_do f) k w = k (fst (f (w_mail w))) (w\<lparr>w_mail := snd (f (w_mail w))\<rparr>)"
  by (simp add: bind_io_def db_do_def db_io_def split_beta)

lemma expunge_lacks:
  "hoare (\<lambda>_. True) (expunge_missing fid uids) (\<lambda>_. on_mail (lacks_uids fid (set uids))) (\<lambda>_. True)"
proof -
  let ?f = "\<lambda>u n. bind_io (db_do (delete_by_uid fid u)) (\<lambda>_. ret_io (n + 1 :: nat))"
  have "hoare (on_mail (lacks_uids fid (set past))) (?f u n) (\<lambda>_. on_mail (lacks_uids fid (set (past @ [u])))) (\<lambda>_. True)"
    for past u n
    by (auto simp: hoare_def bind_db_do io_simps on_mail_def lacks_uids_def delete_by_uid_rows)
  from hoare_fold_done [where I = "\<lambda>past _. on_mail (lacks_uids fid (set past))" and f = ?f and zs = uids and b = 0,
      OF this]
  show ?thesis unfolding expunge_missing_def by (rule hoare_pre) (simp add: on_mail_def lacks_uids_def)
qed

lemma keeps_lacks:
  assumes "\<And>d. list_uids fid (snd (g d)) = list_uids fid d"
  shows "keeps (on_mail (lacks_uids fid S)) (db_io g)"
  by (rule keeps_mail_db) (simp add: lacks_uids_def cached_def assms)

lemma list_uids_update: "(\<And>m. p m \<Longrightarrow> m_uid (f m) = m_uid m \<and> m_folder_id (f m) = m_folder_id m) \<Longrightarrow>
    list_uids fid (d\<lparr>db_messages := update_where p f ms\<rparr>) = map m_uid (filter (\<lambda>m. m_folder_id m = fid) ms)"
  unfolding list_uids_def by (induction ms) (auto simp: table_simps)

lemma keeps_lacks_sweep: "keeps (on_mail (lacks_uids fid S)) (sweep_trash_seen env i)"
proof -
  have "list_uids fid (snd (set_read_clean_by_uids now i uids q d)) = list_uids fid d" for now uids q d
    unfolding set_read_clean_eq update_messages_def snd_conv
    by (subst list_uids_update) (simp_all add: list_uids_def)
  then have "keeps (on_mail (lacks_uids fid S)) (db_do (set_read_clean_by_uids now i uids q))" for now uids q
    by (intro keeps_mail_do) (simp add: lacks_uids_def cached_def)
  then show ?thesis unfolding sweep_trash_seen_def by (intro keeps_rules)
qed

lemma keeps_lacks_state: "keeps (on_mail (lacks_uids fid S)) (save_state env f mb modseq)"
  unfolding save_state_def
  by (rule keeps_lacks) (simp add: set_sync_state_def update_folder_def list_uids_def Let_def)

lemma hoare_after:
  "keeps P m \<Longrightarrow> (\<And>x. hoare P (k x) Q (\<lambda>_. True)) \<Longrightarrow> hoare P (bind_io m k) Q (\<lambda>_. True)"
  by (rule hoare_bind [where R = "\<lambda>_. P"]) (auto elim: hoare_weaken dest!: keeps_hoare)

subsection \<open>A sync that succeeds\<close>

definition in_window :: "nat option \<Rightarrow> nat list \<Rightarrow> nat \<Rightarrow> bool" where
  "in_window window server_uids u \<longleftrightarrow> (case window of None \<Rightarrow> True | Some n \<Rightarrow> u \<in> set (newest n server_uids))"


subsection \<open>A read-only server\<close>

type_synonym mailbox = "(nat \<times> string) list"

definition ro_data :: "mailbox \<Rightarrow> imap_command \<Rightarrow> imap_data list" where
  "ro_data mails cmd =
     (case cmd of
        Select _ _ \<Rightarrow> [Exists (length mails)]
      | Search ks \<Rightarrow> [Search_Data (filter (\<lambda>u. list_all (asked_for u) ks) (map fst mails))]
      | Fetch_Flags us _ \<Rightarrow> map (\<lambda>(u, raw). Fetch [Uid_Item u, Flags_Item []]) (filter (\<lambda>m. fst m \<in> set us) mails)
      | Fetch_Full us \<Rightarrow>
          map (\<lambda>(u, raw). Fetch [Uid_Item u, Flags_Item [], Body_Item (Some raw)]) (filter (\<lambda>m. fst m \<in> set us) mails)
      | _ \<Rightarrow> [])"

fun respond :: "string \<Rightarrow> imap_data list \<Rightarrow> timed_event list" where
  "respond tag [] = [(0, 0, Tagged tag Ok_Kind [] None)]"
| "respond tag (d # ds) = (0, 0, Data_Received d) # respond tag ds"

definition read_only_server :: "mailbox \<Rightarrow> unit peer" where
  "read_only_server mails tag cmd c = (0, respond tag (ro_data mails cmd), c)"

lemma answer_respond: "answer tag (respond tag ds) = Some \<lparr>cr_data = ds, cr_codes = [None]\<rparr>"
  by (induction ds) simp_all

lemma read_only_run:
  "read_only_server mails tag cmd c = (st, evs, c') \<Longrightarrow> answer tag evs = Some r \<Longrightarrow> cr_data r = ro_data mails cmd
     \<and> cr_codes r = [None]"
  by (auto simp: read_only_server_def answer_respond)

lemma read_only_finds:
  "finds_all (read_only_server mails) (fst ` set mails)" "finds_only (read_only_server mails) (fst ` set mails)"
  by (auto simp: finds_all_def finds_only_def found_in_def ro_data_def dest!: read_only_run)

lemma read_only_hands_over:
  assumes "0 \<notin> fst ` set mails"
  shows "hands_over (read_only_server mails) (fst ` set mails)"
  unfolding hands_over_def
proof (intro allI impI subsetI)
  fix tag us c st evs c' r u
  assume "read_only_server mails tag (Fetch_Full us) c = (st, evs, c')" and "answer tag evs = Some r"
    and u: "u \<in> set us \<inter> fst ` set mails"
  then have r: "cr_data r = ro_data mails (Fetch_Full us)" by (blast dest: read_only_run)
  from u obtain raw where raw: "(u, raw) \<in> set mails" by auto
  with assms have "0 < u" by (cases u) force+
  let ?ft = "\<lparr>ft_uid = u, ft_flags = [], ft_modseq = None, ft_raw = raw\<rparr>"
  have "Fetch [Uid_Item u, Flags_Item [], Body_Item (Some raw)] \<in> set (cr_data r)"
    using raw u unfolding r by (force simp: ro_data_def)
  moreover have "fetch_of (Fetch [Uid_Item u, Flags_Item [], Body_Item (Some raw)]) = Some ?ft"
    using \<open>0 < u\<close> by simp
  ultimately have "?ft \<in> set (fetched_of r)"
    unfolding fetched_of_def List.map_filter_def by force
  then show "u \<in> ft_uid ` set (fetched_of r)" by force
qed

lemma read_only_same_mailbox:
  "same_mailbox (read_only_server mails) P f"
  by (auto simp: same_mailbox_def validity_differs_def select_outcome_def ro_data_def dest!: read_only_run)

definition two_mails :: mailbox where
  "two_mails = [(1, ''one''), (2, ''two'')]"

lemma two_mails_uids: "fst ` set two_mails = {1, 2}"
  by (simp add: two_mails_def)

definition ro_session :: "unit imap_session" where
  "ro_session = \<lparr>conn = (), tag_counter = 0, capabilities = [], condstore_enabled = False,
     qresync_enabled = False, broken = None\<rparr>"

definition ro_env :: "unit env" where
  "ro_env = \<lparr>e_srv = read_only_server two_mails, e_parse = (\<lambda>_. None), e_shows = (\<lambda>_ _. False), e_lower = id,
     e_now = 0\<rparr>"

definition ro_row :: message where
  "ro_row = fresh_row 0 (sample_mail 1 1) 7"

definition ro_world :: "unit world" where
  "ro_world = imap_session.extend ro_session
     \<lparr>w_connected = True, w_accounts = [1], w_mail = sample_db\<lparr>db_messages := [ro_row]\<rparr>,
      w_settings = \<lparr>app_values = Map.empty, account_values = (\<lambda>_. Map.empty)\<rparr>\<rparr>"

theorem recent_search_is_exact_witness:
  "\<exists>found lo s'. search_recent_uids (read_only_server two_mails) (Some 5) None ro_session = (Inr (found, lo), s')
     \<and> set found = {u \<in> {1, 2}. lo \<le> u}"
proof -
  have run: "search_recent_uids (read_only_server two_mails) (Some 5) None ro_session
      = (Inr ([1, 2], 1), ro_session\<lparr>tag_counter := 1\<rparr>)"
    by (simp add: search_recent_uids_def uid_search_def io_simps execute_def ro_session_def next_tag_def bind_io_def
        read_only_server_def ro_data_def two_mails_def read_budget_def COMMAND_MAX_def COMMAND_TIMEOUT_def)
  have "set [1, 2] = {u \<in> fst ` set two_mails. (1 :: nat) \<le> u}"
    using recent_search_is_exact [OF read_only_finds _ _ run] by (simp add: two_mails_uids)
  with run show ?thesis by (simp add: two_mails_uids)
qed

theorem sync_keeps_what_the_server_holds_witness:
  "row_kept ro_row (w_mail (snd (sync_folder_window ro_env 1 (Some 5) ro_world)))"
proof -
  have f: "folder_get 1 (w_mail ro_world) = Inr (sample_folder 1 ''INBOX'' Inbox)"
    by (simp add: folder_get_def ro_world_def imap_session.defs sample_db_def sample_folder_def)
  have "ro_row \<in> set (db_messages (w_mail ro_world))" by (simp add: ro_world_def imap_session.defs)
  moreover have "m_uid ro_row \<in> {1, 2}"
    by (simp add: ro_row_def fresh_row_def sample_mail_def new_message.defs)
  moreover have "e_srv ro_env = read_only_server two_mails" by (simp add: ro_env_def)
  ultimately show ?thesis
    using sync_keeps_what_the_server_holds [where env = ro_env and K = "{1, 2}" and P = "{1, 2}"
        and w = ro_world and m = ro_row and fid = 1, OF _ _ _ _ f]
      read_only_finds [of two_mails] read_only_same_mailbox by (simp add: two_mails_uids)
qed

definition ro_folder :: folder where
  "ro_folder = sample_folder 1 ''INBOX'' Inbox"

definition ro_select :: select_result where
  "ro_select = \<lparr>sr_exists = 2, sr_uid_validity = None, sr_uid_next = None, sr_highest_modseq = None, sr_vanished = []\<rparr>"


end
