(* ===== verification/Smtp_Policy.thy ===== *)
theory Smtp_Policy
  imports Settings Outbox_Queue
begin

text \<open>
  What goes out and to whom (\<open>sync/sender/policy.rs\<close>, \<open>addresses.rs\<close>, \<open>scheduled.rs\<close> and the checks
  of \<open>client.rs\<close> before a row is written): recipient and sender checks, the wire format, the \<open>Date:\<close>
  refresh of a scheduled mail. The mailbox parser and the message builder of the \<open>lettre\<close> library
  and the HTML rewriting that feeds the builder are arguments.
\<close>

subsection \<open>Addresses\<close>

record mailbox =
  mb_name :: "string option"
  mb_email :: string

text \<open>\<open>str::parse::<Mailbox>\<close>: the mailbox, or the text of the error.\<close>

type_synonym mailbox_parser = "string \<Rightarrow> string + mailbox"

definition valid_mailboxes :: "mailbox_parser \<Rightarrow> string list \<Rightarrow> mailbox list" where
  "valid_mailboxes parse raw = List.map_filter (\<lambda>s. case parse s of Inl _ \<Rightarrow> None | Inr m \<Rightarrow> Some m) raw"

fun strict_mailboxes :: "mailbox_parser \<Rightarrow> string \<Rightarrow> string list \<Rightarrow> mailbox list result" where
  "strict_mailboxes parse field [] = Inr []"
| "strict_mailboxes parse field (s # raw) =
     (case parse s of
        Inl _ \<Rightarrow> Inl (InvalidInput (''invalid address in '' @ field @ '': '' @ s))
      | Inr m \<Rightarrow>
          (case strict_mailboxes parse field raw of Inl e \<Rightarrow> Inl e | Inr ms \<Rightarrow> Inr (m # ms)))"

definition parse_reply_to :: "mailbox_parser \<Rightarrow> string \<Rightarrow> mailbox option result" where
  "parse_reply_to parse raw =
     (let t = trim raw in
      if t = [] then Inr None
      else (case parse t of
              Inl _ \<Rightarrow> Inl (InvalidInput (''invalid Reply-To address: '' @ t))
            | Inr m \<Rightarrow> Inr (Some m)))"

definition sender_domain_is_aligned :: "string \<Rightarrow> string \<Rightarrow> bool" where
  "sender_domain_is_aligned from account_email =
     (case rsplit_once CHR ''@'' from of
        None \<Rightarrow> False
      | Some (_, from_domain) \<Rightarrow>
          (case rsplit_once CHR ''@'' account_email of
             None \<Rightarrow> False
           | Some (_, account_domain) \<Rightarrow>
               from_domain \<noteq> [] \<and> account_domain \<noteq> [] \<and> eq_ignore_ascii_case from_domain account_domain))"

definition group_char :: "char \<Rightarrow> bool" where
  "group_char c \<longleftrightarrow> is_ascii_alphanumeric c \<or> c = CHR '' '' \<or> c \<in> set ''!#$%&'' \<or> c = CHR 0x27
     \<or> c \<in> set ''*+-/=?^_'' \<or> c = CHR 0x60 \<or> c \<in> set ''{|}~''"

definition to_group_name :: "string \<Rightarrow> string" where
  "to_group_name text =
     (let t = trim text in
      if t \<noteq> [] \<and> is_ascii t \<and> \<not> starts_with t '' '' \<and> \<not> ends_with t '' '' \<and> \<not> contains_sub ''  '' t
         \<and> list_all group_char t
      then t else ''undisclosed-recipients'')"

subsection \<open>Policy and format\<close>

datatype send_policy = Test_Allowlist "string list" | Unrestricted

text \<open>The two environment variables are arguments: absent is \<open>None\<close>.\<close>

definition policy_from_env :: "string option \<Rightarrow> string option \<Rightarrow> send_policy" where
  "policy_from_env any_recipient allowlist =
     (if any_recipient = Some ''1'' then Unrestricted
      else Test_Allowlist (filter (\<lambda>s. s \<noteq> [])
             (map (\<lambda>s. ascii_lowercase (trim s)) (split_on CHR '','' (case allowlist of None \<Rightarrow> [] | Some s \<Rightarrow> s)))))"

text \<open>\<open>dbg\<close> prints the list as \<open>{:?}\<close> does.\<close>

fun policy_check :: "(string list \<Rightarrow> string) \<Rightarrow> send_policy \<Rightarrow> string list \<Rightarrow> unit result" where
  "policy_check dbg Unrestricted recipients = Inr ()"
| "policy_check dbg (Test_Allowlist allow) [] = Inr ()"
| "policy_check dbg (Test_Allowlist allow) (r # recipients) =
     (if ascii_lowercase r \<notin> set allow
      then Inl (InvalidInput (''refusing to send to '' @ r @ '' (test allowlist: '' @ dbg allow @ '')''))
      else policy_check dbg (Test_Allowlist allow) recipients)"

datatype send_format = Auto | Plain_Text | Multipart | Html

definition send_format_parse :: "string \<Rightarrow> send_format" where
  "send_format_parse raw =
     (let n = normalize_send_format raw in
      if n = ''plain'' then Plain_Text else if n = ''multipart'' then Multipart
      else if n = ''html'' then Html else Auto)"

fun send_format_str :: "send_format \<Rightarrow> string" where
  "send_format_str Auto = ''auto''"
| "send_format_str Plain_Text = ''plain''"
| "send_format_str Multipart = ''multipart''"
| "send_format_str Html = ''html''"

definition effective_format :: "send_format \<Rightarrow> bool \<Rightarrow> bool \<Rightarrow> send_format" where
  "effective_format wanted needs_html include_plain =
     (if wanted = Auto \<and> \<not> needs_html then Plain_Text
      else if wanted \<in> {Auto, Html} then (if include_plain then Multipart else Html)
      else wanted)"

subsection \<open>The date of a scheduled mail\<close>

definition CR :: char where "CR = CHR 0x0D"
definition LF :: char where "LF = CHR 0x0A"

definition is_date_line :: "string \<Rightarrow> bool" where
  "is_date_line line \<longleftrightarrow> 5 < length line \<and> line ! 4 = CHR '':'' \<and> eq_ignore_ascii_case (take 4 line) ''date''"

definition is_fold :: "string \<Rightarrow> bool" where
  "is_fold line \<longleftrightarrow> starts_with line '' '' \<or> starts_with line [CHR 0x09]"

text \<open>The lines of the header that end in a newline: the text out, and whether a date was replaced
  and its folded lines are still being skipped.\<close>

fun date_lines :: "string \<Rightarrow> bool \<Rightarrow> bool \<Rightarrow> string list \<Rightarrow> string \<times> bool \<times> bool" where
  "date_lines date replaced skipping [] = ([], replaced, skipping)"
| "date_lines date replaced skipping (l # ls) =
     (let had_cr = ends_with l [CR];
          line = (if had_cr then butlast l else l);
          ending = (if had_cr then [CR, LF] else [LF])
      in if skipping \<and> is_fold line then date_lines date replaced True ls
         else if \<not> replaced \<and> is_date_line line then
           (case date_lines date True True ls of (out, flags) \<Rightarrow> (''Date: '' @ date @ ending @ out, flags))
         else
           (case date_lines date replaced False ls of (out, flags) \<Rightarrow> (line @ ending @ out, flags)))"

definition header_end :: "string \<Rightarrow> nat" where
  "header_end raw =
     (case find_sub [CR, LF, CR, LF] raw of
        Some i \<Rightarrow> i + 4
      | None \<Rightarrow> (case find_sub [LF, LF] raw of Some i \<Rightarrow> i + 2 | None \<Rightarrow> length raw))"

definition refresh_date_header :: "string \<Rightarrow> string \<Rightarrow> string" where
  "refresh_date_header date raw =
     (let nl = (if contains_sub [CR, LF] raw then [CR, LF] else [LF]);
          head = take (header_end raw) raw;
          body = drop (header_end raw) raw;
          parts = split_on LF head;
          tail = last parts
      in case date_lines date False False (butlast parts) of (out, replaced, skipping) \<Rightarrow>
        (let (out, replaced) =
           (if tail = [] then (out, replaced)
            else if skipping \<and> is_fold tail then (out, replaced)
            else if \<not> replaced \<and> is_date_line tail then (out @ ''Date: '' @ date, True)
            else (out @ tail, replaced))
         in (if replaced then out else ''Date: '' @ date @ nl @ out) @ body))"

subsection \<open>What the refresh changes\<close>

definition header_text :: "string list \<Rightarrow> string" where
  "header_text ls = concat (map (\<lambda>l. l @ [CR, LF]) ls)"

definition header_line :: "string \<Rightarrow> bool" where
  "header_line l \<longleftrightarrow> l \<noteq> [] \<and> CR \<notin> set l \<and> LF \<notin> set l"

lemma header_text_simps [simp]:
  "header_text [] = []" "header_text (l # ls) = l @ [CR, LF] @ header_text ls"
  "header_text (ks @ ls) = header_text ks @ header_text ls"
  by (simp_all add: header_text_def)

lemma CR_LF [simp]: "CR \<noteq> LF" "LF \<noteq> CR"
  by (simp_all add: CR_def LF_def)

lemma find_blank_skip: "CR \<notin> set l \<Longrightarrow> find_sub [CR, LF, CR, LF] (l @ s) = map_option (\<lambda>i. i + length l) (find_sub [CR, LF, CR, LF] s)"
  by (induction l) (auto simp: starts_with_def option.map_comp o_def option.map_ident)

lemma find_blank_line:
  assumes "l \<noteq> []" "CR \<notin> set l"
  shows "find_sub [CR, LF, CR, LF] ([CR, LF] @ l @ s) = map_option (\<lambda>i. i + length l + 2) (find_sub [CR, LF, CR, LF] s)"
proof -
  have "find_sub [CR, LF, CR, LF] ([CR, LF] @ l @ s) = map_option (Suc o Suc) (find_sub [CR, LF, CR, LF] (l @ s))"
    using assms by (cases l) (auto simp: starts_with_def option.map_comp)
  then show ?thesis using assms(2) by (simp add: find_blank_skip option.map_comp o_def)
qed

lemma header_end_text:
  assumes "ls \<noteq> []" and "list_all header_line ls"
  shows "header_end (header_text ls @ [CR, LF] @ body) = length (header_text ls) + 2"
proof -
  have "find_sub [CR, LF, CR, LF] ([CR, LF] @ header_text ls @ [CR, LF] @ body) = Some (length (header_text ls))"
    if "ls \<noteq> []" "list_all header_line ls" for ls
    using that
  proof (induction ls)
    case (Cons l ls)
    then have l: "l \<noteq> []" "CR \<notin> set l" by (auto simp: header_line_def)
    show ?case
    proof (cases "ls = []")
      case True
      then show ?thesis using find_blank_line [OF l, of "[CR, LF] @ [CR, LF] @ body"] by (simp add: starts_with_def)
    next
      case False
      with Cons find_blank_line [OF l, of "[CR, LF] @ header_text ls @ [CR, LF] @ body"] show ?thesis by simp
    qed
  qed simp
  note found = this [OF assms]
  obtain l ls' where ls: "ls = l # ls'" using assms(1) by (cases ls) auto
  then have l: "l \<noteq> []" "CR \<notin> set l" using assms(2) by (auto simp: header_line_def)
  let ?rest = "[CR, LF] @ header_text ls' @ [CR, LF] @ body"
  have "map_option (\<lambda>i. i + length l + 2) (find_sub [CR, LF, CR, LF] ?rest) = Some (length (header_text ls))"
    using found unfolding find_blank_line [OF l, of ?rest, symmetric] by (simp add: ls)
  then have "find_sub [CR, LF, CR, LF] ?rest = Some (length (header_text ls'))"
    by (auto simp: ls)
  then have "find_sub [CR, LF, CR, LF] (l @ ?rest) = Some (length (header_text ls') + length l)"
    unfolding find_blank_skip [OF l(2)] by simp
  then have "find_sub [CR, LF, CR, LF] (header_text ls @ [CR, LF] @ body) = Some (length (header_text ls) - 2)"
    by (simp add: ls add.commute)
  then show ?thesis by (simp add: header_end_def ls)
qed

lemma split_header: "list_all header_line ls \<Longrightarrow> split_on LF (header_text ls @ [CR, LF]) = map (\<lambda>l. l @ [CR]) ls @ [[CR], []]"
proof (induction ls)
  case Nil
  show ?case by simp
next
  case (Cons l ls)
  then have "split_on LF (l @ [CR, LF] @ header_text ls @ [CR, LF]) = (l @ [CR]) # split_on LF (header_text ls @ [CR, LF])"
    using split_on_append [of LF "l @ [CR]" "header_text ls @ [CR, LF]"] by (auto simp: header_line_def)
  then show ?case using Cons by simp
qed

lemma ends_with_CR [simp]: "ends_with (l @ [CR]) [CR]"
  by (simp add: ends_with_def)

lemma not_fold_blank [simp]: "\<not> is_fold []"
  by (simp add: is_fold_def starts_with_def)

lemma date_lines_before:
  assumes "\<forall>l \<in> set pre. \<not> is_date_line l"
  shows "date_lines d False False (map (\<lambda>l. l @ [CR]) pre @ rest)
    = (case date_lines d False False rest of (out, flags) \<Rightarrow> (header_text pre @ out, flags))"
  using assms by (induction pre) (auto split: prod.split)

lemma date_lines_after:
  "date_lines d True False (map (\<lambda>l. l @ [CR]) ls @ [[CR]]) = (header_text ls @ [CR, LF], True, False)"
  by (induction ls) (auto simp: ends_with_def)

lemma date_lines_folds:
  assumes "list_all is_fold folds" and "post = [] \<or> \<not> is_fold (hd post)"
  shows "date_lines d True True (map (\<lambda>l. l @ [CR]) folds @ map (\<lambda>l. l @ [CR]) post @ [[CR]])
    = (header_text post @ [CR, LF], True, False)"
  using assms(1)
proof (induction folds)
  case Nil
  show ?case
  proof (cases post)
    case Nil
    then show ?thesis by (simp add: ends_with_def)
  next
    case (Cons l ls)
    then show ?thesis using assms(2) date_lines_after [of d ls] by simp
  qed
qed simp

lemma date_lines_header:
  assumes "\<forall>l \<in> set pre. \<not> is_date_line l" and "is_date_line dl" and "list_all is_fold folds"
    and "post = [] \<or> \<not> is_fold (hd post)"
  shows "date_lines d False False (map (\<lambda>l. l @ [CR]) (pre @ [dl] @ folds @ post) @ [[CR]])
    = (header_text pre @ ''Date: '' @ d @ [CR, LF] @ header_text post @ [CR, LF], True, False)"
proof -
  have "date_lines d False False (map (\<lambda>l. l @ [CR]) ([dl] @ folds @ post) @ [[CR]])
      = (''Date: '' @ d @ [CR, LF] @ header_text post @ [CR, LF], True, False)"
    using assms(2) date_lines_folds [OF assms(3,4), of d] by simp
  then show ?thesis using date_lines_before [OF assms(1), of d "map (\<lambda>l. l @ [CR]) ([dl] @ folds @ post) @ [[CR]]"] by simp
qed

text \<open>
  The refresh of a scheduled mail's date replaces exactly the first \<open>Date:\<close> field, folded lines
  included, and leaves every other byte of header and body as composed.
\<close>

theorem date_refresh_replaces_one_field:
  assumes "list_all header_line (pre @ [dl] @ folds @ post)"
    and "\<forall>l \<in> set pre. \<not> is_date_line l" and "is_date_line dl" and "list_all is_fold folds"
    and "post = [] \<or> \<not> is_fold (hd post)"
  shows "refresh_date_header d (header_text (pre @ [dl] @ folds @ post) @ [CR, LF] @ body)
    = header_text pre @ ''Date: '' @ d @ [CR, LF] @ header_text post @ [CR, LF] @ body"
proof -
  let ?ls = "pre @ [dl] @ folds @ post" and ?raw = "header_text (pre @ [dl] @ folds @ post) @ [CR, LF] @ body"
  have cut: "header_end ?raw = length (header_text ?ls @ [CR, LF])"
    using header_end_text [OF _ assms(1), of body] by simp
  have head: "take (header_end ?raw) ?raw = header_text ?ls @ [CR, LF]"
    unfolding cut by (metis append_assoc append_eq_conv_conj)
  have body: "drop (header_end ?raw) ?raw = body"
    unfolding cut by (metis append_assoc append_eq_conv_conj)
  have parts: "split_on LF (header_text ?ls @ [CR, LF]) = (map (\<lambda>l. l @ [CR]) ?ls @ [[CR]]) @ [[]]"
    using split_header [OF assms(1)] by simp
  show ?thesis
    unfolding refresh_date_header_def Let_def head body parts butlast_snoc last_snoc
      date_lines_header [OF assms(2-5)]
    by simp
qed

theorem date_refresh_replaces_one_field_witness:
  "refresh_date_header ''now'' (header_text [''From: a'', ''Date: x'', '' y'', ''To: b''] @ [CR, LF] @ ''body'')
     = header_text [''From: a''] @ ''Date: now'' @ [CR, LF] @ header_text [''To: b''] @ [CR, LF] @ ''body''"
proof -
  have "list_all header_line ([''From: a''] @ [''Date: x''] @ ['' y''] @ [''To: b''])"
    by (simp add: header_line_def CR_def LF_def)
  moreover have "\<forall>l \<in> set [''From: a'']. \<not> is_date_line l" by (simp, code_simp)
  moreover have "is_date_line ''Date: x''" by code_simp
  moreover have "list_all is_fold ['' y'']" by (simp add: is_fold_def starts_with_def)
  moreover have "[''To: b''] = [] \<or> \<not> is_fold (hd [''To: b''])" by (simp add: is_fold_def starts_with_def)
  ultimately show ?thesis
    using date_refresh_replaces_one_field [of "[''From: a'']" "''Date: x''" "['' y'']" "[''To: b'']" "''now''" "''body''"]
    by simp
qed

end
