(* ===== verification/Smtp_Sender.thy ===== *)
theory Smtp_Sender
  imports Smtp_Policy Outbox_Machine Imap_Mutate
begin

text \<open>
  The SMTP sender (\<open>sync/sender/client.rs\<close>): what is checked before a row enters the outbox, the
  submission of a row, and the flush that works an account's outbox off. The SMTP dialogue, the filing of
  the Sent copy over its own IMAP connection, the receipt's text and the date's text are arguments;
  an answer takes time, so the clock is part of the state.
\<close>

subsection \<open>From the composer to the outbox\<close>

record send_request =
  rq_to :: "string list"
  rq_cc :: "string list"
  rq_bcc :: "string list"
  rq_from :: "string option"
  rq_from_name :: "string option"
  rq_reply_to :: "string option"
  rq_subject :: string
  rq_body_text :: string
  rq_body_html :: "string option"
  rq_attachments :: "string list"
  rq_format :: send_format
  rq_include_plain :: bool
  rq_policy :: send_policy
  rq_request_mdn :: bool
  rq_request_dsn :: bool
  rq_notify_self :: bool

text \<open>
  \<open>mk_parts\<close> is the message's content (bodies, inline images, attachments read from disk),
  \<open>mk_message\<close> the bytes \<open>assemble_message\<close> and \<open>formatted\<close> make of it.
\<close>

record 'p message_maker =
  mk_parse :: mailbox_parser
  mk_debug :: "string list \<Rightarrow> string"
  mk_parts :: "send_request \<Rightarrow> string \<Rightarrow> 'p result"
  mk_message :: "'p \<Rightarrow> mailbox \<Rightarrow> mailbox list \<Rightarrow> string option \<Rightarrow> mailbox list \<Rightarrow> mailbox list
    \<Rightarrow> mailbox option \<Rightarrow> string result"
  mk_rfc3339 :: "string \<Rightarrow> instant option"

definition enqueue_send_at ::
  "'p message_maker \<Rightarrow> string \<Rightarrow> instant \<Rightarrow> int \<Rightarrow> send_request \<Rightarrow> string option
    \<Rightarrow> (send_queue, int \<times> string) io" where
  "enqueue_send_at mk account_from now account_id req send_at =
     (let to_boxes = valid_mailboxes (mk_parse mk) (rq_to req) in
      bind_io (lift_io (strict_mailboxes (mk_parse mk) ''Cc'' (rq_cc req))) (\<lambda>cc_boxes.
      bind_io (lift_io (strict_mailboxes (mk_parse mk) ''Bcc'' (rq_bcc req))) (\<lambda>bcc_boxes.
        let rcpts = map mb_email to_boxes @ map mb_email cc_boxes @ map mb_email bcc_boxes in
        if rcpts = [] then lift_io (Inl (InvalidInput ''add at least one recipient (To, Cc or Bcc)''))
        else
          bind_io (lift_io (policy_check (mk_debug mk) (rq_policy req) rcpts)) (\<lambda>_.
            let from_addr = (case rq_from req of None \<Rightarrow> account_from | Some s \<Rightarrow> if s \<noteq> [] then s else account_from) in
            if CHR ''@'' \<notin> set from_addr
            then lift_io (Inl (InvalidInput (''invalid sender address: '' @ from_addr)))
            else if CHR ''@'' \<notin> set account_from
            then lift_io (Inl (InvalidInput ''account email address has no domain''))
            else if \<not> sender_domain_is_aligned from_addr account_from
            then lift_io (Inl (InvalidInput
              ''sender domain must match the account domain to preserve SPF/DKIM/DMARC alignment''))
            else
              let from_name = (case rq_from_name req of None \<Rightarrow> None
                    | Some n \<Rightarrow> if trim n \<noteq> [] then Some (trim n) else None) in
              bind_io (lift_io (case mk_parse mk from_addr of Inl e \<Rightarrow> Inl (Address e) | Inr m \<Rightarrow> Inr m)) (\<lambda>from_parsed.
                let from_box = (case from_name of None \<Rightarrow> from_parsed | Some n \<Rightarrow> from_parsed\<lparr>mb_name := Some n\<rparr>) in
                bind_io (lift_io (mk_parts mk req from_addr)) (\<lambda>parts.
                let to_group = (if to_boxes = [] then Some (to_group_name (join '' '' (rq_to req))) else None) in
                bind_io (lift_io (parse_reply_to (mk_parse mk) (case rq_reply_to req of None \<Rightarrow> [] | Some r \<Rightarrow> r))) (\<lambda>reply_to.
                bind_io (lift_io (mk_message mk parts from_box to_boxes to_group cc_boxes bcc_boxes reply_to)) (\<lambda>raw.
                bind_io
                  (case send_at of
                     Some at \<Rightarrow> enqueue_scheduled_mime (mk_rfc3339 mk) now account_id
                       \<lparr>s_message_id = None, s_raw_mime = raw, s_envelope_from = from_addr, s_envelope_to = rcpts,
                        s_request_dsn = rq_request_dsn req, s_notify_self = rq_notify_self req, s_send_at = at\<rparr>
                   | None \<Rightarrow> enqueue_mime now account_id None raw from_addr rcpts (rq_request_dsn req))
                  (\<lambda>i. ret_io (i, raw))))))))))"

definition enqueue_send ::
  "'p message_maker \<Rightarrow> string \<Rightarrow> instant \<Rightarrow> int \<Rightarrow> send_request \<Rightarrow> (send_queue, int \<times> string) io" where
  "enqueue_send mk account_from now account_id req = enqueue_send_at mk account_from now account_id req None"

subsection \<open>Submitting a row\<close>

record smtp_mail =
  sm_from :: string
  sm_to :: "string list"
  sm_raw :: string
  sm_dsn :: bool

record submitted =
  sb_dsn_unsupported :: bool
  sb_raw :: string

text \<open>
  \<open>se_send\<close> is the dialogue with the server (connecting on first use included): the error, or whether
  it offers delivery reports, and how long it took. \<open>se_copy\<close> is \<open>save_sent_copy\<close>, whose errors are only logged.
\<close>

record 's smtp_env =
  se_from :: string
  se_address :: "string \<Rightarrow> string option"
  se_send :: "smtp_mail \<Rightarrow> 's \<Rightarrow> bool result \<times> nat \<times> 's"
  se_copy :: "string \<Rightarrow> 's \<Rightarrow> nat \<times> 's"
  se_receipt :: "string \<Rightarrow> instant \<Rightarrow> queued_send \<Rightarrow> string result"
  se_date :: "instant \<Rightarrow> string"

record 's flush_world =
  fl_clock :: instant
  fl_queue :: send_queue
  fl_settings :: settings_db
  fl_seen :: "string list"
  fl_net :: 's

definition on_queue :: "(instant \<Rightarrow> send_queue \<Rightarrow> send_queue) \<Rightarrow> ('s flush_world, unit) io" where
  "on_queue f = modify_io (\<lambda>w. w\<lparr>fl_queue := f (fl_clock w) (fl_queue w)\<rparr>)"

definition submit_raw :: "'s smtp_env \<Rightarrow> smtp_mail \<Rightarrow> ('s flush_world, bool) io" where
  "submit_raw env mail w =
     (case List.map_filter (se_address env) (sm_from mail # sm_to mail) of
        e # _ \<Rightarrow> (Inl (Address e), w)
      | [] \<Rightarrow>
          (case se_send env mail (fl_net w) of (r, wait, net) \<Rightarrow>
            (case r of Inl e \<Rightarrow> Inl e | Inr dsn \<Rightarrow> Inr (sm_dsn mail \<and> \<not> dsn),
             w\<lparr>fl_net := net, fl_clock := fl_clock w + int wait\<rparr>)))"

definition is_permanent :: "store_error \<Rightarrow> bool" where
  "is_permanent e = (case e of Smtp _ permanent \<Rightarrow> permanent | _ \<Rightarrow> False)"

definition submit_claimed :: "'s smtp_env \<Rightarrow> int \<Rightarrow> ('s flush_world, submitted) io" where
  "submit_claimed env i =
     bind_io (\<lambda>w. (queue_get i (fl_queue w), w)) (\<lambda>row.
     bind_io (lift_io (case q_raw_mime row of
         Some raw \<Rightarrow> if raw \<noteq> [] then Inr raw
           else Inl (InvalidInput (''queue entry '' @ string_of_int i @ '' has no MIME bytes''))
       | None \<Rightarrow> Inl (InvalidInput (''queue entry '' @ string_of_int i @ '' has no MIME bytes'')))) (\<lambda>composed.
     bind_io (if q_send_at row \<noteq> None
              then bind_io (get_io (\<lambda>w. refresh_date_header (se_date env (fl_clock w)) composed)) (\<lambda>raw.
                   bind_io (on_queue (\<lambda>now. update_raw_mime now i raw)) (\<lambda>_. ret_io raw))
              else ret_io composed) (\<lambda>raw.
     bind_io (lift_io (case q_envelope_from row of
         Some f \<Rightarrow> if f \<noteq> [] then Inr f else Inl (InvalidInput ''queued send missing envelope from'')
       | None \<Rightarrow> Inl (InvalidInput ''queued send missing envelope from''))) (\<lambda>from.
       if q_envelope_to row = [] then lift_io (Inl (InvalidInput ''queued send has no envelope recipients''))
       else
         bind_io (try_io (submit_raw env \<lparr>sm_from = from, sm_to = q_envelope_to row, sm_raw = raw,
                                          sm_dsn = q_request_dsn row\<rparr>)) (\<lambda>r.
           case r of
             Inr unsupported \<Rightarrow>
               bind_io (on_queue (\<lambda>now db. snd (mark_sent now i db))) (\<lambda>_.
               ret_io \<lparr>sb_dsn_unsupported = unsupported, sb_raw = raw\<rparr>)
           | Inl e \<Rightarrow>
               bind_io (on_queue (\<lambda>now db.
                   if q_send_at row \<noteq> None then snd (fail_scheduled_attempt now i (error_text e) (is_permanent e) db)
                   else snd (mark_failed now i (error_text e) db))) (\<lambda>_.
               lift_io (Inl e)))))))"

text \<open>\<open>SmtpSender::submit\<close>, the immediate send: what it leaves in the outbox, and whom it hands to the contacts.\<close>

definition see_recipients :: "int \<Rightarrow> string list \<Rightarrow> ('s flush_world, unit) io" where
  "see_recipients account_id addrs =
     modify_io (\<lambda>w. if account_get_bool (fl_settings w) account_id COLLECT_SENT_CONTACTS
                    then w\<lparr>fl_seen := fl_seen w @ addrs\<rparr> else w)"

definition submit ::
  "'p message_maker \<Rightarrow> 's smtp_env \<Rightarrow> int \<Rightarrow> send_request \<Rightarrow> ('s flush_world, string) io" where
  "submit mk env account_id req =
     bind_io (\<lambda>w. case enqueue_send mk (se_from env) (fl_clock w) account_id req (fl_queue w) of
                   (r, db) \<Rightarrow> (r, w\<lparr>fl_queue := db\<rparr>)) (\<lambda>(queue_id, raw).
     bind_io (try_io (submit_claimed env queue_id)) (\<lambda>r.
       case r of
         Inl e \<Rightarrow> bind_io (on_queue (\<lambda>now. discard_mime now queue_id)) (\<lambda>_. lift_io (Inl e))
       | Inr _ \<Rightarrow>
           bind_io (see_recipients account_id (map mb_email (valid_mailboxes (mk_parse mk) (rq_to req)
               @ valid_mailboxes (mk_parse mk) (rq_cc req) @ valid_mailboxes (mk_parse mk) (rq_bcc req)))) (\<lambda>_.
           ret_io raw)))"

subsection \<open>The Sent copy\<close>

definition sent_copy_target :: "settings_db \<Rightarrow> mail_db \<Rightarrow> int \<Rightarrow> string option result" where
  "sent_copy_target settings db account_id =
     (if \<not> account_get_bool settings account_id SENT_COPY_ENABLED then Inr None
      else (case find (\<lambda>f. d_role f = Sent) (list_by_account account_id db) of
              Some f \<Rightarrow> Inr (Some (d_path f))
            | None \<Rightarrow> Inl (InvalidInput ''no Sent folder known, skipping sent copy'')))"

definition gmail_autofiles_sent :: "string \<Rightarrow> string \<Rightarrow> bool" where
  "gmail_autofiles_sent imap_host smtp_host \<longleftrightarrow>
     list_ex (\<lambda>h. contains_sub (ascii_lowercase h) ''gmail'' \<or> contains_sub (ascii_lowercase h) ''googlemail'')
       [imap_host, smtp_host]"

definition save_sent_copy_via :: "'s env \<Rightarrow> string \<Rightarrow> string \<Rightarrow> int \<Rightarrow> string \<Rightarrow> ('s world, unit) io" where
  "save_sent_copy_via env imap_host smtp_host account_id raw =
     bind_io (try_io (account_get account_id)) (\<lambda>r.
       case r of
         Inl e \<Rightarrow> lift_io (Inl (InvalidInput (''cannot load account, skipping sent copy: '' @ error_text e)))
       | Inr _ \<Rightarrow>
           if gmail_autofiles_sent imap_host smtp_host then ret_io ()
           else
             bind_io (\<lambda>w. (sent_copy_target (w_settings w) (w_mail w) account_id, w)) (\<lambda>target.
               case target of
                 None \<Rightarrow> ret_io ()
               | Some path \<Rightarrow>
                   bind_io (try_io (append_to_folder env path raw)) (\<lambda>r.
                     case r of
                       Inl e \<Rightarrow> lift_io (Inl (InvalidInput (''APPEND to '' @ path @ '' failed: '' @ error_text e)))
                     | Inr _ \<Rightarrow> ret_io ())))"

subsection \<open>The flush\<close>

definition copy_sent :: "'s smtp_env \<Rightarrow> string \<Rightarrow> ('s flush_world, unit) io" where
  "copy_sent env raw =
     modify_io (\<lambda>w. case se_copy env raw (fl_net w) of (wait, net) \<Rightarrow>
       w\<lparr>fl_net := net, fl_clock := fl_clock w + int wait\<rparr>)"

definition send_self_receipt :: "'s smtp_env \<Rightarrow> int \<Rightarrow> queued_send \<Rightarrow> ('s flush_world, unit) io" where
  "send_self_receipt env account_id orig =
     bind_io (\<lambda>w. (se_receipt env (se_from env) (fl_clock w) orig, w)) (\<lambda>raw.
     bind_io (\<lambda>w. case enqueue_mime (fl_clock w) account_id None raw (se_from env) [se_from env] False (fl_queue w) of
                   (r, db) \<Rightarrow> (r, w\<lparr>fl_queue := db\<rparr>)) (\<lambda>i.
     bind_io (try_io (submit_claimed env i)) (\<lambda>r.
       case r of
         Inl e \<Rightarrow> bind_io (on_queue (\<lambda>_. queue_delete i)) (\<lambda>_. lift_io (Inl e))
       | Inr s \<Rightarrow> if sb_raw s \<noteq> [] then copy_sent env (sb_raw s) else ret_io ())))"

definition flush_row ::
  "'s smtp_env \<Rightarrow> int \<Rightarrow> queued_send \<Rightarrow> nat \<times> store_error option \<Rightarrow> ('s flush_world, nat \<times> store_error option) io" where
  "flush_row env account_id row = (\<lambda>(sent, first_error).
     bind_io (\<lambda>w. case claim (fl_clock w) (q_id row) (fl_queue w) of (won, db) \<Rightarrow> (Inr won, w\<lparr>fl_queue := db\<rparr>)) (\<lambda>won.
       if \<not> won then ret_io (sent, first_error)
       else
         bind_io (try_io (submit_claimed env (q_id row))) (\<lambda>r.
           case r of
             Inl e \<Rightarrow> ret_io (sent, case first_error of None \<Rightarrow> Some e | Some f \<Rightarrow> Some f)
           | Inr s \<Rightarrow>
               bind_io (see_recipients account_id (q_envelope_to row)) (\<lambda>_.
               bind_io (if sb_raw s \<noteq> [] then copy_sent env (sb_raw s) else ret_io ()) (\<lambda>_.
               bind_io (if q_notify_self row then try_io (send_self_receipt env account_id row) else ret_io (Inr ())) (\<lambda>_.
               ret_io (sent + 1, first_error)))))))"

definition flush_outbox :: "'s smtp_env \<Rightarrow> int \<Rightarrow> ('s flush_world, nat) io" where
  "flush_outbox env account_id =
     bind_io (on_queue (\<lambda>now db. snd (requeue_interrupted now account_id db))) (\<lambda>_.
     bind_io (on_queue (\<lambda>now db. snd (promote_due now account_id db))) (\<lambda>_.
     bind_io (on_queue (\<lambda>now db. snd (prune_sent now db))) (\<lambda>_.
     bind_io (get_io (\<lambda>w. list_submittable (fl_clock w) account_id (fl_queue w))) (\<lambda>rows.
     bind_io (fold_io (flush_row env account_id) rows (0, None)) (\<lambda>(sent, first_error).
       case first_error of
         Some e \<Rightarrow> if sent = 0 then lift_io (Inl e) else ret_io sent
       | None \<Rightarrow> ret_io sent)))))"

subsection \<open>Nothing unvetted enters the outbox\<close>

lemma policy_check_ok: "policy_check dbg (Test_Allowlist allow) rcpts = Inr () \<longleftrightarrow> ascii_lowercase ` set rcpts \<subseteq> set allow"
  by (induction rcpts) auto

lemma strict_mailboxes_all: "strict_mailboxes parse field raw = Inr ms \<Longrightarrow> map parse raw = map Inr ms"
  by (induction raw arbitrary: ms) (auto split: sum.splits)

definition recipients_of :: "mailbox_parser \<Rightarrow> send_request \<Rightarrow> string list" where
  "recipients_of parse req = map mb_email (valid_mailboxes parse (rq_to req) @ valid_mailboxes parse (rq_cc req)
     @ valid_mailboxes parse (rq_bcc req))"

lemma strict_is_valid: "strict_mailboxes parse field raw = Inr ms \<Longrightarrow> valid_mailboxes parse raw = ms"
  by (induction raw arbitrary: ms) (auto simp: valid_mailboxes_def List.map_filter_def split: sum.splits)

text \<open>
  C26. Nothing unvetted enters the outbox: when a send is enqueued, one row is appended whose recipients
  are exactly the parsed To, Cc and Bcc addresses, at least one, all of them (under the test policy)
  on the allowlist, and whose sender has the account's own domain; it is claimed for submission now
  or waits as scheduled. A send that is refused leaves the outbox as it was.
\<close>

theorem enqueued_mail_is_vetted:
  assumes "enqueue_send_at mk account now acc req send_at db = (r, db')"
  shows "case r of Inl _ \<Rightarrow> db' = db
    | Inr (i, raw) \<Rightarrow> (\<exists>row. queue_rows db' = queue_rows db @ [row] \<and> i = queue_next_id db
        \<and> q_id row = i \<and> q_account_id row = acc \<and> q_raw_mime row = Some raw
        \<and> q_envelope_to row = recipients_of (mk_parse mk) req \<and> q_envelope_to row \<noteq> []
        \<and> (\<exists>from. q_envelope_from row = Some from \<and> sender_domain_is_aligned from account)
        \<and> policy_check (mk_debug mk) (rq_policy req) (q_envelope_to row) = Inr ()
        \<and> q_status row = (if send_at = None then Sending else Scheduled))"
  using assms
  by (auto simp: enqueue_send_at_def Let_def bind_io_def lift_io_def ret_io_def enqueue_mime_def insert_row_def
      immediate_row_def scheduled_row_def enqueue_scheduled_mime_def recipients_of_def
      dest!: strict_is_valid split: prod.splits sum.splits if_splits option.splits)

definition plain_maker :: "unit message_maker" where
  "plain_maker = \<lparr>mk_parse = (\<lambda>s. Inr \<lparr>mb_name = None, mb_email = s\<rparr>), mk_debug = (\<lambda>_. []),
     mk_parts = (\<lambda>_ _. Inr ()), mk_message = (\<lambda>_ _ _ _ _ _ _. Inr ''mail''), mk_rfc3339 = (\<lambda>_. None)\<rparr>"

definition plain_request :: send_request where
  "plain_request = \<lparr>rq_to = [''b@x''], rq_cc = [], rq_bcc = [], rq_from = None, rq_from_name = None,
     rq_reply_to = None, rq_subject = [], rq_body_text = [], rq_body_html = None, rq_attachments = [],
     rq_format = Auto, rq_include_plain = True, rq_policy = Test_Allowlist [''b@x''], rq_request_mdn = False,
     rq_request_dsn = False, rq_notify_self = False\<rparr>"

theorem enqueued_mail_is_vetted_witness:
  "\<exists>db'. enqueue_send_at plain_maker ''a@x'' 0 1 plain_request None empty_queue = (Inr (1, ''mail''), db')
     \<and> map q_envelope_to (queue_rows db') = [[''b@x'']]"
proof -
  have "fst (enqueue_send_at plain_maker ''a@x'' 0 1 plain_request None empty_queue) = Inr (1, ''mail'')"
    by code_simp
  then obtain db' where run: "enqueue_send_at plain_maker ''a@x'' 0 1 plain_request None empty_queue = (Inr (1, ''mail''), db')"
    by (metis prod.collapse)
  from enqueued_mail_is_vetted [OF run] run show ?thesis
    by (auto simp: recipients_of_def valid_mailboxes_def List.map_filter_def plain_maker_def plain_request_def empty_queue_def)
qed

end
