(* ===== verification/Same_Mail.thy ===== *)
theory Same_Mail
  imports Smtp_Sender
begin

text \<open>
  What a row would have the server take, and what keeps it: the steps of a flush change status, retries and
  notes of a row, and the bytes only of a row that is being submitted.
\<close>

definition refresh_at :: "'s smtp_env \<Rightarrow> instant \<Rightarrow> string \<Rightarrow> string" where
  "refresh_at env now = refresh_date_header (se_date env now)"

text \<open>The mail is the row's: its envelope, and its bytes, with a fresh date when it was scheduled.\<close>

definition mail_of_row :: "(instant \<Rightarrow> string \<Rightarrow> string) \<Rightarrow> queued_send \<Rightarrow> smtp_mail \<Rightarrow> bool" where
  "mail_of_row refresh row m \<longleftrightarrow> q_envelope_from row = Some (sm_from m) \<and> q_envelope_to row = sm_to m
     \<and> q_request_dsn row = sm_dsn m
     \<and> (\<exists>raw. q_raw_mime row = Some raw \<and>
          (if q_send_at row = None then sm_raw m = raw else \<exists>t. sm_raw m = refresh t raw))"

text \<open>Row \<open>i\<close>'s mail as the outbox held it at first, or a receipt written since, from and to an account's own address.\<close>

definition delivers ::
  "(instant \<Rightarrow> string \<Rightarrow> string) \<Rightarrow> string set \<Rightarrow> send_queue \<Rightarrow> int \<Rightarrow> smtp_mail \<Rightarrow> bool" where
  "delivers refresh own db i m \<longleftrightarrow>
     (if i < queue_next_id db then \<exists>row. queue_row i db = Some row \<and> mail_of_row refresh row m
      else sm_from m \<in> own \<and> sm_to m = [sm_from m])"

definition same_mail :: "bool \<Rightarrow> queued_send \<Rightarrow> queued_send \<Rightarrow> bool" where
  "same_mail submitted r r' \<longleftrightarrow> q_envelope_from r' = q_envelope_from r \<and> q_envelope_to r' = q_envelope_to r
     \<and> q_request_dsn r' = q_request_dsn r \<and> q_send_at r' = q_send_at r \<and> q_account_id r' = q_account_id r
     \<and> (\<not> submitted \<longrightarrow> q_raw_mime r' = q_raw_mime r)"

lemma same_mail_refl [simp]: "same_mail b r r"
  by (simp add: same_mail_def)

lemma same_mail_trans: "same_mail b r s \<Longrightarrow> same_mail c s t \<Longrightarrow> same_mail (b \<or> c) r t"
  by (auto simp: same_mail_def)

lemma mail_of_same_row: "same_mail False r r' \<Longrightarrow> mail_of_row refresh r' m \<Longrightarrow> mail_of_row refresh r m"
  by (auto simp: same_mail_def mail_of_row_def)

definition same_rows :: "int set \<Rightarrow> send_queue \<Rightarrow> send_queue \<Rightarrow> bool" where
  "same_rows D db0 db \<longleftrightarrow> queue_wf db \<and> queue_next_id db0 \<le> queue_next_id db
     \<and> (\<forall>i r. i < queue_next_id db0 \<longrightarrow> queue_row i db = Some r \<longrightarrow>
          (\<exists>r0. queue_row i db0 = Some r0 \<and> same_mail (i \<in> D) r0 r))"

lemma same_rows_refl: "queue_wf db \<Longrightarrow> same_rows D db db"
  by (simp add: same_rows_def)

lemma same_rows_trans:
  assumes "same_rows D db0 db" and "same_rows E db db'"
  shows "same_rows (D \<union> E) db0 db'"
proof -
  have "\<exists>r0. queue_row i db0 = Some r0 \<and> same_mail (i \<in> D \<union> E) r0 r"
    if i: "i < queue_next_id db0" and r: "queue_row i db' = Some r" for i r
  proof -
    have "i < queue_next_id db" using assms(1) i by (simp add: same_rows_def)
    with assms(2) r obtain r1 where "queue_row i db = Some r1" "same_mail (i \<in> E) r1 r"
      by (auto simp: same_rows_def)
    moreover from this(1) assms(1) i obtain r0 where "queue_row i db0 = Some r0" "same_mail (i \<in> D) r0 r1"
      by (auto simp: same_rows_def)
    ultimately show ?thesis using same_mail_trans by fastforce
  qed
  with assms show ?thesis by (auto simp: same_rows_def)
qed

lemma same_rows_more: "same_rows D db0 db \<Longrightarrow> D \<subseteq> E \<Longrightarrow> same_rows E db0 db"
  using same_rows_trans [OF _ same_rows_refl, of D db0 db E] by (auto simp: same_rows_def sup.absorb2)

lemma same_rows_map:
  assumes "queue_wf db" "queue_wf db'" "queue_next_id db' = queue_next_id db"
    and "\<And>i. queue_row i db' = map_option f (queue_row i db)" and "\<And>r. q_id r \<notin> D \<Longrightarrow> same_mail False r (f r)"
    and "\<And>r. same_mail True r (f r)"
  shows "same_rows D db db'"
proof -
  have "\<exists>r0. queue_row i db = Some r0 \<and> same_mail (i \<in> D) r0 r" if r: "queue_row i db' = Some r" for i r
  proof -
    from r assms(4) [of i] obtain r0 where r0: "queue_row i db = Some r0" "r = f r0" by auto
    with assms(5) [of r0] assms(6) [of r0] queue_row_id [OF r0(1)] show ?thesis by (cases "i \<in> D") auto
  qed
  with assms(1-3) show ?thesis by (simp add: same_rows_def)
qed

named_theorems same_rows \<open>what keeps the mail of the rows\<close>

lemma same_rows_requeue [same_rows]: "queue_wf db \<Longrightarrow> same_rows {} db (snd (requeue_interrupted now a db))"
  by (rule same_rows_map [OF _ _ _ requeue_row])
    (auto simp: requeued_def same_mail_def requeue_interrupted_def case_prod_beta queue_wf_update)

lemma same_rows_promote [same_rows]: "queue_wf db \<Longrightarrow> same_rows {} db (snd (promote_due now a db))"
  by (rule same_rows_map [OF _ _ _ promote_due_row]) (auto simp: same_mail_def promote_due_def queue_wf_update)

lemma same_rows_claim [same_rows]: "queue_wf db \<Longrightarrow> same_rows {} db (snd (claim now i db))"
  by (rule same_rows_map [OF _ _ _ claim_row]) (auto simp: same_mail_def snd_claim queue_wf_update)

lemma same_rows_delete:
  "queue_wf db \<Longrightarrow> same_rows {} db (db\<lparr>queue_rows := delete_where P (queue_rows db)\<rparr>)"
  by (auto simp: same_rows_def queue_wf_delete queue_row_delete split: option.splits if_splits)

lemma same_rows_deletes [same_rows]:
  "queue_wf db \<Longrightarrow> same_rows {} db (snd (prune_sent now db))"
  "queue_wf db \<Longrightarrow> same_rows {} db (queue_delete i db)"
  by (simp_all add: prune_sent_def queue_delete_def Let_def same_rows_delete)

lemma same_rows_update_one:
  assumes "queue_wf db" and "\<And>r. q_id (f r) = q_id r" and "\<And>r. same_mail True r (f r)"
  shows "same_rows {i} db (snd (update_rows (\<lambda>r. q_id r = i) f db))"
  by (rule same_rows_map [OF _ _ _ queue_row_update])
    (use assms in \<open>auto simp: queue_wf_update\<close>)

lemma same_rows_submit [same_rows]:
  "queue_wf db \<Longrightarrow> same_rows {i} db (update_raw_mime now i raw db)"
  "queue_wf db \<Longrightarrow> same_rows {i} db (snd (mark_sent now i db))"
  unfolding snd_update_raw snd_mark_sent by (rule same_rows_update_one; simp add: same_mail_def)+

lemma same_rows_fail_scheduled: "queue_wf db \<Longrightarrow> same_rows {} db (snd (fail_scheduled_attempt now i e perm db))"
  by (rule same_rows_map [OF _ _ _ fail_scheduled_row])
    (auto simp: fail_scheduled_wf same_mail_def record_failure_def split: scheduled_failure.splits)

lemma same_rows_refusal [same_rows]:
  "queue_wf db \<Longrightarrow> same_rows {} db (record_refusal now i scheduled e perm db)"
proof -
  assume wf: "queue_wf db"
  have "same_rows {} db (snd (mark_failed now i e db))"
    unfolding snd_mark_failed
    by (rule same_rows_map [OF _ _ _ queue_row_update]) (auto simp: wf queue_wf_update same_mail_def)
  with same_rows_fail_scheduled [OF wf] show ?thesis by (simp add: record_refusal_def)
qed

lemma same_rows_enqueue [same_rows]:
  "queue_wf db \<Longrightarrow> same_rows {} db (snd (enqueue_mime now a mid raw sender rcpts dsn db))"
  by (auto simp: enqueue_mime_def Let_def same_rows_def queue_row_insert queue_wf_insert immediate_row_def)
    (simp add: insert_row_def)

lemma same_rows_fail_each: "queue_wf db \<Longrightarrow> same_rows {} db (snd (fail_each now e is db))"
proof (induction "is" arbitrary: db)
  case Nil
  then show ?case by (simp add: same_rows_refl)
next
  case (Cons i "is")
  let ?db = "snd (fail_scheduled_attempt now i e False db)"
  have one: "same_rows {} db ?db" by (rule same_rows_fail_scheduled [OF Cons.prems])
  have "same_rows {} ?db (snd (fail_each now e is ?db))"
    by (rule Cons.IH) (simp add: Cons.prems fail_scheduled_wf)
  with one same_rows_trans [OF one] show ?case by (auto split: prod.splits sum.splits)
qed

lemma same_rows_fail_due [same_rows]: "queue_wf db \<Longrightarrow> same_rows {} db (snd (fail_due_scheduled now a e db))"
  using same_rows_fail_each [of db now e] by (auto simp: fail_due_scheduled_def Let_def split: prod.splits sum.splits) (metis snd_conv)+

lemma same_rows_noticed: "queue_wf db \<Longrightarrow> same_rows {} db (mark_noticed is db)"
proof (induction "is" arbitrary: db)
  case (Cons i "is")
  let ?db = "snd (update_rows (\<lambda>r. q_id r = i) (\<lambda>r. r\<lparr>q_failure_noticed := True\<rparr>) db)"
  have "same_rows {} db ?db"
    by (rule same_rows_map [OF _ _ _ queue_row_update]) (auto simp: Cons.prems queue_wf_update same_mail_def)
  moreover have "same_rows {} ?db (mark_noticed is ?db)" by (rule Cons.IH) (simp add: Cons.prems queue_wf_update)
  ultimately show ?case using same_rows_trans by fastforce
qed (simp add: same_rows_refl)

lemma same_rows_notices [same_rows]: "queue_wf db \<Longrightarrow> same_rows {} db (snd (take_failure_notices subj db))"
  by (simp add: take_failure_notices_def Let_def same_rows_noticed)

end
