(* ===== verification/Flush_Refinement.thy ===== *)
theory Flush_Refinement
  imports Same_Mail
begin

text \<open>
  \<open>flush_outbox\<close> as one of the submitters of \<open>Outbox_Machine\<close>: every flush is a sequence of the machine's
  steps in which each mail the server took is one acceptance of the row it belongs to, so what the machine
  promises holds of it. What the server took is read off its state by \<open>log\<close>.
\<close>

text \<open>
  One dialogue hands the server its mail at most once; with an answer it did, with an error it may have
  (the reply was lost). Filing a Sent copy hands it none.
\<close>

definition logs_dialogues :: "'s smtp_env \<Rightarrow> ('s \<Rightarrow> smtp_mail list) \<Rightarrow> bool" where
  "logs_dialogues env log \<longleftrightarrow>
     (\<forall>mail net. case se_send env mail net of (r, wait, net') \<Rightarrow>
        log net' = log net @ [mail] \<or> (log net' = log net \<and> (\<exists>e. r = Inl e)))
     \<and> (\<forall>raw net. log (snd (se_copy env raw net)) = log net)"

text \<open>What stays fixed: the state the run starts in, the outbox and the log its mails are compared with.\<close>

record 's flush_frame =
  ff_parse :: "string \<Rightarrow> instant option"
  ff_refresh :: "instant \<Rightarrow> string \<Rightarrow> string"
  ff_log :: "'s \<Rightarrow> smtp_mail list"
  ff_own :: "string set"
  ff_submitter :: nat
  ff_start :: outbox_sys
  ff_db :: send_queue
  ff_mails :: "smtp_mail list"

definition serves :: "'s flush_frame \<Rightarrow> 's smtp_env \<Rightarrow> bool" where
  "serves F env \<longleftrightarrow> refresh_at env = ff_refresh F \<and> se_from env \<in> ff_own F \<and> logs_dialogues env (ff_log F)"

definition at_world :: "'s flush_frame \<Rightarrow> (int \<Rightarrow> phase) \<Rightarrow> 's flush_world \<Rightarrow> outbox_sys \<Rightarrow> bool" where
  "at_world F ph w s \<longleftrightarrow> sys_db s = fl_queue w \<and> sys_clock s = fl_clock w \<and> sys_phase s (ff_submitter F) = ph
     \<and> (\<forall>q. q \<noteq> ff_submitter F \<longrightarrow> sys_phase s q = sys_phase (ff_start F) q)"

definition took :: "'s flush_frame \<Rightarrow> int list \<Rightarrow> 's flush_world \<Rightarrow> bool" where
  "took F ids w \<longleftrightarrow> (\<exists>ms. ff_log F (fl_net w) = ff_mails F @ ms
     \<and> list_all2 (delivers (ff_refresh F) (ff_own F) (ff_db F)) ids ms)"

definition flushing :: "'s flush_frame \<Rightarrow> (int \<Rightarrow> phase) \<Rightarrow> int list \<Rightarrow> 's flush_world \<Rightarrow> bool" where
  "flushing F ph ids w \<longleftrightarrow> took F ids w \<and> (\<exists>s. outbox_run (ff_parse F) (ff_refresh F) (ff_start F) s
     \<and> at_world F ph w s \<and> outbox_inv s \<and> sys_accepted s = sys_accepted (ff_start F) @ ids)"

abbreviation frame_step :: "'s flush_frame \<Rightarrow> outbox_sys \<Rightarrow> outbox_sys \<Rightarrow> bool" where
  "frame_step F \<equiv> outbox_step (ff_parse F) (ff_refresh F)"

lemma took_more:
  assumes "took F ids w" and "ff_log F (fl_net w') = ff_log F (fl_net w) @ ms"
    and "list_all2 (delivers (ff_refresh F) (ff_own F) (ff_db F)) new ms"
  shows "took F (ids @ new) w'"
  using assms unfolding took_def by (metis append.assoc list_all2_appendI)

lemma took_same: "took F ids w \<Longrightarrow> ff_log F (fl_net w') = ff_log F (fl_net w) \<Longrightarrow> took F ids w'"
  by (simp add: took_def)

lemma flushing_took: "flushing F ph ids w \<Longrightarrow> took F ids w"
  by (simp add: flushing_def)

lemma flushing_step:
  assumes "flushing F ph ids w" and took: "took F (ids @ new) w'"
    and "\<And>s. at_world F ph w s \<Longrightarrow> frame_step F s (f s)"
    and "\<And>s. at_world F ph w s \<Longrightarrow> at_world F ph' w' (f s) \<and> sys_accepted (f s) = sys_accepted s @ new"
  shows "flushing F ph' (ids @ new) w'"
proof -
  from assms(1) obtain s where s: "outbox_run (ff_parse F) (ff_refresh F) (ff_start F) s" "at_world F ph w s" "outbox_inv s"
    "sys_accepted s = sys_accepted (ff_start F) @ ids"
    unfolding flushing_def by blast
  have "outbox_inv (f s)" by (rule outbox_step_inv [OF assms(3) [OF s(2)] s(3)])
  with outbox_run.more [OF s(1) assms(3) [OF s(2)]] assms(4) [OF s(2)] s(4) took show ?thesis
    unfolding flushing_def by (intro conjI exI [of _ "f s"]) simp_all
qed

lemma flushing_quiet:
  assumes "flushing F ph ids w" and "ff_log F (fl_net w') = ff_log F (fl_net w)"
    and "\<And>s. at_world F ph w s \<Longrightarrow> frame_step F s (f s)"
    and "\<And>s. at_world F ph w s \<Longrightarrow> at_world F ph' w' (f s) \<and> sys_accepted (f s) = sys_accepted s"
  shows "flushing F ph' ids w'"
  using flushing_step [OF assms(1), of "[]" w' f ph'] assms(2-4) took_same [OF flushing_took [OF assms(1)]] by simp

text \<open>What holds of the world whatever the run.\<close>

lemma flushing_wf:
  assumes "flushing F ph ids w"
  shows "queue_wf (fl_queue w)" and "i \<in> set ids \<Longrightarrow> i < queue_next_id (fl_queue w)"
proof -
  obtain s where s: "at_world F ph w s" "outbox_inv s" "sys_accepted s = sys_accepted (ff_start F) @ ids"
    using assms unfolding flushing_def by blast
  show "queue_wf (fl_queue w)" using s(1) outbox_inv_wf [OF s(2)] by (simp add: at_world_def)
  have "holders_ok s i" using s(2) by (simp add: outbox_inv_def)
  with s(1,3) show "i \<in> set ids \<Longrightarrow> i < queue_next_id (fl_queue w)"
    by (auto simp: holders_ok_def at_world_def not_less)
qed

subsection \<open>The kinds of step a flush takes\<close>

lemma flushing_same:
  assumes "flushing F ph ids w" and "fl_queue w' = fl_queue w" "fl_clock w' = fl_clock w" "fl_net w' = fl_net w"
  shows "flushing F ph ids w'"
  using assms by (simp add: flushing_def took_def at_world_def)

lemma flushing_gives_up:
  assumes "flushing F ph ids w" shows "flushing F (\<lambda>_. Idle) ids w"
  by (rule flushing_quiet [OF assms refl outbox_step.crash [where p = "ff_submitter F"]])
    (auto simp: at_world_def crash_def)

lemma flushing_db:
  assumes "flushing F ph ids w" and "\<And>s. at_world F ph w s \<Longrightarrow> frame_step F s (s\<lparr>sys_db := db\<rparr>)"
  shows "flushing F ph ids (w\<lparr>fl_queue := db\<rparr>)"
  by (rule flushing_quiet [OF assms(1) _ assms(2)]) (auto simp: at_world_def)

lemma flushing_wait:
  assumes "flushing F ph ids w" and "fl_queue w' = fl_queue w" and "fl_clock w \<le> fl_clock w'"
    and "ff_log F (fl_net w') = ff_log F (fl_net w)"
  shows "flushing F ph ids w'"
proof (rule flushing_quiet [OF assms(1) assms(4)])
  fix s
  assume s: "at_world F ph w s"
  with assms(3) show "frame_step F s (s\<lparr>sys_clock := fl_clock w'\<rparr>)"
    by (intro outbox_step.tick) (simp add: at_world_def)
  from s show "at_world F ph w' (s\<lparr>sys_clock := fl_clock w'\<rparr>) \<and> sys_accepted (s\<lparr>sys_clock := fl_clock w'\<rparr>) = sys_accepted s"
    by (simp add: at_world_def assms(2))
qed

subsection \<open>Submitting a row\<close>

definition at_row :: "int \<Rightarrow> phase \<Rightarrow> int \<Rightarrow> phase" where
  "at_row i ph = (\<lambda>_. Idle)(i := ph)"

lemma at_row_simps [simp]: "at_row i Idle = (\<lambda>_. Idle)" "at_row i ph i = ph"
  by (simp_all add: at_row_def fun_upd_def)

lemma at_world_set_phase:
  "at_world F (at_row i ph) w s \<Longrightarrow> at_world F (at_row i ph') w' (set_phase (ff_submitter F) i ph' (s\<lparr>sys_db := fl_queue w'\<rparr>))
     \<longleftrightarrow> fl_clock w' = fl_clock w"
  by (auto simp: at_world_def set_phase_def at_row_def)

lemma flushing_begins:
  assumes fl: "flushing F (at_row i Owns) ids w" and row: "queue_row i (fl_queue w) = Some r"
    and bytes: "q_raw_mime r = Some raw" "raw \<noteq> []"
  shows "flushing F (at_row i InFlight) ids
    (if q_send_at r = None then w
     else w\<lparr>fl_queue := update_raw_mime (fl_clock w) i (ff_refresh F (fl_clock w) raw) (fl_queue w)\<rparr>)"
    (is "flushing F _ _ ?w")
proof (rule flushing_quiet [OF fl])
  fix s
  assume s: "at_world F (at_row i Owns) w s"
  then show "frame_step F s (begin_submit (ff_refresh F) (ff_submitter F) i s)"
    by (intro outbox_step.begin_submit) (simp add: at_world_def)
  have "has_bytes r" using bytes by (simp add: has_bytes_def)
  with s row bytes show "at_world F (at_row i InFlight) ?w (begin_submit (ff_refresh F) (ff_submitter F) i s)
      \<and> sys_accepted (begin_submit (ff_refresh F) (ff_submitter F) i s) = sys_accepted s"
    by (auto simp: begin_submit_def set_phase_def at_row_def at_world_def)
qed simp

lemma flushing_taken:
  assumes fl: "flushing F (at_row i InFlight) ids w" and "took F (ids @ [i]) w'"
    and "fl_queue w' = fl_queue w" "fl_clock w' = fl_clock w"
  shows "flushing F (at_row i Taken) (ids @ [i]) w'"
proof (rule flushing_step [OF fl assms(2)])
  fix s
  let ?s = "set_phase (ff_submitter F) i Taken (s\<lparr>sys_accepted := sys_accepted s @ [i]\<rparr>)"
  assume s: "at_world F (at_row i InFlight) w s"
  then show "frame_step F s ?s" by (intro outbox_step.taken) (simp add: at_world_def)
  from s show "at_world F (at_row i Taken) w' ?s \<and> sys_accepted ?s = sys_accepted s @ [i]"
    by (auto simp: at_world_def set_phase_def at_row_def assms(3,4))
qed

lemma flushing_recorded:
  assumes fl: "flushing F (at_row i Taken) ids w"
  shows "flushing F (\<lambda>_. Idle) ids (w\<lparr>fl_queue := snd (mark_sent (fl_clock w) i (fl_queue w))\<rparr>)"
proof (rule flushing_quiet [OF fl])
  fix s
  assume s: "at_world F (at_row i Taken) w s"
  then show "frame_step F s (set_phase (ff_submitter F) i Idle (s\<lparr>sys_db := snd (mark_sent (sys_clock s) i (sys_db s))\<rparr>))"
    by (intro outbox_step.recorded) (simp add: at_world_def)
qed (auto simp: at_world_def set_phase_def at_row_def)

lemma flushing_refused:
  assumes fl: "flushing F (at_row i ph) ids w" and ph: "ph = InFlight \<or> ph = Taken"
    and row: "\<And>r. queue_row i (fl_queue w) = Some r \<Longrightarrow> scheduled \<longleftrightarrow> q_send_at r \<noteq> None"
  shows "flushing F (\<lambda>_. Idle) ids (w\<lparr>fl_queue := record_refusal (fl_clock w) i scheduled e permanent (fl_queue w)\<rparr>)"
proof -
  let ?p = "ff_submitter F"
  let ?f = "\<lambda>s. (if ph = InFlight then set_phase ?p i Idle else lose ?p i)
    (s\<lparr>sys_db := record_refusal (sys_clock s) i scheduled e permanent (sys_db s)\<rparr>)"
  show ?thesis
  proof (rule flushing_quiet [OF fl])
    fix s
    assume s: "at_world F (at_row i ph) w s"
    then have parts: "sys_db s = fl_queue w" "sys_phase s ?p i = ph" by (simp_all add: at_world_def)
    have row': "scheduled \<longleftrightarrow> q_send_at r \<noteq> None" if "queue_row i (sys_db s) = Some r" for r
      using row that parts(1) by simp
    from ph show "frame_step F s (?f s)"
    proof
      assume "ph = InFlight"
      with outbox_step.refused [of s ?p i scheduled "ff_parse F" "ff_refresh F" e permanent] parts(2) row' show ?thesis
        by simp
    next
      assume "ph = Taken"
      with outbox_step.reply_lost [of s ?p i scheduled "ff_parse F" "ff_refresh F" e permanent] parts(2) row' show ?thesis
        by simp
    qed
  qed (auto simp: at_world_def set_phase_def at_row_def lose_def)
qed

lemma submit_raw_waits:
  "submit_raw env mail w = (r, w') \<Longrightarrow> fl_queue w' = fl_queue w \<and> fl_clock w \<le> fl_clock w'"
  by (auto simp: submit_raw_def split: list.splits prod.splits)

lemma submit_raw_logs:
  assumes "logs_dialogues env log" and "submit_raw env mail w = (r, w')"
  shows "log (fl_net w') = log (fl_net w) @ [mail] \<or> (log (fl_net w') = log (fl_net w) \<and> (\<exists>e. r = Inl e))"
proof (cases "List.map_filter (se_address env) (sm_from mail # sm_to mail)")
  case (Cons e es)
  with assms(2) show ?thesis by (auto simp: submit_raw_def)
next
  case Nil
  obtain x wait net where send: "se_send env mail (fl_net w) = (x, wait, net)" using prod_cases3 by blast
  have "log net = log (fl_net w) @ [mail] \<or> (log net = log (fl_net w) \<and> (\<exists>e. x = Inl e))"
  proof -
    have "case se_send env mail (fl_net w) of (r, wait, net') \<Rightarrow>
        log net' = log (fl_net w) @ [mail] \<or> (log net' = log (fl_net w) \<and> (\<exists>e. r = Inl e))"
      using assms(1) unfolding logs_dialogues_def
      by (elim conjE) (erule allE [where x = mail], erule allE [where x = "fl_net w"], assumption)
    with send show ?thesis by simp
  qed
  with Nil send assms(2) show ?thesis by (auto simp: submit_raw_def)
qed

text \<open>After the dialogue the row is in flight, if the server did not take it, or taken.\<close>

lemma flushing_submit_raw:
  assumes "serves F env" and fl: "flushing F (at_row i InFlight) ids w" and run: "submit_raw env mail w = (r, w')"
    and mail: "delivers (ff_refresh F) (ff_own F) (ff_db F) i mail"
  shows "flushing F (at_row i Taken) (ids @ [i]) w' \<or> (flushing F (at_row i InFlight) ids w' \<and> (\<exists>e. r = Inl e))"
proof -
  note waits = submit_raw_waits [OF run]
  let ?w = "w\<lparr>fl_clock := fl_clock w'\<rparr>"
  have fl': "flushing F (at_row i InFlight) ids ?w" using waits by (intro flushing_wait [OF fl]) simp_all
  from submit_raw_logs [OF _ run] assms(1)
  have "ff_log F (fl_net w') = ff_log F (fl_net w) @ [mail]
      \<or> (ff_log F (fl_net w') = ff_log F (fl_net w) \<and> (\<exists>e. r = Inl e))" by (simp add: serves_def)
  then show ?thesis
  proof (elim disjE)
    assume "ff_log F (fl_net w') = ff_log F (fl_net w) @ [mail]"
    then have "took F (ids @ [i]) w'"
      by (rule took_more [OF flushing_took [OF fl]]) (simp add: mail)
    then have "flushing F (at_row i Taken) (ids @ [i]) w'" using waits by (intro flushing_taken [OF fl']) simp_all
    then show ?thesis ..
  next
    assume l: "ff_log F (fl_net w') = ff_log F (fl_net w) \<and> (\<exists>e. r = Inl e)"
    then have "flushing F (at_row i InFlight) ids w'" using waits by (intro flushing_wait [OF fl]) simp_all
    with l show ?thesis by blast
  qed
qed

lemma queue_get_is_row: "queue_get i db = (case queue_row i db of None \<Rightarrow> Inl (NotFound (''queue entry '' @ string_of_int i)) | Some r \<Rightarrow> Inr r)"
  by (simp add: queue_get_def queue_row_def row_at_def)

text \<open>The part of \<open>submit_claimed\<close> after the date.\<close>

definition deliver :: "'s smtp_env \<Rightarrow> int \<Rightarrow> queued_send \<Rightarrow> string \<Rightarrow> ('s flush_world, submitted) io" where
  "deliver env i row raw =
     bind_io (lift_io (case q_envelope_from row of
         Some f \<Rightarrow> if f \<noteq> [] then Inr f else Inl (InvalidInput ''queued send missing envelope from'')
       | None \<Rightarrow> Inl (InvalidInput ''queued send missing envelope from''))) (\<lambda>from.
       if q_envelope_to row = [] then lift_io (Inl (InvalidInput ''queued send has no envelope recipients''))
       else
         bind_io (try_io (submit_raw env \<lparr>sm_from = from, sm_to = q_envelope_to row, sm_raw = raw,
                                          sm_dsn = q_request_dsn row\<rparr>)) (\<lambda>r.
           case r of
             Inr unsupported \<Rightarrow>
               bind_io (on_queue (\<lambda>now db. snd (mark_sent now i db))) (\<lambda>_.
               ret_io \<lparr>sb_dsn_unsupported = unsupported, sb_raw = raw\<rparr>)
           | Inl e \<Rightarrow>
               bind_io (on_queue (\<lambda>now db. record_refusal now i (q_send_at row \<noteq> None) (error_text e) (is_permanent e) db))
                 (\<lambda>_. lift_io (Inl e))))"

definition row_mail :: "queued_send \<Rightarrow> string \<Rightarrow> string \<Rightarrow> smtp_mail" where
  "row_mail row sender raw = \<lparr>sm_from = sender, sm_to = q_envelope_to row, sm_raw = raw, sm_dsn = q_request_dsn row\<rparr>"

text \<open>An error leaves the ids as they were, or with the row the server took although its reply was lost.\<close>

definition maybe_taken :: "'s flush_frame \<Rightarrow> int list \<Rightarrow> int \<Rightarrow> 's flush_world \<Rightarrow> bool" where
  "maybe_taken F ids i w \<longleftrightarrow> flushing F (\<lambda>_. Idle) ids w \<or> flushing F (\<lambda>_. Idle) (ids @ [i]) w"

lemma deliver_run:
  assumes serves: "serves F env" and fl: "flushing F (at_row i InFlight) ids w"
    and row: "\<And>r. queue_row i (fl_queue w) = Some r \<Longrightarrow> q_send_at row \<noteq> None \<longleftrightarrow> q_send_at r \<noteq> None"
    and mail: "\<And>sender. q_envelope_from row = Some sender \<Longrightarrow>
      delivers (ff_refresh F) (ff_own F) (ff_db F) i (row_mail row sender raw)"
    and run: "deliver env i row raw w = (r, w')"
  shows "case r of Inr _ \<Rightarrow> flushing F (\<lambda>_. Idle) (ids @ [i]) w' | Inl _ \<Rightarrow> maybe_taken F ids i w'"
proof -
  have stays: "maybe_taken F ids i w" using flushing_gives_up [OF fl] by (simp add: maybe_taken_def)
  show ?thesis
  proof (cases "(\<exists>f. q_envelope_from row = Some f \<and> f \<noteq> []) \<and> q_envelope_to row \<noteq> []")
    case False
    with run have "w' = w" "\<exists>e. r = Inl e"
      by (auto simp: deliver_def bind_io_def lift_io_def split: option.splits if_splits)
    with stays show ?thesis by auto
  next
    case True
    then obtain sender where sender: "q_envelope_from row = Some sender" "sender \<noteq> []" by blast
    obtain x w1 where raw_run: "submit_raw env (row_mail row sender raw) w = (x, w1)" by fastforce
    note kept = submit_raw_waits [OF raw_run]
    from flushing_submit_raw [OF serves fl raw_run mail [OF sender(1)]]
    have fl1: "flushing F (at_row i Taken) (ids @ [i]) w1 \<or> (flushing F (at_row i InFlight) ids w1 \<and> (\<exists>e. x = Inl e))" .
    show ?thesis
    proof (cases x)
      case (Inr u)
      with fl1 have "flushing F (at_row i Taken) (ids @ [i]) w1" by simp
      from flushing_recorded [OF this] Inr run True sender raw_run show ?thesis
        by (auto simp: deliver_def row_mail_def bind_io_def lift_io_def try_io_def on_queue_def modify_io_def ret_io_def)
    next
      case (Inl e)
      have refused: "flushing F (\<lambda>_. Idle) js (w1\<lparr>fl_queue := record_refusal (fl_clock w1) i (q_send_at row \<noteq> None)
          (error_text e) (is_permanent e) (fl_queue w1)\<rparr>)"
        if "flushing F (at_row i ph) js w1" "ph = InFlight \<or> ph = Taken" for ph js
        using row kept by (intro flushing_refused [OF that]) simp
      have "maybe_taken F ids i (w1\<lparr>fl_queue := record_refusal (fl_clock w1) i (q_send_at row \<noteq> None)
          (error_text e) (is_permanent e) (fl_queue w1)\<rparr>)"
        unfolding maybe_taken_def using fl1 refused by blast
      with Inl run True sender raw_run show ?thesis
        by (auto simp: deliver_def row_mail_def bind_io_def lift_io_def try_io_def on_queue_def modify_io_def ret_io_def)
    qed
  qed
qed

lemma submit_claimed_eq:
  "submit_claimed env i w =
     (case queue_row i (fl_queue w) of
        None \<Rightarrow> (Inl (NotFound (''queue entry '' @ string_of_int i)), w)
      | Some row \<Rightarrow>
          (case q_raw_mime row of
             None \<Rightarrow> (Inl (InvalidInput (''queue entry '' @ string_of_int i @ '' has no MIME bytes'')), w)
           | Some raw \<Rightarrow>
               if raw = [] then (Inl (InvalidInput (''queue entry '' @ string_of_int i @ '' has no MIME bytes'')), w)
               else if q_send_at row = None then deliver env i row raw w
               else deliver env i row (refresh_at env (fl_clock w) raw)
                      (w\<lparr>fl_queue := update_raw_mime (fl_clock w) i (refresh_at env (fl_clock w) raw) (fl_queue w)\<rparr>)))"
  unfolding submit_claimed_def deliver_def record_refusal_def refresh_at_def
  by (simp add: bind_io_def queue_get_is_row lift_io_def get_io_def on_queue_def modify_io_def ret_io_def
      cong: if_cong split: option.split)

text \<open>What a submission needs to know of its row: its mail is one that may be delivered for the row's id.\<close>

definition row_delivers :: "'s flush_frame \<Rightarrow> int \<Rightarrow> send_queue \<Rightarrow> bool" where
  "row_delivers F i db \<longleftrightarrow> (\<forall>row m. queue_row i db = Some row \<longrightarrow> mail_of_row (ff_refresh F) row m \<longrightarrow>
     delivers (ff_refresh F) (ff_own F) (ff_db F) i m)"

lemma submit_claimed_run:
  assumes serves: "serves F env" and fl: "flushing F (at_row i Owns) ids w" and mail: "row_delivers F i (fl_queue w)"
    and run: "submit_claimed env i w = (r, w')"
  shows "case r of Inr _ \<Rightarrow> flushing F (\<lambda>_. Idle) (ids @ [i]) w' | Inl _ \<Rightarrow> maybe_taken F ids i w'"
proof -
  have stays: "maybe_taken F ids i w" using flushing_gives_up [OF fl] by (simp add: maybe_taken_def)
  have refresh: "refresh_at env = ff_refresh F" using serves by (simp add: serves_def)
  show ?thesis
  proof (cases "\<exists>row raw. queue_row i (fl_queue w) = Some row \<and> q_raw_mime row = Some raw \<and> raw \<noteq> []")
    case False
    with run have "w' = w" "\<exists>e. r = Inl e"
      by (auto simp: submit_claimed_eq split: option.splits if_splits)
    with stays show ?thesis by auto
  next
    case True
    then obtain row raw where row: "queue_row i (fl_queue w) = Some row" and raw: "q_raw_mime row = Some raw" "raw \<noteq> []"
      by blast
    let ?now = "fl_clock w"
    let ?raw = "if q_send_at row = None then raw else ff_refresh F ?now raw"
    let ?w = "if q_send_at row = None then w else w\<lparr>fl_queue := update_raw_mime ?now i (ff_refresh F ?now raw) (fl_queue w)\<rparr>"
    have "deliver env i row ?raw ?w = (r, w')"
      using run row raw by (cases "q_send_at row") (simp_all add: submit_claimed_eq refresh)
    moreover have "flushing F (at_row i InFlight) ids ?w" by (rule flushing_begins [OF fl row raw])
    moreover have "q_send_at row \<noteq> None \<longleftrightarrow> q_send_at r' \<noteq> None" if "queue_row i (fl_queue ?w) = Some r'" for r'
      using that row by (auto simp: update_raw_mime_def queue_row_update split: if_splits)
    moreover have "delivers (ff_refresh F) (ff_own F) (ff_db F) i (row_mail row sender ?raw)"
      if "q_envelope_from row = Some sender" for sender
    proof -
      have "mail_of_row (ff_refresh F) row (row_mail row sender ?raw)"
        using that raw by (auto simp: mail_of_row_def row_mail_def)
      with mail row show ?thesis unfolding row_delivers_def by blast
    qed
    ultimately show ?thesis by (rule deliver_run [OF serves, rotated 3])
  qed
qed

text \<open>A submission touches the bytes of its own row only.\<close>

lemma submit_claimed_rows:
  assumes wf: "queue_wf (fl_queue w)" and run: "submit_claimed env i w = (r, w')"
  shows "same_rows {i} (fl_queue w) (fl_queue w')"
proof -
  have same: "same_rows {i} (fl_queue w) (fl_queue w)" by (rule same_rows_refl [OF wf])
  have deliver: "same_rows {i} (fl_queue v) (fl_queue v')"
    if v: "queue_wf (fl_queue v)" and run: "deliver env i row raw v = (x, v')" for row raw v x v'
  proof -
    have "same_rows {i} (fl_queue v) (record_refusal now i b e p (fl_queue v))" for now b e p
      by (rule same_rows_more [OF same_rows_refusal [OF v]]) simp
    with run same_rows_refl [OF v] same_rows_submit(2) [OF v] submit_raw_waits show ?thesis
      by (auto simp: deliver_def bind_io_def lift_io_def try_io_def on_queue_def modify_io_def ret_io_def
          dest!: submit_raw_waits split: option.splits if_splits prod.splits sum.splits)
  qed
  show ?thesis
  proof (cases "\<exists>row raw. queue_row i (fl_queue w) = Some row \<and> q_raw_mime row = Some raw \<and> raw \<noteq> []")
    case False
    with run have "w' = w" by (auto simp: submit_claimed_eq split: option.splits if_splits)
    with same show ?thesis by simp
  next
    case True
    then obtain row raw where row: "queue_row i (fl_queue w) = Some row" "q_raw_mime row = Some raw" "raw \<noteq> []" by blast
    let ?v = "w\<lparr>fl_queue := update_raw_mime (fl_clock w) i (refresh_at env (fl_clock w) raw) (fl_queue w)\<rparr>"
    show ?thesis
    proof (cases "q_send_at row = None")
      case True
      with run row have "deliver env i row raw w = (r, w')" by (simp add: submit_claimed_eq)
      from deliver [OF wf this] show ?thesis .
    next
      case False
      with run row have d: "deliver env i row (refresh_at env (fl_clock w) raw) ?v = (r, w')"
        by (auto simp: submit_claimed_eq)
      have v: "same_rows {i} (fl_queue w) (fl_queue ?v)" using same_rows_submit(1) [OF wf] by simp
      then have "queue_wf (fl_queue ?v)" by (simp add: same_rows_def)
      from same_rows_trans [OF v deliver [OF this d]] show ?thesis by simp
    qed
  qed
qed

subsection \<open>Between two submissions\<close>

text \<open>
  Nothing is in hand, at least \<open>n\<close> mails were taken, each row's once, all of rows in \<open>D\<close> or written since;
  the other rows still hold their mail, and rows written since belong to the accounts in \<open>A\<close>.
\<close>

definition new_rows :: "'s flush_frame \<Rightarrow> int set \<Rightarrow> send_queue \<Rightarrow> bool" where
  "new_rows F A db \<longleftrightarrow> (\<forall>i r. queue_next_id (ff_db F) \<le> i \<longrightarrow> queue_row i db = Some r \<longrightarrow> q_account_id r \<in> A)"

definition taken_ids :: "'s flush_frame \<Rightarrow> int set \<Rightarrow> nat \<Rightarrow> int list \<Rightarrow> bool" where
  "taken_ids F D n ids \<longleftrightarrow> distinct ids \<and> set ids \<subseteq> D \<union> {queue_next_id (ff_db F)..} \<and> n \<le> length ids"

definition rows_ok :: "'s flush_frame \<Rightarrow> int set \<Rightarrow> int set \<Rightarrow> 's flush_world \<Rightarrow> bool" where
  "rows_ok F A D w \<longleftrightarrow> same_rows D (ff_db F) (fl_queue w) \<and> new_rows F A (fl_queue w)"

definition flushed :: "'s flush_frame \<Rightarrow> int set \<Rightarrow> int set \<Rightarrow> nat \<Rightarrow> 's flush_world \<Rightarrow> bool" where
  "flushed F A D n w \<longleftrightarrow> (\<exists>ids. flushing F (\<lambda>_. Idle) ids w \<and> taken_ids F D n ids) \<and> rows_ok F A D w"

definition holding :: "'s flush_frame \<Rightarrow> int set \<Rightarrow> int set \<Rightarrow> nat \<Rightarrow> int \<Rightarrow> 's flush_world \<Rightarrow> bool" where
  "holding F A D n i w \<longleftrightarrow> (\<exists>ids. flushing F (at_row i Owns) ids w \<and> taken_ids F D n ids \<and> i \<notin> set ids)
     \<and> rows_ok F A D w \<and> row_delivers F i (fl_queue w)"

lemma taken_ids_more: "taken_ids F D n ids \<Longrightarrow> D \<subseteq> E \<Longrightarrow> m \<le> n \<Longrightarrow> taken_ids F E m ids"
  by (auto simp: taken_ids_def)

lemma rows_ok_more: "rows_ok F A D w \<Longrightarrow> A \<subseteq> B \<Longrightarrow> D \<subseteq> E \<Longrightarrow> rows_ok F B E w"
  unfolding rows_ok_def new_rows_def by (meson same_rows_more subsetD)

lemma flushed_more: "flushed F A D n w \<Longrightarrow> A \<subseteq> B \<Longrightarrow> D \<subseteq> E \<Longrightarrow> m \<le> n \<Longrightarrow> flushed F B E m w"
  unfolding flushed_def by (meson rows_ok_more taken_ids_more)

lemma flushed_less: "flushed F A D (Suc n) w \<Longrightarrow> flushed F A D n w"
  by (erule flushed_more) simp_all

lemma new_rows_step:
  assumes "same_rows E db db'" and "new_rows F A db" and "queue_next_id db' = queue_next_id db"
  shows "new_rows F A db'"
proof -
  have "i < queue_next_id db" if "queue_row i db' = Some r" for i r
    using that assms(1,3) queue_row_in [OF that] queue_row_id [OF that] by (auto simp: same_rows_def queue_wf_def)
  with assms(1,2) show ?thesis by (fastforce simp: new_rows_def same_rows_def same_mail_def)
qed

lemma rows_ok_step:
  assumes "rows_ok F A D w" and "same_rows E (fl_queue w) (fl_queue w')"
    and "queue_next_id (fl_queue w') = queue_next_id (fl_queue w)"
  shows "rows_ok F A (D \<union> E) w'"
  using assms same_rows_trans new_rows_step unfolding rows_ok_def by blast

lemma flushed_same:
  assumes "flushed F A D n w" and "fl_queue w' = fl_queue w" "fl_clock w' = fl_clock w" "fl_net w' = fl_net w"
  shows "flushed F A D n w'"
  using assms flushing_same [OF _ assms(2-4)] unfolding flushed_def rows_ok_def by auto

lemma flushed_wait:
  assumes "flushed F A D n w" and "fl_queue w' = fl_queue w" "fl_clock w \<le> fl_clock w'"
    and "ff_log F (fl_net w') = ff_log F (fl_net w)"
  shows "flushed F A D n w'"
  using assms flushing_wait [OF _ assms(2-4)] unfolding flushed_def rows_ok_def by auto

lemma flushed_wf: "flushed F A D n w \<Longrightarrow> queue_wf (fl_queue w)"
  unfolding flushed_def using flushing_wf(1) by blast

lemma flushed_db:
  assumes fl: "flushed F A D n w" and step: "\<And>s. at_world F (\<lambda>_. Idle) w s \<Longrightarrow> frame_step F s (s\<lparr>sys_db := db\<rparr>)"
    and rows: "queue_wf (fl_queue w) \<Longrightarrow> same_rows {} (fl_queue w) db"
    and "queue_next_id db = queue_next_id (fl_queue w)"
  shows "flushed F A D n (w\<lparr>fl_queue := db\<rparr>)"
  using fl flushing_db [OF _ step] rows_ok_step [of F A D w "{}" "w\<lparr>fl_queue := db\<rparr>"] rows [OF flushed_wf [OF fl]] assms(4)
  unfolding flushed_def by auto

lemma keeps_copy: "serves F env \<Longrightarrow> keeps (flushed F A D n) (copy_sent env raw)"
  unfolding copy_sent_def
proof (rule keeps_modify)
  fix w
  assume "serves F env" and fl: "flushed F A D n w"
  then have "ff_log F (snd (se_copy env raw (fl_net w))) = ff_log F (fl_net w)" by (simp add: serves_def logs_dialogues_def)
  with fl show "flushed F A D n (case se_copy env raw (fl_net w) of (wait, net) \<Rightarrow> w\<lparr>fl_net := net, fl_clock := fl_clock w + int wait\<rparr>)"
    by (cases "se_copy env raw (fl_net w)") (auto elim!: flushed_wait)
qed

lemma keeps_see: "keeps (flushed F A D n) (see_recipients acc addrs)"
  unfolding see_recipients_def by (rule keeps_modify) (auto elim: flushed_same)

lemma submit_claimed_next_id: "submit_claimed env i w = (r, w') \<Longrightarrow> queue_next_id (fl_queue w') = queue_next_id (fl_queue w)"
  by (auto simp: submit_claimed_eq deliver_def bind_io_def lift_io_def try_io_def on_queue_def modify_io_def ret_io_def
      record_refusal_def snd_update_raw snd_mark_sent snd_mark_failed
      dest!: submit_raw_waits split: option.splits if_splits prod.splits sum.splits)

lemma hoare_submit:
  assumes serves: "serves F env"
  shows "hoare (holding F A D n i) (submit_claimed env i)
    (\<lambda>_. flushed F A (insert i D) (n + 1)) (flushed F A (insert i D) n)"
proof (rule hoareI)
  fix w r w'
  assume hold: "holding F A D n i w"
  then obtain ids where fl: "flushing F (at_row i Owns) ids w" and ids: "taken_ids F D n ids" "i \<notin> set ids"
    and rows: "rows_ok F A D w" and mail: "row_delivers F i (fl_queue w)" unfolding holding_def by blast
  have more: "taken_ids F (insert i D) n ids" "taken_ids F (insert i D) (n + 1) (ids @ [i])" "taken_ids F (insert i D) n (ids @ [i])"
    using ids by (auto simp: taken_ids_def)
  have ok: "rows_ok F A (insert i D) w'" if run: "submit_claimed env i w = (r, w')" for r w'
    using rows_ok_step [OF rows submit_claimed_rows [OF flushing_wf(1) [OF fl] run] submit_claimed_next_id [OF run]] by simp
  {
    fix e w'
    assume run: "submit_claimed env i w = (Inl e, w')"
    from submit_claimed_run [OF serves fl mail run] more ok [OF run] show "flushed F A (insert i D) n w'"
      unfolding flushed_def maybe_taken_def by auto
  next
    fix sb w'
    assume run: "submit_claimed env i w = (Inr sb, w')"
    from submit_claimed_run [OF serves fl mail run] more ok [OF run] show "flushed F A (insert i D) (n + 1) w'"
      unfolding flushed_def by auto
  }
qed

text \<open>Taking a row: by claiming it, or by writing a receipt.\<close>

lemma row_delivers_old:
  assumes "same_rows D (ff_db F) db" and "i < queue_next_id (ff_db F)" and "i \<notin> D"
  shows "row_delivers F i db"
  unfolding row_delivers_def
proof (intro allI impI)
  fix row m
  assume row: "queue_row i db = Some row" and m: "mail_of_row (ff_refresh F) row m"
  have "\<exists>r0. queue_row i (ff_db F) = Some r0 \<and> same_mail (i \<in> D) r0 row"
    using assms(1,2) row unfolding same_rows_def by blast
  with assms(3) obtain r0 where "queue_row i (ff_db F) = Some r0" "same_mail False r0 row" by auto
  with m mail_of_same_row assms(2) show "delivers (ff_refresh F) (ff_own F) (ff_db F) i m"
    by (auto simp: delivers_def)
qed

lemma flushing_owns:
  assumes fl: "flushing F (\<lambda>_. Idle) ids w"
    and "\<And>s. at_world F (\<lambda>_. Idle) w s \<Longrightarrow> frame_step F s (set_phase (ff_submitter F) i Owns (s\<lparr>sys_db := db\<rparr>))"
  shows "flushing F (at_row i Owns) ids (w\<lparr>fl_queue := db\<rparr>)"
  by (rule flushing_quiet [OF fl _ assms(2)]) (auto simp: at_world_def set_phase_def at_row_def)

lemma claim_run:
  assumes fl: "flushed F A D n w" and i: "i < queue_next_id (ff_db F)" "i \<notin> D"
    and db: "db = snd (claim (fl_clock w) i (fl_queue w))"
  shows "if fst (claim (fl_clock w) i (fl_queue w)) then holding F A D n i (w\<lparr>fl_queue := db\<rparr>)
    else flushed F A D n (w\<lparr>fl_queue := db\<rparr>)"
proof -
  have same: "same_rows {} (fl_queue w) db" unfolding db by (rule same_rows_claim [OF flushed_wf [OF fl]])
  have nxt: "queue_next_id db = queue_next_id (fl_queue w)" by (simp add: db snd_claim)
  show ?thesis
  proof (cases "fst (claim (fl_clock w) i (fl_queue w))")
    case True
    from fl obtain ids where f: "flushing F (\<lambda>_. Idle) ids w" and ids: "taken_ids F D n ids" and rows: "rows_ok F A D w"
      unfolding flushed_def by blast
    have "flushing F (at_row i Owns) ids (w\<lparr>fl_queue := db\<rparr>)"
    proof (rule flushing_owns [OF f])
      fix s
      assume "at_world F (\<lambda>_. Idle) w s"
      with outbox_step.win_claim [of s "ff_submitter F" i "ff_parse F" "ff_refresh F"] True
      show "frame_step F s (set_phase (ff_submitter F) i Owns (s\<lparr>sys_db := db\<rparr>))" by (simp add: at_world_def db)
    qed
    moreover have "i \<notin> set ids" using ids i by (auto simp: taken_ids_def)
    moreover have ok: "rows_ok F A D (w\<lparr>fl_queue := db\<rparr>)" using rows_ok_step [OF rows, of "{}" "w\<lparr>fl_queue := db\<rparr>"] same nxt by simp
    moreover from ok have "row_delivers F i db" by (intro row_delivers_old [OF _ i]) (simp add: rows_ok_def)
    ultimately show ?thesis using True ids unfolding holding_def by auto
  next
    case False
    have "flushed F A D n (w\<lparr>fl_queue := db\<rparr>)"
    proof (rule flushed_db [OF fl _ same nxt])
      fix s
      assume "at_world F (\<lambda>_. Idle) w s"
      with outbox_step.lose_claim [of s i "ff_parse F" "ff_refresh F"] False
      show "frame_step F s (s\<lparr>sys_db := db\<rparr>)" by (simp add: at_world_def db)
    qed
    with False show ?thesis by simp
  qed
qed

lemma flushed_new_row:
  assumes "flushed F A (insert i D) n w" and "queue_next_id (ff_db F) \<le> i"
  shows "flushed F A D n w"
proof -
  have "taken_ids F (insert i D) n ids \<Longrightarrow> taken_ids F D n ids" for ids using assms(2) by (auto simp: taken_ids_def)
  moreover have "rows_ok F A D w" using assms by (auto simp: flushed_def rows_ok_def same_rows_def)
  ultimately show ?thesis using assms(1) unfolding flushed_def by blast
qed

lemma receipt_run:
  assumes serves: "serves F env" and fl: "flushed F A D n w" and acc: "acc \<in> A"
    and run: "enqueue_mime (fl_clock w) acc None raw (se_from env) [se_from env] False (fl_queue w) = (Inr i, db)"
  shows "holding F A D n i (w\<lparr>fl_queue := db\<rparr>)" and "queue_next_id (ff_db F) \<le> i"
proof -
  let ?w = "w\<lparr>fl_queue := db\<rparr>"
  have wf: "queue_wf (fl_queue w)" by (rule flushed_wf [OF fl])
  have i: "i = queue_next_id (fl_queue w)"
    and db: "db = snd (enqueue_mime (fl_clock w) acc None raw (se_from env) [se_from env] False (fl_queue w))"
    using run by (auto simp: enqueue_mime_def insert_row_def Let_def)
  have rows: "same_rows {} (fl_queue w) db" unfolding db by (rule same_rows_enqueue [OF wf])
  from fl obtain ids where f: "flushing F (\<lambda>_. Idle) ids w" and ids: "taken_ids F D n ids" and ok: "rows_ok F A D w"
    unfolding flushed_def by blast
  have old: "queue_next_id (ff_db F) \<le> queue_next_id (fl_queue w)" using ok by (simp add: rows_ok_def same_rows_def)
  then show new: "queue_next_id (ff_db F) \<le> i" by (simp add: i)
  have row: "queue_row j db = (if j = i then Some (immediate_row (fl_clock w) acc None raw (se_from env) [se_from env] False i)
      else queue_row j (fl_queue w))" for j
    unfolding db i enqueue_mime_def Let_def
    using queue_row_insert [OF wf, of "immediate_row (fl_clock w) acc None raw (se_from env) [se_from env] False" j]
    by (simp add: immediate_row_def)
  have "flushing F (at_row i Owns) ids ?w"
  proof (rule flushing_owns [OF f])
    fix s
    assume "at_world F (\<lambda>_. Idle) w s"
    then show "frame_step F s (set_phase (ff_submitter F) i Owns (s\<lparr>sys_db := db\<rparr>))"
      using outbox_step.enqueue [of "ff_parse F" "ff_refresh F" s "ff_submitter F" acc None raw "se_from env" "[se_from env]" False] i db
      by (simp add: at_world_def)
  qed
  moreover have "i \<notin> set ids" using flushing_wf(2) [OF f, of i] i by auto
  moreover have "same_rows D (ff_db F) db" using same_rows_trans [OF _ rows] ok by (simp add: rows_ok_def)
  moreover have "new_rows F A db" using ok acc by (auto simp: rows_ok_def new_rows_def row immediate_row_def)
  moreover have "row_delivers F i db"
    using serves new by (auto simp: row_delivers_def row delivers_def mail_of_row_def immediate_row_def serves_def)
  ultimately show "holding F A D n i ?w" using ids unfolding holding_def rows_ok_def by auto
qed

lemma keeps_receipt:
  assumes serves: "serves F env" and acc: "acc \<in> A"
  shows "keeps (flushed F A D n) (send_self_receipt env acc row)"
  unfolding send_self_receipt_def keeps_def
proof (rule hoare_bind)
  show "hoare (flushed F A D n) (\<lambda>w. (se_receipt env (se_from env) (fl_clock w) row, w))
      (\<lambda>_. flushed F A D n) (flushed F A D n)"
    by (auto simp: hoare_def split: sum.split)
next
  fix raw
  let ?enqueue = "\<lambda>w :: 'a flush_world. case enqueue_mime (fl_clock w) acc None raw (se_from env) [se_from env] False (fl_queue w) of
       (r, db) \<Rightarrow> (r, w\<lparr>fl_queue := db\<rparr>)"
  let ?new = "\<lambda>i. queue_next_id (ff_db F) \<le> i"
  have enqueue: "hoare (flushed F A D n) ?enqueue (\<lambda>i w. holding F A D n i w \<and> ?new i) (flushed F A D n)"
  proof (rule hoareI)
    fix w i w'
    assume fl: "flushed F A D n w" and run: "?enqueue w = (Inr i, w')"
    then obtain db where db: "enqueue_mime (fl_clock w) acc None raw (se_from env) [se_from env] False (fl_queue w) = (Inr i, db)"
      "w' = w\<lparr>fl_queue := db\<rparr>" by (auto split: prod.splits)
    with receipt_run [OF serves fl acc db(1)] show "holding F A D n i w' \<and> ?new i" by simp
  qed (auto simp: enqueue_mime_def Let_def)
  show "hoare (flushed F A D n) (bind_io ?enqueue (\<lambda>i.
      bind_io (try_io (submit_claimed env i)) (\<lambda>r.
       case r of
         Inl e \<Rightarrow> bind_io (on_queue (\<lambda>_. queue_delete i)) (\<lambda>_. lift_io (Inl e))
       | Inr s \<Rightarrow> if sb_raw s \<noteq> [] then copy_sent env (sb_raw s) else ret_io ())))
      (\<lambda>_. flushed F A D n) (flushed F A D n)"
  proof (rule hoare_bind [OF enqueue])
    fix i
    let ?I = "flushed F A D n"
    have submit: "hoare (\<lambda>w. holding F A D n i w \<and> ?new i) (try_io (submit_claimed env i)) (\<lambda>_. ?I) ?I"
    proof (rule hoare_fact [where F = "?new i"])
      assume new: "?new i"
      show "hoare (\<lambda>w. holding F A D n i w \<and> ?new i) (try_io (submit_claimed env i)) (\<lambda>_. ?I) ?I"
        by (rule hoare_try, rule hoare_weaken [OF hoare_submit [OF serves]])
          (auto dest: flushed_less intro: flushed_new_row [OF _ new])
    qed simp
    have "keeps ?I (on_queue (\<lambda>_. queue_delete i))"
      unfolding on_queue_def
    proof (rule keeps_modify)
      fix w
      assume fl: "?I w"
      have "?I (w\<lparr>fl_queue := queue_delete i (fl_queue w)\<rparr>)"
        by (rule flushed_db [OF fl _ same_rows_deletes(2)])
          (simp_all add: at_world_def outbox_step.abandon queue_delete_def, metis outbox_step.abandon queue_delete_def)
      then show "?I (w\<lparr>fl_queue := queue_delete i (fl_queue w)\<rparr>)" .
    qed
    then have "keeps ?I (case r of
         Inl e \<Rightarrow> bind_io (on_queue (\<lambda>_. queue_delete i)) (\<lambda>_. lift_io (Inl e))
       | Inr s \<Rightarrow> if sb_raw s \<noteq> [] then copy_sent env (sb_raw s) else ret_io ())" for r
      by (intro keeps_rules keeps_copy serves)
    from hoare_bind [OF submit] this [unfolded keeps_def]
    show "hoare (\<lambda>w. holding F A D n i w \<and> ?new i) (bind_io (try_io (submit_claimed env i)) (\<lambda>r.
       case r of
         Inl e \<Rightarrow> bind_io (on_queue (\<lambda>_. queue_delete i)) (\<lambda>_. lift_io (Inl e))
       | Inr s \<Rightarrow> if sb_raw s \<noteq> [] then copy_sent env (sb_raw s) else ret_io ()))
      (\<lambda>_. ?I) ?I" by blast
  qed
qed

subsection \<open>The flush\<close>

lemma keeps_sure: "keeps I m \<Longrightarrow> (\<And>w. \<exists>x w'. m w = (Inr x, w')) \<Longrightarrow> hoare I m (\<lambda>_. I) (\<lambda>_. False)"
  by (rule hoareI) (metis Inl_Inr_False Pair_inject, metis keepsD)

lemma hoare_flush_row:
  assumes serves: "serves F env" and acc: "acc \<in> A" and row: "q_id row < queue_next_id (ff_db F)" "q_id row \<notin> D"
  shows "hoare (flushed F A D (m + sent)) (flush_row env acc row (sent, first_error))
     (\<lambda>(n, _). flushed F A (insert (q_id row) D) (m + n)) (\<lambda>_. False)"
proof -
  let ?D = "insert (q_id row) D"
  let ?claim = "\<lambda>w :: 'a flush_world. case claim (fl_clock w) (q_id row) (fl_queue w) of (won, db) \<Rightarrow> (Inr won :: bool result, w\<lparr>fl_queue := db\<rparr>)"
  let ?I = "\<lambda>n. flushed F A ?D (m + n)"
  have claim: "hoare (flushed F A D (m + sent)) ?claim
      (\<lambda>won w. if won then holding F A D (m + sent) (q_id row) w else ?I sent w) (\<lambda>_. False)"
  proof (rule hoareI)
    fix w won w'
    assume fl: "flushed F A D (m + sent) w" and run: "?claim w = (Inr won, w')"
    then have "won = fst (claim (fl_clock w) (q_id row) (fl_queue w))"
      "w' = w\<lparr>fl_queue := snd (claim (fl_clock w) (q_id row) (fl_queue w))\<rparr>" by (auto split: prod.splits)
    with claim_run [OF fl row refl] show "if won then holding F A D (m + sent) (q_id row) w' else ?I sent w'"
      by (auto split: if_splits elim!: flushed_more)
  qed (auto split: prod.splits)
  have submit: "hoare (holding F A D (m + sent) (q_id row)) (try_io (submit_claimed env (q_id row)))
      (\<lambda>r. case r of Inl _ \<Rightarrow> ?I sent | Inr _ \<Rightarrow> ?I (sent + 1)) (\<lambda>_. False)"
    by (rule hoare_try, rule hoare_weaken [OF hoare_submit [OF serves]]) auto
  have see: "hoare (?I n) (see_recipients acc a) (\<lambda>_. ?I n) (\<lambda>_. False)" for n a
    by (rule keeps_sure [OF keeps_see]) (simp add: see_recipients_def io_simps)
  have copy: "hoare (?I n) (if b then copy_sent env raw else ret_io ()) (\<lambda>_. ?I n) (\<lambda>_. False)" for n b raw
    by (rule keeps_sure, intro keeps_rules keeps_copy serves) (simp add: copy_sent_def io_simps)
  have receipt: "hoare (?I n) (if b then try_io (send_self_receipt env acc row) else ret_io (Inr ())) (\<lambda>_. ?I n) (\<lambda>_. False)" for n b
    by (rule keeps_sure) (auto intro: keeps_rules keeps_receipt serves acc simp: try_io_def io_simps split: prod.split)
  have after: "hoare (case r of Inl _ \<Rightarrow> ?I sent | Inr _ \<Rightarrow> ?I (sent + 1)) (case r of
           Inl e \<Rightarrow> ret_io (sent, case first_error of None \<Rightarrow> Some e | Some f \<Rightarrow> Some f)
         | Inr s \<Rightarrow>
             bind_io (see_recipients acc (q_envelope_to row)) (\<lambda>_.
             bind_io (if sb_raw s \<noteq> [] then copy_sent env (sb_raw s) else ret_io ()) (\<lambda>_.
             bind_io (if q_notify_self row then try_io (send_self_receipt env acc row) else ret_io (Inr ())) (\<lambda>_.
             ret_io (sent + 1, first_error)))))
        (\<lambda>(n, _). ?I n) (\<lambda>_. False)" for r :: "submitted result"
  proof (cases r)
    case (Inl e)
    then show ?thesis by (simp add: hoare_def io_simps)
  next
    case (Inr sb)
    have "hoare (?I (sent + 1)) (ret_io (sent + 1, first_error)) (\<lambda>(n, _). ?I n) (\<lambda>_. False)"
      by (simp add: hoare_def io_simps)
    then show ?thesis
      unfolding Inr sum.case by (intro hoare_bind [OF see] hoare_bind [OF copy] hoare_bind [OF receipt])
  qed
  show ?thesis
    unfolding flush_row_def case_prod_conv
  proof (rule hoare_bind [OF claim])
    fix won
    show "hoare (\<lambda>w. if won then holding F A D (m + sent) (q_id row) w else ?I sent w)
      (if \<not> won then ret_io (sent, first_error)
       else
         bind_io (try_io (submit_claimed env (q_id row))) (\<lambda>r.
           case r of
             Inl e \<Rightarrow> ret_io (sent, case first_error of None \<Rightarrow> Some e | Some f \<Rightarrow> Some f)
           | Inr s \<Rightarrow>
               bind_io (see_recipients acc (q_envelope_to row)) (\<lambda>_.
               bind_io (if sb_raw s \<noteq> [] then copy_sent env (sb_raw s) else ret_io ()) (\<lambda>_.
               bind_io (if q_notify_self row then try_io (send_self_receipt env acc row) else ret_io (Inr ())) (\<lambda>_.
               ret_io (sent + 1, first_error))))))
      (\<lambda>(n, _). ?I n) (\<lambda>_. False)"
    proof (cases won)
      case True
      show ?thesis using True by (simp only: not_True_eq_False if_True if_False) (rule hoare_bind [OF submit after])
    next
      case False
      then show ?thesis by (simp add: hoare_def io_simps)
    qed
  qed
qed

lemma hoare_flush_rows:
  assumes "serves F env" and "acc \<in> A"
    and "distinct (map q_id rows)" "\<forall>r \<in> set rows. q_id r < queue_next_id (ff_db F) \<and> q_id r \<notin> D"
  shows "hoare (flushed F A D (m + n)) (fold_io (flush_row env acc) rows (n, fe))
     (\<lambda>(n, _). flushed F A (D \<union> q_id ` set rows) (m + n)) (\<lambda>_. False)"
  using assms(3,4)
proof (induction rows arbitrary: n fe D)
  case Nil
  show ?case by (simp add: hoare_def io_simps)
next
  case (Cons row rows)
  have row: "hoare (flushed F A D (m + n)) (flush_row env acc row (n, fe)) (\<lambda>(n, _). flushed F A (insert (q_id row) D) (m + n)) (\<lambda>_. False)"
    using Cons.prems by (intro hoare_flush_row [OF assms(1,2)]) simp_all
  have "hoare (\<lambda>w. case r of (n, _) \<Rightarrow> flushed F A (insert (q_id row) D) (m + n) w) (fold_io (flush_row env acc) rows r)
      (\<lambda>(n, _). flushed F A (insert (q_id row) D \<union> q_id ` set rows) (m + n)) (\<lambda>_. False)" for r :: "nat \<times> store_error option"
  proof (cases r)
    case (Pair k e)
    have "hoare (flushed F A (insert (q_id row) D) (m + k)) (fold_io (flush_row env acc) rows (k, e))
      (\<lambda>(n, _). flushed F A (insert (q_id row) D \<union> q_id ` set rows) (m + n)) (\<lambda>_. False)"
      using Cons.prems by (intro Cons.IH) (auto simp: image_iff)
    with Pair show ?thesis by simp
  qed
  with row show ?case by (simp add: hoare_bind case_prod_beta')
qed

text \<open>Whose rows a set of accounts has.\<close>

definition owned :: "'s flush_frame \<Rightarrow> int set \<Rightarrow> int set" where
  "owned F A = {i. \<exists>r. queue_row i (ff_db F) = Some r \<and> q_account_id r \<in> A}"

lemma submittable_rows:
  assumes ok: "rows_ok F A D w" and "acc \<notin> A"
    and "row \<in> set (list_submittable (fl_clock w) acc (fl_queue w))"
  shows "q_id row < queue_next_id (ff_db F)" and "q_id row \<in> owned F {acc}"
proof -
  have r: "row \<in> set (queue_rows (fl_queue w))" "q_account_id row = acc"
    using assms(3) by (simp_all add: list_submittable_def submittable_def)
  have "queue_wf (fl_queue w)" using ok by (simp add: rows_ok_def same_rows_def)
  from queue_row_of [OF this r(1)] have q: "queue_row (q_id row) (fl_queue w) = Some row" .
  with ok assms(2) r(2) show lt: "q_id row < queue_next_id (ff_db F)" by (auto simp: rows_ok_def new_rows_def not_less [symmetric])
  have "\<exists>r0. queue_row (q_id row) (ff_db F) = Some r0 \<and> same_mail (q_id row \<in> D) r0 row"
    using ok q lt unfolding rows_ok_def same_rows_def by blast
  with r(2) show "q_id row \<in> owned F {acc}" by (auto simp: owned_def same_mail_def)
qed

lemma distinct_submittable: "queue_wf db \<Longrightarrow> distinct (map q_id (list_submittable now acc db))"
  unfolding list_submittable_def queue_wf_def by (auto simp: distinct_map inj_on_def)

lemma owned_disjoint: "acc \<notin> A \<Longrightarrow> i \<in> owned F {acc} \<Longrightarrow> i \<notin> owned F A"
  by (auto simp: owned_def)

text \<open>Crash recovery leaves live rows alone when whoever holds a row has touched it in the last half hour.\<close>

definition live_rows_fresh :: "outbox_sys \<Rightarrow> bool" where
  "live_rows_fresh s \<longleftrightarrow> (\<forall>q i r. sys_phase s q i \<noteq> Idle \<longrightarrow> queue_row i (sys_db s) = Some r \<longrightarrow>
     stale_cutoff (sys_clock s) \<le> q_updated_at r)"

lemma flush_simulates:
  assumes serves: "serves F env" and new: "acc \<notin> A" and start: "flushed F A (owned F A) n w"
    and live: "\<And>s. at_world F (\<lambda>_. Idle) w s \<Longrightarrow> live_rows_fresh s"
    and run: "flush_outbox env acc w = (r, w')"
  shows "flushed F (insert acc A) (owned F (insert acc A)) (n + (case r of Inl _ \<Rightarrow> 0 | Inr k \<Rightarrow> k)) w'"
proof -
  let ?I = "flushed F A (owned F A) n" and ?B = "insert acc A"
  define w1 where "w1 = w\<lparr>fl_queue := snd (requeue_interrupted (fl_clock w) acc (fl_queue w))\<rparr>"
  have "?I w1"
    unfolding w1_def
  proof (rule flushed_db [OF start _ same_rows_requeue])
    fix s
    assume s: "at_world F (\<lambda>_. Idle) w s"
    with live [OF s] show "frame_step F s (s\<lparr>sys_db := snd (requeue_interrupted (fl_clock w) acc (fl_queue w))\<rparr>)"
      using outbox_step.requeue [of s "ff_parse F" "ff_refresh F" acc] by (auto simp: at_world_def live_rows_fresh_def)
  qed (simp_all add: requeue_interrupted_def case_prod_beta)
  define w2 where "w2 = w1\<lparr>fl_queue := snd (promote_due (fl_clock w1) acc (fl_queue w1))\<rparr>"
  have "?I w2"
    unfolding w2_def
  proof (rule flushed_db [OF \<open>?I w1\<close> _ same_rows_promote])
    fix s
    assume "at_world F (\<lambda>_. Idle) w1 s"
    with outbox_step.promote [of "ff_parse F" "ff_refresh F" s acc]
    show "frame_step F s (s\<lparr>sys_db := snd (promote_due (fl_clock w1) acc (fl_queue w1))\<rparr>)" by (simp add: at_world_def)
  qed (simp_all add: promote_due_def)
  define w3 where "w3 = w2\<lparr>fl_queue := snd (prune_sent (fl_clock w2) (fl_queue w2))\<rparr>"
  have w3: "?I w3"
    unfolding w3_def
  proof (rule flushed_db [OF \<open>?I w2\<close> _ same_rows_deletes(1)])
    fix s
    assume "at_world F (\<lambda>_. Idle) w2 s"
    with outbox_step.prune [of "ff_parse F" "ff_refresh F" s]
    show "frame_step F s (s\<lparr>sys_db := snd (prune_sent (fl_clock w2) (fl_queue w2))\<rparr>)" by (simp add: at_world_def)
  qed (simp_all add: prune_sent_def Let_def)
  let ?rows = "list_submittable (fl_clock w3) acc (fl_queue w3)"
  have ok: "rows_ok F A (owned F A) w3" using w3 by (simp add: flushed_def)
  have B: "flushed F ?B (owned F A) (n + 0) w3" using w3 by (rule flushed_more) auto
  have mine: "\<forall>r \<in> set ?rows. q_id r < queue_next_id (ff_db F) \<and> q_id r \<notin> owned F A" "q_id ` set ?rows \<subseteq> owned F {acc}"
    using submittable_rows [OF ok new] owned_disjoint [OF new] by auto
  note rows_run = hoare_flush_rows [OF serves _ distinct_submittable [OF flushed_wf [OF w3]] mine(1), where A = ?B and m = n and n = 0 and fe = None]
  obtain x w4 where rows: "fold_io (flush_row env acc) ?rows (0, None) w3 = (x, w4)"
    by (cases "fold_io (flush_row env acc) ?rows (0, None) w3")
  have "\<not> (\<exists>e. x = Inl e)" using hoareD(2) [OF rows_run B] rows by auto
  then obtain k fe where x: "x = Inr (k, fe)" by (cases x) auto
  have "flushed F ?B (owned F A \<union> q_id ` set ?rows) (n + k) w4"
    using hoareD(1) [OF rows_run B rows [unfolded x]] by simp
  moreover have "owned F A \<union> q_id ` set ?rows \<subseteq> owned F ?B" using mine(2) by (auto simp: owned_def)
  moreover have "w' = w4" "(case r of Inl _ \<Rightarrow> 0 | Inr k \<Rightarrow> k) \<le> k"
    using run rows x unfolding w3_def w2_def w1_def
    by (auto simp: flush_outbox_def on_queue_def bind_io_def modify_io_def get_io_def ret_io_def lift_io_def
        split: option.splits if_splits)
  ultimately show ?thesis by (auto elim!: flushed_more)
qed

text \<open>A frame that starts here, and what a flushed world says of the machine.\<close>

definition frame_at :: "(string \<Rightarrow> instant option) \<Rightarrow> (instant \<Rightarrow> string \<Rightarrow> string) \<Rightarrow> ('s \<Rightarrow> smtp_mail list) \<Rightarrow> string set \<Rightarrow>
    nat \<Rightarrow> outbox_sys \<Rightarrow> 's flush_world \<Rightarrow> 's flush_frame" where
  "frame_at parse refresh log own p s w = \<lparr>ff_parse = parse, ff_refresh = refresh, ff_log = log, ff_own = own,
     ff_submitter = p, ff_start = s, ff_db = fl_queue w, ff_mails = log (fl_net w)\<rparr>"

lemma flushed_start:
  assumes "outbox_reachable parse refresh s" and "sys_db s = fl_queue w" "sys_clock s = fl_clock w" "sys_phase s p = (\<lambda>_. Idle)"
  shows "flushed (frame_at parse refresh log own p s w) {} {} 0 w"
proof -
  have inv: "outbox_inv s" by (rule outbox_reachable_inv [OF assms(1)])
  have wf: "queue_wf (fl_queue w)" using outbox_inv_wf [OF inv] assms(2) by simp
  have "new_rows (frame_at parse refresh log own p s w) {} (fl_queue w)"
    unfolding new_rows_def
  proof (intro allI impI)
    fix i r
    assume "queue_next_id (ff_db (frame_at parse refresh log own p s w)) \<le> i" "queue_row i (fl_queue w) = Some r"
    with wf queue_row_in [of i "fl_queue w" r] queue_row_id [of i "fl_queue w" r]
    show "q_account_id r \<in> {}" by (auto simp: frame_at_def queue_wf_def)
  qed
  with inv wf assms(2-4) show ?thesis
    by (auto simp: flushed_def flushing_def took_def at_world_def taken_ids_def rows_ok_def same_rows_refl frame_at_def
        intro!: exI [of _ "[]"] exI [of _ s] outbox_run.here)
qed

lemma owned_none [simp]: "owned F {} = {}"
  by (simp add: owned_def)

lemma flushed_ends:
  assumes "flushed (frame_at parse refresh log own p s w) A D n w'" and "outbox_reachable parse refresh s"
    and "sys_phase s p = (\<lambda>_. Idle)"
  shows "\<exists>s' ids ms. outbox_reachable parse refresh s' \<and> sys_db s' = fl_queue w' \<and> sys_clock s' = fl_clock w'
    \<and> sys_phase s' = sys_phase s \<and> sys_accepted s' = sys_accepted s @ ids \<and> log (fl_net w') = log (fl_net w) @ ms
    \<and> distinct ids \<and> list_all2 (delivers refresh own (fl_queue w)) ids ms \<and> n \<le> length ids"
proof -
  obtain ids where f: "flushing (frame_at parse refresh log own p s w) (\<lambda>_. Idle) ids w'" and t: "distinct ids" "n \<le> length ids"
    using assms(1) unfolding flushed_def taken_ids_def by blast
  from f obtain s' where s': "outbox_run parse refresh s s'" "at_world (frame_at parse refresh log own p s w) (\<lambda>_. Idle) w' s'"
    "sys_accepted s' = sys_accepted s @ ids" unfolding flushing_def by (auto simp: frame_at_def)
  from f obtain ms where "log (fl_net w') = log (fl_net w) @ ms" "list_all2 (delivers refresh own (fl_queue w)) ids ms"
    unfolding flushing_def took_def by (auto simp: frame_at_def)
  moreover have "sys_phase s' = sys_phase s" using s'(2) assms(3) by (intro ext) (metis at_world_def frame_at_def flush_frame.select_convs(5,6))
  ultimately show ?thesis
    using t s' outbox_run_reachable [OF s'(1) assms(2)] by (intro exI [of _ s'] exI [of _ ids] exI [of _ ms]) (simp add: at_world_def)
qed

lemma flush_refines_machine:
  assumes "outbox_reachable parse (refresh_at env) s"
    and "sys_db s = fl_queue w" "sys_clock s = fl_clock w" "sys_phase s p = (\<lambda>_. Idle)" and live: "live_rows_fresh s"
    and "logs_dialogues env log" and run: "flush_outbox env acc w = (r, w')"
  shows "\<exists>s' ids ms. outbox_reachable parse (refresh_at env) s' \<and> sys_db s' = fl_queue w' \<and> sys_clock s' = fl_clock w'
    \<and> sys_phase s' = sys_phase s \<and> sys_accepted s' = sys_accepted s @ ids \<and> log (fl_net w') = log (fl_net w) @ ms
    \<and> distinct ids \<and> list_all2 (delivers (refresh_at env) {se_from env} (fl_queue w)) ids ms
    \<and> (case r of Inl _ \<Rightarrow> 0 | Inr k \<Rightarrow> k) \<le> length ids"
proof -
  let ?F = "frame_at parse (refresh_at env) log {se_from env} p s w"
  have "serves ?F env" using assms(6) by (simp add: serves_def frame_at_def)
  moreover have "flushed ?F {} (owned ?F {}) 0 w" using flushed_start [OF assms(1-4)] by simp
  moreover have "live_rows_fresh t" if "at_world ?F (\<lambda>_. Idle) w t" for t
  proof -
    have "sys_phase t = sys_phase s" using that assms(4) by (intro ext) (metis at_world_def frame_at_def flush_frame.select_convs(5,6))
    with that live assms(2,3) show ?thesis by (simp add: live_rows_fresh_def at_world_def)
  qed
  ultimately have "flushed ?F {acc} (owned ?F {acc}) (case r of Inl _ \<Rightarrow> 0 | Inr k \<Rightarrow> k) w'"
    using flush_simulates [of ?F env acc "{}" 0 w r w'] run by simp
  from flushed_ends [OF this assms(1,4)] show ?thesis .
qed

text \<open>
  C3. A flush of the outbox is a run of the machine, and the mails the server took in it are the outbox's
  own, each once: from any reachable state whose other submitters are live, a flush that runs by itself
  ends in a reachable state with this submitter holding nothing and the others undisturbed; the
  server's log grew by one mail for each newly accepted id, no id twice, each with the envelope and bytes
  (a scheduled one's with a fresh date) its row had, or a receipt to the account's own address; and it
  reports no more rows than that. A dialogue that ends in an error may or may not have handed its mail over.
\<close>

theorem flush_is_a_machine_run:
  assumes "outbox_reachable parse (refresh_at env) s"
    and "sys_db s = fl_queue w" "sys_clock s = fl_clock w" "sys_phase s p = (\<lambda>_. Idle)" and "live_rows_fresh s"
    and "logs_dialogues env log" and "flush_outbox env acc w = (r, w')"
  shows "\<exists>s' ids ms. outbox_reachable parse (refresh_at env) s' \<and> sys_db s' = fl_queue w' \<and> sys_clock s' = fl_clock w'
    \<and> sys_phase s' = sys_phase s \<and> sys_accepted s' = sys_accepted s @ ids \<and> log (fl_net w') = log (fl_net w) @ ms
    \<and> distinct ids \<and> list_all2 (delivers (refresh_at env) {se_from env} (fl_queue w)) ids ms
    \<and> (case r of Inl _ \<Rightarrow> 0 | Inr k \<Rightarrow> k) \<le> length ids"
  using flush_refines_machine [OF assms] .

text \<open>A server that takes every mail and keeps a log of them.\<close>

definition idle_env :: "smtp_mail list smtp_env" where
  "idle_env = \<lparr>se_from = ''me@x.y'', se_address = (\<lambda>_. None), se_send = (\<lambda>m net. (Inr True, 0, net @ [m])),
     se_copy = (\<lambda>_ net. (0, net)), se_receipt = (\<lambda>_ _ _. Inr ''receipt''), se_date = (\<lambda>_. ''now'')\<rparr>"

lemma idle_env_logs: "logs_dialogues idle_env (\<lambda>net. net)"
  by (simp add: logs_dialogues_def idle_env_def)

definition due_mime :: scheduled_mime where
  "due_mime = \<lparr>s_message_id = None, s_raw_mime = ''mail'', s_envelope_from = ''me@x.y'', s_envelope_to = [''you@x.y''],
     s_request_dsn = False, s_notify_self = True, s_send_at = ''soon''\<rparr>"

definition held_sys :: outbox_sys where
  "held_sys = (init_sys 0)\<lparr>sys_db := snd (enqueue_scheduled_mime (\<lambda>_. Some (100 * ns_per_sec))
     (sys_clock (init_sys 0)) 1 due_mime (sys_db (init_sys 0)))\<rparr>"

definition due_sys :: outbox_sys where
  "due_sys = held_sys\<lparr>sys_clock := 200 * ns_per_sec\<rparr>"

definition due_world :: "smtp_mail list flush_world" where
  "due_world = \<lparr>fl_clock = sys_clock due_sys, fl_queue = sys_db due_sys,
     fl_settings = \<lparr>app_values = Map.empty, account_values = (\<lambda>_. Map.empty)\<rparr>, fl_seen = [], fl_net = []\<rparr>"

lemma due_world_flush:
  "map sm_to (fl_net (snd (flush_outbox idle_env 1 due_world))) = [[''you@x.y''], [''me@x.y'']]"
  by code_simp

theorem flush_is_a_machine_run_witness:
  "\<exists>s' ids. outbox_reachable (\<lambda>_. Some (100 * ns_per_sec)) (refresh_at idle_env) s'
     \<and> sys_db s' = fl_queue (snd (flush_outbox idle_env 1 due_world)) \<and> sys_accepted s' = ids \<and> distinct ids \<and> length ids = 2"
proof -
  let ?parse = "\<lambda>_ :: string. Some (100 * ns_per_sec)" and ?refresh = "refresh_at idle_env"
  obtain r w' where run: "flush_outbox idle_env 1 due_world = (r, w')" by fastforce
  have "outbox_reachable ?parse ?refresh held_sys"
    unfolding held_sys_def by (rule outbox_reachable.step [OF outbox_reachable.start outbox_step.schedule])
  moreover have "sys_clock held_sys \<le> 200 * ns_per_sec" by (simp add: held_sys_def init_sys_def)
  ultimately have "outbox_reachable ?parse ?refresh due_sys"
    unfolding due_sys_def by (rule outbox_reachable.step [OF _ outbox_step.tick])
  moreover have "sys_db due_sys = fl_queue due_world" "sys_clock due_sys = fl_clock due_world"
    "sys_phase due_sys 0 = (\<lambda>_. Idle)" "live_rows_fresh due_sys"
    by (simp_all add: due_world_def due_sys_def held_sys_def init_sys_def live_rows_fresh_def)
  ultimately obtain s' ids ms where s': "outbox_reachable ?parse ?refresh s'" "sys_db s' = fl_queue w'"
    "sys_accepted s' = sys_accepted due_sys @ ids" "fl_net w' = fl_net due_world @ ms" "distinct ids"
    "list_all2 (delivers (refresh_at idle_env) {se_from idle_env} (fl_queue due_world)) ids ms"
    using flush_is_a_machine_run [OF _ _ _ _ _ idle_env_logs run, of ?parse due_sys 0] by blast
  have "sys_accepted due_sys = []" "fl_net due_world = []" by (simp_all add: due_sys_def held_sys_def init_sys_def due_world_def)
  moreover have "length (map sm_to (fl_net w')) = 2" using due_world_flush unfolding run snd_conv by simp
  ultimately have "sys_accepted s' = ids" "length ids = 2" using s' list_all2_lengthD [OF s'(6)] by simp_all
  with s' run show ?thesis by auto
qed

end
