(* ===== verification/Search_Query.thy ===== *)
theory Search_Query
  imports Text Utf7
begin

text \<open>
  The search language of \<open>search.rs\<close>: a typed query becomes terms and filters, the terms an FTS5
  expression; the plan of the search field, the date bounds and presets, the texts of an empty list.

  What the code takes from elsewhere is an argument: \<open>search_lib\<close> holds chrono's day parser and
  printer (\<open>sl_day\<close>, \<open>%Y-%m-%d\<close> read and re-printed), whether a text holds a letter or digit beyond
  ASCII, Unicode lower-casing, and the texts an IMAP string can carry.
\<close>

record search_lib =
  sl_day :: "string \<Rightarrow> string option"
  sl_wide_alnum :: "string \<Rightarrow> bool"
  sl_lower :: "string \<Rightarrow> string"
  sl_astring :: "string \<Rightarrow> string option"

abbreviation quote_char :: char where "quote_char \<equiv> CHR 0x22"
abbreviation star_char :: char where "star_char \<equiv> CHR 0x2A"
abbreviation dash :: char where "dash \<equiv> CHR 0x2D"
abbreviation colon :: char where "colon \<equiv> CHR 0x3A"

datatype search_field = Any_Field | From_Field | To_Field | Subject_Field

record search_term =
  st_field :: search_field
  st_text :: string
  st_phrase :: bool
  st_negated :: bool

record search_filters =
  sf_unread :: "bool option"
  sf_starred :: "bool option"
  sf_has_attachments :: "bool option"
  sf_after :: "string option"
  sf_before :: "string option"

definition no_filters :: search_filters where
  "no_filters = \<lparr>sf_unread = None, sf_starred = None, sf_has_attachments = None,
     sf_after = None, sf_before = None\<rparr>"

definition filters_empty :: "search_filters \<Rightarrow> bool" where
  "filters_empty f \<longleftrightarrow> sf_unread f = None \<and> sf_starred f = None \<and> sf_has_attachments f = None
     \<and> sf_after f = None \<and> sf_before f = None"

record parsed_query =
  pq_terms :: "search_term list"
  pq_filters :: search_filters

definition FIELDS :: "(string \<times> search_field) list" where
  "FIELDS = [(''from:'', From_Field), (''to:'', To_Field), (''subject:'', Subject_Field)]"

subsection \<open>Filter tokens\<close>

text \<open>A day needs a year of exactly four digits before chrono, which is lenient, may read it.\<close>

definition normalise_date :: "search_lib \<Rightarrow> string \<Rightarrow> string option" where
  "normalise_date L s =
     (let year = hd (split_on dash s) in
      if length year \<noteq> 4 \<or> \<not> list_all is_ascii_digit year then None else sl_day L s)"

definition is_date_key :: "string \<Rightarrow> bool" where
  "is_date_key key \<longleftrightarrow>
     list_ex (\<lambda>k. eq_ignore_ascii_case key k) [''after'', ''since'', ''before'']"

definition try_parse_filter_pair ::
  "search_lib \<Rightarrow> string \<Rightarrow> string \<Rightarrow> bool \<Rightarrow> search_filters \<Rightarrow> search_filters option" where
  "try_parse_filter_pair L key val negated filters =
     (let key_is = eq_ignore_ascii_case key; val_is = eq_ignore_ascii_case val in
      if key_is ''is'' then
        if val_is ''unread'' then Some (filters\<lparr>sf_unread := Some (\<not> negated)\<rparr>)
        else if val_is ''read'' then Some (filters\<lparr>sf_unread := Some negated\<rparr>)
        else if val_is ''starred'' \<or> val_is ''flagged'' then Some (filters\<lparr>sf_starred := Some (\<not> negated)\<rparr>)
        else if val_is ''unstarred'' \<or> val_is ''unflagged'' then Some (filters\<lparr>sf_starred := Some negated\<rparr>)
        else None
      else if key_is ''has'' then
        if val_is ''attachment'' \<or> val_is ''attachments''
        then Some (filters\<lparr>sf_has_attachments := Some (\<not> negated)\<rparr>)
        else None
      else if key_is ''after'' \<or> key_is ''since'' then
        map_option (\<lambda>d. filters\<lparr>sf_after := Some d\<rparr>) (normalise_date L val)
      else if key_is ''before'' then
        map_option (\<lambda>d. filters\<lparr>sf_before := Some d\<rparr>) (normalise_date L val)
      else None)"

subsection \<open>Reading a query\<close>

text \<open>\<open>find(char::is_whitespace)\<close>, or the length: where the first word of a text ends.\<close>

fun word_end :: "string \<Rightarrow> nat" where
  "word_end [] = 0"
| "word_end (c # s) = (if ws_prefix (c # s) \<noteq> 0 then 0 else Suc (word_end s))"

definition first_word :: "string \<Rightarrow> string" where
  "first_word s = take (word_end s) s"

definition after_word :: "string \<Rightarrow> string" where
  "after_word s = drop (word_end s) s"

definition strip_field :: "string \<Rightarrow> (search_field \<times> string) option" where
  "strip_field s =
     (case find (\<lambda>(name, field). length name \<le> length s \<and>
             eq_ignore_ascii_case (take (length name) s) name) FIELDS of
        None \<Rightarrow> None
      | Some (name, field) \<Rightarrow> Some (field, drop (length name) s))"

definition clean_word :: "string \<Rightarrow> string" where
  "clean_word w = filter (\<lambda>c. c \<noteq> quote_char \<and> c \<noteq> star_char) w"

definition has_alnum :: "search_lib \<Rightarrow> string \<Rightarrow> bool" where
  "has_alnum L s \<longleftrightarrow>
     list_ex is_ascii_alphanumeric s \<or> (\<not> is_ascii s \<and> sl_wide_alnum L s)"

text \<open>The filter a candidate (the rest less its \<open>-\<close>) begins with, and what is left after it.\<close>

definition read_filter ::
  "search_lib \<Rightarrow> bool \<Rightarrow> string \<Rightarrow> search_filters \<Rightarrow> (search_filters \<times> string) option" where
  "read_filter L negated candidate filters =
     (if starts_with candidate [quote_char] then None
      else case split_once colon (first_word candidate) of
        None \<Rightarrow> None
      | Some (k, v) \<Rightarrow>
          if v = [] \<and> is_date_key k then
            let after_colon = trim_start (after_word candidate);
                next_word = first_word after_colon
            in if next_word = [] then None
               else map_option (\<lambda>f. (f, trim_start (after_word after_colon)))
                      (try_parse_filter_pair L k next_word negated filters)
          else map_option (\<lambda>f. (f, trim_start (after_word candidate)))
                 (try_parse_filter_pair L k v negated filters))"

text \<open>The text, whether it is a phrase, and what is left after it.\<close>

definition read_text :: "string \<Rightarrow> string \<times> bool \<times> string" where
  "read_text rest =
     (case strip_prefix [quote_char] rest of
        Some r \<Rightarrow>
          let quoted = takeWhile (\<lambda>c. c \<noteq> quote_char) r in
          (join [space] (map clean_word (split_whitespace quoted)), True, drop (length quoted + 1) r)
      | None \<Rightarrow> (clean_word (first_word rest), False, after_word rest))"

definition read_term :: "search_lib \<Rightarrow> bool \<Rightarrow> string \<Rightarrow> search_term option \<times> string" where
  "read_term L negated rest =
     (let rest = (if negated then tl rest else rest);
          (field, rest) = (case strip_field rest of
             Some (f, r) \<Rightarrow> (f, trim_start r) | None \<Rightarrow> (Any_Field, rest));
          (text, phrase, after) = read_text rest
      in (if has_alnum L text
          then Some \<lparr>st_field = field, st_text = text, st_phrase = phrase, st_negated = negated\<rparr>
          else None,
          trim_start after))"

lemma word_end_le: "word_end s \<le> length s"
  by (induction s) auto

lemma word_end_0: "word_end s = 0 \<longleftrightarrow> s = [] \<or> ws_prefix s \<noteq> 0"
  by (cases s) auto

lemma length_after_word: "length (after_word s) \<le> length s"
  by (simp add: after_word_def)

lemma after_word_shorter: "first_word s \<noteq> [] \<Longrightarrow> length (after_word s) < length s"
  by (cases s) (auto simp: first_word_def after_word_def)

lemma trim_after_word_shorter:
  assumes "s \<noteq> []"
  shows "length (trim_start (after_word s)) < length s"
proof (cases "word_end s = 0")
  case True
  with assms have ws: "ws_prefix s \<noteq> 0" by (simp add: word_end_0)
  then have "trim_start s = trim_start (drop (ws_prefix s) s)" by (simp add: trim_start.simps [of s])
  also have "length \<dots> \<le> length s - ws_prefix s" using length_trim_start by (metis length_drop)
  finally show ?thesis using True ws assms by (auto simp: after_word_def intro: le_less_trans)
next
  case False
  then have "length (after_word s) < length s" using assms by (simp add: after_word_def)
  then show ?thesis using length_trim_start le_less_trans by blast
qed

lemma read_filter_shorter:
  assumes "read_filter L neg c f = Some (f', r)"
  shows "length r < length c"
proof -
  have shorter: "length (after_word c) < length c" if "split_once colon (first_word c) = Some kv" for kv
    using that by (intro after_word_shorter) (auto simp: split_once_def)
  have once: "length (trim_start (after_word s)) \<le> length s" for s
    using length_trim_start length_after_word le_trans by blast
  from assms obtain kv where kv: "split_once colon (first_word c) = Some kv"
    by (auto simp: read_filter_def split: if_splits option.splits)
  have "r = trim_start (after_word c) \<or> r = trim_start (after_word (trim_start (after_word c)))"
    using assms by (auto simp: read_filter_def Let_def split: if_splits option.splits)
  then show ?thesis
    using shorter [OF kv] once length_trim_start le_less_trans by (metis le_trans)
qed

lemma read_text_shorter:
  assumes "rest \<noteq> []" and "read_text rest = (t, p, after)"
  shows "length (trim_start after) < length rest"
proof (cases "strip_prefix [quote_char] rest")
  case None
  with assms have "after = after_word rest" by (simp add: read_text_def)
  with assms(1) show ?thesis by (simp add: trim_after_word_shorter)
next
  case (Some r)
  then have "rest = quote_char # r" by (simp add: strip_prefix_Some)
  moreover have "length after \<le> length r" using assms Some by (auto simp: read_text_def Let_def)
  ultimately show ?thesis using length_trim_start [of after] by simp
qed

lemma read_text_no_longer: "read_text rest = (t, p, after) \<Longrightarrow> length (trim_start after) \<le> length rest"
  using read_text_shorter by (cases "rest = []") (force simp: read_text_def strip_prefix_def after_word_def)+

lemma strip_field_shorter: "strip_field s = Some (f, r) \<Longrightarrow> length r < length s"
  by (auto simp: strip_field_def FIELDS_def split: option.splits if_splits)

lemma read_term_shorter:
  assumes "rest \<noteq> []" and "read_term L neg rest = (t, r)"
  shows "length r < length rest"
proof -
  define rest' where "rest' = (if neg then tl rest else rest)"
  have le: "length rest' \<le> length rest" by (simp add: rest'_def)
  obtain field rest'' where f: "(case strip_field rest' of
      Some (f, r) \<Rightarrow> (f, trim_start r) | None \<Rightarrow> (Any_Field, rest')) = (field, rest'')" by fastforce
  obtain tx ph after where x: "read_text rest'' = (tx, ph, after)" by (metis prod_cases3)
  have r: "r = trim_start after"
    using assms(2) f x unfolding read_term_def Let_def rest'_def [symmetric] by simp
  show ?thesis
  proof (cases "strip_field rest'")
    case None
    with f have eq: "rest'' = rest'" by simp
    show ?thesis
    proof (cases neg)
      case True
      then have "length rest' < length rest" using assms(1) by (simp add: rest'_def)
      then show ?thesis using read_text_no_longer [OF x] eq r by simp
    next
      case False
      then show ?thesis using read_text_shorter [OF _ x] eq r assms(1) by (simp add: rest'_def)
    qed
  next
    case (Some fr)
    obtain f0 r0 where fr: "fr = (f0, r0)" by (cases fr)
    with Some f have "length rest'' < length rest'"
      using strip_field_shorter length_trim_start le_less_trans by (metis case_prod_conv option.simps(5) prod.inject)
    then show ?thesis using read_text_no_longer [OF x] r le by simp
  qed
qed

text \<open>
  The loop of \<open>parse_query_full\<close>: each turn takes a filter or a term off the front, so the text
  gets shorter and the loop ends on every input.
\<close>

function parse_from :: "search_lib \<Rightarrow> string \<Rightarrow> parsed_query \<Rightarrow> parsed_query" where
  "parse_from L rest q =
     (if rest = [] then q
      else
        let negated = starts_with rest [dash];
            candidate = (if negated then tl rest else rest)
        in case read_filter L negated candidate (pq_filters q) of
             Some (f, r) \<Rightarrow> parse_from L r (q\<lparr>pq_filters := f\<rparr>)
           | None \<Rightarrow>
               (case read_term L negated rest of
                  (t, r) \<Rightarrow> parse_from L r
                    (q\<lparr>pq_terms := pq_terms q @ (case t of None \<Rightarrow> [] | Some t \<Rightarrow> [t])\<rparr>)))"
  by pat_completeness auto
termination
  by (relation "measure (\<lambda>(L, rest, q). length rest)")
    (auto split: if_splits dest: read_filter_shorter read_term_shorter [OF _ sym] simp: le_less_trans)

declare parse_from.simps [simp del]

definition parse_query_full :: "search_lib \<Rightarrow> string \<Rightarrow> parsed_query" where
  "parse_query_full L raw =
     parse_from L (trim_start raw) \<lparr>pq_terms = [], pq_filters = no_filters\<rparr>"

definition parse_query :: "search_lib \<Rightarrow> string \<Rightarrow> search_term list" where
  "parse_query L raw = pq_terms (parse_query_full L raw)"

definition is_searchable :: "search_lib \<Rightarrow> string \<Rightarrow> bool" where
  "is_searchable L raw \<longleftrightarrow>
     (let q = parse_query_full L raw in
      list_ex (\<lambda>t. \<not> st_negated t) (pq_terms q) \<or> \<not> filters_empty (pq_filters q))"

subsection \<open>The index expression\<close>

definition columns_of :: "search_field \<Rightarrow> string" where
  "columns_of f = (case f of
      Any_Field \<Rightarrow> ''''
    | From_Field \<Rightarrow> ''{from_addr from_name} : ''
    | To_Field \<Rightarrow> ''{to_addrs cc_addrs bcc_addrs} : ''
    | Subject_Field \<Rightarrow> ''{subject} : '')"

definition fts_term :: "search_term \<Rightarrow> string" where
  "fts_term t =
     columns_of (st_field t) @ [quote_char]
       @ replace_all [quote_char] [quote_char, quote_char] (st_text t) @ [quote_char]
       @ (if st_phrase t then [] else [star_char])"

text \<open>The expression of a list of terms: \<open>fts_query\<close> after parsing.\<close>

definition fts_expr :: "search_term list \<Rightarrow> string option" where
  "fts_expr terms =
     (let query = join [space] (map fts_term (filter (\<lambda>t. \<not> st_negated t) terms)) in
      if query = [] then None
      else Some (fold (\<lambda>t q. ''('' @ q @ '') NOT '' @ fts_term t) (filter st_negated terms) query))"

definition fts_query :: "search_lib \<Rightarrow> string \<Rightarrow> string option" where
  "fts_query L raw = fts_expr (parse_query L raw)"

definition fts_exclusions :: "search_lib \<Rightarrow> string \<Rightarrow> string option" where
  "fts_exclusions L raw =
     (let query = join '' OR '' (map fts_term (filter st_negated (parse_query L raw))) in
      if query = [] then None else Some query)"

subsection \<open>What the search field does\<close>

datatype search_mode = Search_Off | Search_Filter | Search_Index

record search_plan =
  sp_mode :: search_mode
  sp_query :: string
  sp_hit_limit :: nat
  sp_debounce_ms :: nat

definition INDEX_MIN_CHARS :: nat where "INDEX_MIN_CHARS = 3"
definition HIT_LIMIT :: nat where "HIT_LIMIT = 50"
definition SERVER_DEBOUNCE_MS :: nat where "SERVER_DEBOUNCE_MS = 800"

definition search_plan_of :: "search_lib \<Rightarrow> string \<Rightarrow> search_plan" where
  "search_plan_of L raw =
     (let query = trim raw;
          parsed = parse_query_full L query;
          mode =
            (if query = [] then Search_Off
             else if \<not> filters_empty (pq_filters parsed) then Search_Index
             else if length (chars_of query) < INDEX_MIN_CHARS then Search_Filter
             else Search_Index)
      in \<lparr>sp_mode = mode, sp_query = query, sp_hit_limit = HIT_LIMIT,
          sp_debounce_ms = SERVER_DEBOUNCE_MS\<rparr>)"

subsection \<open>Date bounds\<close>

definition date_bounds_pass :: "string option \<Rightarrow> string option \<Rightarrow> string option \<Rightarrow> bool" where
  "date_bounds_pass date_raw after before \<longleftrightarrow>
     (if after = None \<and> before = None then True
      else
        let raw = trim (case date_raw of None \<Rightarrow> [] | Some d \<Rightarrow> d) in
        if raw = [] then False
        else if (case after of None \<Rightarrow> False | Some a \<Rightarrow> raw < a) then False
        else if (case before of None \<Rightarrow> False | Some b \<Rightarrow> b \<le> raw) then False
        else True)"

definition read_bound :: "search_lib \<Rightarrow> string option \<Rightarrow> string option" where
  "read_bound L bound = (case bound of None \<Rightarrow> None | Some s \<Rightarrow> normalise_date L (trim s))"

definition date_passes :: "search_lib \<Rightarrow> string option \<Rightarrow> string option \<Rightarrow> string option \<Rightarrow> bool" where
  "date_passes L date_raw after before \<longleftrightarrow>
     date_bounds_pass date_raw (read_bound L after) (read_bound L before)"

text \<open>A day is its number, \<open>show_day\<close> chrono's \<open>%Y-%m-%d\<close>; day arithmetic far from its bounds.\<close>

definition date_preset_range_at ::
  "(int \<Rightarrow> string) \<Rightarrow> string \<Rightarrow> int \<Rightarrow> string option \<times> string option" where
  "date_preset_range_at show_day preset today =
     (let p = ascii_lowercase (trim preset) in
      if p = ''today'' then (Some (show_day today), None)
      else if p \<in> {''week'', ''last7'', ''7days''} then (Some (show_day (today - 6)), None)
      else if p \<in> {''month'', ''last30'', ''30days''} then (Some (show_day (today - 29)), None)
      else if p \<in> {''older_month'', ''older30'', ''older''} then (None, Some (show_day (today - 29)))
      else (None, None))"

definition en_dash :: string where "en_dash = [CHR 0xE2, CHR 0x80, CHR 0x93]"
definition open_quote :: string where "open_quote = [CHR 0xE2, CHR 0x80, CHR 0x9C]"
definition close_quote :: string where "close_quote = [CHR 0xE2, CHR 0x80, CHR 0x9D]"

definition date_filter_label :: "search_lib \<Rightarrow> string option \<Rightarrow> string option \<Rightarrow> string" where
  "date_filter_label L after before =
     (case (read_bound L after, read_bound L before) of
        (None, None) \<Rightarrow> []
      | (Some a, None) \<Rightarrow> ''Since '' @ a
      | (None, Some b) \<Rightarrow> ''Before '' @ b
      | (Some a, Some b) \<Rightarrow> a @ '' '' @ en_dash @ '' '' @ b)"

subsection \<open>The short filter and the empty list\<close>

definition empty_list_text :: "bool \<Rightarrow> bool \<Rightarrow> bool \<Rightarrow> nat \<Rightarrow> string \<Rightarrow> string" where
  "empty_list_text searching server_searching quick_filter unfiltered query =
     (let query = trim query in
      if searching then
        if server_searching then ''Searching the server'' @ ellipsis
        else if quick_filter \<and> 0 < unfiltered then ''No match survives this filter''
        else if query = [] then ''No matches''
        else ''No matches for '' @ open_quote @ query @ close_quote
      else if query \<noteq> [] then ''No message matches '' @ open_quote @ query @ close_quote
      else if quick_filter then ''No message matches this filter''
      else ''This folder is empty'')"

definition filter_matches :: "search_lib \<Rightarrow> string \<Rightarrow> string \<Rightarrow> string \<Rightarrow> string \<Rightarrow> string \<Rightarrow> bool" where
  "filter_matches L query subject from_addr from_name snippet \<longleftrightarrow>
     (let q = sl_lower L (trim query) in
      q = [] \<or> list_ex (\<lambda>field. contains_sub (sl_lower L field) q) [subject, from_addr, from_name, snippet])"

end
