(* ===== verification/Search_Query_Facts.thy ===== *)
theory Search_Query_Facts
  imports Search_Query
begin

text \<open>
  What the search language promises: every term can be searched for, whatever was typed; a query
  written in the documented notation is read as written; the expression handed to the index is
  read by FTS5 as exactly the parsed terms, its operators never coming from the text.
\<close>

subsection \<open>Terms are clean\<close>

definition term_ok :: "search_lib \<Rightarrow> search_term \<Rightarrow> bool" where
  "term_ok L t \<longleftrightarrow> quote_char \<notin> set (st_text t) \<and> star_char \<notin> set (st_text t) \<and> has_alnum L (st_text t)"

definition day_ok :: "search_lib \<Rightarrow> string option \<Rightarrow> bool" where
  "day_ok L d \<longleftrightarrow> d = None \<or> d \<in> range (sl_day L)"

definition filters_ok :: "search_lib \<Rightarrow> search_filters \<Rightarrow> bool" where
  "filters_ok L f \<longleftrightarrow> day_ok L (sf_after f) \<and> day_ok L (sf_before f)"

definition query_ok :: "search_lib \<Rightarrow> parsed_query \<Rightarrow> bool" where
  "query_ok L q \<longleftrightarrow> list_all (term_ok L) (pq_terms q) \<and> filters_ok L (pq_filters q)"

lemma set_join: "set (join sep ws) \<subseteq> set sep \<union> \<Union> (set ` set ws)"
  by (induction sep ws rule: join.induct) auto

lemma set_clean_word: "c \<in> set (clean_word w) \<Longrightarrow> c \<noteq> quote_char \<and> c \<noteq> star_char"
  by (simp add: clean_word_def)

lemma read_text_clean:
  assumes "read_text s = (t, p, r)"
  shows "quote_char \<notin> set t \<and> star_char \<notin> set t"
proof (cases "strip_prefix [quote_char] s")
  case None
  with assms have "t = clean_word (first_word s)" by (simp add: read_text_def)
  then show ?thesis using set_clean_word by blast
next
  case (Some x)
  then obtain ws where t: "t = join [space] (map clean_word ws)"
    using assms by (auto simp: read_text_def Let_def)
  have "c \<noteq> quote_char \<and> c \<noteq> star_char" if "c \<in> set t" for c
    using that set_join [of "[space]" "map clean_word ws"] set_clean_word unfolding t by fastforce
  then show ?thesis by blast
qed

lemma read_term_ok: "read_term L neg rest = (Some t, r) \<Longrightarrow> term_ok L t"
  by (auto simp: read_term_def term_ok_def Let_def split: prod.splits if_splits dest: read_text_clean)

lemma normalise_date_ok: "normalise_date L s = Some d \<Longrightarrow> day_ok L (Some d)"
  unfolding normalise_date_def day_ok_def Let_def by (metis option.distinct(1) range_eqI)

lemma try_parse_filters_ok:
  "try_parse_filter_pair L k v neg f = Some f' \<Longrightarrow> filters_ok L f \<Longrightarrow> filters_ok L f'"
  by (auto simp: try_parse_filter_pair_def filters_ok_def Let_def normalise_date_ok split: if_splits)

lemma read_filter_ok: "read_filter L neg c f = Some (f', r) \<Longrightarrow> filters_ok L f \<Longrightarrow> filters_ok L f'"
  by (auto simp: read_filter_def Let_def split: if_splits option.splits intro: try_parse_filters_ok)

definition candidate_of :: "string \<Rightarrow> string" where
  "candidate_of rest = (if starts_with rest [dash] then tl rest else rest)"

definition add_term :: "search_term option \<Rightarrow> parsed_query \<Rightarrow> parsed_query" where
  "add_term t q = q\<lparr>pq_terms := pq_terms q @ (case t of None \<Rightarrow> [] | Some t \<Rightarrow> [t])\<rparr>"

lemma parse_from_Nil [simp]: "parse_from L [] q = q"
  by (simp add: parse_from.simps)

lemma parse_from_filter:
  assumes "rest \<noteq> []" and "read_filter L (starts_with rest [dash]) (candidate_of rest) (pq_filters q) = Some (f, r)"
  shows "parse_from L rest q = parse_from L r (q\<lparr>pq_filters := f\<rparr>)"
  using assms by (subst parse_from.simps) (simp add: Let_def candidate_of_def)

lemma parse_from_term:
  assumes "rest \<noteq> []" and "read_filter L (starts_with rest [dash]) (candidate_of rest) (pq_filters q) = None"
    and "read_term L (starts_with rest [dash]) rest = (t, r)"
  shows "parse_from L rest q = parse_from L r (add_term t q)"
  using assms by (subst parse_from.simps) (simp add: Let_def candidate_of_def add_term_def)

lemma parse_from_invariant:
  assumes "P q"
    and filter: "\<And>q neg c f r. P q \<Longrightarrow> read_filter L neg c (pq_filters q) = Some (f, r) \<Longrightarrow> P (q\<lparr>pq_filters := f\<rparr>)"
    and term_read: "\<And>q neg rest t r. P q \<Longrightarrow> read_term L neg rest = (t, r) \<Longrightarrow> P (add_term t q)"
  shows "P (parse_from L rest q)"
  using assms(1)
proof (induction "length rest" arbitrary: rest q rule: less_induct)
  case less
  let ?neg = "starts_with rest [dash]"
  show ?case
  proof (cases "rest = []")
    case False
    note ne = False
    have cand: "length (candidate_of rest) \<le> length rest" by (simp add: candidate_of_def)
    show ?thesis
    proof (cases "read_filter L ?neg (candidate_of rest) (pq_filters q)")
      case (Some fr)
      then obtain f r where fr: "read_filter L ?neg (candidate_of rest) (pq_filters q) = Some (f, r)"
        by (cases fr) simp
      moreover have "length r < length rest" using read_filter_shorter [OF fr] cand by simp
      ultimately show ?thesis
        using less.hyps filter [OF less.prems fr] parse_from_filter [OF ne fr] by simp
    next
      case None
      obtain t r where t: "read_term L ?neg rest = (t, r)" by fastforce
      then have "length r < length rest" by (rule read_term_shorter [OF ne])
      then show ?thesis
        using less.hyps term_read [OF less.prems t] parse_from_term [OF ne None t] by simp
    qed
  qed (simp add: less.prems)
qed

lemma parse_from_ok: "query_ok L q \<Longrightarrow> query_ok L (parse_from L rest q)"
  by (erule parse_from_invariant)
    (auto simp: query_ok_def add_term_def split: option.splits dest: read_filter_ok read_term_ok)

lemma parsed_query_ok: "query_ok L (parse_query_full L raw)"
  unfolding parse_query_full_def
  by (rule parse_from_ok) (simp add: query_ok_def filters_ok_def day_ok_def no_filters_def)

subsection \<open>What FTS5 reads\<close>

text \<open>
  FTS5 reads a string between quotes, where a doubled quote stands for one; everything outside is
  syntax. A string left open is an error.
\<close>

datatype fts_token = Syntax char | Str string

definition ahead :: "fts_token list \<Rightarrow> fts_token list option \<Rightarrow> fts_token list option" where
  "ahead toks rest = map_option ((@) toks) rest"

lemma ahead_simps [simp]:
  "ahead [] rest = rest" "ahead a None = None" "ahead a (Some b) = Some (a @ b)"
  "ahead a (ahead b rest) = ahead (a @ b) rest"
  by (cases rest; simp add: ahead_def)+

fun fts_scan :: "string option \<Rightarrow> string \<Rightarrow> fts_token list option" where
  "fts_scan None [] = Some []"
| "fts_scan (Some a) [] = None"
| "fts_scan None (c # s) =
     (if c = quote_char then fts_scan (Some []) s
      else ahead [Syntax c] (fts_scan None s))"
| "fts_scan (Some a) [c] = (if c = quote_char then Some [Str a] else None)"
| "fts_scan (Some a) (c # d # s) =
     (if c = quote_char then
        if d = quote_char then fts_scan (Some (a @ [quote_char])) s
        else ahead [Str a] (fts_scan None (d # s))
      else fts_scan (Some (a @ [c])) (d # s))"

definition syntax_of :: "string \<Rightarrow> fts_token list" where
  "syntax_of s = map Syntax s"

definition term_tokens :: "search_term \<Rightarrow> fts_token list" where
  "term_tokens t =
     syntax_of (columns_of (st_field t)) @ [Str (st_text t)] @ (if st_phrase t then [] else [Syntax star_char])"

fun join_tokens :: "fts_token list \<Rightarrow> fts_token list list \<Rightarrow> fts_token list" where
  "join_tokens sep [] = []"
| "join_tokens sep [x] = x"
| "join_tokens sep (x # y # r) = x @ sep @ join_tokens sep (y # r)"

definition query_tokens :: "search_term list \<Rightarrow> fts_token list" where
  "query_tokens terms =
     fold (\<lambda>t q. syntax_of ''('' @ q @ syntax_of '') NOT '' @ term_tokens t) (filter st_negated terms)
       (join_tokens (syntax_of '' '') (map term_tokens (filter (\<lambda>t. \<not> st_negated t) terms)))"

text \<open>A piece that does not start with a quote may follow any other piece.\<close>

definition reads_as :: "string \<Rightarrow> fts_token list \<Rightarrow> bool" where
  "reads_as e toks \<longleftrightarrow>
     (\<forall>s. (\<forall>r. s \<noteq> quote_char # r) \<longrightarrow> fts_scan None (e @ s) = ahead toks (fts_scan None s))"

lemma reads_asD: "reads_as e toks \<Longrightarrow> fts_scan None e = Some toks"
  unfolding reads_as_def by (drule spec [of _ "[]"]) simp

lemma reads_syntax: "quote_char \<notin> set s \<Longrightarrow> fts_scan None (s @ r) = ahead (syntax_of s) (fts_scan None r)"
  by (induction s) (auto simp: syntax_of_def)

lemma doubled_Nil: "replace_all [quote_char] to [] = []"
  by (simp add: replace_all.simps)

lemma doubled_quote:
  "replace_all [quote_char] to (quote_char # x) = to @ replace_all [quote_char] to x"
  by (subst replace_all.simps) simp

lemma doubled_other:
  "c \<noteq> quote_char \<Longrightarrow> replace_all [quote_char] to (c # x) = c # replace_all [quote_char] to x"
  by (subst replace_all.simps) simp

lemma scan_inside:
  assumes "\<forall>r. s \<noteq> quote_char # r"
  shows "fts_scan (Some a) (replace_all [quote_char] [quote_char, quote_char] x @ quote_char # s)
    = ahead [Str (a @ x)] (fts_scan None s)"
proof (induction x arbitrary: a)
  case Nil
  have "fts_scan (Some a) (quote_char # s) = ahead [Str a] (fts_scan None s)"
    using assms by (cases s) auto
  then show ?case by (simp add: doubled_Nil)
next
  case (Cons c x)
  have split: "fts_scan (Some a) (c # y) = fts_scan (Some (a @ [c])) y" if "c \<noteq> quote_char" "y \<noteq> []" for y
    using that by (cases y) auto
  show ?case
  proof (cases "c = quote_char")
    case True
    then show ?thesis using Cons.IH [of "a @ [quote_char]"] by (simp add: doubled_quote)
  next
    case False
    then show ?thesis using Cons.IH [of "a @ [c]"] split [OF False] by (simp add: doubled_other)
  qed
qed

lemma reads_append:
  assumes "reads_as a x" and "reads_as b y" and "\<forall>r. b \<noteq> quote_char # r" and "b \<noteq> []"
  shows "reads_as (a @ b) (x @ y)"
  unfolding reads_as_def
proof (intro allI impI)
  fix s assume s: "\<forall>r. s \<noteq> quote_char # r"
  have "\<forall>r. b @ s \<noteq> quote_char # r" using assms(3,4) by (cases b) auto
  then have "fts_scan None (a @ b @ s) = ahead x (fts_scan None (b @ s))"
    using assms(1) by (simp add: reads_as_def)
  also have "fts_scan None (b @ s) = ahead y (fts_scan None s)"
    using assms(2) s by (simp add: reads_as_def)
  finally show "fts_scan None ((a @ b) @ s) = ahead (x @ y) (fts_scan None s)"
    by (simp)
qed

lemma reads_syntax_append:
  assumes "quote_char \<notin> set s" and "reads_as e toks"
  shows "reads_as (s @ e) (syntax_of s @ toks)"
  using assms by (auto simp: reads_as_def reads_syntax)

lemma reads_syntax_only: "quote_char \<notin> set s \<Longrightarrow> reads_as s (syntax_of s)"
  by (simp add: reads_as_def reads_syntax)

lemma fts_term_reads: "reads_as (fts_term t) (term_tokens t)"
proof -
  have col: "quote_char \<notin> set (columns_of (st_field t))"
    by (cases "st_field t") (simp_all add: columns_of_def)
  let ?x = "replace_all [quote_char] [quote_char, quote_char] (st_text t)"
  have "fts_scan None (quote_char # ?x @ quote_char # (if st_phrase t then [] else [star_char]) @ s)
      = ahead ([Str (st_text t)] @ (if st_phrase t then [] else [Syntax star_char])) (fts_scan None s)"
    if "\<forall>r. s \<noteq> quote_char # r" for s
    using that scan_inside [of "(if st_phrase t then [] else [star_char]) @ s" "[]" "st_text t"]
    by (auto simp:)
  then show ?thesis
    using reads_syntax [OF col]
    by (simp add: reads_as_def fts_term_def term_tokens_def)
qed

definition starts_plain :: "string \<Rightarrow> bool" where
  "starts_plain e \<longleftrightarrow> e \<noteq> [] \<and> (\<forall>r. e \<noteq> quote_char # r)"

lemma reads_separated:
  assumes "reads_as a x" and "reads_as b y" and "quote_char \<notin> set sep" and "sep \<noteq> []"
  shows "reads_as (a @ sep @ b) (x @ syntax_of sep @ y)"
proof (rule reads_append [OF assms(1)])
  show "reads_as (sep @ b) (syntax_of sep @ y)" by (rule reads_syntax_append [OF assms(3,2)])
  show "\<forall>r. sep @ b \<noteq> quote_char # r" using assms(3,4) by (cases sep) auto
  show "sep @ b \<noteq> []" using assms(4) by simp
qed

lemma reads_join:
  assumes "quote_char \<notin> set sep" and "sep \<noteq> []"
  shows "reads_as (join sep (map fts_term ts)) (join_tokens (syntax_of sep) (map term_tokens ts))"
proof (induction ts)
  case Nil
  show ?case by (simp add: reads_as_def)
next
  case (Cons t ts)
  then show ?case
    using fts_term_reads reads_separated [OF fts_term_reads [of t] _ assms] by (cases ts) auto
qed

lemma reads_excluding:
  assumes "reads_as e toks"
  shows "reads_as (''('' @ e @ '') NOT '' @ fts_term t) (syntax_of ''('' @ toks @ syntax_of '') NOT '' @ term_tokens t)"
proof (rule reads_syntax_append)
  show "reads_as (e @ '') NOT '' @ fts_term t) (toks @ syntax_of '') NOT '' @ term_tokens t)"
    by (rule reads_separated [OF assms fts_term_reads]) simp_all
qed simp

lemma reads_exclusions:
  "reads_as e toks \<Longrightarrow>
    reads_as (fold (\<lambda>t q. ''('' @ q @ '') NOT '' @ fts_term t) ts e)
      (fold (\<lambda>t q. syntax_of ''('' @ q @ syntax_of '') NOT '' @ term_tokens t) ts toks)"
proof (induction ts arbitrary: e toks)
  case (Cons t ts)
  from Cons.IH [OF reads_excluding [OF Cons.prems, of t]] show ?case by simp
qed simp

lemma join_fts_term_empty: "join [space] (map fts_term ts) = [] \<longleftrightarrow> ts = []"
proof (cases ts)
  case (Cons t us)
  have "fts_term t \<noteq> []" by (simp add: fts_term_def)
  with Cons show ?thesis by (cases us) auto
qed simp

lemma fts_expr_reads:
  "case fts_expr ts of
     None \<Rightarrow> list_all st_negated ts
   | Some e \<Rightarrow> list_ex (\<lambda>t. \<not> st_negated t) ts \<and> fts_scan None e = Some (query_tokens ts)"
proof (cases "filter (\<lambda>t. \<not> st_negated t) ts = []")
  case True
  then show ?thesis by (auto simp: fts_expr_def list_all_iff filter_empty_conv)
next
  case False
  have "reads_as (join [space] (map fts_term (filter (\<lambda>t. \<not> st_negated t) ts)))
      (join_tokens (syntax_of '' '') (map term_tokens (filter (\<lambda>t. \<not> st_negated t) ts)))"
    by (rule reads_join) simp_all
  from reads_asD [OF reads_exclusions [OF this]] False show ?thesis
    by (auto simp: fts_expr_def Let_def join_fts_term_empty query_tokens_def filter_empty_conv list_ex_iff)
qed

text \<open>
  C38. The expression handed to the full-text index means what was parsed: FTS5 reads it without an
  error as the terms' texts in strings of their own, wanted terms side by side, excluded ones behind
  \<open>NOT\<close>; column filters, brackets and operators come from the terms' kinds alone, so nothing typed can
  change the shape of the query. There is no expression exactly when no wanted term was typed.
\<close>

theorem index_expression_is_the_query:
  "case fts_query L raw of
     None \<Rightarrow> list_all st_negated (parse_query L raw)
   | Some e \<Rightarrow> list_ex (\<lambda>t. \<not> st_negated t) (parse_query L raw)
       \<and> fts_scan None e = Some (query_tokens (parse_query L raw))"
  unfolding fts_query_def by (rule fts_expr_reads)

text \<open>
  Whatever is typed, a parsed term can be searched for: it holds neither a quote nor a star
  and does hold a letter or a digit; and the date bounds are days as chrono prints them.
\<close>

theorem parsed_terms_are_searchable:
  "list_all (term_ok L) (parse_query L raw) \<and> filters_ok L (pq_filters (parse_query_full L raw))"
  using parsed_query_ok [of L raw] by (simp add: query_ok_def parse_query_def)

end
