(* ===== verification/Search_Notation.thy ===== *)
theory Search_Notation
  imports Search_Query_Facts
begin

text \<open>
  The notation the search help shows, written down as a printer, and the law that
  \<open>parse_query_full\<close> reads a query back as it was written.
\<close>

subsection \<open>Words and the white space around them\<close>

fun no_ws :: "string \<Rightarrow> bool" where
  "no_ws [] = True"
| "no_ws (c # w) \<longleftrightarrow> ws_prefix (c # w) = 0 \<and> no_ws w"

definition ends_word :: "string \<Rightarrow> bool" where
  "ends_word s \<longleftrightarrow> s = [] \<or> hd s = space"

lemma ws_len_stops:
  assumes "ws_len x = 0" and "x \<noteq> []"
  shows "ws_len (x @ 32 # r) = 0"
proof -
  from assms(2) obtain a y where x: "x = a # y" by (cases x) auto
  show ?thesis
  proof (cases y)
    case Nil
    with assms(1) x show ?thesis by (cases r) (auto simp: ws_len_def split: if_splits)
  next
    case (Cons b z)
    with assms(1) x show ?thesis by (cases z) (auto simp: ws_len_def split: if_splits)
  qed
qed

lemma ws_len_take3: "ws_len (take 3 x) = ws_len x"
proof (cases x)
  case (Cons a y)
  then show ?thesis
  proof (cases y)
    case (Cons b z)
    with \<open>x = a # y\<close> show ?thesis by (cases z) (simp_all add: ws_len_def)
  qed simp
qed simp

lemma ws_prefix_alt: "ws_prefix s = ws_len (map code s)"
  by (simp only: ws_prefix_def take_map [symmetric] ws_len_take3)

lemma ws_prefix_stops:
  assumes "ws_prefix w = 0" and "w \<noteq> []" and "ends_word s"
  shows "ws_prefix (w @ s) = 0"
proof (cases s)
  case (Cons c r)
  with assms(3) have "c = space" by (simp add: ends_word_def)
  have "ws_len (map code w @ 32 # map code r) = 0"
    using assms(1,2) by (intro ws_len_stops) (auto simp: ws_prefix_alt)
  then show ?thesis using Cons \<open>c = space\<close> by (simp add: ws_prefix_alt)
qed (use assms in simp)

lemma ws_prefix_space: "ws_prefix (space # s) = 1"
  by (simp add: ws_prefix_def ws_len_def)

lemma word_end_append: "no_ws w \<Longrightarrow> ends_word s \<Longrightarrow> word_end (w @ s) = length w"
proof (induction w)
  case Nil
  then show ?case by (cases s) (auto simp: ends_word_def ws_prefix_space)
next
  case (Cons c w)
  then show ?case using ws_prefix_stops [of "c # w" s] by simp
qed

lemma first_word_append [simp]: "no_ws w \<Longrightarrow> ends_word s \<Longrightarrow> first_word (w @ s) = w"
  by (simp add: first_word_def word_end_append)

lemma after_word_append [simp]: "no_ws w \<Longrightarrow> ends_word s \<Longrightarrow> after_word (w @ s) = s"
  by (simp add: after_word_def word_end_append)

lemma trim_start_id: "ws_prefix s = 0 \<Longrightarrow> trim_start s = s"
  by (simp add: trim_start.simps)

lemma trim_start_space: "trim_start (space # s) = trim_start s"
  by (subst trim_start.simps) (simp add: ws_prefix_space)

lemma word_end_graphic: "graphic c \<Longrightarrow> word_end (c # s) = Suc (word_end s)"
  by (simp add: ws_prefix_graphic)

lemma first_word_graphic: "list_all graphic p \<Longrightarrow> first_word (p @ s) = p @ first_word s"
  by (induction p) (auto simp: first_word_def ws_prefix_graphic)

lemma ws_prefix_graphic_append: "list_all graphic p \<Longrightarrow> p \<noteq> [] \<Longrightarrow> ws_prefix (p @ s) = 0"
  by (cases p) (auto simp: ws_prefix_graphic)

subsection \<open>Terms\<close>

definition field_prefix :: "search_field \<Rightarrow> string" where
  "field_prefix f = (case f of Any_Field \<Rightarrow> [] | From_Field \<Rightarrow> ''from:'' | To_Field \<Rightarrow> ''to:''
     | Subject_Field \<Rightarrow> ''subject:'')"

definition show_text :: "search_term \<Rightarrow> string" where
  "show_text t = (if st_phrase t then [quote_char] @ st_text t @ [quote_char] else st_text t)"

definition show_term :: "search_term \<Rightarrow> string" where
  "show_term t = (if st_negated t then [dash] else []) @ field_prefix (st_field t) @ show_text t"

text \<open>
  What the notation can say: a phrase is words with single spaces between them, a word has no white
  space; outside a field a word holds no colon and does not begin with the exclusion mark.
\<close>

definition writable :: "search_lib \<Rightarrow> search_term \<Rightarrow> bool" where
  "writable L t \<longleftrightarrow> term_ok L t
     \<and> (if st_phrase t then join [space] (split_whitespace (st_text t)) = st_text t
        else no_ws (st_text t)
          \<and> (st_field t = Any_Field \<longrightarrow> colon \<notin> set (st_text t) \<and> hd (st_text t) \<noteq> dash))"

lemma writable_text: "writable L t \<Longrightarrow> st_text t \<noteq> []"
  by (auto simp: writable_def term_ok_def has_alnum_def is_ascii_def)

lemma clean_word_id: "quote_char \<notin> set w \<Longrightarrow> star_char \<notin> set w \<Longrightarrow> clean_word w = w"
  unfolding clean_word_def by (rule filter_True) auto

lemma join_words: "set w \<subseteq> set (join sep ws)" if "w \<in> set ws"
  using that by (induction sep ws rule: join.induct) auto

lemma show_text_ws:
  assumes "writable L t"
  shows "ends_word s \<Longrightarrow> ws_prefix (show_text t @ s) = 0" and "show_text t \<noteq> []"
  using assms writable_text [OF assms]
  by (cases "st_text t"; auto simp: show_text_def writable_def ws_prefix_graphic graphic_def
      intro: ws_prefix_stops [of "a # b" for a b, simplified])+

lemma read_text_show:
  assumes "writable L t" and "ends_word s"
  shows "read_text (show_text t @ s) = (st_text t, st_phrase t, s)"
proof (cases "st_phrase t")
  case True
  let ?ws = "split_whitespace (st_text t)"
  have text_eq: "join [space] ?ws = st_text t" and clean: "quote_char \<notin> set (st_text t)" "star_char \<notin> set (st_text t)"
    using assms True by (auto simp: writable_def term_ok_def)
  have "map clean_word ?ws = ?ws"
    using clean join_words [of _ ?ws "[space]"] clean_word_id unfolding text_eq
    by (intro map_idI) blast
  moreover have "takeWhile (\<lambda>c. c \<noteq> quote_char) (st_text t @ quote_char # s) = st_text t"
    using clean by (simp add: takeWhile_append2 takeWhile_tail) (metis (mono_tags, lifting) takeWhile_append2 takeWhile.simps(2) append_Nil2)
  ultimately show ?thesis using True text_eq
    by (simp add: read_text_def show_text_def strip_prefix_def)
next
  case False
  then have "no_ws (st_text t)" and clean: "quote_char \<notin> set (st_text t)" "star_char \<notin> set (st_text t)"
    using assms by (auto simp: writable_def term_ok_def)
  moreover have "strip_prefix [quote_char] (st_text t @ s) = None"
    using clean(1) writable_text [OF assms(1)] by (cases "st_text t") (auto simp: strip_prefix_def)
  ultimately show ?thesis using False assms(2)
    by (simp add: read_text_def show_text_def clean_word_id)
qed

lemma eq_ignore_append:
  "length a = length b \<Longrightarrow>
    eq_ignore_ascii_case (a @ c) (b @ d) \<longleftrightarrow> eq_ignore_ascii_case a b \<and> eq_ignore_ascii_case c d"
  by (simp add: eq_ignore_ascii_case_def ascii_lowercase_append)

lemma lower_colon: "to_ascii_lower c = colon \<longleftrightarrow> c = colon"
proof (cases "65 \<le> code c \<and> code c \<le> 90")
  case True
  then have "code (to_ascii_lower c) = code c + 32" by (simp add: to_ascii_lower_def)
  with True show ?thesis by (auto simp del: of_char_eq_iff dest!: arg_cong [of _ _ code])
qed (auto simp: to_ascii_lower_def)

lemma lower_graphic: "graphic (to_ascii_lower c) \<longleftrightarrow> graphic c"
  by (auto simp: to_ascii_lower_def graphic_def)

text \<open>A field name is graphic text closed by a colon: it is not found in a word without one.\<close>

lemma no_field_name:
  assumes "colon \<notin> set w" and "ends_word s" and "list_all graphic p"
  shows "\<not> eq_ignore_ascii_case (take (length p + 1) (w @ s)) (p @ [colon])"
proof
  assume "eq_ignore_ascii_case (take (length p + 1) (w @ s)) (p @ [colon])"
  then have low: "map to_ascii_lower (take (length p + 1) (w @ s)) = map to_ascii_lower p @ [colon]"
    by (simp add: eq_ignore_ascii_case_def ascii_lowercase_def lower_colon [THEN iffD2])
  then have len: "length p < length (w @ s)" by (metis (no_types, lifting) Suc_eq_plus1 Suc_le_lessD
      length_append_singleton length_map length_take min.absorb_iff2 min.commute)
  have nth: "to_ascii_lower ((w @ s) ! i) = (map to_ascii_lower p @ [colon]) ! i" if "i \<le> length p" for i
    using arg_cong [OF low, of "\<lambda>x. x ! i"] that len by (simp del: take_append map_append)
  show False
  proof (cases "length p < length w")
    case True
    then have "w ! length p = colon" using nth [of "length p"] by (simp add: nth_append lower_colon)
    then show False using True assms(1) nth_mem by metis
  next
    case False
    have "graphic colon" by (simp add: graphic_def)
    from False len have "s \<noteq> []" by auto
    then have "(w @ s) ! length w = space" using assms(2) by (cases s) (auto simp: ends_word_def nth_append)
    moreover have "graphic ((map to_ascii_lower p @ [colon]) ! length w)"
      using False assms(3) \<open>graphic colon\<close> by (auto simp: nth_append lower_graphic list_all_length)
    moreover have "to_ascii_lower space = space" "\<not> graphic space"
      by (simp_all add: to_ascii_lower_def graphic_def)
    ultimately show False using nth [of "length w"] False by simp
  qed
qed

lemma strip_field_plain:
  assumes "colon \<notin> set w" and "ends_word s"
  shows "strip_field (w @ s) = None"
  using no_field_name [OF assms, of "''from''"] no_field_name [OF assms, of "''to''"]
    no_field_name [OF assms, of "''subject''"]
  by (auto simp: strip_field_def FIELDS_def graphic_def)

lemma strip_field_quote: "strip_field (quote_char # s) = None"
  by (simp add: strip_field_def FIELDS_def eq_ignore_ascii_case_def ascii_lowercase_def to_ascii_lower_def)

lemma strip_field_prefix:
  "f \<noteq> Any_Field \<Longrightarrow> strip_field (field_prefix f @ s) = Some (f, s)"
  by (cases f) (simp_all add: strip_field_def FIELDS_def field_prefix_def eq_ignore_ascii_case_def
      ascii_lowercase_def to_ascii_lower_def)

lemma read_filter_field:
  assumes "f \<noteq> Any_Field"
  shows "read_filter L neg (field_prefix f @ s) fs = None"
proof -
  obtain p where p: "field_prefix f = p @ [colon]" "list_all graphic (p @ [colon])" "colon \<notin> set p" "p \<noteq> []"
      "hd p \<noteq> quote_char" "\<not> is_date_key p" "\<And>v. try_parse_filter_pair L p v neg fs = None"
    using assms
  proof (cases f)
    case From_Field
    then show ?thesis by (intro that [of "''from''"]) (simp_all add: field_prefix_def graphic_def is_date_key_def
      try_parse_filter_pair_def eq_ignore_ascii_case_def ascii_lowercase_def to_ascii_lower_def)
  next
    case To_Field
    then show ?thesis by (intro that [of "''to''"]) (simp_all add: field_prefix_def graphic_def is_date_key_def
      try_parse_filter_pair_def eq_ignore_ascii_case_def ascii_lowercase_def to_ascii_lower_def)
  next
    case Subject_Field
    then show ?thesis by (intro that [of "''subject''"]) (simp_all add: field_prefix_def graphic_def is_date_key_def
      try_parse_filter_pair_def eq_ignore_ascii_case_def ascii_lowercase_def to_ascii_lower_def)
  qed simp
  have "split_once colon (first_word (field_prefix f @ s)) = Some (p, first_word s)"
    unfolding p(1) using first_word_graphic [OF p(2)] p(3) by (simp add: split_once_Some)
  moreover have "\<not> starts_with (field_prefix f @ s) [quote_char]" using p(1,4,5) by (cases p) auto
  ultimately show ?thesis using p(6,7) by (simp add: read_filter_def)
qed

lemma read_filter_plain:
  assumes "no_ws w" and "ends_word s" and "colon \<notin> set w"
  shows "read_filter L neg (w @ s) fs = None"
  using assms by (simp add: read_filter_def split_once_def)

lemma parse_term:
  assumes w: "writable L t" and s: "ends_word s"
  shows "parse_from L (show_term t @ s) q = parse_from L (trim_start s) (add_term (Some t) q)"
proof -
  let ?body = "field_prefix (st_field t) @ show_text t @ s"
  have ne: "show_text t \<noteq> []" and ws: "ws_prefix (show_text t @ s) = 0"
    using show_text_ws [OF w] s by blast+
  have "starts_with (show_term t @ s) [dash] \<longleftrightarrow> st_negated t"
    and body: "(if st_negated t then tl (show_term t @ s) else show_term t @ s) = ?body"
  proof -
    have "hd ?body \<noteq> dash \<and> ?body \<noteq> []" if "\<not> st_negated t"
      using w writable_text [OF w]
      by (cases "st_field t") (auto simp: field_prefix_def show_text_def writable_def)
    then show "starts_with (show_term t @ s) [dash] \<longleftrightarrow> st_negated t"
      by (cases ?body) (auto simp: show_term_def)
  qed (simp add: show_term_def)
  then have neg: "starts_with (show_term t @ s) [dash] = st_negated t" by blast
  have cand: "candidate_of (show_term t @ s) = ?body" using body neg by (simp add: candidate_of_def)
  have plain: "st_phrase t \<or> (no_ws (st_text t) \<and> colon \<notin> set (st_text t))" if "st_field t = Any_Field"
    using w that by (auto simp: writable_def)
  have filter: "read_filter L (st_negated t) ?body (pq_filters q) = None"
  proof (cases "st_field t = Any_Field")
    case True
    then show ?thesis using plain read_filter_plain s
      by (cases "st_phrase t") (auto simp: field_prefix_def show_text_def read_filter_def)
  qed (rule read_filter_field)
  have field: "(case strip_field ?body of Some (f, r) \<Rightarrow> (f, trim_start r) | None \<Rightarrow> (Any_Field, ?body))
      = (st_field t, show_text t @ s)"
  proof (cases "st_field t = Any_Field")
    case True
    then have "strip_field ?body = None" using plain strip_field_plain s strip_field_quote
      by (cases "st_phrase t") (auto simp: field_prefix_def show_text_def)
    with True show ?thesis by (simp add: field_prefix_def)
  qed (simp add: strip_field_prefix trim_start_id ws)
  have "read_term L (st_negated t) (show_term t @ s) = (Some t, trim_start s)"
    unfolding read_term_def Let_def body field
    using read_text_show [OF w s] w by (simp add: writable_def term_ok_def)
  then show ?thesis
    using parse_from_term [of "show_term t @ s" L q] neg cand filter ne by (simp add: show_term_def)
qed

subsection \<open>Filters and whole queries\<close>

definition show_filter :: "bool \<Rightarrow> string \<Rightarrow> string \<Rightarrow> string" where
  "show_filter negated key val = (if negated then [dash] else []) @ key @ [colon] @ val"

definition filter_tokens :: "search_filters \<Rightarrow> string list" where
  "filter_tokens f =
     (case sf_unread f of None \<Rightarrow> []
      | Some u \<Rightarrow> [show_filter False ''is'' (if u then ''unread'' else ''read'')])
   @ (case sf_starred f of None \<Rightarrow> [] | Some b \<Rightarrow> [show_filter (\<not> b) ''is'' ''starred''])
   @ (case sf_has_attachments f of None \<Rightarrow> [] | Some b \<Rightarrow> [show_filter (\<not> b) ''has'' ''attachment''])
   @ (case sf_after f of None \<Rightarrow> [] | Some d \<Rightarrow> [show_filter False ''after'' d])
   @ (case sf_before f of None \<Rightarrow> [] | Some d \<Rightarrow> [show_filter False ''before'' d])"

definition show_query :: "parsed_query \<Rightarrow> string" where
  "show_query q = join [space] (map show_term (pq_terms q) @ filter_tokens (pq_filters q))"

definition writable_day :: "search_lib \<Rightarrow> string option \<Rightarrow> bool" where
  "writable_day L d \<longleftrightarrow> (case d of None \<Rightarrow> True | Some d \<Rightarrow> no_ws d \<and> normalise_date L d = Some d)"

definition writable_query :: "search_lib \<Rightarrow> parsed_query \<Rightarrow> bool" where
  "writable_query L q \<longleftrightarrow> list_all (writable L) (pq_terms q)
     \<and> writable_day L (sf_after (pq_filters q)) \<and> writable_day L (sf_before (pq_filters q))"

text \<open>A token is read whole when parsing goes on behind it with its effect.\<close>

definition token_reads :: "search_lib \<Rightarrow> string \<Rightarrow> (parsed_query \<Rightarrow> parsed_query) \<Rightarrow> bool" where
  "token_reads L tok g \<longleftrightarrow> tok \<noteq> [] \<and>
     (\<forall>s q. ends_word s \<longrightarrow> ws_prefix (tok @ s) = 0
        \<and> parse_from L (tok @ s) q = parse_from L (trim_start s) (g q))"

lemma term_reads: "writable L t \<Longrightarrow> token_reads L (show_term t) (add_term (Some t))"
proof -
  assume w: "writable L t"
  have "ws_prefix (show_term t @ s) = 0" if "ends_word s" for s
    using show_text_ws [OF w] that
    by (cases "st_negated t"; cases "st_field t")
      (auto simp: show_term_def field_prefix_def ws_prefix_graphic graphic_def)
  moreover have "show_term t \<noteq> []" using show_text_ws(2) [OF w] by (simp add: show_term_def)
  ultimately show ?thesis using parse_term [OF w] by (simp add: token_reads_def)
qed

lemma no_ws_graphic_append: "list_all graphic p \<Longrightarrow> no_ws s \<Longrightarrow> no_ws (p @ s)"
  by (induction p) (auto simp: ws_prefix_graphic)

lemma filter_reads:
  assumes key: "list_all graphic key" "colon \<notin> set key" "key \<noteq> []" "hd key \<noteq> dash" "hd key \<noteq> quote_char"
    and val: "no_ws val" "val \<noteq> []"
    and eff: "\<And>f. try_parse_filter_pair L key val neg f = Some (eff f)"
  shows "token_reads L (show_filter neg key val) (\<lambda>q. q\<lparr>pq_filters := eff (pq_filters q)\<rparr>)"
proof -
  let ?kv = "key @ colon # val"
  have kv: "no_ws ?kv" using no_ws_graphic_append [OF key(1), of "colon # val"] val(1)
    by (simp add: ws_prefix_graphic graphic_def)
  have "parse_from L (show_filter neg key val @ s) q
      = parse_from L (trim_start s) (q\<lparr>pq_filters := eff (pq_filters q)\<rparr>)" if s: "ends_word s" for s q
  proof (rule parse_from_filter)
    have dash: "starts_with (show_filter neg key val @ s) [dash] = neg"
      using key(3,4) by (cases key) (auto simp: show_filter_def)
    moreover have "candidate_of (show_filter neg key val @ s) = ?kv @ s"
      using dash by (auto simp: candidate_of_def show_filter_def)
    moreover have "\<not> starts_with (?kv @ s) [quote_char]" using key(3,5) by (cases key) auto
    moreover have "split_once colon ?kv = Some (key, val)" using key(2) by (simp add: split_once_Some)
    ultimately show "read_filter L (starts_with (show_filter neg key val @ s) [dash])
        (candidate_of (show_filter neg key val @ s)) (pq_filters q) = Some (eff (pq_filters q), trim_start s)"
      using first_word_append [OF kv s] after_word_append [OF kv s] val(2) eff
      by (simp add: read_filter_def)
  qed (simp add: show_filter_def)
  moreover have "ws_prefix (show_filter neg key val @ s) = 0" for s
    using key(1,3) by (cases key) (auto simp: show_filter_def ws_prefix_graphic graphic_def)
  ultimately show ?thesis by (simp add: token_reads_def show_filter_def)
qed

lemma tokens_read:
  "list_all2 (token_reads L) toks gs \<Longrightarrow> parse_from L (join [space] toks) q = fold (\<lambda>g. g) gs q"
proof (induction toks gs arbitrary: q rule: list_all2_induct)
  case (Cons tok toks g gs)
  show ?case
  proof (cases toks)
    case Nil
    then have "gs = []" using Cons.hyps(2) by simp
    then show ?thesis using Cons.hyps(1) Nil by (force simp: token_reads_def ends_word_def)
  next
    case (Cons tok' toks')
    then obtain g' where "token_reads L tok' g'" using Cons.hyps(2) by (cases gs) auto
    then have "ws_prefix (join [space] toks) = 0"
      using Cons by (cases toks') (auto simp: token_reads_def ends_word_def dest: spec [of _ "[]"])
    then have "trim_start (space # join [space] toks) = join [space] toks"
      by (simp add: trim_start_space trim_start_id)
    moreover have "join [space] (tok # toks) = tok @ space # join [space] toks" using Cons by simp
    moreover have "ends_word (space # join [space] toks)" by (simp add: ends_word_def)
    ultimately show ?thesis using Cons.hyps(1) Cons.IH by (simp add: token_reads_def)
  qed
qed simp

definition filter_effects :: "search_filters \<Rightarrow> (search_filters \<Rightarrow> search_filters) list" where
  "filter_effects f =
     (case sf_unread f of None \<Rightarrow> [] | Some u \<Rightarrow> [sf_unread_update (\<lambda>_. Some u)])
   @ (case sf_starred f of None \<Rightarrow> [] | Some b \<Rightarrow> [sf_starred_update (\<lambda>_. Some b)])
   @ (case sf_has_attachments f of None \<Rightarrow> [] | Some b \<Rightarrow> [sf_has_attachments_update (\<lambda>_. Some b)])
   @ (case sf_after f of None \<Rightarrow> [] | Some d \<Rightarrow> [sf_after_update (\<lambda>_. Some d)])
   @ (case sf_before f of None \<Rightarrow> [] | Some d \<Rightarrow> [sf_before_update (\<lambda>_. Some d)])"

definition on_filters :: "(search_filters \<Rightarrow> search_filters) \<Rightarrow> parsed_query \<Rightarrow> parsed_query" where
  "on_filters g q = q\<lparr>pq_filters := g (pq_filters q)\<rparr>"

lemma normalised_nonempty: "normalise_date L d = Some x \<Longrightarrow> d \<noteq> []"
  by (auto simp: normalise_date_def)

lemmas filter_pair_simps = try_parse_filter_pair_def eq_ignore_ascii_case_def ascii_lowercase_def
  to_ascii_lower_def Let_def graphic_def ws_prefix_graphic

lemma flag_reads:
  "token_reads L (show_filter False ''is'' (if u then ''unread'' else ''read''))
     (on_filters (sf_unread_update (\<lambda>_. Some u)))"
  "token_reads L (show_filter (\<not> b) ''is'' ''starred'') (on_filters (sf_starred_update (\<lambda>_. Some b)))"
  "token_reads L (show_filter (\<not> b) ''has'' ''attachment'')
     (on_filters (sf_has_attachments_update (\<lambda>_. Some b)))"
  unfolding on_filters_def by (rule filter_reads; simp add: filter_pair_simps)+

lemma day_reads:
  assumes "no_ws d" and "normalise_date L d = Some d"
  shows "token_reads L (show_filter False ''after'' d) (on_filters (sf_after_update (\<lambda>_. Some d)))"
    and "token_reads L (show_filter False ''before'' d) (on_filters (sf_before_update (\<lambda>_. Some d)))"
  using assms normalised_nonempty [OF assms(2)] unfolding on_filters_def
  by (auto intro!: filter_reads simp: filter_pair_simps)

lemma filters_read:
  assumes "writable_day L (sf_after f)" and "writable_day L (sf_before f)"
  shows "list_all2 (token_reads L) (filter_tokens f) (map on_filters (filter_effects f))"
  using assms flag_reads day_reads unfolding filter_tokens_def filter_effects_def map_append
  by (intro list_all2_appendI) (auto simp: writable_day_def split: option.splits)

lemma fold_terms:
  "fold (\<lambda>g. g) (map (\<lambda>t. add_term (Some t)) ts) q = q\<lparr>pq_terms := pq_terms q @ ts\<rparr>"
  by (induction ts arbitrary: q) (simp_all add: add_term_def)

lemma fold_filters:
  "fold (\<lambda>g. g) (map on_filters gs) q = q\<lparr>pq_filters := fold (\<lambda>g. g) gs (pq_filters q)\<rparr>"
  by (induction gs arbitrary: q) (simp_all add: on_filters_def)

lemma effects_rebuild: "fold (\<lambda>g. g) (filter_effects f) no_filters = f"
  by (cases f) (auto simp: filter_effects_def no_filters_def split: option.splits)

text \<open>
  C37. The notation round-trips: a query written as the help shows it (words, quoted phrases, \<open>-\<close>,
  \<open>from:\<close>/\<open>to:\<close>/\<open>subject:\<close>, the filter tokens with days in canonical form) is read back by
  \<open>parse_query_full\<close> as exactly those terms, in their order, and those filters.
\<close>

theorem query_notation_round_trip:
  assumes "writable_query L q"
  shows "parse_query_full L (show_query q) = q"
proof -
  let ?toks = "map show_term (pq_terms q) @ filter_tokens (pq_filters q)"
  let ?gs = "map (\<lambda>t. add_term (Some t)) (pq_terms q) @ map on_filters (filter_effects (pq_filters q))"
  have reads: "list_all2 (token_reads L) ?toks ?gs"
    using assms filters_read term_reads
    by (intro list_all2_appendI) (auto simp: writable_query_def list_all2_conv_all_nth list_all_length)
  have "ws_prefix (show_query q) = 0"
  proof (cases ?toks)
    case (Cons tok toks)
    then obtain g where "token_reads L tok g" using reads by (cases ?gs) auto
    then show ?thesis using Cons
      by (cases toks) (auto simp: show_query_def token_reads_def ends_word_def dest: spec [of _ "[]"])
  qed (simp add: show_query_def)
  then have "parse_query_full L (show_query q) = fold (\<lambda>g. g) ?gs \<lparr>pq_terms = [], pq_filters = no_filters\<rparr>"
    using tokens_read [OF reads] by (simp add: parse_query_full_def show_query_def trim_start_id)
  then show ?thesis by (simp add: fold_terms fold_filters effects_rebuild)
qed

text \<open>The days of the witnesses: texts of ten characters, years of four digits.\<close>

definition plain_lib :: search_lib where
  "plain_lib = \<lparr>sl_day = (\<lambda>s. if length s = 10 then Some s else None), sl_wide_alnum = (\<lambda>_. False),
     sl_lower = ascii_lowercase, sl_astring = Some\<rparr>"

definition sample_query :: parsed_query where
  "sample_query = \<lparr>pq_terms =
     [\<lparr>st_field = Any_Field, st_text = ''inv'', st_phrase = False, st_negated = False\<rparr>,
      \<lparr>st_field = Any_Field, st_text = ''is:a b'', st_phrase = True, st_negated = False\<rparr>,
      \<lparr>st_field = From_Field, st_text = ''x:y'', st_phrase = False, st_negated = True\<rparr>],
     pq_filters = no_filters\<lparr>sf_starred := Some False, sf_after := Some ''2026-01-31''\<rparr>\<rparr>"

lemma sample_query_shown:
  "show_query sample_query = ''inv '' @ [quote_char] @ ''is:a b'' @ [quote_char] @ '' -from:x:y -is:starred after:2026-01-31''"
  by (simp add: show_query_def sample_query_def show_term_def show_text_def field_prefix_def
      filter_tokens_def show_filter_def no_filters_def)

theorem query_notation_round_trip_witness:
  "parse_query_full plain_lib (show_query sample_query) = sample_query"
proof -
  have "split_whitespace ''is:a b'' = [''is:a'', ''b'']" by code_simp
  then have "writable_query plain_lib sample_query"
    by (simp add: writable_query_def sample_query_def writable_def term_ok_def has_alnum_def writable_day_def
        no_filters_def plain_lib_def normalise_date_def ws_prefix_graphic graphic_def
        is_ascii_alphanumeric_def is_ascii_alpha_def is_ascii_digit_def)
  then show ?thesis by (rule query_notation_round_trip)
qed

end
