(* ===== verification/List_Filter.thy ===== *)
theory List_Filter
  imports Search_Query Mail_Store "HOL-Library.Multiset"
begin

text \<open>
  The message list's filters (\<open>search/list_filter.rs\<close>): which rows of a folder or of the search hits
  pass the quick filters and the short typed text, and the check of a typed date range. JSON is left
  to serde: the model starts at the values it decodes.
\<close>

record list_filter =
  lf_unread :: bool
  lf_starred :: bool
  lf_attachments :: bool
  lf_after :: string
  lf_before :: string
  lf_text :: string

definition default_filter :: list_filter where
  "default_filter = \<lparr>lf_unread = False, lf_starred = False, lf_attachments = False, lf_after = [],
     lf_before = [], lf_text = []\<rparr>"

record list_row =
  lr_date_raw :: "string option"
  lr_unread :: bool
  lr_starred :: bool
  lr_has_attachments :: bool
  lr_subject :: string
  lr_from :: string
  lr_from_name :: string
  lr_snippet :: string

definition NO_SUBJECT :: string where "NO_SUBJECT = ''(no subject)''"
definition NO_SENDER :: string where "NO_SENDER = ''?''"

definition or_text :: "string option \<Rightarrow> string \<Rightarrow> string" where
  "or_text a b = (case a of Some x \<Rightarrow> x | None \<Rightarrow> b)"

definition row_shown :: "compact_message \<Rightarrow> bool \<Rightarrow> list_row" where
  "row_shown m is_trash =
     \<lparr>lr_date_raw = c_date m, lr_unread = (\<not> is_trash \<and> \<not> c_is_read m), lr_starred = c_is_starred m,
      lr_has_attachments = c_has_attachments m, lr_subject = or_text (c_subject m) NO_SUBJECT,
      lr_from = or_text (c_from_addr m) NO_SENDER, lr_from_name = or_text (c_from_name m) [],
      lr_snippet = or_text (c_snippet m) []\<rparr>"

text \<open>The closure of \<open>ListFilter::keep\<close>, its bounds and text read once.\<close>

definition row_passes :: "search_lib \<Rightarrow> list_filter \<Rightarrow> list_row \<Rightarrow> bool" where
  "row_passes L f r \<longleftrightarrow>
     (let after = normalise_date L (trim (lf_after f));
          before = normalise_date L (trim (lf_before f));
          text = sl_lower L (trim (lf_text f))
      in (\<not> lf_unread f \<or> lr_unread r)
       \<and> (\<not> lf_starred f \<or> lr_starred r)
       \<and> (\<not> lf_attachments f \<or> lr_has_attachments r)
       \<and> date_bounds_pass (lr_date_raw r) after before
       \<and> (text = [] \<or> list_ex (\<lambda>x. contains_sub (sl_lower L x) text)
            [lr_subject r, lr_from r, lr_from_name r, lr_snippet r]))"

definition filter_keep :: "search_lib \<Rightarrow> list_filter \<Rightarrow> list_row list \<Rightarrow> nat list" where
  "filter_keep L f rows = map fst (filter (\<lambda>(i, r). row_passes L f r) (List.enumerate 0 rows))"

definition is_trash_folder :: "mail_db \<Rightarrow> int \<Rightarrow> bool" where
  "is_trash_folder db folder_id =
     (case folder_get folder_id db of Inl _ \<Rightarrow> False | Inr f \<Rightarrow> d_role f = Trash)"

definition keep_in_folder :: "search_lib \<Rightarrow> mail_db \<Rightarrow> int \<Rightarrow> list_filter \<Rightarrow> nat list" where
  "keep_in_folder L db folder_id f =
     (let is_trash = is_trash_folder db folder_id;
          listed = list_compact_by_folder folder_id db;
          uids = map c_uid listed;
          rows = map (\<lambda>m. row_shown m is_trash) listed
      in sort (map (\<lambda>i. uids ! i) (filter_keep L f rows)))"

record date_range =
  dr_after :: string
  dr_before :: string
  dr_error :: string

definition read_day :: "search_lib \<Rightarrow> string \<Rightarrow> string option" where
  "read_day L s = (let s = trim s in if s = [] then Some [] else normalise_date L s)"

definition date_range_check :: "search_lib \<Rightarrow> string \<Rightarrow> string \<Rightarrow> date_range" where
  "date_range_check L after before =
     (let fail = (\<lambda>e. \<lparr>dr_after = trim after, dr_before = trim before, dr_error = e\<rparr>) in
      case read_day L after of
        None \<Rightarrow> fail ''After is not a date (YYYY-MM-DD)''
      | Some a \<Rightarrow>
          (case read_day L before of
             None \<Rightarrow> fail ''Before is not a date (YYYY-MM-DD)''
           | Some b \<Rightarrow>
               if a \<noteq> [] \<and> b \<noteq> [] \<and> b \<le> a then fail ''Before must be later than After''
               else \<lparr>dr_after = a, dr_before = b, dr_error = []\<rparr>))"

subsection \<open>Facts\<close>

lemma kept_indexes:
  "map (\<lambda>i. xs ! (i - n)) (map fst (filter (\<lambda>(i, r). p r) (List.enumerate n (map g xs))))
    = filter (\<lambda>x. p (g x)) xs"
proof (induction xs arbitrary: n)
  case (Cons x xs)
  have "i - n = Suc (i - Suc n)" if "i \<in> set (map fst (filter (\<lambda>(i, r). p r) (List.enumerate (Suc n) (map g xs))))" for i
    using that by (auto simp: in_set_enumerate_eq)
  then have "map (\<lambda>i. (x # xs) ! (i - n)) (map fst (filter (\<lambda>(i, r). p r) (List.enumerate (Suc n) (map g xs))))
      = map (\<lambda>i. xs ! (i - Suc n)) (map fst (filter (\<lambda>(i, r). p r) (List.enumerate (Suc n) (map g xs))))"
    by (intro map_cong refl) (metis nth_Cons_Suc)
  with Cons.IH [of "Suc n"] show ?case by simp
qed simp

lemma keep_in_folder_alt:
  "keep_in_folder L db folder_id f =
     sort (map c_uid (filter (\<lambda>m. row_passes L f (row_shown m (is_trash_folder db folder_id)))
       (list_compact_by_folder folder_id db)))"
proof -
  let ?l = "list_compact_by_folder folder_id db"
  let ?is = "filter_keep L f (map (\<lambda>m. row_shown m (is_trash_folder db folder_id)) ?l)"
  have "i < length ?l" if "i \<in> set ?is" for i
    using that by (auto simp: filter_keep_def in_set_enumerate_eq)
  then have "map (\<lambda>i. map c_uid ?l ! i) ?is = map c_uid (map (\<lambda>i. ?l ! i) ?is)" by simp
  also have "map (\<lambda>i. ?l ! i) ?is
      = filter (\<lambda>m. row_passes L f (row_shown m (is_trash_folder db folder_id))) ?l"
    using kept_indexes [of ?l 0 "row_passes L f"] by (simp add: filter_keep_def)
  finally show ?thesis by (simp add: keep_in_folder_def Let_def)
qed

lemma uid_compact_row [simp]: "c_uid (compact_row m) = m_uid m"
  by (simp add: compact_row_def)

lemma no_filter_keeps_all:
  assumes "sl_lower L [] = []"
  shows "row_passes L default_filter r"
  using assms by (simp add: row_passes_def default_filter_def normalise_date_def date_bounds_pass_def)

text \<open>
  The rows a filtered list paints: the uids come out ascending and are those of exactly the rows
  the folder lists (none hidden by a pending move) whose shown words pass every active filter.
\<close>

theorem filtered_list_is_exact:
  "sorted (keep_in_folder L db folder_id f)
   \<and> mset (keep_in_folder L db folder_id f)
       = mset (map m_uid (filter (\<lambda>m. listed db folder_id m
           \<and> row_passes L f (row_shown (compact_row m) (is_trash_folder db folder_id))) (db_messages db)))"
  by (simp add: keep_in_folder_alt list_compact_by_folder_def filter_map comp_def
      conj_commute)

lemma range_check_ok:
  assumes "dr_error (date_range_check L after before) = []"
  defines "r \<equiv> date_range_check L after before"
  shows "(dr_after r = [] \<or> dr_before r = [] \<or> dr_after r < dr_before r)
    \<and> read_day L after = Some (dr_after r) \<and> read_day L before = Some (dr_before r)"
  using assms by (auto simp: date_range_check_def Let_def not_le split: option.splits if_splits)
end
