(* ===== verification/Server_Search.thy ===== *)
theory Server_Search
  imports Search_Notation Imap_Sync_Window
begin

text \<open>
  Server-side search (\<open>sync/imap/engine/search.rs\<close>): the parsed query as IMAP SEARCH keys, and the
  loop over the folders that fetches the newest mail found there and missing from the cache.
\<close>

subsection \<open>The keys\<close>

definition imap_key :: "search_lib \<Rightarrow> search_term \<Rightarrow> search_key option" where
  "imap_key L t =
     (if \<not> is_ascii (st_text t) then None
      else case sl_astring L (st_text t) of
        None \<Rightarrow> None
      | Some tx \<Rightarrow>
          (let key = (case st_field t of
                 Any_Field \<Rightarrow> Text_Key tx
               | From_Field \<Rightarrow> From_Key tx
               | Subject_Field \<Rightarrow> Subject_Key tx
               | To_Field \<Rightarrow> Or_Key (To_Key tx) (Or_Key (Cc_Key tx) (Bcc_Key tx)))
           in Some (if st_negated t then Not_Key key else key)))"

definition flag_keys :: "search_filters \<Rightarrow> search_key list" where
  "flag_keys f =
     (case sf_unread f of None \<Rightarrow> [] | Some u \<Rightarrow> [if u then Unseen_Key else Seen_Key])
   @ (case sf_starred f of None \<Rightarrow> [] | Some b \<Rightarrow> [if b then Flagged_Key else Unflagged_Key])"

definition date_keys :: "search_lib \<Rightarrow> search_filters \<Rightarrow> search_key list" where
  "date_keys L f =
     (case Option.bind (sf_after f) (sl_day L) of None \<Rightarrow> [] | Some d \<Rightarrow> [SentSince d])
   @ (case Option.bind (sf_before f) (sl_day L) of None \<Rightarrow> [] | Some d \<Rightarrow> [SentBefore d])"

definition imap_criteria :: "search_lib \<Rightarrow> parsed_query \<Rightarrow> search_key list option" where
  "imap_criteria L q =
     (let keys = List.map_filter (\<lambda>t. map_option (\<lambda>k. (st_negated t, k)) (imap_key L t)) (pq_terms q) in
      if list_all fst keys then None
      else Some (map snd keys @ flag_keys (pq_filters q) @ date_keys L (pq_filters q)))"

subsection \<open>The search\<close>

record server_search_report =
  ss_folders_searched :: nat
  ss_fetched :: nat

definition PER_FOLDER_CAP :: nat where "PER_FOLDER_CAP = 50"
definition TOTAL_CAP :: nat where "TOTAL_CAP = 100"

text \<open>The newest of the UIDs found that are not cached.\<close>

definition missing_hits :: "nat list \<Rightarrow> nat list \<Rightarrow> nat list" where
  "missing_hits hits have_uids = take PER_FOLDER_CAP (rev (sort (filter (\<lambda>u. u \<notin> set have_uids) (remdups hits))))"

text \<open>The loops' \<open>break\<close>: once the cap is reached the remaining rounds do nothing.\<close>

definition fetch_hits :: "'s env \<Rightarrow> folder \<Rightarrow> nat list \<Rightarrow> nat \<Rightarrow> ('s world, nat) io" where
  "fetch_hits env f missing n =
     fold_io (\<lambda>chunk n.
         if TOTAL_CAP \<le> n then ret_io n
         else bind_io (uid_fetch_messages (e_srv env) chunk) (\<lambda>fetched. fold_io (store_fetched env f id) fetched n))
       (chunks FETCH_CHUNK missing) n"

definition search_folder ::
  "'s env \<Rightarrow> search_key list \<Rightarrow> folder \<Rightarrow> server_search_report \<Rightarrow> ('s world, server_search_report) io" where
  "search_folder env criteria f report =
     (if TOTAL_CAP \<le> ss_fetched report then ret_io report
      else
        bind_io session_ready (\<lambda>_.
        bind_io (try_io (session_select (e_srv env) (d_path f) None)) (\<lambda>selected.
          case selected of
            Inl _ \<Rightarrow> ret_io report
          | Inr _ \<Rightarrow>
              (let report = report\<lparr>ss_folders_searched := ss_folders_searched report + 1\<rparr> in
               bind_io (try_io (uid_search (e_srv env) criteria)) (\<lambda>found.
                 case found of
                   Inl _ \<Rightarrow> ret_io report
                 | Inr hits \<Rightarrow>
                     bind_io (get_io (\<lambda>w. list_uids (d_id f) (w_mail w))) (\<lambda>local_uids.
                     bind_io (fetch_hits env f (missing_hits hits local_uids) (ss_fetched report)) (\<lambda>n.
                     ret_io (report\<lparr>ss_fetched := n\<rparr>))))))))"

definition search_server_into_cache ::
  "'s env \<Rightarrow> search_lib \<Rightarrow> int \<Rightarrow> string \<Rightarrow> string option \<Rightarrow> ('s world, server_search_report) io" where
  "search_server_into_cache env L account_id query folder_scope =
     (let report = \<lparr>ss_folders_searched = 0, ss_fetched = 0\<rparr> in
      case imap_criteria L (parse_query_full L query) of
        None \<Rightarrow> ret_io report
      | Some criteria \<Rightarrow>
          bind_io (account_get account_id) (\<lambda>_.
          bind_io (get_io (\<lambda>w. filter (\<lambda>f. case folder_scope of None \<Rightarrow> True | Some s \<Rightarrow> d_path f = s)
              (list_by_account account_id (w_mail w)))) (\<lambda>targets.
          fold_io (search_folder env criteria) targets report)))"

subsection \<open>What is asked of the server\<close>

text \<open>The local meaning of a key over an abstract mail: which texts each field holds, its flags.\<close>

record mail_view =
  mv_from :: "string \<Rightarrow> bool"
  mv_to :: "string \<Rightarrow> bool"
  mv_cc :: "string \<Rightarrow> bool"
  mv_bcc :: "string \<Rightarrow> bool"
  mv_subject :: "string \<Rightarrow> bool"
  mv_any :: "string \<Rightarrow> bool"
  mv_seen :: bool
  mv_flagged :: bool
  mv_day :: string

fun key_matches :: "mail_view \<Rightarrow> search_key \<Rightarrow> bool" where
  "key_matches m (Text_Key s) = mv_any m s"
| "key_matches m (From_Key s) = mv_from m s"
| "key_matches m (Subject_Key s) = mv_subject m s"
| "key_matches m (To_Key s) = mv_to m s"
| "key_matches m (Cc_Key s) = mv_cc m s"
| "key_matches m (Bcc_Key s) = mv_bcc m s"
| "key_matches m Seen_Key = mv_seen m"
| "key_matches m Unseen_Key = (\<not> mv_seen m)"
| "key_matches m Flagged_Key = mv_flagged m"
| "key_matches m Unflagged_Key = (\<not> mv_flagged m)"
| "key_matches m (SentSince d) = (d \<le> mv_day m)"
| "key_matches m (SentBefore d) = (mv_day m < d)"
| "key_matches m (Or_Key a b) = (key_matches m a \<or> key_matches m b)"
| "key_matches m (Not_Key a) = (\<not> key_matches m a)"
| "key_matches m k = True"

definition field_matches :: "mail_view \<Rightarrow> search_field \<Rightarrow> string \<Rightarrow> bool" where
  "field_matches m f s = (case f of
      Any_Field \<Rightarrow> mv_any m s | From_Field \<Rightarrow> mv_from m s | Subject_Field \<Rightarrow> mv_subject m s
    | To_Field \<Rightarrow> mv_to m s \<or> mv_cc m s \<or> mv_bcc m s)"

definition term_matches :: "mail_view \<Rightarrow> search_term \<Rightarrow> bool" where
  "term_matches m t \<longleftrightarrow> field_matches m (st_field t) (st_text t) \<noteq> st_negated t"

definition agrees :: "'a option \<Rightarrow> ('a \<Rightarrow> bool) \<Rightarrow> bool" where
  "agrees a p = (case a of None \<Rightarrow> True | Some x \<Rightarrow> p x)"

definition filters_match :: "mail_view \<Rightarrow> search_filters \<Rightarrow> bool" where
  "filters_match m f \<longleftrightarrow> agrees (sf_unread f) (\<lambda>u. u = (\<not> mv_seen m)) \<and> agrees (sf_starred f) (\<lambda>b. b = mv_flagged m)
     \<and> agrees (sf_after f) (\<lambda>d. d \<le> mv_day m) \<and> agrees (sf_before f) (\<lambda>d. mv_day m < d)"

text \<open>The terms the server is told: ASCII ones an IMAP string can carry.\<close>

definition sendable :: "search_lib \<Rightarrow> search_term \<Rightarrow> bool" where
  "sendable L t \<longleftrightarrow> imap_key L t \<noteq> None"

text \<open>Documented behaviour of the libraries: a carried text is unchanged, a printed day reads as itself.\<close>

definition lib_ok :: "search_lib \<Rightarrow> bool" where
  "lib_ok L \<longleftrightarrow> (\<forall>s t. sl_astring L s = Some t \<longrightarrow> t = s) \<and> (\<forall>s d. sl_day L s = Some d \<longrightarrow> sl_day L d = Some d)"

lemma key_of_term:
  assumes "lib_ok L" and "imap_key L t = Some k"
  shows "key_matches m k \<longleftrightarrow> term_matches m t"
proof -
  have "sl_astring L (st_text t) = Some (st_text t)"
    using assms by (auto simp: imap_key_def lib_ok_def split: if_splits option.splits)
  then show ?thesis using assms(2)
    by (cases "st_field t"; cases "st_negated t")
      (auto simp: imap_key_def term_matches_def field_matches_def split: if_splits)
qed

lemma criteria_terms:
  "map snd (List.map_filter (\<lambda>t. map_option (\<lambda>k. (st_negated t, k)) (imap_key L t)) ts)
     = List.map_filter (imap_key L) ts"
  "list_all fst (List.map_filter (\<lambda>t. map_option (\<lambda>k. (st_negated t, k)) (imap_key L t)) ts)
     \<longleftrightarrow> list_all st_negated (filter (sendable L) ts)"
  by (induction ts) (auto simp: List.map_filter_simps sendable_def split: option.splits)

lemma imap_criteria_alt:
  "imap_criteria L q =
     (if list_all st_negated (filter (sendable L) (pq_terms q)) then None
      else Some (List.map_filter (imap_key L) (pq_terms q) @ flag_keys (pq_filters q) @ date_keys L (pq_filters q)))"
  by (simp add: imap_criteria_def criteria_terms)

lemma not_list_all_ex: "\<not> list_all p xs \<longleftrightarrow> list_ex (\<lambda>x. \<not> p x) xs"
  by (auto simp: list_all_iff list_ex_iff)

lemma keys_of_terms:
  assumes "lib_ok L"
  shows "list_all (key_matches m) (List.map_filter (imap_key L) ts)
    \<longleftrightarrow> list_all (term_matches m) (filter (sendable L) ts)"
  by (induction ts)
    (auto simp: List.map_filter_simps sendable_def key_of_term [OF assms] split: option.splits)

lemma keys_of_filters:
  assumes "lib_ok L" and "filters_ok L f"
  shows "list_all (key_matches m) (flag_keys f @ date_keys L f) \<longleftrightarrow> filters_match m f"
proof -
  have "sl_day L d = Some d" if "sf_after f = Some d \<or> sf_before f = Some d" for d
    using assms that by (auto simp: lib_ok_def filters_ok_def day_ok_def)
  then show ?thesis
    by (cases "sf_after f"; cases "sf_before f")
      (auto simp: flag_keys_def date_keys_def filters_match_def agrees_def split: option.splits)
qed



subsection \<open>What it does to the cache\<close>

lemma keeps_search_folder: "keeps (on_mail (row_kept m)) (search_folder env criteria f report)"
  unfolding search_folder_def fetch_hits_def store_fetched_def Let_def
  by (intro keeps_rules keeps_contacts keeps_mail_do row_kept_upsert)

lemma keeps_server_search:
  "keeps (on_mail (row_kept m)) (search_server_into_cache env L account_id query scope)"
  unfolding search_server_into_cache_def Let_def
  by (intro keeps_rules keeps_search_folder)

text \<open>
  C40. A server search only adds to the cache: whatever the server answers, and wherever the search
  stops, every cached mail is still there afterwards, a flag change not yet uploaded included.
\<close>

theorem server_search_keeps_the_cache:
  "list_all (\<lambda>m. row_kept m (w_mail (snd (search_server_into_cache env L account_id query scope w))))
     (db_messages (w_mail w))"
  unfolding list_all_iff
proof
  fix m
  assume "m \<in> set (db_messages (w_mail w))"
  then have "on_mail (row_kept m) w"
    unfolding on_mail_def row_kept_def same_slot_def by blast
  then show "row_kept m (w_mail (snd (search_server_into_cache env L account_id query scope w)))"
    using keepsD [OF keeps_server_search _ prod.collapse [symmetric]] by (metis on_mail_def)
qed

text \<open>A server that sends at most as many mails as were asked for.\<close>

definition sends_no_more :: "'s peer \<Rightarrow> bool" where
  "sends_no_more srv \<longleftrightarrow>
     (\<forall>tag us c st evs c' r. srv tag (Fetch_Full us) c = (st, evs, c') \<longrightarrow> answer tag evs = Some r \<longrightarrow>
        length (fetched_of r) \<le> length us)"

lemma length_clean_uids: "length (clean_uids us) \<le> length us"
  using remdups_adj_length [of "sort us"] by (simp add: clean_uids_def)

lemma fetch_length:
  assumes "sends_no_more srv"
  shows "hoare (\<lambda>_. True) (uid_fetch_messages srv uids) (\<lambda>fts _. length fts \<le> length uids \<and> True) (\<lambda>_. True)"
proof (cases "uids = []")
  case True
  then show ?thesis by (simp add: uid_fetch_messages_def hoare_def io_simps)
next
  case False
  show ?thesis
  proof (cases "uids_to_sequence_set uids")
    case (Inl e)
    with False show ?thesis by (simp add: uid_fetch_messages_def hoare_def io_simps)
  next
    case (Inr sq)
    then have "length sq \<le> length uids"
      using length_clean_uids by (auto simp: uids_to_sequence_set_def Let_def split: if_splits)
    moreover have "hoare (\<lambda>_. True) (execute srv (Fetch_Full sq)) (\<lambda>r _. length (fetched_of r) \<le> length sq) (\<lambda>_. True)"
      using assms unfolding sends_no_more_def by (intro hoare_execute) blast+
    ultimately show ?thesis
      using False Inr
      by (fastforce simp: uid_fetch_messages_def hoare_def bind_io_def lift_io_def ret_io_def
          split: prod.splits sum.splits)
  qed
qed

lemma store_counts: "hoare (\<lambda>_. True) (store_fetched env f adjust ft n) (\<lambda>k _. k = n + 1 \<and> True) (\<lambda>_. True)"
  by (auto simp: hoare_def store_fetched_def bind_io_def ret_io_def split: prod.splits sum.splits)

lemma stores_count:
  "hoare (\<lambda>_. True) (fold_io (store_fetched env f adjust) fts n) (\<lambda>k _. k = n + length fts \<and> True) (\<lambda>_. True)"
proof (induction fts arbitrary: n)
  case Nil
  show ?case by (simp add: hoare_def io_simps)
next
  case (Cons ft fts)
  have "hoare (\<lambda>_. True) (bind_io (store_fetched env f adjust ft n) (fold_io (store_fetched env f adjust) fts))
     (\<lambda>k _. k = n + length (ft # fts) \<and> True) (\<lambda>_. True)"
    by (rule hoare_true [OF _ store_counts]) (use Cons.IH [of "n + 1"] in simp)
  then show ?case by simp
qed

lemma length_missing_hits: "length (missing_hits hits have_uids) \<le> PER_FOLDER_CAP"
  by (simp add: missing_hits_def)

lemma fetch_hits_bound:
  fixes env :: "'s env"
  assumes "sends_no_more (e_srv env)" and "length missing \<le> PER_FOLDER_CAP"
    and "n < TOTAL_CAP"
  shows "hoare (\<lambda>_. True) (fetch_hits env f missing n) (\<lambda>k _. k < TOTAL_CAP + PER_FOLDER_CAP \<and> True) (\<lambda>_. True)"
proof (cases "missing = []")
  case True
  then show ?thesis using assms(3) by (simp add: fetch_hits_def hoare_def io_simps)
next
  case False
  have "chunks FETCH_CHUNK missing = [missing]"
    using assms(2) False by (simp add: chunks.simps [of _ missing] FETCH_CHUNK_def PER_FOLDER_CAP_def)
  moreover have "fold_io g [] = ret_io" for g :: "nat list \<Rightarrow> nat \<Rightarrow> ('s world, nat) io"
    by (rule ext) simp
  ultimately have eq: "fetch_hits env f missing n = bind_io (bind_io (uid_fetch_messages (e_srv env) missing)
      (\<lambda>fetched. fold_io (store_fetched env f id) fetched n)) ret_io"
    using assms(3) by (simp add: fetch_hits_def)
  have "hoare (\<lambda>_. True) (bind_io (uid_fetch_messages (e_srv env) missing)
      (\<lambda>fetched. fold_io (store_fetched env f id) fetched n))
      (\<lambda>k _. k < TOTAL_CAP + PER_FOLDER_CAP \<and> True) (\<lambda>_. True)"
    by (rule hoare_true [OF _ fetch_length [OF assms(1)]], rule hoare_weaken [OF stores_count])
      (use assms(2,3) in auto)
  then show ?thesis unfolding eq
    by (rule hoare_bind) (auto simp: hoare_def io_simps)
qed

definition ss_bounded :: "server_search_report \<Rightarrow> bool" where
  "ss_bounded r \<longleftrightarrow> ss_fetched r < TOTAL_CAP + PER_FOLDER_CAP"

lemma search_folder_bound:
  fixes env :: "'s env"
  assumes "sends_no_more (e_srv env)"
  shows "hoare (\<lambda>_. ss_bounded report) (search_folder env criteria f report) (\<lambda>r _. ss_bounded r) (\<lambda>_. True)"
proof (rule hoareI)
  fix w :: "'s world" and r w'
  assume b: "ss_bounded report" and run: "search_folder env criteria f report w = (Inr r, w')"
  show "ss_bounded r"
  proof (cases "TOTAL_CAP \<le> ss_fetched report")
    case True
    with run b show ?thesis by (simp add: search_folder_def io_simps)
  next
    case False
    then have "ss_fetched r = ss_fetched report
        \<or> (\<exists>hits have_uids w1 w2. fetch_hits env f (missing_hits hits have_uids) (ss_fetched report) w1
              = (Inr (ss_fetched r), w2))"
      using run by (auto simp: search_folder_def bind_io_def ret_io_def get_io_def Let_def
          split: prod.splits sum.splits)
    then show ?thesis
    proof (elim disjE exE)
      assume "ss_fetched r = ss_fetched report"
      with b show ?thesis by (simp add: ss_bounded_def)
    next
      fix hits have_uids w1 w2
      assume "fetch_hits env f (missing_hits hits have_uids) (ss_fetched report) w1 = (Inr (ss_fetched r), w2)"
      from hoareD(1) [OF fetch_hits_bound [OF assms length_missing_hits] TrueI this] False
      show ?thesis by (simp add: ss_bounded_def)
    qed
  qed
qed simp

text \<open>
  A server search is bounded however many folders and hits there are: it stores at most 149
  mails, one folder's 50 beyond the last check of the total of 100.
\<close>

theorem server_search_is_bounded:
  assumes "sends_no_more (e_srv env)"
  shows "case fst (search_server_into_cache env L account_id query scope w) of
     Inl _ \<Rightarrow> True | Inr report \<Rightarrow> ss_fetched report < TOTAL_CAP + PER_FOLDER_CAP"
proof (cases "imap_criteria L (parse_query_full L query)")
  case None
  then show ?thesis by (simp add: search_server_into_cache_def io_simps TOTAL_CAP_def)
next
  case (Some criteria)
  let ?r0 = "\<lparr>ss_folders_searched = 0, ss_fetched = 0\<rparr>"
  have r0: "ss_bounded ?r0" by (simp add: ss_bounded_def TOTAL_CAP_def)
  have loop: "hoare (\<lambda>_. ss_bounded ?r0) (fold_io (search_folder env criteria) targets ?r0) (\<lambda>r _. ss_bounded r) (\<lambda>_. True)"
    for targets
    by (rule hoare_fold [where I = "\<lambda>r _. ss_bounded r"]) (rule search_folder_bound [OF assms])
  have "hoare (\<lambda>_. True) (search_server_into_cache env L account_id query scope) (\<lambda>r _. ss_bounded r) (\<lambda>_. True)"
    unfolding search_server_into_cache_def Let_def Some option.case
    by (rule hoare_bind [OF hoare_trivial], rule hoare_bind [OF hoare_trivial], rule hoare_weaken [OF loop])
      (simp_all add: r0)
  then show ?thesis
    by (cases "search_server_into_cache env L account_id query scope w")
      (auto simp: hoare_def ss_bounded_def split: prod.splits sum.splits)
qed

text \<open>A server that finds every mail it holds and sends each once.\<close>

definition finding_server :: "mailbox \<Rightarrow> unit peer" where
  "finding_server mails tag cmd c =
     (0, respond tag (case cmd of Search _ \<Rightarrow> [Search_Data (map fst mails)] | _ \<Rightarrow> ro_data mails cmd), c)"

lemma length_map_filter: "length (List.map_filter g xs) \<le> length xs"
  by (induction xs) (auto simp: List.map_filter_simps split: option.splits)

lemma finding_server_sends_no_more:
  assumes "distinct (map fst mails)"
  shows "sends_no_more (finding_server mails)"
  unfolding sends_no_more_def
proof (intro allI impI)
  fix tag us c st evs c' r
  assume "finding_server mails tag (Fetch_Full us) c = (st, evs, c')" and "answer tag evs = Some r"
  then have "length (cr_data r) = length (filter (\<lambda>m. fst m \<in> set us) mails)"
    by (auto simp: finding_server_def answer_respond ro_data_def)
  also have "\<dots> = card (set (map fst (filter (\<lambda>m. fst m \<in> set us) mails)))"
    using distinct_card [OF distinct_map_filter [OF assms]] by simp
  also have "\<dots> \<le> card (set us)" by (intro card_mono) auto
  also have "\<dots> \<le> length us" by (rule card_length)
  finally show "length (fetched_of r) \<le> length us"
    using length_map_filter le_trans unfolding fetched_of_def by blast
qed

definition blank_mail :: parsed_mail where
  "blank_mail = \<lparr>pm_message_id = None, pm_references = None, pm_in_reply_to = None, pm_subject = None,
     pm_from = [], pm_from_text = None, pm_to = [], pm_cc = [], pm_bcc = [], pm_reply_to = [], pm_date = None,
     pm_body_text = None, pm_html_part = None, pm_attachments = []\<rparr>"

definition finding_env :: "unit env" where
  "finding_env = ro_env\<lparr>e_srv := finding_server two_mails, e_parse := (\<lambda>_. Some blank_mail)\<rparr>"

theorem server_search_is_bounded_witness:
  "case fst (search_server_into_cache finding_env plain_lib 1 ''ab'' None ro_world) of
     Inl _ \<Rightarrow> True | Inr report \<Rightarrow> ss_fetched report < TOTAL_CAP + PER_FOLDER_CAP"
proof (rule server_search_is_bounded)
  show "sends_no_more (e_srv finding_env)"
    using finding_server_sends_no_more [of two_mails] by (simp add: finding_env_def two_mails_def)
qed

end
