(* ===== verification/Headless.thy ===== *)
theory Headless
  imports Imap_Mutate Smtp_Sender
begin

text \<open>
  One sync of an account, and of every account (\<open>sync/headless.rs\<close>): the outbox is flushed, flag
  changes and due moves are pushed, the folder list is refreshed, then each subscribed folder is
  synced; what fails is noted and passed over. The keyring and connecting to the server are given
  (\<open>he_secrets\<close>, \<open>he_connect\<close>); progress reports, the run lock and the runtime are left out.
\<close>

record account =
  ac_id :: int
  ac_email :: string

record folder_sync_summary =
  fs_folder_id :: int
  fs_path :: string
  fs_role :: string
  fs_fetched :: nat
  fs_expunged :: nat
  fs_unread :: nat

record account_sync_result =
  ar_account_id :: int
  ar_email :: string
  ar_folders_synced :: nat
  ar_folders_skipped_hidden :: nat
  ar_fetched :: nat
  ar_expunged :: nat
  ar_pushed_flags :: nat
  ar_unread :: nat
  ar_folders :: "folder_sync_summary list"
  ar_errors :: "string list"

definition new_result :: "account \<Rightarrow> account_sync_result" where
  "new_result acc = \<lparr>ar_account_id = ac_id acc, ar_email = ac_email acc, ar_folders_synced = 0,
     ar_folders_skipped_hidden = 0, ar_fetched = 0, ar_expunged = 0, ar_pushed_flags = 0, ar_unread = 0,
     ar_folders = [], ar_errors = []\<rparr>"

definition inbox_checked :: "account_sync_result \<Rightarrow> bool" where
  "inbox_checked r \<longleftrightarrow> list_ex (\<lambda>f. fs_role f = folder_role_str Inbox) (ar_folders r)"

record sync_all_report =
  sa_accounts :: "account_sync_result list"
  sa_total_fetched :: nat
  sa_total_expunged :: nat
  sa_total_unread :: nat
  sa_errors :: "string list"

datatype sync_scope = All_Folders | Inbox_Only

definition covers_folder :: "sync_scope \<Rightarrow> folder \<Rightarrow> bool" where
  "covers_folder scope f \<longleftrightarrow> scope = All_Folders \<or> d_role f = Inbox"

definition cached_tree_suffices :: "sync_scope \<Rightarrow> folder list \<Rightarrow> bool" where
  "cached_tree_suffices scope cached \<longleftrightarrow>
     scope = Inbox_Only \<and> list_ex (\<lambda>f. d_role f = Inbox \<and> d_subscribed f) cached"

definition sync_progress_status :: "nat \<Rightarrow> nat \<Rightarrow> string \<Rightarrow> string" where
  "sync_progress_status n whole path =
     ''Syncing '' @ string_of_nat n @ ''/'' @ string_of_nat whole @ '': '' @ path"

definition sync_folder_progress_status :: "nat \<Rightarrow> nat \<Rightarrow> string \<Rightarrow> string" where
  "sync_folder_progress_status n whole path =
     ''Syncing '' @ path @ '' ('' @ string_of_nat n @ ''/'' @ string_of_nat whole @ '')''"

subsection \<open>The state a sync runs on\<close>

record ('s, 'n) head_env =
  he_imap :: "'s env"
  he_smtp :: "account \<Rightarrow> 'n smtp_env"
  he_secrets :: "account \<Rightarrow> unit result"
  he_connect :: "account \<Rightarrow> ('s, unit) imap_session_scheme result"

text \<open>The IMAP world and the sender's: one database, whose settings the flush reads.\<close>

record ('s, 'n) head_world =
  hw_imap :: "'s world"
  hw_out :: "'n flush_world"

definition on_imap :: "('s world, 'a) io \<Rightarrow> (('s, 'n) head_world, 'a) io" where
  "on_imap m w = (case m (hw_imap w) of (r, i) \<Rightarrow> (r, w\<lparr>hw_imap := i\<rparr>))"

definition on_out :: "('n flush_world, 'a) io \<Rightarrow> (('s, 'n) head_world, 'a) io" where
  "on_out m w =
     (case m ((hw_out w)\<lparr>fl_settings := w_settings (hw_imap w)\<rparr>) of (r, f) \<Rightarrow> (r, w\<lparr>hw_out := f\<rparr>))"

definition mail_of :: "('s, 'n) head_world \<Rightarrow> mail_db" where
  "mail_of w = w_mail (hw_imap w)"

definition unread_for_account :: "mail_db \<Rightarrow> int \<Rightarrow> nat" where
  "unread_for_account db account_id =
     sum_list (map (\<lambda>f. count_unread (d_id f) db)
       (filter (\<lambda>f. d_role f = Inbox) (list_by_account account_id db)))"

definition is_connected :: "'s world \<Rightarrow> bool" where
  "is_connected w \<longleftrightarrow> w_connected w \<and> \<not> is_broken w"

definition add_error :: "string \<Rightarrow> account_sync_result \<Rightarrow> account_sync_result" where
  "add_error e r = r\<lparr>ar_errors := ar_errors r @ [e]\<rparr>"

subsection \<open>One account\<close>

definition flush_step ::
  "('s, 'n) head_env \<Rightarrow> account \<Rightarrow> account_sync_result \<Rightarrow> (('s, 'n) head_world, account_sync_result) io" where
  "flush_step env acc out =
     bind_io (try_io (on_out (flush_outbox (he_smtp env acc) (ac_id acc)))) (\<lambda>r.
       case r of
         Inl e \<Rightarrow> ret_io (add_error (''outbox: '' @ error_text e) out)
       | Inr _ \<Rightarrow> ret_io out)"

definition push_step ::
  "('s, 'n) head_env \<Rightarrow> account \<Rightarrow> account_sync_result \<Rightarrow> (('s, 'n) head_world, account_sync_result) io" where
  "push_step env acc out =
     bind_io (on_imap (push_dirty_flags (he_imap env) (ac_id acc))) (\<lambda>n.
     bind_io (on_imap (push_due_moves (he_imap env) (ac_id acc))) (\<lambda>_.
     ret_io (out\<lparr>ar_pushed_flags := ar_pushed_flags out + n\<rparr>)))"

text \<open>The folders to sync, or \<open>None\<close> when the list cannot be had and the sync ends here.\<close>

definition list_step ::
  "('s, 'n) head_env \<Rightarrow> account \<Rightarrow> sync_scope \<Rightarrow> account_sync_result
    \<Rightarrow> (('s, 'n) head_world, folder list option \<times> account_sync_result) io" where
  "list_step env acc scope out =
     bind_io (get_io (\<lambda>w. list_by_account (ac_id acc) (mail_of w))) (\<lambda>cached.
       if cached_tree_suffices scope cached then ret_io (Some cached, out)
       else
         bind_io (try_io (on_imap (sync_folders_quick (he_imap env) (ac_id acc)))) (\<lambda>r.
           case r of
             Inl e \<Rightarrow> ret_io (None, add_error (''folder list: '' @ error_text e) out)
           | Inr quick \<Rightarrow>
               bind_io (get_io (\<lambda>w. get_last_full_discovery (w_settings (hw_imap w)) (ac_id acc))) (\<lambda>last_full.
                 if full_discovery_due (map d_path cached) (map d_path quick) last_full
                     (secs (e_now (he_imap env))) then
                   bind_io (try_io (on_imap (sync_folders (he_imap env) (ac_id acc)))) (\<lambda>r.
                     case r of
                       Inr full \<Rightarrow> ret_io (Some full, out)
                     | Inl e \<Rightarrow> ret_io (Some quick, add_error (''folder list (full): '' @ error_text e) out))
                 else ret_io (Some quick, out))))"

definition window_of :: "folder \<Rightarrow> nat" where
  "window_of f = (if d_role f = Inbox then FULL_SYNC_WINDOW else QUICK_SYNC_WINDOW)"

definition folder_synced :: "folder \<Rightarrow> sync_report \<Rightarrow> nat \<Rightarrow> account_sync_result \<Rightarrow> account_sync_result" where
  "folder_synced f r unread out =
     out\<lparr>ar_fetched := ar_fetched out + rep_fetched r,
         ar_expunged := ar_expunged out + rep_expunged r,
         ar_folders_synced := ar_folders_synced out + 1,
         ar_folders := ar_folders out @ [\<lparr>fs_folder_id = d_id f, fs_path = d_path f,
           fs_role = folder_role_str (d_role f), fs_fetched = rep_fetched r, fs_expunged = rep_expunged r,
           fs_unread = unread\<rparr>]\<rparr>"

text \<open>One round of the loop over the folders; the flag says that it has been left (\<open>break\<close>).\<close>

definition folder_step ::
  "('s, 'n) head_env \<Rightarrow> sync_scope \<Rightarrow> folder \<Rightarrow> account_sync_result \<times> bool
    \<Rightarrow> (('s, 'n) head_world, account_sync_result \<times> bool) io" where
  "folder_step env scope f = (\<lambda>(out, left).
     if left then ret_io (out, True)
     else if \<not> d_subscribed f then
       ret_io (out\<lparr>ar_folders_skipped_hidden := ar_folders_skipped_hidden out + 1\<rparr>, False)
     else if \<not> covers_folder scope f then ret_io (out, False)
     else
       bind_io (try_io (on_imap (sync_folder_window (he_imap env) (d_id f) (Some (window_of f))))) (\<lambda>r.
         case r of
           Inr rep \<Rightarrow>
             bind_io (get_io (\<lambda>w. count_unread (d_id f) (mail_of w))) (\<lambda>unread.
             ret_io (folder_synced f rep unread out, False))
         | Inl e \<Rightarrow>
             (let out = add_error (d_path f @ '': '' @ error_text e) out in
              bind_io (get_io (\<lambda>w. is_connected (hw_imap w))) (\<lambda>up.
                if up then ret_io (out, False)
                else ret_io (add_error ''connection lost, remaining folders skipped'' out, True)))))"

definition inbox_unread :: "account_sync_result \<Rightarrow> nat" where
  "inbox_unread out =
     sum_list (map fs_unread (filter (\<lambda>f. fs_role f = folder_role_str Inbox) (ar_folders out)))"

definition finish_unread ::
  "account \<Rightarrow> account_sync_result \<Rightarrow> (('s, 'n) head_world, account_sync_result) io" where
  "finish_unread acc out =
     get_io (\<lambda>w. out\<lparr>ar_unread :=
       (if ar_folders out = [] then unread_for_account (mail_of w) (ac_id acc) else inbox_unread out)\<rparr>)"

definition only_cached_unread ::
  "account \<Rightarrow> account_sync_result \<Rightarrow> (('s, 'n) head_world, account_sync_result) io" where
  "only_cached_unread acc out =
     get_io (\<lambda>w. out\<lparr>ar_unread := unread_for_account (mail_of w) (ac_id acc)\<rparr>)"

definition sync_account ::
  "('s, 'n) head_env \<Rightarrow> account \<Rightarrow> sync_scope \<Rightarrow> (('s, 'n) head_world, account_sync_result) io" where
  "sync_account env acc scope =
     (case he_secrets env acc of
        Inl e \<Rightarrow> only_cached_unread acc (add_error (error_text e) (new_result acc))
      | Inr _ \<Rightarrow>
          bind_io (flush_step env acc (new_result acc)) (\<lambda>out.
          bind_io (push_step env acc out) (\<lambda>out.
          bind_io (list_step env acc scope out) (\<lambda>(remote, out).
            case remote of
              None \<Rightarrow> only_cached_unread acc out
            | Some remote \<Rightarrow>
                bind_io (fold_io (folder_step env scope) remote (out, False)) (\<lambda>(out, _).
                finish_unread acc out)))))"

subsection \<open>Every account\<close>

text \<open>\<open>connect\<close> leaves a fresh session in place; \<open>logout\<close> says goodbye if it can and drops it.\<close>

definition open_session :: "('s, unit) imap_session_scheme \<Rightarrow> 's world \<Rightarrow> 's world" where
  "open_session s w = w\<lparr>conn := conn s, tag_counter := tag_counter s, capabilities := capabilities s,
     condstore_enabled := condstore_enabled s, qresync_enabled := qresync_enabled s, broken := broken s,
     w_connected := True\<rparr>"

definition connect :: "('s, 'n) head_env \<Rightarrow> account \<Rightarrow> (('s, 'n) head_world, unit) io" where
  "connect env acc =
     on_imap (bind_io (lift_io (he_connect env acc)) (\<lambda>s. modify_io (open_session s)))"

definition logout :: "'s env \<Rightarrow> ('s world, unit) io" where
  "logout env =
     bind_io (get_io w_connected) (\<lambda>up.
     bind_io (if up then bind_io (try_io (execute (e_srv env) Logout)) (\<lambda>_. ret_io ()) else ret_io ()) (\<lambda>_.
     modify_io (\<lambda>w. w\<lparr>w_connected := False\<rparr>)))"

definition sync_fresh ::
  "('s, 'n) head_env \<Rightarrow> sync_scope \<Rightarrow> account \<Rightarrow> (('s, 'n) head_world, account_sync_result) io" where
  "sync_fresh env scope acc =
     bind_io (on_imap (modify_io (\<lambda>w. w\<lparr>w_connected := False\<rparr>))) (\<lambda>_.
     case he_secrets env acc of
       Inl e \<Rightarrow> only_cached_unread acc (add_error (error_text e) (new_result acc))
     | Inr _ \<Rightarrow>
         bind_io (try_io (connect env acc)) (\<lambda>r.
           case r of
             Inl e \<Rightarrow> only_cached_unread acc (add_error (''connect: '' @ error_text e) (new_result acc))
           | Inr _ \<Rightarrow>
               bind_io (sync_account env acc scope) (\<lambda>res.
               bind_io (on_imap (logout (he_imap env))) (\<lambda>_.
               ret_io res))))"

definition empty_report :: sync_all_report where
  "empty_report = \<lparr>sa_accounts = [], sa_total_fetched = 0, sa_total_expunged = 0, sa_total_unread = 0,
     sa_errors = []\<rparr>"

definition add_result :: "account \<Rightarrow> account_sync_result \<Rightarrow> sync_all_report \<Rightarrow> sync_all_report" where
  "add_result acc res rep =
     rep\<lparr>sa_total_fetched := sa_total_fetched rep + ar_fetched res,
         sa_total_expunged := sa_total_expunged rep + ar_expunged res,
         sa_total_unread := sa_total_unread rep + ar_unread res,
         sa_errors := sa_errors rep @ map (\<lambda>e. ac_email acc @ '': '' @ e) (ar_errors res),
         sa_accounts := sa_accounts rep @ [res]\<rparr>"

definition sync_accounts ::
  "('s, 'n) head_env \<Rightarrow> account list \<Rightarrow> sync_scope \<Rightarrow> (('s, 'n) head_world, sync_all_report) io" where
  "sync_accounts env accs scope =
     fold_io (\<lambda>acc rep. bind_io (sync_fresh env scope acc) (\<lambda>res. ret_io (add_result acc res rep)))
       accs empty_report"

definition sync_all_accounts ::
  "('s, 'n) head_env \<Rightarrow> account list result \<Rightarrow> sync_scope \<Rightarrow> (('s, 'n) head_world, sync_all_report) io" where
  "sync_all_accounts env listed_accounts scope =
     (case listed_accounts of
        Inr accs \<Rightarrow> sync_accounts env accs scope
      | Inl e \<Rightarrow> ret_io (empty_report\<lparr>sa_errors := [''accounts: '' @ error_text e]\<rparr>))"

text \<open>A notification's action while the app is closed: push what waits over a fresh connection.\<close>

definition push_changes :: "('s, 'n) head_env \<Rightarrow> account \<Rightarrow> (('s, 'n) head_world, nat) io" where
  "push_changes env acc =
     bind_io (get_io (\<lambda>w. list_flags_dirty (ac_id acc) (mail_of w) = []
         \<and> list_due (ac_id acc) (secs (e_now (he_imap env))) (mail_of w) = [])) (\<lambda>nothing.
       if nothing then ret_io 0
       else
         bind_io (on_imap (account_get (ac_id acc))) (\<lambda>_.
         bind_io (lift_io (he_secrets env acc)) (\<lambda>_.
         bind_io (connect env acc) (\<lambda>_.
         bind_io (on_imap (push_dirty_flags (he_imap env) (ac_id acc))) (\<lambda>flags.
         bind_io (on_imap (push_due_moves (he_imap env) (ac_id acc))) (\<lambda>moves.
         bind_io (on_imap (logout (he_imap env))) (\<lambda>_.
         ret_io (flags + moves))))))))"

definition unread_summary :: "mail_db \<Rightarrow> account list \<Rightarrow> account_sync_result list" where
  "unread_summary db accs = map (\<lambda>a. (new_result a)\<lparr>ar_unread := unread_for_account db (ac_id a)\<rparr>) accs"

record recent_unread_mail =
  ru_account_id :: int
  ru_account_email :: string
  ru_folder :: string
  ru_from :: string
  ru_subject :: string
  ru_date :: string

text \<open>The joins with \<open>accounts\<close> and \<open>folders\<close>: a mail counts when both its rows are there.\<close>

definition recent_row :: "mail_db \<Rightarrow> account list \<Rightarrow> message \<Rightarrow> recent_unread_mail option" where
  "recent_row db accs m =
     (case (find (\<lambda>a. ac_id a = m_account_id m) accs, find (\<lambda>f. d_id f = m_folder_id m) (db_folders db)) of
        (Some a, Some f) \<Rightarrow>
          if \<not> m_is_read m \<and> d_role f = Inbox \<and> \<not> hidden db (m_id m) then
            Some \<lparr>ru_account_id = m_account_id m, ru_account_email = ac_email a, ru_folder = d_path f,
              ru_from = (case m_from_addr m of None \<Rightarrow> [] | Some x \<Rightarrow> x),
              ru_subject = (case m_subject m of None \<Rightarrow> [] | Some x \<Rightarrow> x),
              ru_date = (case m_date m of None \<Rightarrow> [] | Some x \<Rightarrow> x)\<rparr>
          else None
      | _ \<Rightarrow> None)"

definition recent_unread :: "mail_db \<Rightarrow> account list \<Rightarrow> nat \<Rightarrow> int option \<Rightarrow> recent_unread_mail list" where
  "recent_unread db accs limit account_id =
     take limit (List.map_filter (recent_row db accs)
       (sort_by (\<lambda>a b. and_then (by_key True m_date) (by_key True m_id) a b \<le> 0)
         (filter (\<lambda>m. case account_id of None \<Rightarrow> True | Some i \<Rightarrow> m_account_id m = i) (db_messages db))))"

text \<open>\<open>sync/resume.rs\<close>: whether coming back to the foreground syncs the account.\<close>

definition RESUME_SYNC_GRACE_MINUTES :: int where
  "RESUME_SYNC_GRACE_MINUTES = 5"

definition resume_sync_due_at :: "mail_db \<Rightarrow> int \<Rightarrow> instant \<Rightarrow> bool" where
  "resume_sync_due_at db account_id now =
     (case List.map_filter d_last_sync_at (filter (\<lambda>f. d_account_id f = account_id) (db_folders db)) of
        [] \<Rightarrow> True
      | t # ts \<Rightarrow> RESUME_SYNC_GRACE_MINUTES * 60 * ns_per_sec \<le> now - at_stamp (fold max ts t))"

end
