(* ===== verification/Headless_Facts.thy ===== *)
theory Headless_Facts
  imports Headless "HOL-Library.Sublist"
begin

text \<open>
  What a sync of an account or of all accounts promises: it never fails as a whole, every account and
  every folder is accounted for, and of the sender's state it only runs the flush.
\<close>

subsection \<open>Programs that cannot fail\<close>

definition never_fails :: "('w, 'a) io \<Rightarrow> bool" where
  "never_fails m \<longleftrightarrow> hoare (\<lambda>_. True) m (\<lambda>_ _. True) (\<lambda>_. False)"

named_theorems total_rules \<open>programs that cannot fail\<close>

lemma never_failsI: "(\<And>w e w'. m w \<noteq> (Inl e, w')) \<Longrightarrow> never_fails m"
  unfolding never_fails_def by (rule hoareI) simp_all

lemma never_fails_result: "never_fails m \<Longrightarrow> \<exists>x. fst (m w) = Inr x"
  by (cases "m w") (auto simp: never_fails_def hoare_def split: sum.splits dest: spec [of _ w])

lemma total_base [total_rules]:
  "never_fails (ret_io x)" "never_fails (get_io f)" "never_fails (modify_io g)" "never_fails (try_io m)"
  "never_fails (lift_io (Inr y))"
  by (auto intro!: never_failsI simp: io_simps try_io_def split: prod.splits)

lemma total_bind [total_rules]: "never_fails m \<Longrightarrow> (\<And>x. never_fails (k x)) \<Longrightarrow> never_fails (bind_io m k)"
  unfolding never_fails_def by (rule hoare_bind)

lemma total_fold [total_rules]: "(\<And>x b. never_fails (f x b)) \<Longrightarrow> never_fails (fold_io f xs b)"
  unfolding never_fails_def by (rule hoare_fold [where I = "\<lambda>_ _. True"])

lemma total_if [total_rules]: "(b \<Longrightarrow> never_fails m) \<Longrightarrow> (\<not> b \<Longrightarrow> never_fails n) \<Longrightarrow> never_fails (if b then m else n)"
  by simp

lemma total_cases [total_rules]:
  "(\<And>e. never_fails (f e)) \<Longrightarrow> (\<And>x. never_fails (g x)) \<Longrightarrow> never_fails (case r of Inl e \<Rightarrow> f e | Inr x \<Rightarrow> g x)"
  "never_fails m \<Longrightarrow> (\<And>y. never_fails (h y)) \<Longrightarrow> never_fails (case q of None \<Rightarrow> m | Some y \<Rightarrow> h y)"
  "(\<And>a b. never_fails (k a b)) \<Longrightarrow> never_fails (case p of (a, b) \<Rightarrow> k a b)"
  by (simp_all split: sum.splits option.splits prod.splits)

lemma total_db [total_rules]: "never_fails (db_do f)"
  by (rule never_failsI) (simp add: db_do_def db_io_def split: prod.splits)

lemma total_on [total_rules]: "never_fails m \<Longrightarrow> never_fails (on_imap m)"
  unfolding never_fails_def hoare_def on_imap_def by (auto split: prod.splits sum.splits)

lemma total_push_group [total_rules]: "never_fails (push_group env account_id g b)"
proof -
  obtain src action dest items where "g = ((src, action, dest), items)" by (metis prod_cases4 prod.collapse)
  then show ?thesis unfolding push_group_def Let_def by (simp only: case_prod_conv) (intro total_rules)
qed

lemma total_push [total_rules]:
  "never_fails (push_dirty_flags env account_id)" "never_fails (push_due_moves env account_id)"
  unfolding push_dirty_flags_def push_due_moves_def by (intro total_rules)+

lemma total_folder_step [total_rules]: "never_fails (folder_step env scope f b)"
  unfolding folder_step_def Let_def by (intro total_rules)

lemma total_sync_account [total_rules]: "never_fails (sync_account env acc scope)"
  unfolding sync_account_def flush_step_def push_step_def list_step_def finish_unread_def
    only_cached_unread_def
  by (intro total_rules)

lemma total_sync_fresh [total_rules]: "never_fails (sync_fresh env scope acc)"
  unfolding sync_fresh_def logout_def only_cached_unread_def
  by (intro total_rules)

subsection \<open>The tally of one account\<close>

definition tallied :: "account_sync_result \<Rightarrow> bool" where
  "tallied r \<longleftrightarrow> ar_folders_synced r = length (ar_folders r)
     \<and> ar_fetched r = sum_list (map fs_fetched (ar_folders r))
     \<and> ar_expunged r = sum_list (map fs_expunged (ar_folders r))"

definition wanted :: "sync_scope \<Rightarrow> folder list \<Rightarrow> folder list" where
  "wanted scope fs = filter (\<lambda>f. d_subscribed f \<and> covers_folder scope f) fs"

text \<open>Whatever a program returns has the property.\<close>

definition returns :: "('a \<Rightarrow> bool) \<Rightarrow> ('w, 'a) io \<Rightarrow> bool" where
  "returns P m \<longleftrightarrow> hoare (\<lambda>_. True) m (\<lambda>x _. P x) (\<lambda>_. True)"

lemma returns_ret: "P x \<Longrightarrow> returns P (ret_io x)"
  by (simp add: returns_def hoare_def io_simps)

lemma returns_get: "(\<And>w. P (f w)) \<Longrightarrow> returns P (get_io f)"
  by (simp add: returns_def hoare_def io_simps)

lemma returns_bind: "returns Q m \<Longrightarrow> (\<And>x. Q x \<Longrightarrow> returns P (k x)) \<Longrightarrow> returns P (bind_io m k)"
  unfolding returns_def
  by (rule hoare_bind, assumption) (auto simp: hoare_def)

lemma returns_any: "(\<And>x. returns P (k x)) \<Longrightarrow> returns P (bind_io m k)"
  by (rule returns_bind [where Q = "\<lambda>_. True"]) (simp_all add: returns_def hoare_trivial)

lemma returns_fold: "P b \<Longrightarrow> (\<And>x b. P b \<Longrightarrow> returns P (f x b)) \<Longrightarrow> returns P (fold_io f xs b)"
  by (induction xs arbitrary: b) (auto intro: returns_ret returns_bind)

lemma returns_result: "returns P m \<Longrightarrow> never_fails m \<Longrightarrow> \<exists>x. fst (m w) = Inr x \<and> P x"
  unfolding returns_def never_fails_def hoare_def
  by (cases "m w") (auto split: sum.splits dest!: spec [of _ w])

text \<open>
  A property of an account's result that every bookkeeping step of the sync keeps is one of the
  result a sync hands over.
\<close>

locale result_invariant =
  fixes acc :: account and ok :: "account_sync_result \<Rightarrow> bool"
  assumes fresh: "ok (new_result acc)"
    and error: "ok r \<Longrightarrow> ok (add_error e r)"
    and unread: "ok r \<Longrightarrow> ok (r\<lparr>ar_unread := n\<rparr>)"
    and pushed: "ok r \<Longrightarrow> ok (r\<lparr>ar_pushed_flags := n\<rparr>)"
    and skipped: "ok r \<Longrightarrow> ok (r\<lparr>ar_folders_skipped_hidden := n\<rparr>)"
    and synced: "ok r \<Longrightarrow> ok (folder_synced f rep n r)"
begin

lemma only_cached: "ok out \<Longrightarrow> returns ok (only_cached_unread acc out)"
  by (auto simp: only_cached_unread_def intro: returns_get unread)

lemma finish: "ok out \<Longrightarrow> returns ok (finish_unread acc out)"
  by (auto simp: finish_unread_def intro: returns_get unread)

lemma flush: "ok out \<Longrightarrow> returns ok (flush_step env acc out)"
  unfolding flush_step_def by (auto intro!: returns_any returns_ret error split: sum.splits)

lemma push: "ok out \<Longrightarrow> returns ok (push_step env acc out)"
  unfolding push_step_def by (auto intro!: returns_any returns_ret pushed)

lemma list_folders: "ok out \<Longrightarrow> returns (\<lambda>p. ok (snd p)) (list_step env acc scope out)"
  unfolding list_step_def by (auto intro!: returns_any returns_ret error split: sum.splits)

lemma one_folder: "ok (fst p) \<Longrightarrow> returns (\<lambda>p. ok (fst p)) (folder_step env scope f p)"
  unfolding folder_step_def Let_def
  by (auto intro!: returns_any returns_ret error skipped synced split: sum.splits prod.splits)

lemma all_folders:
  "ok out \<Longrightarrow> returns ok (bind_io (fold_io (folder_step env scope) remote (out, False)) (\<lambda>(out, _). finish_unread acc out))"
  by (rule returns_bind [OF returns_fold [where P = "\<lambda>p. ok (fst p)"]]) (auto intro: one_folder finish)

lemma account_result: "returns ok (sync_account env acc scope)"
proof (cases "he_secrets env acc")
  case (Inl e)
  then show ?thesis by (simp add: sync_account_def only_cached error fresh)
next
  case (Inr u)
  show ?thesis
    unfolding sync_account_def Inr sum.case
    by (rule returns_bind [OF flush [OF fresh]], rule returns_bind [OF push], assumption,
        rule returns_bind [OF list_folders], assumption)
      (auto split: option.splits intro: only_cached all_folders)
qed

lemma fresh_result: "returns ok (sync_fresh env scope acc)"
  unfolding sync_fresh_def
  by (intro returns_any)
    (auto split: sum.splits intro!: returns_any returns_ret only_cached error fresh
      returns_bind [OF account_result])

end

interpretation tally: result_invariant acc tallied for acc
  by unfold_locales (auto simp: tallied_def new_result_def add_error_def folder_synced_def)

interpretation named: result_invariant acc "\<lambda>r. ar_account_id r = ac_id acc" for acc
  by unfold_locales (auto simp: new_result_def add_error_def folder_synced_def)

subsection \<open>The tally of every account\<close>

definition whole_tally :: "sync_all_report \<Rightarrow> bool" where
  "whole_tally rep \<longleftrightarrow>
     sa_total_fetched rep = sum_list (map ar_fetched (sa_accounts rep))
     \<and> sa_total_expunged rep = sum_list (map ar_expunged (sa_accounts rep))
     \<and> sa_total_unread rep = sum_list (map ar_unread (sa_accounts rep))
     \<and> list_all tallied (sa_accounts rep)"

lemma whole_tally_add: "whole_tally rep \<Longrightarrow> tallied res \<Longrightarrow> whole_tally (add_result acc res rep)"
  by (simp add: whole_tally_def add_result_def)

lemma accounts_add [simp]: "sa_accounts (add_result acc res rep) = sa_accounts rep @ [res]"
  by (simp add: add_result_def)

lemma fresh_both: "returns (\<lambda>r. tallied r \<and> ar_account_id r = ac_id acc) (sync_fresh env scope acc)"
  using hoare_conj [OF tally.fresh_result [unfolded returns_def] named.fresh_result [unfolded returns_def]]
  unfolding returns_def by simp

lemma accounts_tallied:
  "whole_tally rep \<Longrightarrow>
    returns (\<lambda>r. whole_tally r \<and> map ar_account_id (sa_accounts r) = map ar_account_id (sa_accounts rep) @ map ac_id accs)
      (fold_io (\<lambda>acc rep. bind_io (sync_fresh env scope acc) (\<lambda>res. ret_io (add_result acc res rep))) accs rep)"
proof (induction accs arbitrary: rep)
  case Nil
  then show ?case by (simp add: returns_ret)
next
  case (Cons acc accs)
  show ?case unfolding fold_io.simps
  proof (rule returns_bind)
    show "returns (\<lambda>r. whole_tally r \<and> map ar_account_id (sa_accounts r) = map ar_account_id (sa_accounts rep) @ [ac_id acc])
        (bind_io (sync_fresh env scope acc) (\<lambda>res. ret_io (add_result acc res rep)))"
      by (rule returns_bind [OF fresh_both])
        (auto intro!: returns_ret whole_tally_add Cons.prems)
  next
    fix r
    assume r: "whole_tally r \<and> map ar_account_id (sa_accounts r) = map ar_account_id (sa_accounts rep) @ [ac_id acc]"
    from Cons.IH [of r] r
    show "returns (\<lambda>s. whole_tally s \<and> map ar_account_id (sa_accounts s)
          = map ar_account_id (sa_accounts rep) @ map ac_id (acc # accs))
        (fold_io (\<lambda>acc rep. bind_io (sync_fresh env scope acc) (\<lambda>res. ret_io (add_result acc res rep))) accs r)"
      by simp
  qed
qed

text \<open>
  Syncing all accounts cannot fail as a whole: whatever passwords, connections, servers and
  folders do, the report holds one result per account, in their order, and its totals are the sums of
  the results, whose own counts are the sums over their folders.
\<close>

theorem every_account_is_reported:
  "\<exists>rep. fst (sync_accounts env accs scope w) = Inr rep
     \<and> map ar_account_id (sa_accounts rep) = map ac_id accs \<and> whole_tally rep"
proof -
  have total_run: "never_fails (sync_accounts env accs scope)"
    unfolding sync_accounts_def by (intro total_rules)
  have "returns (\<lambda>r. whole_tally r \<and> map ar_account_id (sa_accounts r) = map ac_id accs)
      (sync_accounts env accs scope)"
    using accounts_tallied [where rep = empty_report and env = env and scope = scope and accs = accs]
    by (simp add: sync_accounts_def whole_tally_def empty_report_def)
  from returns_result [OF this total_run, of w] show ?thesis by auto
qed

subsection \<open>The folders of one account\<close>

text \<open>What the loop over the folders has done once it has gone through \<open>seen\<close> of them.\<close>

definition loop_report :: "sync_scope \<Rightarrow> folder list \<Rightarrow> account_sync_result \<times> bool \<Rightarrow> bool" where
  "loop_report scope seen = (\<lambda>(out, left).
     subseq (map fs_folder_id (ar_folders out)) (map d_id (wanted scope seen))
     \<and> (if left then ''connection lost, remaining folders skipped'' \<in> set (ar_errors out)
        else length (ar_folders out) + length (ar_errors out) = length (wanted scope seen)))"

lemma wanted_snoc [simp]:
  "wanted scope (fs @ [f]) = wanted scope fs @ (if d_subscribed f \<and> covers_folder scope f then [f] else [])"
  by (simp add: wanted_def)

lemma step_reported:
  assumes "loop_report scope seen p"
  shows "returns (loop_report scope (seen @ [f])) (folder_step env scope f p)"
proof -
  obtain out left where p: "p = (out, left)" by (cases p)
  have grow: "subseq (map fs_folder_id (ar_folders out)) (map d_id (wanted scope (seen @ [f])))"
    using assms by (simp add: loop_report_def p subseq_append_iff) (metis append_Nil2 list_emb_Nil)
  show ?thesis
    using assms grow unfolding folder_step_def p case_prod_conv Let_def
    by (auto intro!: returns_any returns_ret split: sum.splits
        simp: loop_report_def add_error_def folder_synced_def intro: subseq_append')
qed

lemma loop_reported:
  "loop_report scope seen p \<Longrightarrow> returns (loop_report scope (seen @ fs)) (fold_io (folder_step env scope) fs p)"
proof (induction fs arbitrary: seen p)
  case Nil
  then show ?case by (simp add: returns_ret)
next
  case (Cons f fs)
  have "returns (loop_report scope ((seen @ [f]) @ fs)) (fold_io (folder_step env scope) (f # fs) p)"
    unfolding fold_io.simps by (rule returns_bind [OF step_reported [OF Cons.prems] Cons.IH])
  then show ?case by simp
qed

lemma left_only_when_cut:
  "hoare (\<lambda>w. snd p \<longrightarrow> \<not> is_connected (hw_imap w)) (folder_step env scope f p)
     (\<lambda>p w. snd p \<longrightarrow> \<not> is_connected (hw_imap w)) (\<lambda>_. True)"
  by (cases p) (auto simp: hoare_def folder_step_def bind_io_def ret_io_def get_io_def Let_def
      split: prod.splits sum.splits if_splits)

text \<open>
  A folder's failure hides no other folder: the loop over an account's folders never fails, its
  summaries are of subscribed folders in scope, in their order, and every such folder has a summary or
  an error of its own, unless the loop was left, which it says and does only when the connection is gone.
\<close>

theorem every_folder_is_reported:
  "case fold_io (folder_step env scope) remote (new_result acc, False) w of
     (Inl _, _) \<Rightarrow> False
   | (Inr (out, left), w') \<Rightarrow>
       subseq (map fs_folder_id (ar_folders out)) (map d_id (wanted scope remote))
       \<and> (if left then \<not> is_connected (hw_imap w')
              \<and> ''connection lost, remaining folders skipped'' \<in> set (ar_errors out)
          else length (ar_folders out) + length (ar_errors out) = length (wanted scope remote))"
proof -
  let ?run = "fold_io (folder_step env scope) remote (new_result acc, False)"
  have "loop_report scope [] (new_result acc, False)" by (simp add: loop_report_def wanted_def new_result_def)
  then have rep: "returns (loop_report scope remote) ?run" using loop_reported [where seen = "[]"] by fastforce
  have sure: "never_fails ?run" by (intro total_rules)
  obtain out left w' where run: "?run w = (Inr (out, left), w')" and "loop_report scope remote (out, left)"
    using returns_result [OF rep sure, of w] by (metis fst_conv prod.collapse)
  moreover have "left \<longrightarrow> \<not> is_connected (hw_imap w')"
  proof -
    have "hoare (\<lambda>w. snd (new_result acc, False) \<longrightarrow> \<not> is_connected (hw_imap w)) ?run
        (\<lambda>p w. snd p \<longrightarrow> \<not> is_connected (hw_imap w)) (\<lambda>_. True)"
      by (rule hoare_fold [where I = "\<lambda>p w. snd p \<longrightarrow> \<not> is_connected (hw_imap w)"]) (rule left_only_when_cut)
    from hoareD(1) [OF this _ run] show ?thesis by simp
  qed
  ultimately show ?thesis by (simp add: loop_report_def)
qed

subsection \<open>The outbox during a sync\<close>

definition out_is :: "'n flush_world \<Rightarrow> ('s, 'n) head_world \<Rightarrow> bool" where
  "out_is f w \<longleftrightarrow> hw_out w = f"

lemma keeps_out_imap [keeps_rules]: "keeps (out_is f) (on_imap m)"
  by (rule keepsI) (auto simp: out_is_def on_imap_def split: prod.splits)

lemma keeps_out_steps [keeps_rules]:
  "keeps (out_is f) (push_step env acc out)" "keeps (out_is f) (list_step env acc scope out)"
  "keeps (out_is f) (folder_step env scope d p)" "keeps (out_is f) (finish_unread acc out)"
  "keeps (out_is f) (only_cached_unread acc out)"
  unfolding push_step_def list_step_def folder_step_def finish_unread_def only_cached_unread_def Let_def
  by (intro keeps_rules)+

text \<open>
  Of the sender's state a sync touches nothing but by one flush of the outbox, run first and with
  the settings of the moment; without the password it touches nothing. (With the refinement of the
  flush, a sync in the background is as safe for the outbox as a flush is.)
\<close>

theorem sync_only_flushes_the_outbox:
  "hw_out (snd (sync_account env acc scope w)) =
     (case he_secrets env acc of
        Inl _ \<Rightarrow> hw_out w
      | Inr _ \<Rightarrow> snd (flush_outbox (he_smtp env acc) (ac_id acc) ((hw_out w)\<lparr>fl_settings := w_settings (hw_imap w)\<rparr>)))"
proof (cases "he_secrets env acc")
  case (Inl e)
  then show ?thesis by (simp add: sync_account_def only_cached_unread_def io_simps)
next
  case (Inr u)
  let ?f = "snd (flush_outbox (he_smtp env acc) (ac_id acc) ((hw_out w)\<lparr>fl_settings := w_settings (hw_imap w)\<rparr>))"
  obtain out w1 where flush: "flush_step env acc (new_result acc) w = (Inr out, w1)" and w1: "out_is ?f w1"
    by (cases "flush_outbox (he_smtp env acc) (ac_id acc) ((hw_out w)\<lparr>fl_settings := w_settings (hw_imap w)\<rparr>)")
      (force simp: flush_step_def bind_io_def try_io_def on_out_def ret_io_def out_is_def split: sum.splits)
  define rest where "rest = (\<lambda>out. bind_io (push_step env acc out) (\<lambda>out.
          bind_io (list_step env acc scope out) (\<lambda>(remote, out).
            case remote of
              None \<Rightarrow> only_cached_unread acc out
            | Some remote \<Rightarrow>
                bind_io (fold_io (folder_step env scope) remote (out, False)) (\<lambda>(out, _).
                finish_unread acc out))))"
  have kept: "keeps (out_is ?f) (rest out)" unfolding rest_def by (intro keeps_rules)
  obtain r w2 where run: "rest out w1 = (r, w2)" by (cases "rest out w1")
  have "out_is ?f w2" by (rule keepsD, rule kept, rule w1, rule run)
  moreover have "sync_account env acc scope w = rest out w1"
    using Inr flush by (simp add: sync_account_def rest_def io_simps)
  ultimately show ?thesis using run Inr by (simp add: out_is_def)
qed

end
