(* ===== verification/Headless_Safety.thy ===== *)
theory Headless_Safety
  imports Headless_Facts Flush_Refinement Imap_Sync_Window
begin

text \<open>
  The sync and the outbox machine together: a sync of an account is a run of the machine.
\<close>

text \<open>
  A background sync beside other submitters hands the server the outbox's own mails, each once: from any
  reachable state of the outbox machine whose other submitters are live, it leaves the outbox in a
  reachable state, the log grown by one mail for each newly accepted id, nothing left in this process's
  hands and the others undisturbed.
\<close>

theorem background_sync_never_sends_twice:
  assumes "outbox_reachable parse (refresh_at (he_smtp env acc)) s"
    and "sys_db s = fl_queue (hw_out w)" and "sys_clock s = fl_clock (hw_out w)"
    and "sys_phase s p = (\<lambda>_. Idle)" and "live_rows_fresh s" and "logs_dialogues (he_smtp env acc) log"
  shows "\<exists>s' ids ms. outbox_reachable parse (refresh_at (he_smtp env acc)) s'
    \<and> sys_db s' = fl_queue (hw_out (snd (sync_account env acc scope w)))
    \<and> sys_phase s' = sys_phase s \<and> sys_accepted s' = sys_accepted s @ ids \<and> distinct ids
    \<and> log (fl_net (hw_out (snd (sync_account env acc scope w)))) = log (fl_net (hw_out w)) @ ms
    \<and> list_all2 (delivers (refresh_at (he_smtp env acc)) {se_from (he_smtp env acc)} (fl_queue (hw_out w))) ids ms"
proof (cases "he_secrets env acc")
  case (Inl e)
  with assms show ?thesis by (intro exI [of _ s] exI [of _ "[]"]) (simp add: sync_only_flushes_the_outbox)
next
  case (Inr u)
  let ?w = "(hw_out w)\<lparr>fl_settings := w_settings (hw_imap w)\<rparr>"
  obtain r w' where run: "flush_outbox (he_smtp env acc) (ac_id acc) ?w = (r, w')"
    by (cases "flush_outbox (he_smtp env acc) (ac_id acc) ?w")
  from flush_refines_machine [OF assms(1) _ _ assms(4-6) run] assms(2,3) obtain s' ids ms where
    "outbox_reachable parse (refresh_at (he_smtp env acc)) s'" "sys_db s' = fl_queue w'" "sys_phase s' = sys_phase s"
    "sys_accepted s' = sys_accepted s @ ids" "log (fl_net w') = log (fl_net (hw_out w)) @ ms" "distinct ids"
    "list_all2 (delivers (refresh_at (he_smtp env acc)) {se_from (he_smtp env acc)} (fl_queue (hw_out w))) ids ms"
    by auto
  moreover have "hw_out (snd (sync_account env acc scope w)) = w'"
    using Inr run by (simp add: sync_only_flushes_the_outbox)
  ultimately show ?thesis by auto
qed

definition idle_head :: "(unit, smtp_mail list) head_env" where
  "idle_head = \<lparr>he_imap = ro_env, he_smtp = (\<lambda>_. idle_env), he_secrets = (\<lambda>_. Inr ()),
     he_connect = (\<lambda>_. Inr ro_session)\<rparr>"

definition due_head :: "(unit, smtp_mail list) head_world" where
  "due_head = \<lparr>hw_imap = ro_world, hw_out = due_world\<rparr>"

lemma due_sys_ready:
  "outbox_reachable (\<lambda>_. Some (100 * ns_per_sec)) (refresh_at idle_env) due_sys"
  "sys_db due_sys = fl_queue due_world" "sys_clock due_sys = fl_clock due_world"
  "sys_phase due_sys 0 = (\<lambda>_. Idle)" "live_rows_fresh due_sys"
proof -
  let ?parse = "\<lambda>_ :: string. Some (100 * ns_per_sec)" and ?refresh = "refresh_at idle_env"
  have "outbox_reachable ?parse ?refresh held_sys"
    unfolding held_sys_def by (rule outbox_reachable.step [OF outbox_reachable.start outbox_step.schedule])
  moreover have "sys_clock held_sys \<le> 200 * ns_per_sec" by (simp add: held_sys_def init_sys_def)
  ultimately show "outbox_reachable ?parse ?refresh due_sys"
    unfolding due_sys_def by (rule outbox_reachable.step [OF _ outbox_step.tick])
qed (simp_all add: due_world_def due_sys_def held_sys_def init_sys_def live_rows_fresh_def)

theorem background_sync_never_sends_twice_witness:
  "\<exists>s' ids. outbox_reachable (\<lambda>_. Some (100 * ns_per_sec)) (refresh_at idle_env) s'
     \<and> sys_db s' = fl_queue (hw_out (snd (sync_account idle_head \<lparr>ac_id = 1, ac_email = ''a@b''\<rparr> All_Folders due_head)))
     \<and> sys_accepted s' = sys_accepted due_sys @ ids \<and> distinct ids"
proof -
  have "he_smtp idle_head = (\<lambda>_. idle_env)" "hw_out due_head = due_world" by (simp_all add: idle_head_def due_head_def)
  then show ?thesis
    using background_sync_never_sends_twice [where env = idle_head and w = due_head and s = due_sys and p = 0
        and acc = "\<lparr>ac_id = 1, ac_email = ''a@b''\<rparr>" and scope = All_Folders] due_sys_ready idle_env_logs by metis
qed

end
