(* ===== verification/Session_Pool.thy ===== *)
theory Session_Pool
  imports Headless
begin

text \<open>
  The pool of IMAP sessions (\<open>sync/pool.rs\<close>): a session is reused while healthy, and an edit of the
  account evicts it, also one that is out on lease. The pool's operations are functions on its two maps;
  around them a machine of jobs, in which the user's edits (\<open>store/account_form.rs\<close>) interleave with the
  steps of a checkout, says what the generations achieve and what they miss.
\<close>

subsection \<open>Accounts\<close>

text \<open>Errors are texts here, as in the code.\<close>

definition resolve_account :: "account list result \<Rightarrow> int \<Rightarrow> string + account" where
  "resolve_account accs wanted =
     (case (if 0 \<le> wanted then (case accs of Inr as \<Rightarrow> find (\<lambda>a. ac_id a = wanted) as | Inl _ \<Rightarrow> None) else None) of
        Some a \<Rightarrow> Inr a
      | None \<Rightarrow>
          (case accs of
             Inl e \<Rightarrow> Inl (error_text e)
           | Inr [] \<Rightarrow> Inl (''no account '' @ em_dash @ '' add one first'')
           | Inr (a # _) \<Rightarrow> Inr a))"

definition job_account :: "account list result \<Rightarrow> int \<Rightarrow> string + account" where
  "job_account accs captured =
     (if captured < 0 then resolve_account accs captured
      else case (case accs of Inr as \<Rightarrow> find (\<lambda>a. ac_id a = captured) as | Inl _ \<Rightarrow> None) of
        Some a \<Rightarrow> Inr a
      | None \<Rightarrow> Inl ''the account was removed before this action could run'')"

lemma job_account_exact:
  "0 \<le> captured \<Longrightarrow> job_account accs captured = Inr a \<Longrightarrow> ac_id a = captured"
  by (auto simp: job_account_def dest!: find_SomeD split: option.splits sum.splits)

subsection \<open>The pool\<close>

record 'c session_pool =
  po_idle :: "int \<Rightarrow> 'c option"
  po_generation :: "int \<Rightarrow> nat"

record 'c lease =
  le_account_id :: int
  le_generation :: nat
  le_session :: 'c

text \<open>The first part of \<open>checkout_session\<close>, under the lock: the idle session and the generation.\<close>

definition take_idle :: "int \<Rightarrow> 'c session_pool \<Rightarrow> ('c option \<times> nat) \<times> 'c session_pool" where
  "take_idle i pool = ((po_idle pool i, po_generation pool i), pool\<lparr>po_idle := (po_idle pool)(i := None)\<rparr>)"

definition checkin :: "('c \<Rightarrow> bool) \<Rightarrow> 'c lease \<Rightarrow> 'c session_pool \<Rightarrow> 'c session_pool" where
  "checkin connected l pool =
     (if po_generation pool (le_account_id l) \<noteq> le_generation l then pool
      else if connected (le_session l)
        then pool\<lparr>po_idle := (po_idle pool)(le_account_id l := Some (le_session l))\<rparr>
        else pool)"

definition evict_session :: "int \<Rightarrow> 'c session_pool \<Rightarrow> 'c session_pool" where
  "evict_session i pool =
     pool\<lparr>po_generation := (po_generation pool)(i := po_generation pool i + 1),
          po_idle := (po_idle pool)(i := None)\<rparr>"

definition drop_all_sessions :: "'c session_pool \<Rightarrow> 'c session_pool" where
  "drop_all_sessions pool = pool\<lparr>po_idle := (\<lambda>_. None)\<rparr>"

text \<open>A panicking job comes back as an error.\<close>

datatype 'a job_outcome = Finished "string + 'a" | Panicked "string option"

definition guard_job :: "string \<Rightarrow> 'a job_outcome \<Rightarrow> string + 'a" where
  "guard_job label outcome =
     (case outcome of
        Finished r \<Rightarrow> r
      | Panicked payload \<Rightarrow>
          Inl (label @ '' hit an internal error ('' @ (case payload of Some d \<Rightarrow> d | None \<Rightarrow> ''unknown cause'') @ '')''))"

subsection \<open>Jobs and edits\<close>

text \<open>
  A session remembers the version of the account row and of the password it was connected with, and
  has a number of its own. A job loads the account, takes what is idle, reuses or connects, and ends
  with a check-in or a drop; an edit saves the password and the row and then evicts. \<open>ev_dirty\<close> marks
  the accounts saved since their last eviction.
\<close>

record pooled =
  cs_number :: nat
  cs_row :: nat
  cs_password :: nat

datatype job =
    No_Job
  | Loaded int nat
  | Taken int nat nat "pooled option"
  | Leased "pooled lease"

record pool_sys =
  ev_pool :: "pooled session_pool"
  ev_job :: "nat \<Rightarrow> job"
  ev_row :: "int \<Rightarrow> nat"
  ev_vault :: "int \<Rightarrow> nat"
  ev_dirty :: "int \<Rightarrow> bool"
  ev_next :: nat

definition pool_start :: pool_sys where
  "pool_start = \<lparr>ev_pool = \<lparr>po_idle = (\<lambda>_. None), po_generation = (\<lambda>_. 0)\<rparr>, ev_job = (\<lambda>_. No_Job),
     ev_row = (\<lambda>_. 0), ev_vault = (\<lambda>_. 0), ev_dirty = (\<lambda>_. False), ev_next = 0\<rparr>"

definition set_job :: "nat \<Rightarrow> job \<Rightarrow> pool_sys \<Rightarrow> pool_sys" where
  "set_job p j s = s\<lparr>ev_job := (ev_job s)(p := j)\<rparr>"

inductive pool_step :: "pool_sys \<Rightarrow> pool_sys \<Rightarrow> bool" where
  load: "ev_job s p = No_Job \<Longrightarrow> pool_step s (set_job p (Loaded a (ev_row s a)) s)"
| take_pooled: "ev_job s p = Loaded a v \<Longrightarrow> take_idle a (ev_pool s) = ((found, g), pool) \<Longrightarrow>
    pool_step s (set_job p (Taken a v g found) (s\<lparr>ev_pool := pool\<rparr>))"
| reuse: "ev_job s p = Taken a v g (Some c) \<Longrightarrow>
    pool_step s (set_job p (Leased \<lparr>le_account_id = a, le_generation = g, le_session = c\<rparr>) s)"
| connect_new: "ev_job s p = Taken a v g found \<Longrightarrow>
    pool_step s (set_job p (Leased \<lparr>le_account_id = a, le_generation = g,
      le_session = \<lparr>cs_number = ev_next s, cs_row = v, cs_password = ev_vault s a\<rparr>\<rparr>) (s\<lparr>ev_next := ev_next s + 1\<rparr>))"
| connect_failed: "ev_job s p = Taken a v g found \<Longrightarrow> pool_step s (set_job p No_Job s)"
| give_back: "ev_job s p = Leased l \<Longrightarrow>
    pool_step s (set_job p No_Job (s\<lparr>ev_pool := checkin connected l (ev_pool s)\<rparr>))"
| let_go: "ev_job s p = Leased l \<Longrightarrow> pool_step s (set_job p No_Job s)"
| save_password: "pool_step s (s\<lparr>ev_vault := (ev_vault s)(a := ev_vault s a + 1), ev_dirty := (ev_dirty s)(a := True)\<rparr>)"
| save_row: "pool_step s (s\<lparr>ev_row := (ev_row s)(a := ev_row s a + 1), ev_dirty := (ev_dirty s)(a := True)\<rparr>)"
| evict: "pool_step s (s\<lparr>ev_pool := evict_session a (ev_pool s), ev_dirty := (ev_dirty s)(a := False)\<rparr>)"
| drop_all: "pool_step s (s\<lparr>ev_pool := drop_all_sessions (ev_pool s)\<rparr>)"

inductive pool_reachable :: "pool_sys \<Rightarrow> bool" where
  start: "pool_reachable pool_start"
| step: "pool_reachable s \<Longrightarrow> pool_step s s' \<Longrightarrow> pool_reachable s'"

subsection \<open>No session in two hands\<close>

datatype holder = Idle_Slot int | Job_Slot nat

definition job_session :: "job \<Rightarrow> pooled option" where
  "job_session j = (case j of Taken _ _ _ found \<Rightarrow> found | Leased l \<Rightarrow> Some (le_session l) | _ \<Rightarrow> None)"

definition held_by :: "pool_sys \<Rightarrow> holder \<Rightarrow> pooled option" where
  "held_by s h = (case h of Idle_Slot a \<Rightarrow> po_idle (ev_pool s) a | Job_Slot p \<Rightarrow> job_session (ev_job s p))"

definition one_holder :: "pool_sys \<Rightarrow> bool" where
  "one_holder s \<longleftrightarrow>
     (\<forall>h c. held_by s h = Some c \<longrightarrow> cs_number c < ev_next s)
     \<and> (\<forall>h k c d. held_by s h = Some c \<longrightarrow> held_by s k = Some d \<longrightarrow> cs_number c = cs_number d \<longrightarrow> h = k)"

text \<open>A step that moves sessions between holders without copying one.\<close>

lemma one_holder_move:
  assumes "one_holder s" and "ev_next s \<le> ev_next s'"
    and "\<And>h c. held_by s' h = Some c \<Longrightarrow> held_by s (f h) = Some c"
    and "\<And>h k. f h = f k \<Longrightarrow> held_by s' h \<noteq> None \<Longrightarrow> held_by s' k \<noteq> None \<Longrightarrow> h = k"
  shows "one_holder s'"
  using assms unfolding one_holder_def
  by (metis (no_types, lifting) dual_order.strict_trans1 option.distinct(1))

lemma held_simps [simp]:
  "held_by s (Idle_Slot a) = po_idle (ev_pool s) a"
  "held_by s (Job_Slot p) = job_session (ev_job s p)"
  by (simp_all add: held_by_def)

lemma set_job_simps [simp]:
  "ev_pool (set_job p j s) = ev_pool s" "ev_job (set_job p j s) = (ev_job s)(p := j)"
  "ev_next (set_job p j s) = ev_next s" "ev_row (set_job p j s) = ev_row s"
  "ev_vault (set_job p j s) = ev_vault s" "ev_dirty (set_job p j s) = ev_dirty s"
  by (simp_all add: set_job_def)

lemma job_session_simps [simp]:
  "job_session No_Job = None" "job_session (Loaded a v) = None" "job_session (Taken a v g found) = found"
  "job_session (Leased l) = Some (le_session l)"
  by (simp_all add: job_session_def)

lemma one_holder_less:
  assumes "one_holder s" and "ev_next s \<le> ev_next s'" and "\<And>h c. held_by s' h = Some c \<Longrightarrow> held_by s h = Some c"
  shows "one_holder s'"
  by (rule one_holder_move [OF assms(1,2), where f = "\<lambda>h. h"]) (auto intro: assms(3))

lemma one_holder_connect:
  assumes "one_holder s" and "ev_next s' = ev_next s + 1" and "held_by s' spot = Some gained" and "cs_number gained = ev_next s"
    and "\<And>h. h \<noteq> spot \<Longrightarrow> held_by s' h = held_by s h"
  shows "one_holder s'"
proof -
  have old: "cs_number c < ev_next s" if "h \<noteq> spot" "held_by s' h = Some c" for h c
    using assms(1,5) that unfolding one_holder_def by metis
  show ?thesis
    unfolding one_holder_def
  proof (intro conjI allI impI)
    fix h c
    assume "held_by s' h = Some c"
    then show "cs_number c < ev_next s'" using assms(2-4) old [of h c] by (cases "h = spot") auto
  next
    fix h k c d
    assume c: "held_by s' h = Some c" and d: "held_by s' k = Some d" and same: "cs_number c = cs_number d"
    show "h = k"
    proof (cases "h = spot \<or> k = spot")
      case True
      then show ?thesis using assms(3,4) c d same old [of h c] old [of k d] by (metis less_irrefl option.inject)
    next
      case False
      then show ?thesis using assms(1,5) c d same unfolding one_holder_def by metis
    qed
  qed
qed

lemma one_holder_step: "pool_step s s' \<Longrightarrow> one_holder s \<Longrightarrow> one_holder s'"
proof (induction rule: pool_step.induct)
  case (load s p a)
  show ?case by (rule one_holder_less [OF load.prems]) (auto simp: held_by_def split: holder.splits if_splits)
next
  case (take_pooled s p a v found g pool)
  show ?case
    by (rule one_holder_move [OF take_pooled.prems, where f = "\<lambda>h. if h = Job_Slot p then Idle_Slot a else h"])
      (use take_pooled.hyps in \<open>auto simp: held_by_def take_idle_def split: holder.splits if_splits\<close>)
next
  case (reuse s p a v g c)
  then show ?case by (intro one_holder_less [OF reuse.prems]) (auto simp: held_by_def split: holder.splits if_splits)
next
  case (connect_new s p a v g found)
  show ?case
    by (rule one_holder_connect [OF connect_new.prems, where spot = "Job_Slot p"])
      (auto simp: held_by_def split: holder.splits)
next
  case (connect_failed s p a v g found)
  show ?case by (rule one_holder_less [OF connect_failed.prems]) (auto simp: held_by_def split: holder.splits if_splits)
next
  case (give_back s p l connected)
  show ?case
    by (rule one_holder_move [OF give_back.prems, where
          f = "\<lambda>h. if h = Idle_Slot (le_account_id l) \<and> po_generation (ev_pool s) (le_account_id l) = le_generation l
            \<and> connected (le_session l) then Job_Slot p else h"])
      (use give_back.hyps in \<open>auto simp: held_by_def checkin_def split: holder.splits if_splits\<close>)
next
  case (let_go s p l)
  show ?case by (rule one_holder_less [OF let_go.prems]) (auto simp: held_by_def split: holder.splits if_splits)
next
  case (save_password s a)
  show ?case by (rule one_holder_less [OF save_password.prems]) (auto simp: held_by_def split: holder.splits)
next
  case (save_row s a)
  show ?case by (rule one_holder_less [OF save_row.prems]) (auto simp: held_by_def split: holder.splits)
next
  case (evict s a)
  show ?case by (rule one_holder_less [OF evict.prems])
    (auto simp: held_by_def evict_session_def split: holder.splits if_splits)
next
  case (drop_all s)
  show ?case by (rule one_holder_less [OF drop_all.prems]) (auto simp: held_by_def drop_all_sessions_def split: holder.splits)
qed

lemma reachable_one_holder: "pool_reachable s \<Longrightarrow> one_holder s"
proof (induction rule: pool_reachable.induct)
  case start
  show ?case by (auto simp: one_holder_def held_by_def pool_start_def split: holder.splits)
qed (rule one_holder_step)

subsection \<open>Passwords are fresh\<close>

text \<open>
  Generations never run ahead of the pool's, and a session that may still be pooled for an account
  saved completely was connected with its password.
\<close>

definition fresh_for :: "pool_sys \<Rightarrow> int \<Rightarrow> nat \<Rightarrow> pooled \<Rightarrow> bool" where
  "fresh_for s a g c \<longleftrightarrow>
     g = po_generation (ev_pool s) a \<longrightarrow> \<not> ev_dirty s a \<longrightarrow> cs_password c = ev_vault s a"

definition job_fresh :: "pool_sys \<Rightarrow> job \<Rightarrow> bool" where
  "job_fresh s j = (case j of
      Taken a v g found \<Rightarrow> g \<le> po_generation (ev_pool s) a \<and> (\<forall>c. found = Some c \<longrightarrow> fresh_for s a g c)
    | Leased l \<Rightarrow> le_generation l \<le> po_generation (ev_pool s) (le_account_id l)
        \<and> fresh_for s (le_account_id l) (le_generation l) (le_session l)
    | _ \<Rightarrow> True)"

definition passwords_fresh :: "pool_sys \<Rightarrow> bool" where
  "passwords_fresh s \<longleftrightarrow> (\<forall>p. job_fresh s (ev_job s p))
     \<and> (\<forall>a c. po_idle (ev_pool s) a = Some c \<longrightarrow> fresh_for s a (po_generation (ev_pool s) a) c)"

lemma job_fresh_simps [simp]:
  "job_fresh s No_Job" "job_fresh s (Loaded a v)"
  "job_fresh s (Taken a v g found) \<longleftrightarrow> g \<le> po_generation (ev_pool s) a \<and> (\<forall>c. found = Some c \<longrightarrow> fresh_for s a g c)"
  "job_fresh s (Leased l) \<longleftrightarrow> le_generation l \<le> po_generation (ev_pool s) (le_account_id l)
     \<and> fresh_for s (le_account_id l) (le_generation l) (le_session l)"
  by (simp_all add: job_fresh_def)

text \<open>A step keeps what is fresh when it changes at most one job, to a fresh one, and the idle sessions stay fresh.\<close>

lemma passwords_change:
  assumes "passwords_fresh s"
    and gen: "\<And>a. po_generation (ev_pool s) a \<le> po_generation (ev_pool s') a"
    and mono: "\<And>a g c. g \<le> po_generation (ev_pool s) a \<Longrightarrow> fresh_for s a g c \<Longrightarrow> fresh_for s' a g c"
    and jobs: "\<And>p. ev_job s' p = ev_job s p \<or> job_fresh s' (ev_job s' p)"
    and idle: "\<And>a c. po_idle (ev_pool s') a = Some c \<Longrightarrow> fresh_for s' a (po_generation (ev_pool s') a) c"
  shows "passwords_fresh s'"
proof -
  have "job_fresh s' j" if "job_fresh s j" for j
  proof (cases j)
    case (Taken a v g found)
    with that mono gen [of a] show ?thesis by auto
  next
    case (Leased l)
    with that mono gen [of "le_account_id l"] show ?thesis by auto
  qed simp_all
  then show ?thesis using assms(1) jobs idle unfolding passwords_fresh_def by metis
qed

lemma fresh_idle: "passwords_fresh s \<Longrightarrow> po_idle (ev_pool s) a = Some c \<Longrightarrow> fresh_for s a (po_generation (ev_pool s) a) c"
  by (simp add: passwords_fresh_def)

lemma fresh_job: "passwords_fresh s \<Longrightarrow> ev_job s p = j \<Longrightarrow> job_fresh s j"
  by (auto simp: passwords_fresh_def)

lemma passwords_step: "pool_step s s' \<Longrightarrow> passwords_fresh s \<Longrightarrow> passwords_fresh s'"
proof (induction rule: pool_step.induct)
  case (take_pooled s p a v found g pool)
  note idle = fresh_idle [OF take_pooled.prems]
  show ?case
    by (rule passwords_change [OF take_pooled.prems])
      (use take_pooled.hyps idle in \<open>auto simp: take_idle_def fresh_for_def split: if_splits\<close>)
next
  case (reuse s p a v g c)
  show ?case
    by (rule passwords_change [OF reuse.prems])
      (use fresh_job [OF reuse.prems reuse.hyps] fresh_idle [OF reuse.prems] in \<open>auto simp: fresh_for_def\<close>)
next
  case (connect_new s p a v g found)
  show ?case
    by (rule passwords_change [OF connect_new.prems])
      (use fresh_job [OF connect_new.prems connect_new.hyps] fresh_idle [OF connect_new.prems] in \<open>auto simp: fresh_for_def\<close>)
next
  case (give_back s p l connected)
  show ?case
    by (rule passwords_change [OF give_back.prems])
      (use fresh_job [OF give_back.prems give_back.hyps] fresh_idle [OF give_back.prems] in
        \<open>auto simp: fresh_for_def checkin_def split: if_splits\<close>)
next
  case (evict s a)
  show ?case
    by (rule passwords_change [OF evict.prems])
      (use fresh_idle [OF evict.prems] in \<open>auto simp: fresh_for_def evict_session_def split: if_splits\<close>)
next
  case (drop_all s)
  show ?case by (rule passwords_change [OF drop_all.prems]) (auto simp: fresh_for_def drop_all_sessions_def)
next
  case (load s p a)
  show ?case by (rule passwords_change [OF load.prems]) (use fresh_idle [OF load.prems] in \<open>auto simp: fresh_for_def\<close>)
next
  case (connect_failed s p a v g found)
  show ?case by (rule passwords_change [OF connect_failed.prems])
      (use fresh_idle [OF connect_failed.prems] in \<open>auto simp: fresh_for_def\<close>)
next
  case (let_go s p l)
  show ?case by (rule passwords_change [OF let_go.prems]) (use fresh_idle [OF let_go.prems] in \<open>auto simp: fresh_for_def\<close>)
next
  case (save_password s a)
  show ?case by (rule passwords_change [OF save_password.prems])
      (use fresh_idle [OF save_password.prems] in \<open>auto simp: fresh_for_def split: if_splits\<close>)
next
  case (save_row s a)
  show ?case by (rule passwords_change [OF save_row.prems])
      (use fresh_idle [OF save_row.prems] in \<open>auto simp: fresh_for_def split: if_splits\<close>)
qed

lemma reachable_passwords: "pool_reachable s \<Longrightarrow> passwords_fresh s"
proof (induction rule: pool_reachable.induct)
  case start
  show ?case by (simp add: passwords_fresh_def pool_start_def)
qed (rule passwords_step)

subsection \<open>The properties\<close>

text \<open>
  C20. Whatever jobs, edits, evictions and shutdowns interleave, an idle session of an account whose
  edits have been followed by their eviction was connected with the password now in the vault, also when
  it was out on lease during the edit; and nobody else holds it.
\<close>

theorem pooled_session_has_the_password:
  assumes "pool_reachable s" and "po_idle (ev_pool s) a = Some c" and "\<not> ev_dirty s a"
  shows "cs_password c = ev_vault s a \<and> {h. map_option cs_number (held_by s h) = Some (cs_number c)} = {Idle_Slot a}"
proof
  show "cs_password c = ev_vault s a"
    using fresh_idle [OF reachable_passwords [OF assms(1)] assms(2)] assms(3) by (simp add: fresh_for_def)
  have "h = Idle_Slot a" if "held_by s h = Some d" "cs_number d = cs_number c" for h d
    using reachable_one_holder [OF assms(1)] that assms(2) unfolding one_holder_def by (metis held_simps(1))
  then show "{h. map_option cs_number (held_by s h) = Some (cs_number c)} = {Idle_Slot a}"
    using assms(2) by auto
qed

definition first_lease :: pool_sys where
  "first_lease = set_job 0 (Leased \<lparr>le_account_id = 1, le_generation = 0,
     le_session = \<lparr>cs_number = 0, cs_row = 0, cs_password = 0\<rparr>\<rparr>)
     (set_job 0 (Taken 1 0 0 None) (set_job 0 (Loaded 1 0) pool_start)\<lparr>ev_next := 1\<rparr>)"

lemma first_lease_reachable: "pool_reachable first_lease"
proof -
  let ?l = "set_job 0 (Loaded 1 0) pool_start" and ?t = "set_job 0 (Taken 1 0 0 None) (set_job 0 (Loaded 1 0) pool_start)"
  have "pool_step pool_start ?l" using pool_step.load [of pool_start 0 1] by (simp add: pool_start_def)
  moreover have "pool_step ?l ?t"
    using pool_step.take_pooled [of ?l 0 1 0 None 0 "ev_pool pool_start"]
    by (simp add: take_idle_def pool_start_def set_job_def fun_eq_iff)
  moreover have "pool_step ?t first_lease"
    using pool_step.connect_new [of ?t 0 1 0 0 None]
    by (simp add: first_lease_def pool_start_def set_job_def)
  ultimately show ?thesis by (meson pool_reachable.intros)
qed

definition first_pooled :: pool_sys where
  "first_pooled = set_job 0 No_Job (first_lease\<lparr>ev_pool := checkin (\<lambda>_. True) \<lparr>le_account_id = 1, le_generation = 0,
     le_session = \<lparr>cs_number = 0, cs_row = 0, cs_password = 0\<rparr>\<rparr> (ev_pool first_lease)\<rparr>)"

theorem pooled_session_has_the_password_witness:
  "pool_reachable first_pooled
   \<and> po_idle (ev_pool first_pooled) 1 = Some \<lparr>cs_number = 0, cs_row = 0, cs_password = 0\<rparr>
   \<and> {h. map_option cs_number (held_by first_pooled h) = Some 0} = {Idle_Slot 1}"
proof -
  have "ev_job first_lease 0 = Leased \<lparr>le_account_id = 1, le_generation = 0,
     le_session = \<lparr>cs_number = 0, cs_row = 0, cs_password = 0\<rparr>\<rparr>" by (simp add: first_lease_def)
  then have reach: "pool_reachable first_pooled"
    unfolding first_pooled_def by (intro pool_reachable.step [OF first_lease_reachable] pool_step.give_back)
  have idle: "po_idle (ev_pool first_pooled) 1 = Some \<lparr>cs_number = 0, cs_row = 0, cs_password = 0\<rparr>"
    and clean: "\<not> ev_dirty first_pooled 1"
    by (simp_all add: first_pooled_def first_lease_def checkin_def pool_start_def)
  from pooled_session_has_the_password [OF reach idle clean] reach idle show ?thesis by simp
qed

text \<open>
  C21. The generation does not cover the account row a job loaded before the edit: a job that has the
  old host in hand and checks out only after the eviction gets the new generation, connects to the old
  host, and its session is pooled although the edit is saved and evicted.
\<close>

theorem stale_host_can_be_pooled:
  "\<exists>s c. pool_reachable s \<and> \<not> ev_dirty s 1 \<and> po_idle (ev_pool s) 1 = Some c \<and> cs_row c \<noteq> ev_row s 1"
proof -
  let ?c = "\<lparr>cs_number = 0, cs_row = 0, cs_password = 0\<rparr>"
  let ?lease = "\<lparr>le_account_id = 1, le_generation = 1, le_session = ?c\<rparr>"
  define s1 where "s1 = set_job 0 (Loaded 1 0) pool_start"
  define s2 where "s2 = s1\<lparr>ev_row := (ev_row s1)(1 := ev_row s1 1 + 1), ev_dirty := (ev_dirty s1)(1 := True)\<rparr>"
  define s3 where "s3 = s2\<lparr>ev_pool := evict_session 1 (ev_pool s2), ev_dirty := (ev_dirty s2)(1 := False)\<rparr>"
  define s4 where "s4 = set_job 0 (Taken 1 0 1 None) (s3\<lparr>ev_pool := snd (take_idle 1 (ev_pool s3))\<rparr>)"
  define s5 where "s5 = set_job 0 (Leased ?lease) (s4\<lparr>ev_next := 1\<rparr>)"
  define s6 where "s6 = set_job 0 No_Job (s5\<lparr>ev_pool := checkin (\<lambda>_. True) ?lease (ev_pool s5)\<rparr>)"
  have "pool_step pool_start s1" using pool_step.load [of pool_start 0 1] by (simp add: s1_def pool_start_def)
  moreover have "pool_step s1 s2" unfolding s2_def by (rule pool_step.save_row)
  moreover have "pool_step s2 s3" unfolding s3_def by (rule pool_step.evict)
  moreover have "pool_step s3 s4" unfolding s4_def
    by (rule pool_step.take_pooled [where found = None])
      (simp_all add: s3_def s2_def s1_def take_idle_def evict_session_def pool_start_def)
  moreover have "pool_step s4 s5"
    using pool_step.connect_new [of s4 0 1 0 1 None]
    by (simp add: s5_def s4_def s3_def s2_def s1_def pool_start_def)
  moreover have "pool_step s5 s6" unfolding s6_def by (rule pool_step.give_back) (simp add: s5_def)
  ultimately have "pool_reachable s6" by (meson pool_reachable.intros)
  moreover have "\<not> ev_dirty s6 1 \<and> po_idle (ev_pool s6) 1 = Some ?c \<and> ev_row s6 1 = 1"
    by (simp add: s6_def s5_def s4_def s3_def s2_def s1_def checkin_def take_idle_def evict_session_def pool_start_def)
  ultimately show ?thesis by (metis pooled.select_convs(2) zero_neq_one)
qed

end
