(* ===== verification/Seen_Marks.thy ===== *)
theory Seen_Marks
  imports Headless
begin

text \<open>
  The high-water marks of the background check (\<open>sync/background.rs\<close>): per inbox folder a line above
  which mail has not been announced (\<open>bg_seen_uid_\<close>) and a line above which the notification lists mail
  (\<open>bg_shown_uid_\<close>), both kept among the settings as \<open>{uidvalidity}:{uid}\<close>. The cache answers every
  statement, so a mark is always saved.
\<close>

record new_mail =
  nm_account_id :: int
  nm_account_email :: string
  nm_folder_id :: int
  nm_folder :: string
  nm_uid :: nat
  nm_uid_validity :: nat
  nm_from :: string
  nm_subject :: string
  nm_date :: string
  nm_snippet :: string

definition BG_SEEN_PREFIX :: string where "BG_SEEN_PREFIX = ''bg_seen_uid_''"
definition BG_SHOWN_PREFIX :: string where "BG_SHOWN_PREFIX = ''bg_shown_uid_''"

record seen_mark =
  sm_account_id :: int
  sm_folder_id :: int
  sm_uid_validity :: int
  sm_uid :: int

definition mark_key :: "string \<Rightarrow> int \<Rightarrow> int \<Rightarrow> string" where
  "mark_key prefix a i = prefix @ string_of_int a @ ''_'' @ string_of_int i"

definition seen_key :: "seen_mark \<Rightarrow> string" where
  "seen_key m = mark_key BG_SEEN_PREFIX (sm_account_id m) (sm_folder_id m)"

definition shown_key :: "seen_mark \<Rightarrow> string" where
  "shown_key m = mark_key BG_SHOWN_PREFIX (sm_account_id m) (sm_folder_id m)"

definition mark_value :: "seen_mark \<Rightarrow> string" where
  "mark_value m = string_of_int (sm_uid_validity m) @ '':'' @ string_of_int (sm_uid m)"

definition stored_mark :: "settings_db \<Rightarrow> string \<Rightarrow> int \<Rightarrow> int option" where
  "stored_mark s key validity =
     (case setting_get s key of
        None \<Rightarrow> None
      | Some raw \<Rightarrow>
          (case split_once CHR '':'' raw of
             None \<Rightarrow> None
           | Some (v, u) \<Rightarrow> if parse_i64 v = Some validity then parse_i64 u else None))"

definition validity_of :: "folder \<Rightarrow> int" where
  "validity_of f = (case d_uid_validity f of None \<Rightarrow> 0 | Some v \<Rightarrow> int v)"

definition top_uid :: "mail_db \<Rightarrow> int \<Rightarrow> int" where
  "top_uid db i = fold max (map (\<lambda>m. int (m_uid m)) (filter (\<lambda>m. m_folder_id m = i) (db_messages db))) 0"

definition inbox_tops :: "mail_db \<Rightarrow> seen_mark list" where
  "inbox_tops db =
     map (\<lambda>f. \<lparr>sm_account_id = d_account_id f, sm_folder_id = d_id f, sm_uid_validity = validity_of f,
         sm_uid = top_uid db (d_id f)\<rparr>)
       (sort_key d_account_id (sort_key d_id (filter (\<lambda>f. d_role f = Inbox) (db_folders db))))"

definition or_empty :: "string option \<Rightarrow> string" where
  "or_empty x = (case x of None \<Rightarrow> [] | Some s \<Rightarrow> s)"

text \<open>A row of the list, when its account and its folder are there (the joins).\<close>

definition new_mail_of :: "account list \<Rightarrow> mail_db \<Rightarrow> seen_mark \<Rightarrow> message \<Rightarrow> new_mail option" where
  "new_mail_of accs db high m =
     (case (find (\<lambda>a. ac_id a = m_account_id m) accs, find (\<lambda>f. d_id f = m_folder_id m) (db_folders db)) of
        (Some a, Some f) \<Rightarrow>
          Some \<lparr>nm_account_id = sm_account_id high, nm_account_email = ac_email a,
            nm_folder_id = sm_folder_id high, nm_folder = d_path f, nm_uid = m_uid m,
            nm_uid_validity = nat (sm_uid_validity high mod 2 ^ 32), nm_from = or_empty (m_from_addr m),
            nm_subject = or_empty (m_subject m), nm_date = or_empty (m_date m),
            nm_snippet = or_empty (m_snippet m)\<rparr>
      | _ \<Rightarrow> None)"

definition unread_above :: "account list \<Rightarrow> mail_db \<Rightarrow> seen_mark \<Rightarrow> int \<Rightarrow> new_mail list" where
  "unread_above accs db high mark =
     List.map_filter (new_mail_of accs db high)
       (sort_key m_uid (filter (\<lambda>m. m_folder_id m = sm_folder_id high \<and> \<not> m_is_read m
          \<and> mark < int (m_uid m) \<and> \<not> hidden db (m_id m)) (db_messages db)))"

definition collect_new_mail ::
  "account list \<Rightarrow> mail_db \<Rightarrow> settings_db \<Rightarrow> new_mail list \<times> seen_mark list" where
  "collect_new_mail accs db s =
     (let tops = inbox_tops db in
      (concat (map (\<lambda>high. case stored_mark s (seen_key high) (sm_uid_validity high) of
           None \<Rightarrow> [] | Some mark \<Rightarrow> unread_above accs db high mark) tops), tops))"

definition collect_pending :: "account list \<Rightarrow> mail_db \<Rightarrow> settings_db \<Rightarrow> new_mail list" where
  "collect_pending accs db s =
     concat (map (\<lambda>high.
       case (case stored_mark s (shown_key high) (sm_uid_validity high) of
               Some n \<Rightarrow> Some n
             | None \<Rightarrow> stored_mark s (seen_key high) (sm_uid_validity high)) of
         None \<Rightarrow> [] | Some mark \<Rightarrow> unread_above accs db high mark) (inbox_tops db))"

definition mark_inbox_seen :: "mail_db \<Rightarrow> settings_db \<Rightarrow> settings_db" where
  "mark_inbox_seen db s =
     fold (\<lambda>high s. setting_set (shown_key high) (mark_value high) (setting_set (seen_key high) (mark_value high) s))
       (inbox_tops db) s"

definition commit_mark :: "seen_mark \<Rightarrow> settings_db \<Rightarrow> settings_db" where
  "commit_mark m s =
     setting_set (seen_key m) (mark_value m)
       (if stored_mark s (shown_key m) (sm_uid_validity m) = None then
          setting_set (shown_key m) (mark_value (m\<lparr>sm_uid :=
            (case stored_mark s (seen_key m) (sm_uid_validity m) of None \<Rightarrow> sm_uid m | Some n \<Rightarrow> n)\<rparr>)) s
        else s)"

definition commit_seen :: "seen_mark list \<Rightarrow> settings_db \<Rightarrow> settings_db" where
  "commit_seen marks s = fold commit_mark marks s"

subsection \<open>Marks read back as they were written\<close>

lemma string_of_int_no: "\<not> is_ascii_digit c \<Longrightarrow> c \<noteq> CHR ''-'' \<Longrightarrow> c \<notin> set (string_of_int i)"
  using digits_of_digits by (auto simp: string_of_int_def)

lemma string_of_int_inj: "string_of_int a = string_of_int b \<longleftrightarrow> a = b"
proof
  have neg: "string_of_int x \<noteq> string_of_int y" if "x < 0" "\<not> y < 0" for x y
  proof -
    have "\<not> is_ascii_digit CHR ''-''" by (simp add: is_ascii_digit_def)
    then have "hd (string_of_int y) \<noteq> CHR ''-''"
      using that digits_of_digits [OF hd_in_set [OF digits_of_nonempty, of "nat y"]]
      by (auto simp: string_of_int_def)
    moreover have "hd (string_of_int x) = CHR ''-''" using that by (simp add: string_of_int_def)
    ultimately show ?thesis by metis
  qed
  assume eq: "string_of_int a = string_of_int b"
  have inj: "digits_of m = digits_of n \<longleftrightarrow> m = n" for m n by (metis value_digits_of)
  from eq neg [of a b] neg [of b a] show "a = b"
    by (cases "a < 0"; cases "b < 0") (auto simp: string_of_int_def inj)
qed simp

lemma mark_key_inj:
  "mark_key BG_SEEN_PREFIX a i = mark_key BG_SEEN_PREFIX b j \<longleftrightarrow> a = b \<and> i = j"
  "mark_key BG_SHOWN_PREFIX a i = mark_key BG_SHOWN_PREFIX b j \<longleftrightarrow> a = b \<and> i = j"
proof -
  have no: "CHR ''_'' \<notin> set (string_of_int x)" for x by (rule string_of_int_no) (simp_all add: is_ascii_digit_def)
  have "string_of_int a @ ''_'' @ string_of_int i = string_of_int b @ ''_'' @ string_of_int j
      \<longleftrightarrow> a = b \<and> i = j"
  proof
    assume "string_of_int a @ ''_'' @ string_of_int i = string_of_int b @ ''_'' @ string_of_int j"
    then have "split_once CHR ''_'' (string_of_int a @ CHR ''_'' # string_of_int i) = Some (string_of_int b, string_of_int j)"
      using no [of b] by (simp add: split_once_Some)
    moreover have "split_once CHR ''_'' (string_of_int a @ CHR ''_'' # string_of_int i) = Some (string_of_int a, string_of_int i)"
      using no [of a] by (simp add: split_once_Some)
    ultimately show "a = b \<and> i = j" by (simp add: string_of_int_inj)
  qed simp
  then show "mark_key BG_SEEN_PREFIX a i = mark_key BG_SEEN_PREFIX b j \<longleftrightarrow> a = b \<and> i = j"
    "mark_key BG_SHOWN_PREFIX a i = mark_key BG_SHOWN_PREFIX b j \<longleftrightarrow> a = b \<and> i = j"
    by (simp_all add: mark_key_def)
qed

lemma mark_key_apart [simp]:
  "mark_key BG_SEEN_PREFIX a i \<noteq> mark_key BG_SHOWN_PREFIX b j"
  "mark_key BG_SHOWN_PREFIX b j \<noteq> mark_key BG_SEEN_PREFIX a i"
  by (simp_all add: mark_key_def BG_SEEN_PREFIX_def BG_SHOWN_PREFIX_def)

definition in_i64 :: "int \<Rightarrow> bool" where
  "in_i64 i \<longleftrightarrow> i64_min \<le> i \<and> i \<le> i64_max"

lemma stored_mark_set:
  assumes "in_i64 (sm_uid_validity m)" and "in_i64 (sm_uid m)"
  shows "stored_mark (setting_set k (mark_value m) s) key v =
    (if key = k then if v = sm_uid_validity m then Some (sm_uid m) else None else stored_mark s key v)"
proof (cases "key = k")
  case True
  have "CHR '':'' \<notin> set (string_of_int (sm_uid_validity m))"
    by (rule string_of_int_no) (simp_all add: is_ascii_digit_def)
  then have "split_once CHR '':'' (mark_value m) = Some (string_of_int (sm_uid_validity m), string_of_int (sm_uid m))"
    by (simp add: split_once_Some mark_value_def)
  with True assms show ?thesis by (auto simp: stored_mark_def parse_string_of_int in_i64_def)
qed (simp add: stored_mark_def)

lemma parse_i64_range: "parse_i64 s = Some i \<Longrightarrow> in_i64 i"
  by (auto simp: parse_i64_def in_i64_def i64_min_def i64_max_def split: if_splits option.splits)

lemma stored_mark_range: "stored_mark s k v = Some n \<Longrightarrow> in_i64 n"
  by (auto simp: stored_mark_def dest: parse_i64_range split: option.splits if_splits)

lemma stored_mark_unique: "stored_mark s k v = Some n \<Longrightarrow> v \<noteq> w \<Longrightarrow> stored_mark s k w = None"
  by (auto simp: stored_mark_def split: option.splits if_splits)

abbreviation seen_at :: "settings_db \<Rightarrow> int \<Rightarrow> int \<Rightarrow> int \<Rightarrow> int option" where
  "seen_at s a i \<equiv> stored_mark s (mark_key BG_SEEN_PREFIX a i)"

abbreviation shown_at :: "settings_db \<Rightarrow> int \<Rightarrow> int \<Rightarrow> int \<Rightarrow> int option" where
  "shown_at s a i \<equiv> stored_mark s (mark_key BG_SHOWN_PREFIX a i)"

definition mark_in_range :: "seen_mark \<Rightarrow> bool" where
  "mark_in_range m \<longleftrightarrow> in_i64 (sm_uid_validity m) \<and> in_i64 (sm_uid m)"

definition of_folder :: "int \<Rightarrow> int \<Rightarrow> seen_mark \<Rightarrow> bool" where
  "of_folder a i m \<longleftrightarrow> sm_account_id m = a \<and> sm_folder_id m = i"

lemma seen_commit_mark:
  assumes "mark_in_range m"
  shows "seen_at (commit_mark m s) a i v =
    (if of_folder a i m then if v = sm_uid_validity m then Some (sm_uid m) else None else seen_at s a i v)"
proof -
  have keep: "seen_at (setting_set (shown_key m) x s) a i v = seen_at s a i v" for x
    by (simp add: stored_mark_def shown_key_def)
  show ?thesis
    using assms keep by (auto simp: commit_mark_def stored_mark_set seen_key_def mark_key_inj of_folder_def mark_in_range_def)
qed

lemma shown_commit_mark:
  assumes m: "mark_in_range m"
  shows "shown_at (commit_mark m s) a i v =
    (if of_folder a i m then
       if v = sm_uid_validity m then
         Some (case shown_at s a i v of Some k \<Rightarrow> k | None \<Rightarrow>
                 (case seen_at s a i v of Some n \<Rightarrow> n | None \<Rightarrow> sm_uid m))
       else None
     else shown_at s a i v)"
proof -
  define line where "line = m\<lparr>sm_uid := (case stored_mark s (seen_key m) (sm_uid_validity m) of
      None \<Rightarrow> sm_uid m | Some n \<Rightarrow> n)\<rparr>"
  have line: "in_i64 (sm_uid_validity line)" "in_i64 (sm_uid line)"
    using m by (auto simp: line_def mark_in_range_def dest: stored_mark_range split: option.splits)
  have keep: "shown_at (setting_set (seen_key m) x t) a i v = shown_at t a i v" for x t
    by (simp add: stored_mark_def seen_key_def)
  show ?thesis
  proof (cases "stored_mark s (shown_key m) (sm_uid_validity m)")
    case None
    then have "shown_at (commit_mark m s) a i v = shown_at (setting_set (shown_key m) (mark_value line) s) a i v"
      by (simp add: commit_mark_def keep line_def)
    then have "shown_at (commit_mark m s) a i v =
        (if of_folder a i m then if v = sm_uid_validity line then Some (sm_uid line) else None else shown_at s a i v)"
      by (auto simp: stored_mark_set [OF line] shown_key_def mark_key_inj of_folder_def)
    with None show ?thesis
      by (auto simp: shown_key_def seen_key_def of_folder_def line_def)
  next
    case (Some k)
    then have "shown_at (commit_mark m s) a i v = shown_at s a i v"
      by (simp add: commit_mark_def keep)
    with Some stored_mark_unique [OF Some] show ?thesis
      by (auto simp: shown_key_def of_folder_def split: option.splits)
  qed
qed

lemma commit_other:
  assumes "\<forall>m \<in> set ms. mark_in_range m" and "\<forall>m \<in> set ms. \<not> of_folder a i m"
  shows "seen_at (commit_seen ms s) a i v = seen_at s a i v" (is ?seen)
    and "shown_at (commit_seen ms s) a i v = shown_at s a i v" (is ?shown)
proof -
  have "?seen \<and> ?shown"
    using assms
  proof (induction ms arbitrary: s)
    case Nil
    then show ?case by (simp add: commit_seen_def)
  next
    case (Cons m ms)
    then show ?case by (simp add: commit_seen_def seen_commit_mark shown_commit_mark)
  qed
  then show ?seen ?shown by simp_all
qed

definition one_per_folder :: "seen_mark list \<Rightarrow> bool" where
  "one_per_folder ms \<longleftrightarrow> distinct (map (\<lambda>m. (sm_account_id m, sm_folder_id m)) ms)"

lemma commit_this:
  assumes "\<forall>m \<in> set ms. mark_in_range m" and "one_per_folder ms" and "m \<in> set ms" and "of_folder a i m"
  shows "seen_at (commit_seen ms s) a i v = (if v = sm_uid_validity m then Some (sm_uid m) else None)" (is ?seen)
    and "shown_at (commit_seen ms s) a i v =
      (if v = sm_uid_validity m then
         Some (case shown_at s a i v of Some k \<Rightarrow> k | None \<Rightarrow>
                 (case seen_at s a i v of Some n \<Rightarrow> n | None \<Rightarrow> sm_uid m))
       else None)" (is ?shown)
proof -
  have "?seen \<and> ?shown"
    using assms(1-3)
  proof (induction ms arbitrary: s)
    case (Cons x ms)
    show ?case
    proof (cases "x = m")
      case True
      with Cons.prems have "\<forall>y \<in> set ms. \<not> of_folder a i y"
        using assms(4) by (auto simp: one_per_folder_def of_folder_def image_iff)
      with True Cons.prems assms(4) show ?thesis
        by (simp add: commit_seen_def commit_other [unfolded commit_seen_def] seen_commit_mark shown_commit_mark)
    next
      case False
      with Cons.prems have m: "m \<in> set ms" by simp
      with Cons.prems(2) assms(4) have "\<not> of_folder a i x"
        by (force simp: one_per_folder_def of_folder_def)
      with Cons m show ?thesis
        by (simp add: commit_seen_def seen_commit_mark shown_commit_mark one_per_folder_def split: option.split)
    qed
  qed simp
  then show ?seen ?shown by simp_all
qed

text \<open>What the columns and constraints of the cache promise: 32-bit numbers, one row per folder and UID.\<close>

definition cache_ok :: "mail_db \<Rightarrow> bool" where
  "cache_ok db \<longleftrightarrow> list_all (\<lambda>f. validity_of f \<le> int u32_max) (db_folders db)
     \<and> list_all (\<lambda>m. m_uid m \<le> u32_max) (db_messages db)
     \<and> distinct (map d_id (db_folders db))
     \<and> distinct (map (\<lambda>m. (m_folder_id m, m_uid m)) (db_messages db))"

lemma fold_max_le: "fold max xs (b :: int) \<le> c \<longleftrightarrow> b \<le> c \<and> (\<forall>x \<in> set xs. x \<le> c)"
  by (induction xs arbitrary: b) auto

lemma top_uid_le: "top_uid db i \<le> c \<longleftrightarrow> 0 \<le> c \<and> (\<forall>m \<in> set (db_messages db). m_folder_id m = i \<longrightarrow> int (m_uid m) \<le> c)"
  by (auto simp: top_uid_def fold_max_le)

lemma top_uid_bounds: "0 \<le> top_uid db i" "m \<in> set (db_messages db) \<Longrightarrow> m_folder_id m = i \<Longrightarrow> int (m_uid m) \<le> top_uid db i"
proof -
  have "fold max xs (b :: int) \<le> fold max xs b \<longleftrightarrow> b \<le> fold max xs b \<and> (\<forall>x \<in> set xs. x \<le> fold max xs b)" for xs b
    by (rule fold_max_le)
  then show "0 \<le> top_uid db i" "m \<in> set (db_messages db) \<Longrightarrow> m_folder_id m = i \<Longrightarrow> int (m_uid m) \<le> top_uid db i"
    by (auto simp: top_uid_def)
qed

lemma top_uid_less: "top_uid db i < int u \<longleftrightarrow> 0 < u \<and> (\<forall>m \<in> set (db_messages db). m_folder_id m = i \<longrightarrow> m_uid m < u)"
proof -
  have "top_uid db i < int u \<longleftrightarrow> top_uid db i \<le> int u - 1" by linarith
  also have "\<dots> \<longleftrightarrow> 0 < u \<and> (\<forall>m \<in> set (db_messages db). m_folder_id m = i \<longrightarrow> m_uid m < u)"
    unfolding top_uid_le by force
  finally show ?thesis .
qed

lemma set_inbox_tops:
  "m \<in> set (inbox_tops db) \<longleftrightarrow> (\<exists>f \<in> set (db_folders db). d_role f = Inbox
     \<and> m = \<lparr>sm_account_id = d_account_id f, sm_folder_id = d_id f, sm_uid_validity = validity_of f,
         sm_uid = top_uid db (d_id f)\<rparr>)"
  by (auto simp: inbox_tops_def)

lemma tops_one_per_folder:
  assumes "cache_ok db"
  shows "one_per_folder (inbox_tops db)"
proof -
  have "distinct (map d_id (sort_key d_account_id (sort_key d_id (filter (\<lambda>f. d_role f = Inbox) (db_folders db)))))"
    using assms by (auto simp: cache_ok_def distinct_map inj_on_def)
  then have "distinct (map sm_folder_id (inbox_tops db))"
    by (simp add: inbox_tops_def comp_def)
  then show ?thesis
    unfolding one_per_folder_def distinct_map by (auto simp: inj_on_def)
qed

lemma tops_in_range:
  assumes "cache_ok db" and "m \<in> set (inbox_tops db)"
  shows "mark_in_range m"
proof -
  obtain f where f: "f \<in> set (db_folders db)" "d_role f = Inbox"
    and m: "m = \<lparr>sm_account_id = d_account_id f, sm_folder_id = d_id f, sm_uid_validity = validity_of f,
         sm_uid = top_uid db (d_id f)\<rparr>"
    using assms(2) set_inbox_tops by blast
  have "0 \<le> validity_of f" by (simp add: validity_of_def split: option.splits)
  moreover have "validity_of f \<le> int u32_max" using assms(1) f by (simp add: cache_ok_def list_all_iff)
  moreover have "top_uid db (d_id f) \<le> int u32_max"
    using assms(1) unfolding top_uid_le by (auto simp: cache_ok_def list_all_iff u32_max_def)
  ultimately show ?thesis
    using top_uid_bounds(1) [of db "d_id f"] by (auto simp: m mark_in_range_def in_i64_def i64_min_def i64_max_def u32_max_def)
qed

lemma folder_unique:
  assumes "cache_ok db" "f \<in> set (db_folders db)" "g \<in> set (db_folders db)" "d_id f = d_id g"
  shows "f = g"
  using assms by (auto simp: cache_ok_def distinct_map inj_on_def)

lemma in_map_filter: "n \<in> set (List.map_filter f xs) \<longleftrightarrow> (\<exists>x \<in> set xs. f x = Some n)"
  by (induction xs) (auto simp: List.map_filter_simps split: option.splits)

lemma in_unread_above:
  "n \<in> set (unread_above accs db high mark) \<longleftrightarrow> (\<exists>m \<in> set (db_messages db). m_folder_id m = sm_folder_id high
     \<and> \<not> m_is_read m \<and> mark < int (m_uid m) \<and> \<not> hidden db (m_id m) \<and> new_mail_of accs db high m = Some n)"
  by (auto simp: unread_above_def in_map_filter)

definition mark_of_folder :: "mail_db \<Rightarrow> folder \<Rightarrow> seen_mark" where
  "mark_of_folder db f = \<lparr>sm_account_id = d_account_id f, sm_folder_id = d_id f, sm_uid_validity = validity_of f,
     sm_uid = top_uid db (d_id f)\<rparr>"

lemma in_collected:
  "n \<in> set (fst (collect_new_mail accs db s)) \<longleftrightarrow> (\<exists>f \<in> set (db_folders db). d_role f = Inbox
     \<and> (\<exists>mark. seen_at s (d_account_id f) (d_id f) (validity_of f) = Some mark
          \<and> n \<in> set (unread_above accs db (mark_of_folder db f) mark)))"
proof -
  have tops: "set (inbox_tops db) = mark_of_folder db ` {f \<in> set (db_folders db). d_role f = Inbox}"
    by (auto simp: set_inbox_tops mark_of_folder_def)
  have key: "stored_mark s (seen_key (mark_of_folder db f)) (sm_uid_validity (mark_of_folder db f)) =
      seen_at s (d_account_id f) (d_id f) (validity_of f)" for f
    by (simp add: seen_key_def mark_of_folder_def)
  have some: "n \<in> set (case x of None \<Rightarrow> [] | Some mark \<Rightarrow> unread_above accs db h mark)
      \<longleftrightarrow> (\<exists>mark. x = Some mark \<and> n \<in> set (unread_above accs db h mark))" for x h
    by (cases x) auto
  show ?thesis
    by (simp add: collect_new_mail_def Let_def tops some key) (metis (mono_tags))
qed

lemma new_mail_of_ids:
  "new_mail_of accs db high m = Some n \<Longrightarrow> nm_account_id n = sm_account_id high \<and> nm_folder_id n = sm_folder_id high
     \<and> nm_uid n = m_uid m \<and> int (nm_uid_validity n) = sm_uid_validity high mod 2 ^ 32"
  by (auto simp: new_mail_of_def split: option.splits)

lemma new_mail_of_some:
  assumes "cache_ok db" "f \<in> set (db_folders db)" "m_folder_id m = d_id f"
  shows "(\<exists>n. new_mail_of accs db high m = Some n) \<longleftrightarrow> m_account_id m \<in> ac_id ` set accs"
proof -
  obtain g where "find (\<lambda>f. d_id f = m_folder_id m) (db_folders db) = Some g"
    using assms(2,3) by (cases "find (\<lambda>f. d_id f = m_folder_id m) (db_folders db)") (auto simp: find_None_iff)
  moreover have "(\<exists>a. find (\<lambda>a. ac_id a = m_account_id m) accs = Some a) \<longleftrightarrow> m_account_id m \<in> ac_id ` set accs"
  proof (cases "find (\<lambda>a. ac_id a = m_account_id m) accs")
    case (Some a)
    then have "a \<in> set accs" "ac_id a = m_account_id m" by (auto simp: find_Some_iff)
    with Some show ?thesis by (metis imageI)
  next
    case None
    then have "\<forall>a \<in> set accs. ac_id a \<noteq> m_account_id m" by (auto simp: find_None_iff)
    with None show ?thesis by auto
  qed
  ultimately show ?thesis by (auto simp: new_mail_of_def split: option.splits)
qed

lemma top_in_tops:
  assumes "f \<in> set (db_folders db)" "d_role f = Inbox"
  shows "mark_of_folder db f \<in> set (inbox_tops db)"
  using assms by (auto simp: set_inbox_tops mark_of_folder_def)

lemma seen_after_check:
  assumes "cache_ok db" "f \<in> set (db_folders db)" "d_role f = Inbox"
  shows "seen_at (commit_seen (inbox_tops db) s) (d_account_id f) (d_id f) v =
    (if v = validity_of f then Some (top_uid db (d_id f)) else None)"
  using commit_this(1) [OF _ tops_one_per_folder [OF assms(1)] top_in_tops [OF assms(2,3)]]
    tops_in_range [OF assms(1)] by (simp add: of_folder_def mark_of_folder_def)

text \<open>
  C14. Every arrival is announced: after a check whose marks were committed, the next check reports of an
  inbox exactly its unread, visible mails with a UID above all that were cached then, as long as the
  folder has kept its UIDVALIDITY; after a change of it, nothing.
\<close>

theorem every_arrival_is_announced:
  assumes "cache_ok db" and "cache_ok db'"
    and "f \<in> set (db_folders db)" and "d_role f = Inbox" and "f' \<in> set (db_folders db')" and "d_role f' = Inbox"
    and "d_id f' = d_id f" and "d_account_id f' = d_account_id f"
  shows "(\<exists>n \<in> set (fst (collect_new_mail accs db' (commit_seen (snd (collect_new_mail accs db s)) s))).
            nm_folder_id n = d_id f \<and> nm_uid n = u) \<longleftrightarrow>
    validity_of f' = validity_of f
    \<and> (\<exists>m \<in> set (db_messages db'). m_folder_id m = d_id f \<and> m_uid m = u \<and> \<not> m_is_read m
         \<and> \<not> hidden db' (m_id m) \<and> m_account_id m \<in> ac_id ` set accs \<and> top_uid db (d_id f) < int u)"
proof -
  let ?s = "commit_seen (inbox_tops db) s"
  have only: "nm_folder_id n = d_id g" if "n \<in> set (unread_above accs db' (mark_of_folder db' g) k)" for n g k
    using that by (auto simp: in_unread_above mark_of_folder_def dest!: new_mail_of_ids)
  have "(\<exists>n \<in> set (fst (collect_new_mail accs db' ?s)). nm_folder_id n = d_id f \<and> nm_uid n = u) \<longleftrightarrow>
      (\<exists>k. seen_at ?s (d_account_id f') (d_id f') (validity_of f') = Some k
         \<and> (\<exists>n \<in> set (unread_above accs db' (mark_of_folder db' f') k). nm_uid n = u))" (is "_ \<longleftrightarrow> ?one")
    unfolding in_collected Bex_def using only folder_unique [OF assms(2) _ assms(5)] assms(5-7) by metis
  also have "?one \<longleftrightarrow> validity_of f' = validity_of f
      \<and> (\<exists>n \<in> set (unread_above accs db' (mark_of_folder db' f') (top_uid db (d_id f))). nm_uid n = u)"
    using seen_after_check [OF assms(1,3,4)] assms(7,8) by auto
  also have "(\<exists>n \<in> set (unread_above accs db' (mark_of_folder db' f') (top_uid db (d_id f))). nm_uid n = u) \<longleftrightarrow>
      (\<exists>m \<in> set (db_messages db'). m_folder_id m = d_id f \<and> m_uid m = u \<and> \<not> m_is_read m
         \<and> \<not> hidden db' (m_id m) \<and> m_account_id m \<in> ac_id ` set accs \<and> top_uid db (d_id f) < int u)"
    (is "?l \<longleftrightarrow> ?r")
  proof
    assume ?l
    then obtain n m where m: "m \<in> set (db_messages db')" "m_folder_id m = d_id f'" "\<not> m_is_read m"
        "top_uid db (d_id f) < int (m_uid m)" "\<not> hidden db' (m_id m)"
        "new_mail_of accs db' (mark_of_folder db' f') m = Some n" "nm_uid n = u"
      unfolding in_unread_above Bex_def by (auto simp: mark_of_folder_def)
    moreover from m have "m_account_id m \<in> ac_id ` set accs"
      using new_mail_of_some [OF assms(2,5), of m] by blast
    ultimately show ?r using new_mail_of_ids [OF m(6)] assms(7) by auto
  next
    assume ?r
    then obtain m where m: "m \<in> set (db_messages db')" "m_folder_id m = d_id f" "m_uid m = u" "\<not> m_is_read m"
      "\<not> hidden db' (m_id m)" "m_account_id m \<in> ac_id ` set accs" "top_uid db (d_id f) < int u" by blast
    then obtain n where n: "new_mail_of accs db' (mark_of_folder db' f') m = Some n"
      using new_mail_of_some [OF assms(2,5), of m] assms(7) by metis
    with m assms(7) have "n \<in> set (unread_above accs db' (mark_of_folder db' f') (top_uid db (d_id f)))"
      unfolding in_unread_above by (auto simp: mark_of_folder_def)
    with new_mail_of_ids [OF n] m show ?l by blast
  qed
  finally show ?thesis by (simp add: collect_new_mail_def Let_def)
qed

definition bg_account :: account where
  "bg_account = \<lparr>ac_id = 1, ac_email = ''a@x''\<rparr>"

definition bg_inbox :: folder where
  "bg_inbox = \<lparr>d_id = 3, d_account_id = 1, d_path = ''INBOX'', d_delimiter = ''/'', d_role = Inbox,
     d_uid_validity = Some 9, d_uid_next = None, d_server_total = None, d_highest_modseq = 0,
     d_subscribed = True, d_last_sync_at = None\<rparr>"

definition bg_mail :: "nat \<Rightarrow> message" where
  "bg_mail u = \<lparr>m_account_id = 1, m_folder_id = 3, m_uid = u, m_message_id_header = None, m_thread_id = None,
     m_subject = None, m_from_addr = None, m_from_name = None, m_to_addrs = [], m_cc_addrs = [], m_bcc_addrs = [],
     m_reply_to = None, m_date = None, m_snippet = None, m_body_text = None, m_body_html = None,
     m_raw_headers = None, m_is_read = False, m_is_starred = False, m_is_draft = False, m_has_attachments = False,
     m_keywords = [], m_size = 0, m_downloaded_full = False, m_id = int u, m_flags_dirty = False, m_updated_at = 0\<rparr>"

definition bg_cache :: "nat list \<Rightarrow> mail_db" where
  "bg_cache uids = \<lparr>db_folders = [bg_inbox], db_messages = map bg_mail uids, db_pending = [], db_next_folder = 4,
     db_next_message = 100, db_seen = []\<rparr>"

definition bg_settings :: settings_db where
  "bg_settings = \<lparr>app_values = \<lambda>_. None, account_values = \<lambda>_ _. None\<rparr>"

lemma bg_cache_ok: "distinct us \<Longrightarrow> list_all (\<lambda>u. u \<le> u32_max) us \<Longrightarrow> cache_ok (bg_cache us)"
  by (auto simp: cache_ok_def bg_cache_def bg_inbox_def validity_of_def u32_max_def list_all_iff distinct_map
      inj_on_def bg_mail_def)

theorem every_arrival_is_announced_witness:
  "\<exists>n \<in> set (fst (collect_new_mail [bg_account] (bg_cache [5, 7])
        (commit_seen (snd (collect_new_mail [bg_account] (bg_cache [5]) bg_settings)) bg_settings))).
      nm_folder_id n = 3 \<and> nm_uid n = 7"
  using every_arrival_is_announced [of "bg_cache [5]" "bg_cache [5, 7]" bg_inbox bg_inbox "[bg_account]" bg_settings 7]
    bg_cache_ok [of "[5]"] bg_cache_ok [of "[5, 7]"]
  by (simp add: bg_cache_def bg_inbox_def bg_mail_def bg_account_def hidden_def top_uid_def u32_max_def)

end
