(* ===== verification/Announcements.thy ===== *)
theory Announcements
  imports Seen_Marks
begin

text \<open>
  The marks in use: background checks collect, post and commit, the cache changes in between as syncs
  and the user change it, the app is opened. A step relation over the operations of
  \<open>Seen_Marks\<close>, with the mails announced so far on record, and what it keeps: no mail is announced
  twice, and the list of a notification covers what it announces.
\<close>

record bg_run =
  br_accs :: "account list"
  br_mail :: mail_db
  br_settings :: settings_db
  br_high :: "int \<Rightarrow> int \<Rightarrow> int \<Rightarrow> int"
  br_held :: "(new_mail list \<times> seen_mark list) option"
  br_posted :: "(int \<times> int \<times> int \<times> nat) list"
  br_raced :: bool

text \<open>A mail is named by its account, folder, UIDVALIDITY and UID.\<close>

definition mail_id :: "new_mail \<Rightarrow> int \<times> int \<times> int \<times> nat" where
  "mail_id n = (nm_account_id n, nm_folder_id n, int (nm_uid_validity n), nm_uid n)"

definition has_folder :: "mail_db \<Rightarrow> int \<Rightarrow> int \<Rightarrow> int \<Rightarrow> bool" where
  "has_folder db a i v \<longleftrightarrow> list_ex (\<lambda>f. d_account_id f = a \<and> d_id f = i \<and> validity_of f = v) (db_folders db)"

definition cached :: "mail_db \<Rightarrow> int \<Rightarrow> int \<Rightarrow> int \<Rightarrow> nat \<Rightarrow> bool" where
  "cached db a i v u \<longleftrightarrow> has_folder db a i v \<and> list_ex (\<lambda>m. m_folder_id m = i \<and> m_uid m = u) (db_messages db)"

text \<open>The highest UID a folder has ever had, under each of its validities.\<close>

definition raised :: "mail_db \<Rightarrow> (int \<Rightarrow> int \<Rightarrow> int \<Rightarrow> int) \<Rightarrow> int \<Rightarrow> int \<Rightarrow> int \<Rightarrow> int" where
  "raised db high a i v = (if has_folder db a i v then max (high a i v) (top_uid db i) else high a i v)"

text \<open>RFC 3501: under one UIDVALIDITY a UID is never given out again.\<close>

definition no_uid_returns :: "(int \<Rightarrow> int \<Rightarrow> int \<Rightarrow> int) \<Rightarrow> mail_db \<Rightarrow> mail_db \<Rightarrow> bool" where
  "no_uid_returns high db db' \<longleftrightarrow>
     (\<forall>a i v u. cached db' a i v u \<longrightarrow> int u \<le> high a i v \<longrightarrow> cached db a i v u)"

inductive bg_step :: "bg_run \<Rightarrow> bg_run \<Rightarrow> bool" where
  cache_changes: "cache_ok db' \<Longrightarrow> no_uid_returns (br_high s) (br_mail s) db' \<Longrightarrow>
    bg_step s (s\<lparr>br_mail := db', br_high := raised db' (br_high s), br_accs := accs\<rparr>)"
| collects: "bg_step s (s\<lparr>br_held := Some (collect_new_mail (br_accs s) (br_mail s) (br_settings s))\<rparr>)"
| commits: "br_held s = Some (new, marks) \<Longrightarrow>
    bg_step s (s\<lparr>br_settings := commit_seen marks (br_settings s), br_held := None,
                br_posted := br_posted s @ map mail_id new\<rparr>)"
| post_fails: "bg_step s (s\<lparr>br_held := None\<rparr>)"
| app_opens: "bg_step s (s\<lparr>br_settings := mark_inbox_seen (br_mail s) (br_settings s),
    br_raced := br_raced s \<or> br_held s \<noteq> None\<rparr>)"
| setting_changes: "\<forall>a i. k \<noteq> mark_key BG_SEEN_PREFIX a i \<and> k \<noteq> mark_key BG_SHOWN_PREFIX a i \<Longrightarrow>
    bg_step s (s\<lparr>br_settings := setting_set k x (br_settings s)\<rparr>)"

inductive bg_reachable :: "bg_run \<Rightarrow> bool" where
  installed: "cache_ok db \<Longrightarrow> (\<forall>a i v. seen_at t a i v = None \<and> shown_at t a i v = None) \<Longrightarrow>
    bg_reachable \<lparr>br_accs = accs, br_mail = db, br_settings = t, br_high = raised db (\<lambda>_ _ _. 0),
      br_held = None, br_posted = [], br_raced = False\<rparr>"
| step: "bg_reachable s \<Longrightarrow> bg_step s s' \<Longrightarrow> bg_reachable s'"

subsection \<open>The marks after each step\<close>

lemma commit_cases:
  assumes "\<forall>m \<in> set ms. mark_in_range m" and "one_per_folder ms"
  shows "(\<forall>m \<in> set ms. \<not> of_folder a i m)
      \<and> (\<forall>v. seen_at (commit_seen ms s) a i v = seen_at s a i v \<and> shown_at (commit_seen ms s) a i v = shown_at s a i v)
    \<or> (\<exists>m \<in> set ms. of_folder a i m
        \<and> (\<forall>v. seen_at (commit_seen ms s) a i v = (if v = sm_uid_validity m then Some (sm_uid m) else None)
          \<and> shown_at (commit_seen ms s) a i v =
            (if v = sm_uid_validity m then
               Some (case shown_at s a i v of Some k \<Rightarrow> k | None \<Rightarrow>
                       (case seen_at s a i v of Some n \<Rightarrow> n | None \<Rightarrow> sm_uid m))
             else None)))"
proof (cases "\<exists>m \<in> set ms. of_folder a i m")
  case True
  then obtain m where m: "m \<in> set ms" "of_folder a i m" by blast
  show ?thesis by (rule disjI2, rule bexI [OF _ m(1)]) (simp add: m(2) commit_this [OF assms m])
next
  case False
  then show ?thesis by (simp add: commit_other [OF assms(1)])
qed

lemma commit_marks:
  assumes "\<forall>m \<in> set ms. mark_in_range m" and "one_per_folder ms"
  defines "own \<equiv> \<lambda>a i v n. \<exists>m \<in> set ms. of_folder a i m \<and> v = sm_uid_validity m \<and> n = sm_uid m"
  shows "seen_at (commit_seen ms s) a i v = Some n \<Longrightarrow> seen_at s a i v = Some n \<or> own a i v n"
    and "shown_at (commit_seen ms s) a i v = Some n \<Longrightarrow>
      shown_at s a i v = Some n \<or> seen_at s a i v = Some n \<or> own a i v n"
proof -
  show "seen_at (commit_seen ms s) a i v = Some n \<Longrightarrow> seen_at s a i v = Some n \<or> own a i v n"
    using commit_cases [OF assms(1,2), of a i s] unfolding own_def by (metis option.distinct(1) option.inject)
  assume n: "shown_at (commit_seen ms s) a i v = Some n"
  from commit_cases [OF assms(1,2), of a i s]
  show "shown_at s a i v = Some n \<or> seen_at s a i v = Some n \<or> own a i v n"
  proof
    assume "\<exists>m \<in> set ms. of_folder a i m
        \<and> (\<forall>v. seen_at (commit_seen ms s) a i v = (if v = sm_uid_validity m then Some (sm_uid m) else None)
          \<and> shown_at (commit_seen ms s) a i v =
            (if v = sm_uid_validity m then
               Some (case shown_at s a i v of Some k \<Rightarrow> k | None \<Rightarrow>
                       (case seen_at s a i v of Some n \<Rightarrow> n | None \<Rightarrow> sm_uid m))
             else None))"
    then obtain m where m: "m \<in> set ms" "of_folder a i m"
      and eq: "shown_at (commit_seen ms s) a i v = (if v = sm_uid_validity m then
               Some (case shown_at s a i v of Some k \<Rightarrow> k | None \<Rightarrow>
                       (case seen_at s a i v of Some n \<Rightarrow> n | None \<Rightarrow> sm_uid m))
             else None)" by blast
    with n have "v = sm_uid_validity m" by (auto split: if_splits)
    with n eq m show ?thesis by (auto simp: own_def split: option.splits)
  qed (use n in auto)
qed

lemma open_other:
  assumes "\<forall>m \<in> set ms. mark_in_range m" and "\<forall>m \<in> set ms. \<not> of_folder a i m"
  shows "let s' = fold (\<lambda>t s. setting_set (shown_key t) (mark_value t) (setting_set (seen_key t) (mark_value t) s)) ms s
    in seen_at s' a i v = seen_at s a i v \<and> shown_at s' a i v = shown_at s a i v"
  using assms
proof (induction ms arbitrary: s)
  case (Cons m ms)
  then show ?case
    by (auto simp: Let_def stored_mark_set mark_in_range_def seen_key_def shown_key_def mark_key_inj of_folder_def)
qed simp

lemma open_this:
  assumes "\<forall>m \<in> set ms. mark_in_range m" and "one_per_folder ms" and "m \<in> set ms" and "of_folder a i m"
  shows "let s' = fold (\<lambda>t s. setting_set (shown_key t) (mark_value t) (setting_set (seen_key t) (mark_value t) s)) ms s
    in seen_at s' a i v = (if v = sm_uid_validity m then Some (sm_uid m) else None)
      \<and> shown_at s' a i v = (if v = sm_uid_validity m then Some (sm_uid m) else None)"
  using assms(1-3)
proof (induction ms arbitrary: s)
  case (Cons x ms)
  show ?case
  proof (cases "x = m")
    case True
    with Cons.prems have "\<forall>y \<in> set ms. \<not> of_folder a i y"
      using assms(4) by (auto simp: one_per_folder_def of_folder_def image_iff)
    with True Cons.prems assms(4) show ?thesis
      using open_other [of ms a i "setting_set (shown_key x) (mark_value x) (setting_set (seen_key x) (mark_value x) s)" v]
      by (auto simp: Let_def stored_mark_set mark_in_range_def seen_key_def shown_key_def mark_key_inj of_folder_def)
  next
    case False
    with Cons show ?thesis by (simp add: one_per_folder_def)
  qed
qed simp

lemma open_cases:
  assumes "cache_ok db"
  shows "(\<forall>m \<in> set (inbox_tops db). \<not> of_folder a i m)
      \<and> (\<forall>v. seen_at (mark_inbox_seen db s) a i v = seen_at s a i v
           \<and> shown_at (mark_inbox_seen db s) a i v = shown_at s a i v)
    \<or> (\<exists>m \<in> set (inbox_tops db). of_folder a i m
        \<and> (\<forall>v. seen_at (mark_inbox_seen db s) a i v = (if v = sm_uid_validity m then Some (sm_uid m) else None)
          \<and> shown_at (mark_inbox_seen db s) a i v = (if v = sm_uid_validity m then Some (sm_uid m) else None)))"
proof (cases "\<exists>m \<in> set (inbox_tops db). of_folder a i m")
  case True
  then obtain m where m: "m \<in> set (inbox_tops db)" "of_folder a i m" by blast
  show ?thesis
    using open_this [OF _ tops_one_per_folder [OF assms] m, of s] tops_in_range [OF assms]
    by (intro disjI2 bexI [OF _ m(1)]) (simp add: m(2) mark_inbox_seen_def Let_def)
next
  case False
  then show ?thesis
    using open_other [of "inbox_tops db" a i s] tops_in_range [OF assms]
    by (simp add: mark_inbox_seen_def Let_def)
qed

lemma other_setting:
  assumes "\<forall>a i. k \<noteq> mark_key BG_SEEN_PREFIX a i \<and> k \<noteq> mark_key BG_SHOWN_PREFIX a i"
  shows "seen_at (setting_set k x s) a i v = seen_at s a i v" "shown_at (setting_set k x s) a i v = shown_at s a i v"
  using assms by (metis setting_get_set stored_mark_def)+

subsection \<open>The cache and what is collected from it\<close>

lemma cached_top: "cached db a i v u \<Longrightarrow> int u \<le> top_uid db i"
  using top_uid_bounds(2) by (fastforce simp: cached_def list_ex_iff)

lemma cached_raised: "cached db a i v u \<Longrightarrow> int u \<le> raised db high a i v"
  using cached_top by (fastforce simp: raised_def cached_def)

lemma raised_ge: "high a i v \<le> raised db high a i v"
  by (simp add: raised_def)

lemma top_of_folder:
  assumes "m \<in> set (inbox_tops db)"
  shows "has_folder db (sm_account_id m) (sm_folder_id m) (sm_uid_validity m)
    \<and> sm_uid m = top_uid db (sm_folder_id m)"
  using assms by (auto simp: set_inbox_tops has_folder_def list_ex_iff)

lemma same_validity:
  assumes "cache_ok db" "has_folder db a i v" "has_folder db b i w"
  shows "a = b \<and> v = w"
  using assms folder_unique [OF assms(1)] by (fastforce simp: has_folder_def list_ex_iff)

lemma collected_is_new:
  assumes "cache_ok db" and "n \<in> set (fst (collect_new_mail accs db s))" and "mail_id n = (a, i, v, u)"
  shows "cached db a i v u \<and> (\<exists>k. seen_at s a i v = Some k \<and> k < int u)"
    and "n \<in> set (collect_pending accs db s) \<or> (\<exists>k. shown_at s a i v = Some k \<and> int u \<le> k)"
proof -
  obtain f k where f: "f \<in> set (db_folders db)" "d_role f = Inbox"
    and k: "seen_at s (d_account_id f) (d_id f) (validity_of f) = Some k"
    and n: "n \<in> set (unread_above accs db (mark_of_folder db f) k)"
    using assms(2) in_collected by blast
  obtain m where m: "m \<in> set (db_messages db)" "m_folder_id m = d_id f" "k < int (m_uid m)"
      "new_mail_of accs db (mark_of_folder db f) m = Some n" "\<not> m_is_read m" "\<not> hidden db (m_id m)"
    using n unfolding in_unread_above by (auto simp: mark_of_folder_def)
  have "0 \<le> validity_of f" by (simp add: validity_of_def split: option.splits)
  moreover have "validity_of f \<le> int u32_max" using assms(1) f by (simp add: cache_ok_def list_all_iff)
  ultimately have "validity_of f mod 2 ^ 32 = validity_of f" by (simp add: u32_max_def)
  with new_mail_of_ids [OF m(4)] assms(3)
  have ids: "a = d_account_id f" "i = d_id f" "v = validity_of f" "u = m_uid m"
    by (simp_all add: mail_id_def mark_of_folder_def)
  then show "cached db a i v u \<and> (\<exists>k. seen_at s a i v = Some k \<and> k < int u)"
    using f m k by (auto simp: cached_def has_folder_def list_ex_iff)
  show "n \<in> set (collect_pending accs db s) \<or> (\<exists>k. shown_at s a i v = Some k \<and> int u \<le> k)"
  proof (cases "\<exists>k. shown_at s a i v = Some k \<and> int u \<le> k")
    case False
    have key: "stored_mark s (shown_key (mark_of_folder db f)) (sm_uid_validity (mark_of_folder db f)) =
        shown_at s a i v" "stored_mark s (seen_key (mark_of_folder db f)) (sm_uid_validity (mark_of_folder db f)) = Some k"
      using k by (simp_all add: shown_key_def seen_key_def mark_of_folder_def ids)
    have "n \<in> set (unread_above accs db (mark_of_folder db f) k')" if "k' < int u" for k'
      unfolding in_unread_above using m that ids by (auto simp: mark_of_folder_def)
    then have "n \<in> set (collect_pending accs db s)"
      unfolding collect_pending_def set_concat set_map using f False k ids m(3)
      by (intro UN_I [OF imageI [OF top_in_tops [OF f]]]) (auto simp: key split: option.split)
    then show ?thesis by blast
  qed simp
qed

lemma distinct_concat_map:
  assumes "distinct (map key xs)" and "\<And>x. x \<in> set xs \<Longrightarrow> distinct (map g (f x))"
    and "\<And>x y. x \<in> set xs \<Longrightarrow> y \<in> set (f x) \<Longrightarrow> h (g y) = key x"
  shows "distinct (map g (concat (map f xs)))"
  using assms
proof (induction xs)
  case (Cons x xs)
  have "g ` set (f x) \<inter> (\<Union>y \<in> set xs. g ` set (f y)) = {}"
  proof (rule ccontr)
    assume "g ` set (f x) \<inter> (\<Union>y \<in> set xs. g ` set (f y)) \<noteq> {}"
    then obtain y z w where "y \<in> set xs" "z \<in> set (f x)" "w \<in> set (f y)" "g z = g w" by blast
    with Cons.prems(3) [of x z] Cons.prems(3) [of y w] have "key x = key y" by simp
    with \<open>y \<in> set xs\<close> Cons.prems(1) show False by (metis distinct.simps(2) image_eqI list.simps(9) set_map)
  qed
  with Cons show ?case by (auto simp: image_UN)
qed simp

lemma distinct_map_filter:
  assumes "distinct (map k ms)" and "\<And>m n. F m = Some n \<Longrightarrow> g n = k m"
  shows "distinct (map g (List.map_filter F ms))"
  using assms(1)
proof (induction ms)
  case (Cons m ms)
  have "k m \<notin> set (map g (List.map_filter F ms))"
    using Cons.prems assms(2) by (auto simp: in_map_filter image_iff) metis
  with Cons assms(2) show ?case by (auto simp: List.map_filter_simps split: option.split)
qed (simp add: List.map_filter_simps)

lemma collected_distinct:
  assumes "cache_ok db"
  shows "distinct (map mail_id (fst (collect_new_mail accs db s)))"
proof -
  let ?f = "\<lambda>h. case stored_mark s (seen_key h) (sm_uid_validity h) of
      None \<Rightarrow> [] | Some mark \<Rightarrow> unread_above accs db h mark"
  have "distinct (map (\<lambda>m. (sm_account_id m, sm_folder_id m)) (inbox_tops db))"
    using tops_one_per_folder [OF assms] by (simp add: one_per_folder_def)
  moreover have "distinct (map mail_id (unread_above accs db h k))" for h k
  proof -
    let ?rows = "filter (\<lambda>m. m_folder_id m = sm_folder_id h \<and> \<not> m_is_read m \<and> k < int (m_uid m)
        \<and> \<not> hidden db (m_id m)) (db_messages db)"
    have "distinct (map m_uid ?rows)"
      using assms by (auto simp: cache_ok_def distinct_map inj_on_def)
    then have "distinct (map m_uid (sort_key m_uid ?rows))" by (auto simp: distinct_map)
    then have "distinct (map nm_uid (unread_above accs db h k))"
      unfolding unread_above_def by (rule distinct_map_filter) (simp add: new_mail_of_ids)
    then have "distinct (map ((\<lambda>(a, i, v, u). u) \<circ> mail_id) (unread_above accs db h k))"
      by (simp add: mail_id_def comp_def)
    then show ?thesis by (auto simp: distinct_map inj_on_def)
  qed
  moreover have "(\<lambda>(a, i, v, u). (a, i)) (mail_id n) = (sm_account_id h, sm_folder_id h)"
    if "n \<in> set (unread_above accs db h k)" for n h k
    using that by (auto simp: in_unread_above mail_id_def dest!: new_mail_of_ids)
  ultimately have "distinct (map mail_id (concat (map ?f (inbox_tops db))))"
    by (intro distinct_concat_map [where h = "\<lambda>(a, i, v, u). (a, i)"]) (auto split: option.splits)
  then show ?thesis by (simp add: collect_new_mail_def Let_def)
qed

subsection \<open>Marks stay below what has been cached\<close>

definition high_inv :: "bg_run \<Rightarrow> bool" where
  "high_inv s \<longleftrightarrow> cache_ok (br_mail s)
     \<and> (\<forall>a i v. 0 \<le> br_high s a i v)
     \<and> (\<forall>a i v u. cached (br_mail s) a i v u \<longrightarrow> int u \<le> br_high s a i v)
     \<and> (\<forall>a i v. has_folder (br_mail s) a i v \<longrightarrow> top_uid (br_mail s) i \<le> br_high s a i v)
     \<and> (\<forall>a i v n. seen_at (br_settings s) a i v = Some n \<longrightarrow> n \<le> br_high s a i v)
     \<and> (\<forall>a i v n. shown_at (br_settings s) a i v = Some n \<longrightarrow> n \<le> br_high s a i v)
     \<and> (\<forall>new marks. br_held s = Some (new, marks) \<longrightarrow> one_per_folder marks
          \<and> (\<forall>m \<in> set marks. mark_in_range m
               \<and> sm_uid m \<le> br_high s (sm_account_id m) (sm_folder_id m) (sm_uid_validity m)))"

lemma high_invD:
  assumes "high_inv s"
  shows "cache_ok (br_mail s)" "0 \<le> br_high s a i v" "cached (br_mail s) a i v u \<Longrightarrow> int u \<le> br_high s a i v"
    "has_folder (br_mail s) a i v \<Longrightarrow> top_uid (br_mail s) i \<le> br_high s a i v"
    "seen_at (br_settings s) a i v = Some n \<Longrightarrow> n \<le> br_high s a i v"
    "shown_at (br_settings s) a i v = Some n \<Longrightarrow> n \<le> br_high s a i v"
    "br_held s = Some (new, marks) \<Longrightarrow> one_per_folder marks"
    "br_held s = Some (new, marks) \<Longrightarrow> \<forall>m \<in> set marks. mark_in_range m"
    "br_held s = Some (new, marks) \<Longrightarrow> m \<in> set marks \<Longrightarrow> of_folder a i m \<Longrightarrow> sm_uid m \<le> br_high s a i (sm_uid_validity m)"
  using assms by (auto simp: high_inv_def of_folder_def)

lemma high_inv_marks:
  assumes inv: "high_inv s"
    and "\<And>a i v n. seen_at t a i v = Some n \<Longrightarrow> n \<le> br_high s a i v"
    and "\<And>a i v n. shown_at t a i v = Some n \<Longrightarrow> n \<le> br_high s a i v"
    and held: "h = None \<or> h = br_held s"
  shows "high_inv (s\<lparr>br_settings := t, br_held := h, br_posted := p, br_raced := r\<rparr>)"
proof -
  from held have "x \<in> {None, br_held s}" if "x = h" for x using that by blast
  have "h = Some p \<Longrightarrow> br_held s = Some p" for p using held by auto
  with assms(1-3) show ?thesis unfolding high_inv_def by simp
qed

lemma step_high:
  assumes "bg_step s s'" and inv: "high_inv s"
  shows "high_inv s'"
  using assms(1)
proof cases
  case (cache_changes db' accs)
  have le: "x \<le> br_high s a i v \<Longrightarrow> x \<le> raised db' (br_high s) a i v" for x a i v
    using raised_ge order_trans by blast
  have "has_folder db' a i v \<Longrightarrow> top_uid db' i \<le> raised db' (br_high s) a i v" for a i v
    by (simp add: raised_def)
  with cache_changes inv le cached_raised show ?thesis
    unfolding high_inv_def by simp
next
  case collects
  let ?m = "inbox_tops (br_mail s)"
  have "sm_uid m \<le> br_high s (sm_account_id m) (sm_folder_id m) (sm_uid_validity m)" if "m \<in> set ?m" for m
    using top_of_folder [OF that] high_invD(4) [OF inv] by auto
  with inv tops_in_range tops_one_per_folder show ?thesis
    unfolding collects high_inv_def by (auto simp: collect_new_mail_def Let_def)
next
  case (commits new marks)
  note held = high_invD(7,8,9) [OF inv commits(2)]
  have "(\<forall>n. seen_at (commit_seen marks (br_settings s)) a i v = Some n \<longrightarrow> n \<le> br_high s a i v)
      \<and> (\<forall>n. shown_at (commit_seen marks (br_settings s)) a i v = Some n \<longrightarrow> n \<le> br_high s a i v)" for a i v
    using commit_marks [OF held(2,1), of "br_settings s" a i v] high_invD(5,6) [OF inv] held(3) by blast
  then show ?thesis using high_inv_marks [OF inv, where h = None and r = "br_raced s" and t = "commit_seen marks (br_settings s)"]
    by (simp add: commits)
next
  case post_fails
  with inv show ?thesis by (simp add: high_inv_def)
next
  case app_opens
  have "(\<forall>n. seen_at (mark_inbox_seen (br_mail s) (br_settings s)) a i v = Some n \<longrightarrow> n \<le> br_high s a i v)
      \<and> (\<forall>n. shown_at (mark_inbox_seen (br_mail s) (br_settings s)) a i v = Some n \<longrightarrow> n \<le> br_high s a i v)" for a i v
    using open_cases [OF high_invD(1) [OF inv], of a i "br_settings s"] high_invD(4-6) [OF inv] top_of_folder
    by (fastforce simp: of_folder_def split: if_splits)
  then show ?thesis using high_inv_marks [OF inv, where h = "br_held s" and p = "br_posted s" and t = "mark_inbox_seen (br_mail s) (br_settings s)"]
    by (simp add: app_opens)
next
  case (setting_changes k x)
  then show ?thesis
    using high_inv_marks [OF inv, where h = "br_held s" and p = "br_posted s" and r = "br_raced s" and t = "setting_set k x (br_settings s)"]
      high_invD(5,6) [OF inv] by (simp add: other_setting)
qed

lemma reachable_high: "bg_reachable s \<Longrightarrow> high_inv s"
proof (induction rule: bg_reachable.induct)
  case (installed db t accs)
  then show ?case
    using cached_raised [of db _ _ _ _ "\<lambda>_ _ _. 0"] raised_ge [of "\<lambda>_ _ _. 0" _ _ _ db]
    by (auto simp: high_inv_def) (simp add: raised_def)
qed (rule step_high)

subsection \<open>No mail is announced twice\<close>

definition posted_inv :: "bg_run \<Rightarrow> bool" where
  "posted_inv s \<longleftrightarrow> distinct (br_posted s)
     \<and> (\<forall>a i v u. (a, i, v, u) \<in> set (br_posted s) \<longrightarrow> int u \<le> br_high s a i v
          \<and> (cached (br_mail s) a i v u \<longrightarrow> (\<forall>n. seen_at (br_settings s) a i v = Some n \<longrightarrow> int u \<le> n)))"

definition held_ok :: "bg_run \<Rightarrow> new_mail list \<Rightarrow> seen_mark list \<Rightarrow> bool" where
  "held_ok s new marks \<longleftrightarrow>
     distinct (map mail_id new)
     \<and> (\<forall>a i v u. (a, i, v, u) \<in> mail_id ` set new \<longrightarrow> (a, i, v, u) \<notin> set (br_posted s)
          \<and> int u \<le> br_high s a i v
          \<and> (\<exists>m \<in> set marks. of_folder a i m \<and> sm_uid_validity m = v \<and> int u \<le> sm_uid m))
     \<and> (\<forall>m \<in> set marks. \<forall>a i u. of_folder a i m \<longrightarrow> (a, i, sm_uid_validity m, u) \<in> set (br_posted s) \<longrightarrow>
          cached (br_mail s) a i (sm_uid_validity m) u \<longrightarrow> int u \<le> sm_uid m)"

definition held_inv :: "bg_run \<Rightarrow> bool" where
  "held_inv s \<longleftrightarrow> (\<forall>new marks. br_held s = Some (new, marks) \<longrightarrow> held_ok s new marks)"

lemma cached_in_top:
  assumes "cache_ok db" and "m \<in> set (inbox_tops db)" and "of_folder a i m" and "cached db a i v u"
  shows "v = sm_uid_validity m \<and> int u \<le> sm_uid m"
  using top_of_folder [OF assms(2)] cached_top [OF assms(4)] assms(3,4) same_validity [OF assms(1)]
  by (auto simp: of_folder_def cached_def)

lemma collected_in_top:
  assumes "cache_ok db" and "n \<in> set (fst (collect_new_mail accs db s))" and "mail_id n = (a, i, v, u)"
  shows "\<exists>m \<in> set (inbox_tops db). of_folder a i m \<and> sm_uid_validity m = v \<and> int u \<le> sm_uid m"
proof -
  obtain h where h: "h \<in> set (inbox_tops db)" "of_folder a i h"
  proof -
    obtain f k where f: "f \<in> set (db_folders db)" "d_role f = Inbox"
      and n: "n \<in> set (unread_above accs db (mark_of_folder db f) k)"
      using assms(2) in_collected by blast
    from n have "of_folder a i (mark_of_folder db f)"
      using assms(3) unfolding in_unread_above by (auto simp: of_folder_def mail_id_def dest!: new_mail_of_ids)
    with that top_in_tops [OF f] show thesis by blast
  qed
  with cached_in_top [OF assms(1)] collected_is_new(1) [OF assms] show ?thesis by blast
qed

lemma held_after_collect:
  assumes "high_inv s" and "posted_inv s" and "collect_new_mail (br_accs s) (br_mail s) (br_settings s) = (new, marks)"
  shows "held_ok s new marks"
proof -
  note ok = high_invD(1) [OF assms(1)]
  have eq: "marks = inbox_tops (br_mail s)" "new = fst (collect_new_mail (br_accs s) (br_mail s) (br_settings s))"
    using assms(3) by (auto simp: collect_new_mail_def Let_def)
  have "(a, i, v, u) \<notin> set (br_posted s) \<and> int u \<le> br_high s a i v
      \<and> (\<exists>m \<in> set (inbox_tops (br_mail s)). of_folder a i m \<and> sm_uid_validity m = v \<and> int u \<le> sm_uid m)"
    if "(a, i, v, u) \<in> mail_id ` set new" for a i v u
  proof -
    from that obtain n where n: "n \<in> set (fst (collect_new_mail (br_accs s) (br_mail s) (br_settings s)))"
      "mail_id n = (a, i, v, u)" unfolding eq(2) image_iff by metis
    note c = collected_is_new(1) [OF ok n]
    have "(a, i, v, u) \<notin> set (br_posted s)" using c assms(2) unfolding posted_inv_def by fastforce
    with c high_invD(3) [OF assms(1)] collected_in_top [OF ok n] show ?thesis by blast
  qed
  then show ?thesis
    unfolding held_ok_def using collected_distinct [OF ok] cached_in_top [OF ok] by (auto simp: eq)
qed

lemma held_inv_keep:
  assumes inv: "held_inv s" and held: "br_held s' = None \<or> br_held s' = br_held s" and posted: "br_posted s' = br_posted s"
    and high: "\<And>a i v. br_high s a i v \<le> br_high s' a i v"
    and stay: "\<And>a i v u. cached (br_mail s') a i v u \<Longrightarrow> (a, i, v, u) \<in> set (br_posted s) \<Longrightarrow> cached (br_mail s) a i v u"
  shows "held_inv s'"
  unfolding held_inv_def
proof (intro allI impI)
  fix new marks
  assume "br_held s' = Some (new, marks)"
  with held have "br_held s = Some (new, marks)" by auto
  with inv have "held_ok s new marks" by (simp add: held_inv_def)
  then show "held_ok s' new marks"
    unfolding held_ok_def posted using high stay by (meson order_trans)
qed

lemma posted_inv_keep:
  assumes inv: "posted_inv s" and posted: "br_posted s' = br_posted s" and high: "\<And>a i v. br_high s a i v \<le> br_high s' a i v"
    and kept: "\<And>a i v u n. cached (br_mail s') a i v u \<Longrightarrow> (a, i, v, u) \<in> set (br_posted s) \<Longrightarrow>
      seen_at (br_settings s') a i v = Some n \<Longrightarrow>
      (\<exists>k. cached (br_mail s) a i v u \<and> seen_at (br_settings s) a i v = Some k \<and> k \<le> n) \<or> int u \<le> n"
  shows "posted_inv s'"
proof -
  have "int u \<le> n" if "cached (br_mail s') a i v u" "(a, i, v, u) \<in> set (br_posted s)"
    "seen_at (br_settings s') a i v = Some n" for a i v u n
    using kept [OF that] inv that(2) unfolding posted_inv_def by (meson order_trans)
  moreover have "int u \<le> br_high s' a i v" if "(a, i, v, u) \<in> set (br_posted s)" for a i v u
    using inv that high [of a i v] unfolding posted_inv_def by fastforce
  ultimately show ?thesis using inv unfolding posted_inv_def posted by blast
qed

lemma posted_after_commit:
  assumes high: "high_inv s" and posted: "posted_inv s" and held: "br_held s = Some (new, marks)" and ok: "held_ok s new marks"
  shows "posted_inv (s\<lparr>br_settings := commit_seen marks (br_settings s), br_held := None,
      br_posted := br_posted s @ map mail_id new\<rparr>)"
proof -
  note marks = high_invD(8,7) [OF high held]
  have old: "int u \<le> n"
    if "cached (br_mail s) a i v u" "(a, i, v, u) \<in> set (br_posted s)"
      "seen_at (commit_seen marks (br_settings s)) a i v = Some n" for a i v u n
    using commit_marks(1) [OF marks that(3)] that(1,2) posted ok unfolding posted_inv_def held_ok_def by blast
  have fresh: "int u \<le> n"
    if id: "(a, i, v, u) \<in> mail_id ` set new" and n: "seen_at (commit_seen marks (br_settings s)) a i v = Some n" for a i v u n
  proof -
    from ok id obtain m where m: "m \<in> set marks" "of_folder a i m" "sm_uid_validity m = v" "int u \<le> sm_uid m"
      unfolding held_ok_def by blast
    with n commit_this(1) [OF marks m(1,2)] show ?thesis by auto
  qed
  have "distinct (br_posted s @ map mail_id new)"
  proof -
    have "p \<notin> set (br_posted s)" if "p \<in> mail_id ` set new" for p
      using ok that unfolding held_ok_def by (cases p) metis
    then have "set (br_posted s) \<inter> set (map mail_id new) = {}" unfolding set_map by blast
    moreover have "distinct (map mail_id new)" "distinct (br_posted s)"
      using ok posted by (simp_all add: held_ok_def posted_inv_def)
    ultimately show ?thesis by (simp only: distinct_append)
  qed
  moreover have "int u \<le> br_high s a i v" if "(a, i, v, u) \<in> set (br_posted s @ map mail_id new)" for a i v u
  proof -
    from that have "(a, i, v, u) \<in> set (br_posted s) \<or> (a, i, v, u) \<in> mail_id ` set new" by simp
    then show ?thesis using ok posted unfolding held_ok_def posted_inv_def by blast
  qed
  moreover have "int u \<le> n" if "(a, i, v, u) \<in> set (br_posted s @ map mail_id new)" "cached (br_mail s) a i v u"
      "seen_at (commit_seen marks (br_settings s)) a i v = Some n" for a i v u n
  proof -
    from that(1) have "(a, i, v, u) \<in> set (br_posted s) \<or> (a, i, v, u) \<in> mail_id ` set new" by simp
    then show ?thesis using old [OF that(2) _ that(3)] fresh [OF _ that(3)] by blast
  qed
  ultimately show ?thesis unfolding posted_inv_def by simp
qed

lemma step_posted:
  assumes "bg_step s s'" and high: "high_inv s" and inv: "posted_inv s" "held_inv s"
  shows "posted_inv s' \<and> held_inv s'"
  using assms(1)
proof cases
  case (cache_changes db' accs)
  have stay: "cached (br_mail s) a i v u" if "cached db' a i v u" "(a, i, v, u) \<in> set (br_posted s)" for a i v u
    using that inv(1) cache_changes(3) unfolding posted_inv_def no_uid_returns_def by blast
  show ?thesis
    unfolding cache_changes
    by (intro conjI posted_inv_keep [OF inv(1)] held_inv_keep [OF inv(2)]) (auto intro: stay raised_ge)
next
  case collects
  obtain new marks where c: "collect_new_mail (br_accs s) (br_mail s) (br_settings s) = (new, marks)" by fastforce
  have "held_ok (s\<lparr>br_held := h\<rparr>) new marks" for h
    using held_after_collect [OF high inv(1) c] by (simp add: held_ok_def)
  moreover have "posted_inv (s\<lparr>br_held := h\<rparr>)" for h using inv(1) by (simp add: posted_inv_def)
  ultimately show ?thesis unfolding collects c by (simp add: held_inv_def)
next
  case (commits new marks)
  have "held_ok s new marks" using inv(2) commits by (simp add: held_inv_def)
  from posted_after_commit [OF high inv(1) commits(2) this] show ?thesis
    unfolding commits by (simp add: held_inv_def)
next
  case post_fails
  show ?thesis unfolding post_fails
    by (intro conjI posted_inv_keep [OF inv(1)] held_inv_keep [OF inv(2)]) auto
next
  case app_opens
  have "seen_at (br_settings s) a i v = Some n \<or> int u \<le> n"
    if "cached (br_mail s) a i v u" "seen_at (mark_inbox_seen (br_mail s) (br_settings s)) a i v = Some n" for a i v u n
    using open_cases [OF high_invD(1) [OF high], of a i "br_settings s"] that cached_in_top [OF high_invD(1) [OF high]]
    by (auto split: if_splits)
  then show ?thesis unfolding app_opens
    by (intro conjI posted_inv_keep [OF inv(1)] held_inv_keep [OF inv(2)]) (auto, metis order_refl)
next
  case (setting_changes k x)
  show ?thesis unfolding setting_changes
    by (intro conjI posted_inv_keep [OF inv(1)] held_inv_keep [OF inv(2)]) (auto simp: other_setting [OF setting_changes(2)])
qed

lemma reachable_posted: "bg_reachable s \<Longrightarrow> posted_inv s \<and> held_inv s"
proof (induction rule: bg_reachable.induct)
  case (step s s')
  with step_posted reachable_high show ?case by blast
qed (simp add: posted_inv_def held_inv_def)


definition bg_start :: bg_run where
  "bg_start = \<lparr>br_accs = [bg_account], br_mail = bg_cache [5],
     br_settings = bg_settings,
     br_high = raised (bg_cache [5]) (\<lambda>_ _ _. 0), br_held = None, br_posted = [], br_raced = False\<rparr>"

text \<open>A check and its commit, as one step.\<close>

definition bg_check :: "bg_run \<Rightarrow> bg_run" where
  "bg_check s = (case collect_new_mail (br_accs s) (br_mail s) (br_settings s) of
     (new, marks) \<Rightarrow> s\<lparr>br_settings := commit_seen marks (br_settings s), br_held := None,
                br_posted := br_posted s @ map mail_id new\<rparr>)"

lemma reachable_check:
  assumes "bg_reachable s"
  shows "bg_reachable (bg_check s)"
proof -
  obtain new marks where c: "collect_new_mail (br_accs s) (br_mail s) (br_settings s) = (new, marks)" by fastforce
  have "bg_reachable (s\<lparr>br_held := Some (new, marks)\<rparr>)"
    using bg_reachable.step [OF assms collects] c by simp
  from bg_reachable.step [OF this commits] show ?thesis by (simp add: bg_check_def c)
qed

definition bg_arrives :: "nat list \<Rightarrow> bg_run \<Rightarrow> bg_run" where
  "bg_arrives us s = s\<lparr>br_mail := bg_cache us, br_high := raised (bg_cache us) (br_high s)\<rparr>"

lemma reachable_arrives:
  assumes "bg_reachable s" and "cache_ok (bg_cache us)" and "no_uid_returns (br_high s) (br_mail s) (bg_cache us)"
  shows "bg_reachable (bg_arrives us s)"
  using bg_reachable.step [OF assms(1) cache_changes [OF assms(2,3), of "br_accs s"]] by (simp add: bg_arrives_def)

lemma reachable_start: "bg_reachable bg_start"
  unfolding bg_start_def by (rule installed) (simp_all add: bg_cache_ok u32_max_def stored_mark_def setting_get_def bg_settings_def)

lemma cached_bg: "cached (bg_cache us) a i v u \<longleftrightarrow> a = 1 \<and> i = 3 \<and> v = 9 \<and> u \<in> set us"
  by (auto simp: cached_def has_folder_def bg_cache_def bg_inbox_def validity_of_def list_ex_iff bg_mail_def)

definition bg_waiting :: bg_run where
  "bg_waiting = bg_arrives [5, 7] (bg_check bg_start)"

lemma reachable_waiting: "bg_reachable bg_waiting"
  unfolding bg_waiting_def
proof (intro reachable_check reachable_arrives reachable_start)
  show "cache_ok (bg_cache [5, 7])" by (simp add: bg_cache_ok u32_max_def)
  have "br_mail (bg_check bg_start) = bg_cache [5]" "br_high (bg_check bg_start) 1 3 9 = 5"
    by (simp_all add: bg_check_def bg_start_def raised_def has_folder_def bg_cache_def bg_inbox_def validity_of_def
        top_uid_def bg_mail_def split: prod.split)
  then show "no_uid_returns (br_high (bg_check bg_start)) (br_mail (bg_check bg_start)) (bg_cache [5, 7])"
    by (auto simp: no_uid_returns_def cached_bg)
qed

definition bg_announced :: bg_run where
  "bg_announced = bg_check bg_waiting"

lemma reachable_announced: "bg_reachable bg_announced"
  unfolding bg_announced_def by (intro reachable_check reachable_waiting)


subsection \<open>What is announced is listed\<close>

definition above_marks :: "bg_run \<Rightarrow> int \<Rightarrow> int \<Rightarrow> int \<Rightarrow> nat \<Rightarrow> bool" where
  "above_marks s a i v u \<longleftrightarrow> (\<forall>n. seen_at (br_settings s) a i v = Some n \<longrightarrow> n < int u)
     \<and> (\<forall>k. shown_at (br_settings s) a i v = Some k \<longrightarrow> k < int u)"

definition listed_inv :: "bg_run \<Rightarrow> bool" where
  "listed_inv s \<longleftrightarrow> (\<forall>a i v u n. cached (br_mail s) a i v u \<longrightarrow> seen_at (br_settings s) a i v = Some n \<longrightarrow>
     n < int u \<longrightarrow> above_marks s a i v u)"

definition late_inv :: "bg_run \<Rightarrow> bool" where
  "late_inv s \<longleftrightarrow> (\<forall>new marks. br_held s = Some (new, marks) \<longrightarrow> (\<forall>m \<in> set marks. \<forall>a i u. of_folder a i m \<longrightarrow>
     cached (br_mail s) a i (sm_uid_validity m) u \<longrightarrow> sm_uid m < int u \<longrightarrow>
     above_marks s a i (sm_uid_validity m) u))"

lemma above_high:
  assumes "high_inv s" and "br_high s a i v < int u"
  shows "above_marks s a i v u"
  using high_invD(5,6) [OF assms(1)] assms(2) unfolding above_marks_def by fastforce

lemma listed_after_commit:
  assumes high: "high_inv s" and held: "br_held s = Some (new, marks)" and inv: "listed_inv s" "late_inv s"
  shows "listed_inv (s\<lparr>br_settings := commit_seen marks (br_settings s), br_held := None, br_posted := p\<rparr>)"
  unfolding listed_inv_def
proof (intro allI impI, simp)
  fix a i v u n
  let ?t = "commit_seen marks (br_settings s)"
  assume c: "cached (br_mail s) a i v u" and n: "seen_at ?t a i v = Some n" "n < int u"
  note marks = high_invD(8,7) [OF high held]
  show "above_marks (s\<lparr>br_settings := ?t, br_held := None, br_posted := p\<rparr>) a i v u"
  proof (cases "\<exists>m \<in> set marks. of_folder a i m")
    case True
    then obtain m where m: "m \<in> set marks" "of_folder a i m" by blast
    with n commit_this(1) [OF marks m] have v: "v = sm_uid_validity m" "sm_uid m < int u" by (auto split: if_splits)
    with inv(2) held m c have "above_marks s a i v u" unfolding late_inv_def by blast
    then show ?thesis
      using commit_this [OF marks m, of "br_settings s" v] v by (auto simp: above_marks_def split: option.splits)
  next
    case False
    then have same: "seen_at ?t a i w = seen_at (br_settings s) a i w" "shown_at ?t a i w = shown_at (br_settings s) a i w" for w
      using commit_other [OF marks(1)] by blast+
    with n have "seen_at (br_settings s) a i v = Some n" by simp
    with inv(1) c n have "above_marks s a i v u" unfolding listed_inv_def by blast
    then show ?thesis by (simp add: above_marks_def same)
  qed
qed

lemma step_listed:
  assumes "bg_step s s'" and high: "high_inv s" and raced: "\<not> br_raced s'"
    and inv: "listed_inv s" "late_inv s"
  shows "listed_inv s' \<and> late_inv s'"
  using assms(1)
proof cases
  case (cache_changes db' accs)
  have new: "cached (br_mail s) a i v u \<or> above_marks s a i v u" if "cached db' a i v u" for a i v u
    using cache_changes(3) that above_high [OF high] unfolding no_uid_returns_def by (meson not_le)
  have "above_marks s' a i v u = above_marks s a i v u" for a i v u by (simp add: cache_changes above_marks_def)
  with inv new show ?thesis
    unfolding listed_inv_def late_inv_def cache_changes(1) by simp metis
next
  case collects
  have "int u \<le> sm_uid m" if "m \<in> set (inbox_tops (br_mail s))" "of_folder a i m" "cached (br_mail s) a i v u" for m a i v u
    using cached_in_top [OF high_invD(1) [OF high] that] by simp
  then have "late_inv s'"
    by (simp add: collects late_inv_def collect_new_mail_def Let_def not_less [symmetric])
  with inv(1) show ?thesis by (simp add: collects listed_inv_def above_marks_def)
next
  case (commits new marks)
  from listed_after_commit [OF high commits(2) inv] show ?thesis
    by (simp add: commits(1) late_inv_def)
next
  case post_fails
  with inv show ?thesis by (simp add: listed_inv_def late_inv_def above_marks_def)
next
  case app_opens
  then have held: "br_held s = None" using raced by (cases "br_held s") auto
  have "above_marks s' a i v u"
    if "cached (br_mail s) a i v u" "seen_at (mark_inbox_seen (br_mail s) (br_settings s)) a i v = Some n" "n < int u" for a i v u n
    using open_cases [OF high_invD(1) [OF high], of a i "br_settings s"]
  proof
    assume "\<exists>m \<in> set (inbox_tops (br_mail s)). of_folder a i m
        \<and> (\<forall>v. seen_at (mark_inbox_seen (br_mail s) (br_settings s)) a i v = (if v = sm_uid_validity m then Some (sm_uid m) else None)
          \<and> shown_at (mark_inbox_seen (br_mail s) (br_settings s)) a i v = (if v = sm_uid_validity m then Some (sm_uid m) else None))"
    then show ?thesis using cached_in_top [OF high_invD(1) [OF high] _ _ that(1)] that(2,3) by fastforce
  next
    assume "(\<forall>m \<in> set (inbox_tops (br_mail s)). \<not> of_folder a i m)
      \<and> (\<forall>v. seen_at (mark_inbox_seen (br_mail s) (br_settings s)) a i v = seen_at (br_settings s) a i v
           \<and> shown_at (mark_inbox_seen (br_mail s) (br_settings s)) a i v = shown_at (br_settings s) a i v)"
    moreover from this inv(1) that have "above_marks s a i v u" unfolding listed_inv_def by metis
    ultimately show ?thesis by (simp add: app_opens above_marks_def)
  qed
  with held show ?thesis by (auto simp: app_opens listed_inv_def late_inv_def)
next
  case (setting_changes k x)
  have "above_marks s' a i v u = above_marks s a i v u" for a i v u
    by (simp add: setting_changes(1) above_marks_def other_setting [OF setting_changes(2)])
  with inv show ?thesis
    unfolding listed_inv_def late_inv_def setting_changes(1)
    by (simp add: other_setting [OF setting_changes(2)])
qed

lemma step_raced: "bg_step s s' \<Longrightarrow> br_raced s \<Longrightarrow> br_raced s'"
  by (induction rule: bg_step.induct) auto

lemma reachable_listed: "bg_reachable s \<Longrightarrow> \<not> br_raced s \<Longrightarrow> listed_inv s \<and> late_inv s"
proof (induction rule: bg_reachable.induct)
  case (step s s')
  with step_raced step_listed reachable_high show ?case by blast
qed (simp add: listed_inv_def late_inv_def)



text \<open>
  C22. A late commit rewinds the line: when the app is opened between a check and its commit, the commit
  puts the seen mark back below what the user has had in front of them, and the next check announces
  that mail although the list of the notification leaves it out.
\<close>

theorem late_commit_rewinds_the_line:
  "\<exists>s. bg_reachable s
     \<and> map mail_id (fst (collect_new_mail (br_accs s) (br_mail s) (br_settings s))) = [(1, 3, 9, 7)]
     \<and> collect_pending (br_accs s) (br_mail s) (br_settings s) = []"
proof -
  let ?held = "\<lambda>s. s\<lparr>br_held := Some (collect_new_mail (br_accs s) (br_mail s) (br_settings s))\<rparr>"
  let ?opened = "\<lambda>s. s\<lparr>br_settings := mark_inbox_seen (br_mail s) (br_settings s), br_raced := br_raced s \<or> br_held s \<noteq> None\<rparr>"
  define s1 where "s1 = ?held (bg_check bg_start)"
  define s2 where "s2 = ?opened (bg_arrives [5, 7] s1)"
  define marks where "marks = inbox_tops (bg_cache [5])"
  have mail: "br_mail (bg_check bg_start) = bg_cache [5]" "br_high (bg_check bg_start) 1 3 9 = 5"
    "br_accs (bg_check bg_start) = [bg_account]"
    by (simp_all add: bg_check_def bg_start_def raised_def has_folder_def bg_cache_def bg_inbox_def validity_of_def
        top_uid_def bg_mail_def split: prod.split)
  have "bg_reachable s1"
    unfolding s1_def by (intro bg_reachable.step [OF _ collects] reachable_check reachable_start)
  moreover have "no_uid_returns (br_high s1) (br_mail s1) (bg_cache [5, 7])"
    using mail by (auto simp: s1_def no_uid_returns_def cached_bg)
  ultimately have "bg_reachable s2"
    unfolding s2_def by (intro bg_reachable.step [OF _ app_opens] reachable_arrives) (simp_all add: bg_cache_ok u32_max_def)
  moreover have "br_held s2 = Some (fst (collect_new_mail [bg_account] (bg_cache [5]) (br_settings (bg_check bg_start))), marks)"
    by (simp add: s2_def s1_def bg_arrives_def mail marks_def collect_new_mail_def Let_def)
  ultimately have run: "bg_reachable (s2\<lparr>br_settings := commit_seen marks (br_settings s2), br_held := None, br_posted :=
      br_posted s2 @ map mail_id (fst (collect_new_mail [bg_account] (bg_cache [5]) (br_settings (bg_check bg_start))))\<rparr>)"
    by (intro bg_reachable.step [OF _ commits])
  have "map mail_id (fst (collect_new_mail (br_accs s2) (br_mail s2) (commit_seen marks (br_settings s2)))) = [(1, 3, 9, 7)]"
    "collect_pending (br_accs s2) (br_mail s2) (commit_seen marks (br_settings s2)) = []"
    unfolding s2_def s1_def marks_def by code_simp+
  with run show ?thesis by (intro exI conjI) auto
qed

end
