(* ===== verification/Background.thy ===== *)
theory Background
  imports Seen_Marks Schedule Headless_Facts
begin

text \<open>
  The background checks themselves (\<open>sync/background.rs\<close>): the history of runs kept in the settings,
  one check of what is due or of everything, the check the IDLE monitor runs, and sending what is
  scheduled and due. chrono's and serde's printing, the time zone, the sync lock's answer and the mail
  parser are given (\<open>bg_lib\<close>). None of these runs can fail: what goes wrong is in their report.
\<close>

record last_run =
  lr_started_at :: string
  lr_finished_at :: "string option"
  lr_trigger :: string
  lr_skipped :: bool
  lr_new :: nat
  lr_errors :: "string list"
  lr_outcome :: "string option"

record background_report =
  br_skipped :: bool
  br_new :: "new_mail list"
  br_marks :: "seen_mark list"
  br_pending :: "new_mail list"
  br_run :: string
  br_total_unread :: nat
  br_errors :: "string list"

definition BG_RUN_HISTORY :: string where "BG_RUN_HISTORY = ''bg_run_history''"
definition BG_LAST_RUN :: string where "BG_LAST_RUN = ''bg_last_run''"
definition RUN_HISTORY_LEN :: nat where "RUN_HISTORY_LEN = 10"
definition LAST_RUN_ERRORS :: nat where "LAST_RUN_ERRORS = 3"

record bg_lib =
  bl_rfc3339 :: "instant \<Rightarrow> string"
  bl_print :: "last_run list \<Rightarrow> string"
  bl_read :: "string \<Rightarrow> last_run list option"
  bl_read_one :: "string \<Rightarrow> last_run option"
  bl_local :: "instant \<Rightarrow> zoned"
  bl_resolve :: "int \<Rightarrow> local_result"
  bl_subject :: "string \<Rightarrow> string option"

subsection \<open>The history of runs\<close>

definition run_started :: "bg_lib \<Rightarrow> instant \<Rightarrow> string \<Rightarrow> last_run" where
  "run_started L at trigger = \<lparr>lr_started_at = bl_rfc3339 L at, lr_finished_at = None, lr_trigger = trigger,
     lr_skipped = False, lr_new = 0, lr_errors = [], lr_outcome = None\<rparr>"

definition run_finish :: "bg_lib \<Rightarrow> instant \<Rightarrow> background_report \<Rightarrow> last_run \<Rightarrow> last_run" where
  "run_finish L at rep run = run\<lparr>lr_finished_at := Some (bl_rfc3339 L at), lr_skipped := br_skipped rep,
     lr_new := length (br_new rep), lr_errors := take LAST_RUN_ERRORS (br_errors rep)\<rparr>"

definition run_history :: "bg_lib \<Rightarrow> settings_db \<Rightarrow> last_run list" where
  "run_history L s =
     (case Option.bind (setting_get s BG_RUN_HISTORY) (bl_read L) of
        Some runs \<Rightarrow> runs
      | None \<Rightarrow> (case Option.bind (setting_get s BG_LAST_RUN) (bl_read_one L) of None \<Rightarrow> [] | Some r \<Rightarrow> [r]))"

definition latest_run :: "bg_lib \<Rightarrow> settings_db \<Rightarrow> last_run option" where
  "latest_run L s = (case run_history L s of [] \<Rightarrow> None | r # _ \<Rightarrow> Some r)"

definition update_history :: "bg_lib \<Rightarrow> (last_run list \<Rightarrow> last_run list) \<Rightarrow> settings_db \<Rightarrow> settings_db" where
  "update_history L f s = setting_set BG_RUN_HISTORY (bl_print L (take RUN_HISTORY_LEN (f (run_history L s)))) s"

fun update_first :: "('a \<Rightarrow> bool) \<Rightarrow> ('a \<Rightarrow> 'a) \<Rightarrow> 'a list \<Rightarrow> 'a list" where
  "update_first p f [] = []"
| "update_first p f (x # xs) = (if p x then f x # xs else x # update_first p f xs)"

definition same_run :: "string \<Rightarrow> last_run \<Rightarrow> bool" where
  "same_run started r \<longleftrightarrow> lr_started_at r = started"

definition put_run :: "last_run \<Rightarrow> last_run list \<Rightarrow> last_run list" where
  "put_run run runs =
     (if list_ex (same_run (lr_started_at run)) runs
      then update_first (same_run (lr_started_at run)) (\<lambda>_. run) runs
      else run # runs)"

definition save_run :: "bg_lib \<Rightarrow> last_run \<Rightarrow> settings_db \<Rightarrow> settings_db" where
  "save_run L run = update_history L (put_run run)"

definition record_failed_run :: "bg_lib \<Rightarrow> instant \<Rightarrow> string \<Rightarrow> string \<Rightarrow> settings_db \<Rightarrow> settings_db" where
  "record_failed_run L now trigger error =
     save_run L ((run_started L now trigger)\<lparr>lr_finished_at := Some (bl_rfc3339 L now), lr_errors := [error]\<rparr>)"

definition record_outcome :: "bg_lib \<Rightarrow> string \<Rightarrow> string \<Rightarrow> settings_db \<Rightarrow> settings_db" where
  "record_outcome L started outcome =
     update_history L (update_first (same_run started) (\<lambda>r. r\<lparr>lr_outcome := Some outcome\<rparr>))"

subsection \<open>One check\<close>

datatype tick_accounts = Due_Accounts | Every_Account

definition check_accounts ::
  "bg_lib \<Rightarrow> account list result \<Rightarrow> tick_accounts \<Rightarrow> instant \<Rightarrow> settings_db \<Rightarrow> account list result" where
  "check_accounts L listed_accounts which started s =
     (case which of
        Every_Account \<Rightarrow> listed_accounts
      | Due_Accounts \<Rightarrow>
          (case listed_accounts of
             Inl _ \<Rightarrow> Inr []
           | Inr accs \<Rightarrow>
               Inr (filter (\<lambda>a. ac_id a \<in> set (due_accounts_at (bl_resolve L) (map ac_id accs) s (bl_local L started))) accs)))"

definition cached_total_unread :: "mail_db \<Rightarrow> account list \<Rightarrow> nat" where
  "cached_total_unread db accs = sum_list (map ar_unread (unread_summary db accs))"

definition empty_bg :: background_report where
  "empty_bg = \<lparr>br_skipped = False, br_new = [], br_marks = [], br_pending = [], br_run = [],
     br_total_unread = 0, br_errors = []\<rparr>"

definition list_or_none :: "account list result \<Rightarrow> account list" where
  "list_or_none r = (case r of Inl _ \<Rightarrow> [] | Inr accs \<Rightarrow> accs)"

definition on_settings :: "(settings_db \<Rightarrow> settings_db) \<Rightarrow> (('s, 'n) head_world, unit) io" where
  "on_settings f = on_imap (modify_io (\<lambda>w. w\<lparr>w_settings := f (w_settings w)\<rparr>))"

text \<open>The report over what is cached now.\<close>

definition report_news ::
  "account list result \<Rightarrow> string list \<Rightarrow> (('s, 'n) head_world, background_report) io" where
  "report_news listed_accounts errors =
     get_io (\<lambda>w. let accs = list_or_none listed_accounts; db = mail_of w; s = w_settings (hw_imap w);
                     (new, marks) = collect_new_mail accs db s
       in empty_bg\<lparr>br_new := new, br_marks := marks, br_pending := collect_pending accs db s,
            br_total_unread := cached_total_unread db accs, br_errors := errors\<rparr>)"

definition report_idle ::
  "account list result \<Rightarrow> bool \<Rightarrow> string list \<Rightarrow> (('s, 'n) head_world, background_report) io" where
  "report_idle listed_accounts skipped errors =
     get_io (\<lambda>w. empty_bg\<lparr>br_skipped := skipped,
       br_total_unread := cached_total_unread (mail_of w) (list_or_none listed_accounts), br_errors := errors\<rparr>)"

definition background_tick ::
  "bg_lib \<Rightarrow> ('s, 'n) head_env \<Rightarrow> account list result \<Rightarrow> bool result \<Rightarrow> tick_accounts
    \<Rightarrow> (('s, 'n) head_world, background_report) io" where
  "background_tick L env listed_accounts lock which =
     (case lock of
        Inr False \<Rightarrow> report_idle listed_accounts True []
      | Inl e \<Rightarrow> report_idle listed_accounts True [''sync lock: '' @ error_text e]
      | Inr True \<Rightarrow>
          bind_io (get_io (\<lambda>w. fl_clock (hw_out w))) (\<lambda>started.
          bind_io (get_io (\<lambda>w. check_accounts L listed_accounts which started (w_settings (hw_imap w)))) (\<lambda>due.
            case due of
              Inl e \<Rightarrow> report_idle listed_accounts False [''accounts: '' @ error_text e]
            | Inr due \<Rightarrow>
                bind_io (sync_accounts env due Inbox_Only) (\<lambda>report.
                bind_io (on_settings (fold (\<lambda>r. mark_checked (ar_account_id r) started)
                    (filter inbox_checked (sa_accounts report)))) (\<lambda>_.
                report_news listed_accounts (sa_errors report))))))"

text \<open>Every check is on record while it runs and when it is done.\<close>

definition recorded ::
  "bg_lib \<Rightarrow> string \<Rightarrow> (('s, 'n) head_world, background_report) io \<Rightarrow> (('s, 'n) head_world, background_report) io" where
  "recorded L trigger tick =
     bind_io (get_io (\<lambda>w. run_started L (fl_clock (hw_out w)) trigger)) (\<lambda>run.
     bind_io (on_settings (save_run L run)) (\<lambda>_.
     bind_io tick (\<lambda>report.
     bind_io (get_io (\<lambda>w. fl_clock (hw_out w))) (\<lambda>finished.
     bind_io (on_settings (save_run L (run_finish L finished report run))) (\<lambda>_.
     ret_io (report\<lparr>br_run := lr_started_at run\<rparr>))))))"

definition background_check ::
  "bg_lib \<Rightarrow> ('s, 'n) head_env \<Rightarrow> account list result \<Rightarrow> bool result \<Rightarrow> string
    \<Rightarrow> (('s, 'n) head_world, background_report) io" where
  "background_check L env listed_accounts lock trigger =
     recorded L trigger (background_tick L env listed_accounts lock Due_Accounts)"

definition background_check_now ::
  "bg_lib \<Rightarrow> ('s, 'n) head_env \<Rightarrow> account list result \<Rightarrow> bool result \<Rightarrow> string
    \<Rightarrow> (('s, 'n) head_world, background_report) io" where
  "background_check_now L env listed_accounts lock trigger =
     recorded L trigger (background_tick L env listed_accounts lock Every_Account)"

subsection \<open>The IDLE monitor's check\<close>

definition PUSH_LOCK_TRIES :: nat where "PUSH_LOCK_TRIES = 4"

fun push_lock_from :: "(nat \<Rightarrow> bool result) \<Rightarrow> nat list \<Rightarrow> bool result" where
  "push_lock_from tries [] = Inr False"
| "push_lock_from tries (k # ks) =
     (case tries k of Inl e \<Rightarrow> Inl e | Inr True \<Rightarrow> Inr True | Inr False \<Rightarrow> push_lock_from tries ks)"

definition push_lock :: "(nat \<Rightarrow> bool result) \<Rightarrow> bool result" where
  "push_lock tries = push_lock_from tries [1..<PUSH_LOCK_TRIES + 1]"

definition push_check ::
  "bg_lib \<Rightarrow> ('s, 'n) head_env \<Rightarrow> account list result \<Rightarrow> (nat \<Rightarrow> bool result) \<Rightarrow> account
    \<Rightarrow> (('s, 'n) head_world, background_report) io" where
  "push_check L env listed_accounts tries acc =
     recorded L ''push''
       (case push_lock tries of
          Inr True \<Rightarrow>
            bind_io (sync_account env acc Inbox_Only) (\<lambda>r.
            report_news listed_accounts (map (\<lambda>e. ac_email acc @ '': '' @ e) (ar_errors r)))
        | Inr False \<Rightarrow> report_idle listed_accounts True []
        | Inl e \<Rightarrow> report_idle listed_accounts True [''sync lock: '' @ error_text e])"

subsection \<open>Sending what is due\<close>

record send_due_report =
  sd_skipped :: bool
  sd_sent :: nat
  sd_errors :: "string list"
  sd_failed :: "failed_send list"
  sd_run :: string

definition empty_due :: send_due_report where
  "empty_due = \<lparr>sd_skipped = False, sd_sent = 0, sd_errors = [], sd_failed = [], sd_run = []\<rparr>"

definition status_line :: "send_due_report \<Rightarrow> string" where
  "status_line r =
     join ''; ''
       ((if sd_sent r = 0 then [] else if sd_sent r = 1 then [''Sent 1 scheduled message'']
         else [''Sent '' @ string_of_nat (sd_sent r) @ '' scheduled messages''])
        @ map f_line (sd_failed r)
        @ (if sd_failed r = [] \<and> sd_errors r \<noteq> [] then
             (if sd_sent r = 0 then [''Scheduled send failed, will retry''] else []) @ sd_errors r
           else []))"

definition on_outbox :: "(instant \<Rightarrow> send_queue \<Rightarrow> send_queue) \<Rightarrow> (('s, 'n) head_world, unit) io" where
  "on_outbox f = on_out (on_queue f)"

definition charge_unreachable :: "int \<Rightarrow> string \<Rightarrow> (('s, 'n) head_world, unit) io" where
  "charge_unreachable account_id error = on_outbox (\<lambda>now db. snd (fail_due_scheduled now account_id error db))"

definition due_error :: "string \<Rightarrow> send_due_report \<Rightarrow> send_due_report" where
  "due_error e r = r\<lparr>sd_errors := sd_errors r @ [e]\<rparr>"

definition flush_due_account ::
  "('s, 'n) head_env \<Rightarrow> account list \<Rightarrow> int \<Rightarrow> send_due_report \<Rightarrow> (('s, 'n) head_world, send_due_report) io" where
  "flush_due_account env accs i rep =
     (case find (\<lambda>a. ac_id a = i) accs of
        None \<Rightarrow>
          (let error = ''account '' @ string_of_int i @ '': '' @ error_text (NotFound (''account '' @ string_of_int i))
           in bind_io (charge_unreachable i error) (\<lambda>_. ret_io (due_error error rep)))
      | Some acc \<Rightarrow>
          (case he_secrets env acc of
             Inl e \<Rightarrow>
               bind_io (charge_unreachable i (''no password in keyring: '' @ error_text e)) (\<lambda>_.
               ret_io (due_error (ac_email acc @ '': '' @ error_text e) rep))
           | Inr _ \<Rightarrow>
               bind_io (try_io (on_out (flush_outbox (he_smtp env acc) i))) (\<lambda>r.
                 case r of
                   Inr n \<Rightarrow> ret_io (rep\<lparr>sd_sent := sd_sent rep + n\<rparr>)
                 | Inl e \<Rightarrow> ret_io (due_error (ac_email acc @ '': '' @ error_text e) rep))))"

definition flush_due_scheduled ::
  "('s, 'n) head_env \<Rightarrow> account list \<Rightarrow> (('s, 'n) head_world, send_due_report) io" where
  "flush_due_scheduled env accs =
     bind_io (get_io (\<lambda>w. due_scheduled_account_ids (fl_clock (hw_out w)) (fl_queue (hw_out w)))) (\<lambda>ids.
     fold_io (flush_due_account env accs) ids empty_due)"

definition take_notices :: "bg_lib \<Rightarrow> (('s, 'n) head_world, failed_send list) io" where
  "take_notices L =
     on_out (\<lambda>w. case take_failure_notices (bl_subject L) (fl_queue w) of
       (notices, db) \<Rightarrow> (Inr notices, w\<lparr>fl_queue := db\<rparr>))"

text \<open>What follows the flush: the notices, and the run on record as done.\<close>

definition finish_due ::
  "bg_lib \<Rightarrow> last_run \<Rightarrow> send_due_report \<Rightarrow> (('s, 'n) head_world, send_due_report) io" where
  "finish_due L run report =
     bind_io (take_notices L) (\<lambda>failed.
     bind_io (get_io (\<lambda>w. fl_clock (hw_out w))) (\<lambda>finished.
     bind_io (on_settings (save_run L (run\<lparr>lr_finished_at := Some (bl_rfc3339 L finished),
         lr_skipped := sd_skipped report, lr_errors := take LAST_RUN_ERRORS (sd_errors report)\<rparr>))) (\<lambda>_.
     ret_io (report\<lparr>sd_failed := failed, sd_run := lr_started_at run\<rparr>))))"

definition send_due_scheduled ::
  "bg_lib \<Rightarrow> ('s, 'n) head_env \<Rightarrow> account list \<Rightarrow> bool result \<Rightarrow> (('s, 'n) head_world, send_due_report) io" where
  "send_due_scheduled L env accs lock =
     (case lock of
        Inr False \<Rightarrow> ret_io (empty_due\<lparr>sd_skipped := True\<rparr>)
      | Inl e \<Rightarrow> ret_io (empty_due\<lparr>sd_skipped := True, sd_errors := [''sync lock: '' @ error_text e]\<rparr>)
      | Inr True \<Rightarrow>
          bind_io (get_io (\<lambda>w. run_started L (fl_clock (hw_out w)) ''scheduled-send'')) (\<lambda>run.
          bind_io (on_settings (save_run L run)) (\<lambda>_.
          bind_io (flush_due_scheduled env accs) (finish_due L run))))"

end
