(* ===== verification/Sync_Settings.thy ===== *)
theory Sync_Settings
  imports Background Pending_Progress Headless_Safety "HOL-Library.Countable"
begin

text \<open>
  What a check leaves alone: of the settings a sync writes only the stamps of the full folder
  discovery, and a background check only these, the times of the last checks and the run history. So
  a check moves no mark and no preference, and what it did is on record.
\<close>

definition setting_is :: "string \<Rightarrow> string option \<Rightarrow> 's world \<Rightarrow> bool" where
  "setting_is k v w \<longleftrightarrow> setting_get (w_settings w) k = v"

definition sync_writes :: "string \<Rightarrow> bool" where
  "sync_writes k \<longleftrightarrow> (\<exists>i. k = LAST_FULL_DISCOVERY_PREFIX @ string_of_int i)"

lemma setting_is_simps [simp]:
  "setting_is k v (w\<lparr>tag_counter := n\<rparr>) = setting_is k v w" "setting_is k v (w\<lparr>broken := b\<rparr>) = setting_is k v w"
  "setting_is k v (w\<lparr>conn := c\<rparr>) = setting_is k v w" "setting_is k v (w\<lparr>condstore_enabled := x\<rparr>) = setting_is k v w"
  "setting_is k v (w\<lparr>qresync_enabled := x\<rparr>) = setting_is k v w" "setting_is k v (w\<lparr>w_mail := d\<rparr>) = setting_is k v w"
  "setting_is k v (w\<lparr>w_connected := y\<rparr>) = setting_is k v w" "setting_is k v (open_session s w) = setting_is k v w"
  by (simp_all add: setting_is_def open_session_def)

lemma keeps_setting_execute [keeps_rules]: "keeps (setting_is k v) (execute srv cmd)"
  unfolding keeps_def by (rule hoare_execute) simp_all

lemma keeps_setting_local [keeps_rules]:
  "keeps (setting_is k v) (modify_io (\<lambda>s. s\<lparr>condstore_enabled := False\<rparr>))"
  "keeps (setting_is k v) (modify_io (\<lambda>s. s\<lparr>condstore_enabled := False, qresync_enabled := False\<rparr>))"
  "keeps (setting_is k v) (modify_io (\<lambda>w. w\<lparr>w_mail := f w\<rparr>))"
  "keeps (setting_is k v) (modify_io (\<lambda>w. w\<lparr>w_connected := b\<rparr>))"
  "keeps (setting_is k v) (modify_io (open_session s))"
  "keeps (setting_is k v) (db_io g)" "keeps (setting_is k v) (db_do h)" "keeps (setting_is k v) (db_get q)"
  "keeps (setting_is k v) session_ready" "keeps (setting_is k v) (account_get i)"
  by (auto intro!: keepsI simp: io_simps db_io_def db_do_def db_get_def session_ready_def account_get_def
      split: prod.splits if_splits sum.splits)

lemma keeps_setting_verbs [keeps_rules]:
  "keeps (setting_is k v) (uid_search srv ks)"
  "keeps (setting_is k v) (uid_fetch_messages srv uids)"
  "keeps (setting_is k v) (uid_fetch_flags_changesince srv uids modseq)"
  "keeps (setting_is k v) (uid_store_flags srv uids add flags)"
  "keeps (setting_is k v) (session_select srv path q)"
  "keeps (setting_is k v) (expunge_only srv uids)"
  "keeps (setting_is k v) (session_list srv rf pat)"
  "keeps (setting_is k v) (session_lsub srv rf pat)"
  "keeps (setting_is k v) (session_namespace srv)"
  "keeps (setting_is k v) (create_folder srv path)"
  unfolding uid_search_def uid_fetch_messages_def uid_fetch_flags_eq uid_store_flags_def session_select_eq
    with_fallback_eq expunge_only_def session_expunge_def session_list_def session_lsub_def
    session_namespace_def create_folder_def Let_def
  by (intro keeps_rules)+

lemma keeps_setting_uid_expunge [keeps_rules]: "keeps (setting_is k v) (uid_expunge srv uids)"
  unfolding uid_expunge_eq by (intro keeps_rules)

lemma keeps_setting_copy [keeps_rules]: "keeps (setting_is k v) (copy_then_remove srv uids sq mailbox)"
  unfolding copy_then_remove_def by (intro keeps_rules)

lemma keeps_setting_uid_move [keeps_rules]: "keeps (setting_is k v) (uid_move srv uids dest)"
  unfolding uid_move_eq by (intro keeps_rules)

lemma keeps_setting_search [keeps_rules]: "keeps (setting_is k v) (search_recent_uids srv window uid_next)"
proof -
  have pages: "keeps (setting_is k v) (search_pages srv want span n found hi lo low)" for want span n found hi lo low
    by (induction n arbitrary: found hi lo low) (unfold search_pages.simps Let_def, (intro keeps_rules; assumption?)+)
  show ?thesis
    unfolding search_recent_uids_def search_paged_def Let_def by (intro keeps_rules pages)
qed

lemma keeps_setting_stamp:
  "\<not> sync_writes k \<Longrightarrow> keeps (setting_is k v)
     (modify_io (\<lambda>w. w\<lparr>w_settings := set_last_full_discovery i t (w_settings w)\<rparr>))"
  by (rule keeps_modify) (auto simp: setting_is_def set_last_full_discovery_def sync_writes_def)

lemma keeps_setting_discover:
  assumes "\<not> sync_writes k"
  shows "keeps (setting_is k v) (discover_folders srv lower now i)"
    and "keeps (setting_is k v) (discover_folders_quick srv lower i)"
  unfolding discover_folders_def discover_folders_quick_def auxiliary_def upsert_discovered_def list_under_def
    Let_def split_beta
  by (intro keeps_rules keeps_setting_stamp assms)+

lemma keeps_setting_folders:
  assumes "\<not> sync_writes k"
  shows "keeps (setting_is k v) (sync_folders env i)" "keeps (setting_is k v) (sync_folders_quick env i)"
  unfolding sync_folders_def sync_folders_quick_def
  by (intro keeps_rules keeps_setting_discover [OF assms])+

lemma keeps_setting_create_path:
  assumes "\<not> sync_writes k"
  shows "keeps (setting_is k v) (create_folder_path env i path delimiter)"
  unfolding create_folder_path_def create_prefix_def Let_def
  by (intro keeps_rules keeps_setting_folders [OF assms])

lemma keeps_setting_target:
  assumes "\<not> sync_writes k"
  shows "keeps (setting_is k v) (pending_target env i src action dest)"
  unfolding pending_target_def
  by (cases action; simp only: pending_action.case) (intro keeps_rules keeps_setting_create_path [OF assms])+

lemma keeps_setting_move_uids [keeps_rules]: "keeps (setting_is k v) (move_uids_to env src uids dest)"
  unfolding move_uids_to_def forget_uids_def Let_def by (intro keeps_rules)

lemma keeps_setting_push:
  assumes "\<not> sync_writes k"
  shows "keeps (setting_is k v) (push_dirty_flags env i)" "keeps (setting_is k v) (push_due_moves env i)"
proof -
  show "keeps (setting_is k v) (push_dirty_flags env i)"
    unfolding push_dirty_flags_def push_flags_def Let_def by (intro keeps_rules)
  have "keeps (setting_is k v) (push_group env i g n)" for g n
    unfolding push_group_def Let_def split_beta by (intro keeps_rules keeps_setting_target [OF assms])
  then show "keeps (setting_is k v) (push_due_moves env i)"
    unfolding push_due_moves_def Let_def by (intro keeps_rules)
qed

lemma keeps_setting_window: "keeps (setting_is k v) (sync_folder_window env i window)"
  unfolding sync_folder_window_def sync_selected_def sync_searched_def sweep_trash_seen_def delete_chunks_def
    drop_vanished_def refresh_flags_def store_fetched_def fetch_missing_def expunge_missing_def save_state_def Let_def
  by (intro keeps_rules)

subsection \<open>The checks\<close>

definition head_setting :: "string \<Rightarrow> string option \<Rightarrow> ('s, 'n) head_world \<Rightarrow> bool" where
  "head_setting k v w \<longleftrightarrow> setting_is k v (hw_imap w)"

lemma keeps_head_imap: "keeps (setting_is k v) m \<Longrightarrow> keeps (head_setting k v) (on_imap m)"
  by (rule keepsI) (auto simp: on_imap_def head_setting_def split: prod.splits intro: keepsD)

lemma keeps_case_bool [keeps_rules]: "keeps I m \<Longrightarrow> keeps I n \<Longrightarrow> keeps I (case b of True \<Rightarrow> m | False \<Rightarrow> n)"
  by (cases b) simp_all

lemma total_case_bool [total_rules]: "never_fails m \<Longrightarrow> never_fails n \<Longrightarrow> never_fails (case b of True \<Rightarrow> m | False \<Rightarrow> n)"
  by (cases b) simp_all

lemma keeps_head_out [keeps_rules]: "keeps (head_setting k v) (on_out m)"
  by (auto intro!: keepsI simp: on_out_def head_setting_def split: prod.splits)

lemma keeps_head_settings: "(\<And>s. setting_get (f s) k = setting_get s k) \<Longrightarrow> keeps (head_setting k v) (on_settings f)"
  unfolding on_settings_def by (rule keeps_head_imap, rule keeps_modify) (simp add: setting_is_def)

lemma keeps_head_account:
  assumes "\<not> sync_writes k"
  shows "keeps (head_setting k v) (sync_account env acc scope)"
  unfolding sync_account_def flush_step_def push_step_def list_step_def folder_step_def finish_unread_def
    only_cached_unread_def Let_def split_beta
  by (intro keeps_rules keeps_head_imap keeps_setting_push keeps_setting_folders keeps_setting_window assms)

lemma keeps_head_accounts:
  assumes "\<not> sync_writes k"
  shows "keeps (head_setting k v) (sync_accounts env accs scope)"
  unfolding sync_accounts_def sync_fresh_def only_cached_unread_def connect_def logout_def
  by (intro keeps_rules keeps_head_imap keeps_head_account assms)

lemma setting_fold_checked:
  "(\<And>i. k \<noteq> BG_CHECKED_PREFIX @ string_of_int i) \<Longrightarrow>
     setting_get (fold (\<lambda>r. mark_checked (ar_account_id r) t) rs s) k = setting_get s k"
  by (induction rs arbitrary: s) (simp_all add: mark_checked_def)

lemma keeps_head_tick:
  assumes "\<not> sync_writes k" and "\<And>i. k \<noteq> BG_CHECKED_PREFIX @ string_of_int i"
  shows "keeps (head_setting k v) (background_tick L env listed_accounts lock which)"
  unfolding background_tick_def report_idle_def report_news_def split_beta
  by (intro keeps_rules keeps_head_accounts keeps_head_settings setting_fold_checked assms)

lemma total_checks [total_rules]:
  "never_fails (background_tick L env listed_accounts lock which)"
  "never_fails (sync_accounts env accs scope)"
  unfolding background_tick_def sync_accounts_def report_idle_def report_news_def on_settings_def
  by (intro total_rules)+

lemma keeps_head_recorded:
  assumes "keeps (head_setting k v) tick" and "k \<noteq> BG_RUN_HISTORY"
  shows "keeps (head_setting k v) (recorded L trigger tick)"
  unfolding recorded_def
  by (intro keeps_rules keeps_head_settings assms(1)) (simp_all add: save_run_def update_history_def assms(2))

lemma keeps_head_send_due:
  assumes "k \<noteq> BG_RUN_HISTORY"
  shows "keeps (head_setting k v) (send_due_scheduled L env accs lock)"
  unfolding send_due_scheduled_def flush_due_scheduled_def flush_due_account_def charge_unreachable_def on_outbox_def
    take_notices_def finish_due_def Let_def
  by (intro keeps_rules keeps_head_settings) (simp_all add: save_run_def update_history_def assms)

lemma keeps_head_push:
  assumes "\<not> sync_writes k" and "k \<noteq> BG_RUN_HISTORY"
  shows "keeps (head_setting k v) (push_check L env listed_accounts tries acc)"
  unfolding push_check_def report_idle_def report_news_def split_beta
  by (intro keeps_head_recorded keeps_rules keeps_head_account assms)

lemma keeps_headD: "keeps (head_setting k (setting_get (w_settings (hw_imap w)) k)) m \<Longrightarrow>
    setting_get (w_settings (hw_imap (snd (m w)))) k = setting_get (w_settings (hw_imap w)) k"
  using keepsD [of "head_setting k (setting_get (w_settings (hw_imap w)) k)" m w "fst (m w)" "snd (m w)"]
  by (simp add: head_setting_def setting_is_def)

text \<open>
  C17. A check changes no setting but its own: the scheduled check, the one the user asks for, the IDLE
  monitor's and the sending of due mail leave every setting as it is, except for the stamps of the last
  discoveries and checks and the history of runs. In particular no check moves a mark, which only the
  commit after the notification does.
\<close>

theorem checks_keep_the_settings:
  assumes "\<not> sync_writes k" and "k \<noteq> BG_RUN_HISTORY" and "\<And>i. k \<noteq> BG_CHECKED_PREFIX @ string_of_int i"
    and "run \<in> {(\<lambda>w. snd (background_check L env listed_accounts lock trigger w)),
      (\<lambda>w. snd (background_check_now L env listed_accounts lock trigger w)),
      (\<lambda>w. snd (push_check L env listed_accounts tries acc w)),
      (\<lambda>w. snd (send_due_scheduled L env accs lock w))}"
  shows "setting_get (w_settings (hw_imap (run w))) k = setting_get (w_settings (hw_imap w)) k"
  using assms(4) keeps_headD [OF keeps_head_recorded [OF keeps_head_tick [OF assms(1,3)] assms(2)]]
    keeps_headD [OF keeps_head_push [OF assms(1,2)]] keeps_headD [OF keeps_head_send_due [OF assms(2)]]
  unfolding background_check_def background_check_now_def by auto

lemma key_free: "\<not> sync_writes (mark_key BG_SEEN_PREFIX a i)"
  "mark_key BG_SEEN_PREFIX a i \<noteq> BG_RUN_HISTORY" "mark_key BG_SEEN_PREFIX a i \<noteq> BG_CHECKED_PREFIX @ string_of_int j"
  by (auto simp: sync_writes_def mark_key_def BG_SEEN_PREFIX_def LAST_FULL_DISCOVERY_PREFIX_def BG_RUN_HISTORY_def
      BG_CHECKED_PREFIX_def)

subsection \<open>Every check is on record\<close>

definition json_ok :: "bg_lib \<Rightarrow> bool" where
  "json_ok L \<longleftrightarrow> (\<forall>rs. bl_read L (bl_print L rs) = Some rs)"

lemma history_saved: "json_ok L \<Longrightarrow> run_history L (update_history L f s) = take RUN_HISTORY_LEN (f (run_history L s))"
  unfolding update_history_def by (subst run_history_def) (simp add: json_ok_def)

lemma put_new: "\<not> list_ex (same_run (lr_started_at run)) runs \<Longrightarrow> put_run run runs = run # runs"
  by (simp add: put_run_def)



lemma run_keys: "\<not> sync_writes BG_RUN_HISTORY" "BG_RUN_HISTORY \<noteq> BG_CHECKED_PREFIX @ string_of_int i"
  by (auto simp: sync_writes_def LAST_FULL_DISCOVERY_PREFIX_def BG_RUN_HISTORY_def BG_CHECKED_PREFIX_def)

lemma recorded_history:
  assumes json: "json_ok L" and fresh: "\<not> list_ex (same_run (bl_rfc3339 L (fl_clock (hw_out w)))) (run_history L (w_settings (hw_imap w)))"
    and total: "never_fails tick" and kept: "\<And>v. keeps (head_setting BG_RUN_HISTORY v) tick"
  shows "case recorded L trigger tick w of
     (Inl _, _) \<Rightarrow> False
   | (Inr rep, w') \<Rightarrow> br_run rep = bl_rfc3339 L (fl_clock (hw_out w))
       \<and> run_history L (w_settings (hw_imap w')) = take RUN_HISTORY_LEN
           (\<lparr>lr_started_at = br_run rep, lr_finished_at = Some (bl_rfc3339 L (fl_clock (hw_out w'))), lr_trigger = trigger,
              lr_skipped = br_skipped rep, lr_new = length (br_new rep), lr_errors = take LAST_RUN_ERRORS (br_errors rep),
              lr_outcome = None\<rparr> # run_history L (w_settings (hw_imap w)))"
proof -
  define run where "run = run_started L (fl_clock (hw_out w)) trigger"
  define w1 where "w1 = snd (on_settings (save_run L run) w)"
  define runs where "runs = take RUN_HISTORY_LEN (run # run_history L (w_settings (hw_imap w)))"
  obtain rep w2 where tick: "tick w1 = (Inr rep, w2)"
    using never_fails_result [OF total, of w1] by (metis prod.collapse)
  have s1: "w_settings (hw_imap w1) = save_run L run (w_settings (hw_imap w))"
    by (simp add: w1_def on_settings_def on_imap_def io_simps)
  have put: "put_run run (run_history L (w_settings (hw_imap w))) = run # run_history L (w_settings (hw_imap w))"
    using fresh by (intro put_new) (simp add: run_def run_started_def)
  have raw: "setting_get (w_settings (hw_imap w1)) BG_RUN_HISTORY = Some (bl_print L runs)"
    by (simp add: s1 save_run_def update_history_def put runs_def)
  have "head_setting BG_RUN_HISTORY (Some (bl_print L runs)) w2"
    using keepsD [OF kept _ tick] raw by (simp add: head_setting_def setting_is_def)
  then have h2: "run_history L (w_settings (hw_imap w2)) = runs"
    using json by (simp add: head_setting_def setting_is_def run_history_def json_ok_def)
  let ?done = "run_finish L (fl_clock (hw_out w2)) rep run"
  have "put_run ?done runs = take RUN_HISTORY_LEN (?done # run_history L (w_settings (hw_imap w)))"
    unfolding runs_def RUN_HISTORY_LEN_def by (simp add: numeral_eq_Suc put_run_def same_run_def run_finish_def)
  then have h3: "run_history L (save_run L ?done (w_settings (hw_imap w2))) =
      take RUN_HISTORY_LEN (?done # run_history L (w_settings (hw_imap w)))"
    unfolding save_run_def history_saved [OF json] h2 by simp
  have "recorded L trigger tick w =
      (Inr (rep\<lparr>br_run := lr_started_at run\<rparr>), snd (on_settings (save_run L ?done) w2))"
    by (simp add: recorded_def bind_io_def get_io_def tick run_def [symmetric] on_settings_def on_imap_def io_simps
        w1_def [unfolded on_settings_def on_imap_def io_simps, simplified, symmetric])
  then show ?thesis
    using h3 by (simp add: on_settings_def on_imap_def io_simps run_def run_started_def run_finish_def)
qed

definition finished_run :: "bg_lib \<Rightarrow> string \<Rightarrow> instant \<Rightarrow> background_report \<Rightarrow> last_run" where
  "finished_run L trigger at rep = \<lparr>lr_started_at = br_run rep, lr_finished_at = Some (bl_rfc3339 L at),
     lr_trigger = trigger, lr_skipped = br_skipped rep, lr_new = length (br_new rep),
     lr_errors = take LAST_RUN_ERRORS (br_errors rep), lr_outcome = None\<rparr>"

text \<open>
  C18. Every check is on record, whatever it met (a taken lock, no accounts, failing servers): it returns a
  report, and the history of runs is the old one with this run in front, finished, with its trigger,
  its count of new mail and its first errors, cut to its length.
\<close>

theorem every_check_is_recorded:
  assumes "json_ok L"
    and "\<not> list_ex (same_run (bl_rfc3339 L (fl_clock (hw_out w)))) (run_history L (w_settings (hw_imap w)))"
  shows "case background_check L env listed_accounts lock trigger w of
     (Inl _, _) \<Rightarrow> False
   | (Inr rep, w') \<Rightarrow> br_run rep = bl_rfc3339 L (fl_clock (hw_out w))
       \<and> run_history L (w_settings (hw_imap w')) = take RUN_HISTORY_LEN
           (finished_run L trigger (fl_clock (hw_out w')) rep # run_history L (w_settings (hw_imap w)))"
  unfolding background_check_def finished_run_def
  using recorded_history [OF assms total_checks(1) keeps_head_tick [OF run_keys]] .

instance last_run_ext :: (countable) countable
proof (rule countable_classI [of "\<lambda>r. to_nat (lr_started_at r, lr_finished_at r, lr_trigger r, lr_skipped r, lr_new r,
    lr_errors r, lr_outcome r, last_run.more r)"])
  fix x y :: "'a last_run_ext"
  assume "to_nat (lr_started_at x, lr_finished_at x, lr_trigger x, lr_skipped x, lr_new x, lr_errors x, lr_outcome x,
      last_run.more x) = to_nat (lr_started_at y, lr_finished_at y, lr_trigger y, lr_skipped y, lr_new y, lr_errors y,
      lr_outcome y, last_run.more y)"
  then show "x = y" by simp
qed

definition plain_bg_lib :: bg_lib where
  "plain_bg_lib = \<lparr>bl_rfc3339 = (\<lambda>t. digits_of (nat t)), bl_print = (\<lambda>rs. digits_of (to_nat rs)),
     bl_read = (\<lambda>s. map_option from_nat (parse_nat s)), bl_read_one = (\<lambda>_. None),
     bl_local = (\<lambda>t. \<lparr>z_utc = t, z_local = secs t\<rparr>), bl_resolve = (\<lambda>t. Single t), bl_subject = (\<lambda>_. None)\<rparr>"

theorem every_check_is_recorded_witness:
  "case background_check plain_bg_lib idle_head (Inr []) (Inr False) ''worker'' due_head of
     (Inl _, _) \<Rightarrow> False
   | (Inr rep, w') \<Rightarrow> run_history plain_bg_lib (w_settings (hw_imap w')) =
       take RUN_HISTORY_LEN [finished_run plain_bg_lib ''worker'' (fl_clock (hw_out w')) rep]"
proof -
  have "json_ok plain_bg_lib" by (simp add: json_ok_def plain_bg_lib_def)
  moreover have "run_history plain_bg_lib (w_settings (hw_imap due_head)) = []"
    by (simp add: run_history_def due_head_def ro_world_def setting_get_def plain_bg_lib_def imap_session.extend_def)
  ultimately show ?thesis
    using every_check_is_recorded [where L = plain_bg_lib and w = due_head and env = idle_head
        and listed_accounts = "Inr []" and lock = "Inr False" and trigger = "''worker''"]
    by (auto split: prod.splits sum.splits)
qed

theorem checks_keep_the_settings_witness:
  "seen_at (w_settings (hw_imap (snd (background_check plain_bg_lib idle_head (Inr []) (Inr True) ''worker'' due_head)))) 1 2 9
    = seen_at (w_settings (hw_imap due_head)) 1 2 9"
proof -
  let ?run = "\<lambda>w. snd (background_check plain_bg_lib idle_head (Inr []) (Inr True) ''worker'' w)"
  have "setting_get (w_settings (hw_imap (?run due_head))) (mark_key BG_SEEN_PREFIX 1 2)
      = setting_get (w_settings (hw_imap due_head)) (mark_key BG_SEEN_PREFIX 1 2)"
    by (rule checks_keep_the_settings [OF key_free, where run = ?run and L = plain_bg_lib and env = idle_head
        and listed_accounts = "Inr []" and lock = "Inr True" and trigger = "''worker''"]) simp
  then show ?thesis by (simp add: stored_mark_def)
qed

end
