(* ===== verification/Due_Sends.thy ===== *)
theory Due_Sends
  imports Sync_Settings
begin

text \<open>
  Sending what is due, as a run of the outbox machine: the flushes of the accounts, the attempts charged to
  accounts that cannot be tried and the notices taken, one after the other.
\<close>

text \<open>The world of the outbox within the whole one.\<close>

definition out_flushed ::
  "'n flush_frame \<Rightarrow> int set \<Rightarrow> nat \<Rightarrow> ('s, 'n) head_world \<Rightarrow> bool" where
  "out_flushed F A n w \<longleftrightarrow> flushed F A (owned F A) n (hw_out w)"

lemma out_flushed_more: "out_flushed F A n w \<Longrightarrow> A \<subseteq> B \<Longrightarrow> out_flushed F B n w"
  unfolding out_flushed_def by (erule flushed_more) (auto simp: owned_def)

text \<open>No other submitter is at work.\<close>

definition alone :: "'n flush_frame \<Rightarrow> bool" where
  "alone F \<longleftrightarrow> (\<forall>p. sys_phase (ff_start F) p = (\<lambda>_. Idle))"

lemma alone_fresh: "alone F \<Longrightarrow> at_world F (\<lambda>_. Idle) w s \<Longrightarrow> live_rows_fresh s"
  unfolding alone_def at_world_def live_rows_fresh_def by metis

lemma fail_each_next_id: "queue_next_id (snd (fail_each now e is db)) = queue_next_id db"
proof (induction "is" arbitrary: db)
  case (Cons i "is")
  have "queue_next_id db' = queue_next_id db" if "fail_scheduled_attempt now i e False db = (r, db')" for r db'
    using fail_scheduled_next_id [of now i e False db] that by (simp del: fail_scheduled_next_id)
  with Cons.IH [of "snd (fail_scheduled_attempt now i e False db)"] show ?case
    by (auto split: prod.splits sum.splits)
qed simp

lemma fail_due_next_id: "queue_next_id (snd (fail_due_scheduled now a e db)) = queue_next_id db"
  using fail_each_next_id [of now e] by (auto simp: fail_due_scheduled_def Let_def split: prod.splits sum.splits) (metis snd_conv)+

lemma mark_noticed_next_id: "queue_next_id (mark_noticed is db) = queue_next_id db"
  by (induction "is" arbitrary: db) simp_all

lemma notices_next_id: "queue_next_id (snd (take_failure_notices subj db)) = queue_next_id db"
  by (simp add: take_failure_notices_def Let_def mark_noticed_next_id)

lemma charge_flushed: "keeps (out_flushed F A n) (charge_unreachable i e)"
proof (rule keepsI)
  fix w r w'
  assume at: "out_flushed F A n w" and run: "charge_unreachable i e w = (r, w')"
  let ?o = "hw_out w"
  let ?db = "snd (fail_due_scheduled (fl_clock ?o) i e (fl_queue ?o))"
  have "flushed F A (owned F A) n (?o\<lparr>fl_queue := ?db\<rparr>)"
  proof (rule flushed_db [OF at [unfolded out_flushed_def] _ same_rows_fail_due])
    fix s
    assume "at_world F (\<lambda>_. Idle) ?o s"
    with outbox_step.fail_due [of "ff_parse F" "ff_refresh F" s i e] show "frame_step F s (s\<lparr>sys_db := ?db\<rparr>)"
      by (simp add: at_world_def)
  qed (simp_all add: fail_due_next_id)
  moreover have "hw_out w' = ?o\<lparr>fl_queue := ?db, fl_settings := w_settings (hw_imap w)\<rparr> \<or> hw_out w' = ?o\<lparr>fl_queue := ?db\<rparr>"
    using run by (auto simp: charge_unreachable_def on_outbox_def on_out_def on_queue_def io_simps)
  ultimately show "out_flushed F A n w'" unfolding out_flushed_def by (auto elim!: flushed_same)
qed

lemma notices_flushed: "keeps (out_flushed F A n) (take_notices L)"
proof (rule keepsI)
  fix w r w'
  assume at: "out_flushed F A n w" and run: "take_notices L w = (r, w')"
  let ?o = "hw_out w"
  let ?db = "snd (take_failure_notices (bl_subject L) (fl_queue ?o))"
  have "flushed F A (owned F A) n (?o\<lparr>fl_queue := ?db\<rparr>)"
  proof (rule flushed_db [OF at [unfolded out_flushed_def] _ same_rows_notices])
    fix s
    assume "at_world F (\<lambda>_. Idle) ?o s"
    with outbox_step.notices [of "ff_parse F" "ff_refresh F" s "bl_subject L"] show "frame_step F s (s\<lparr>sys_db := ?db\<rparr>)"
      by (simp add: at_world_def)
  qed (simp_all add: notices_next_id)
  moreover have "hw_out w' = ?o\<lparr>fl_queue := ?db, fl_settings := w_settings (hw_imap w)\<rparr> \<or> hw_out w' = ?o\<lparr>fl_queue := ?db\<rparr>"
    using run by (auto simp: take_notices_def on_out_def io_simps split: prod.splits)
  ultimately show "out_flushed F A n w'" unfolding out_flushed_def by (auto elim!: flushed_same)
qed

lemma flush_flushed:
  assumes alone: "alone F" and serves: "serves F env" and new: "i \<notin> A" and at: "out_flushed F A n w"
    and run: "on_out (flush_outbox env i) w = (r, w')"
  shows "out_flushed F (insert i A) (n + (case r of Inl _ \<Rightarrow> 0 | Inr k \<Rightarrow> k)) w'"
proof -
  let ?w = "(hw_out w)\<lparr>fl_settings := w_settings (hw_imap w)\<rparr>"
  obtain f where f: "flush_outbox env i ?w = (r, f)" and w': "w' = w\<lparr>hw_out := f\<rparr>"
    using run by (auto simp: on_out_def split: prod.splits)
  have "flushed F A (owned F A) n ?w" using at by (auto simp: out_flushed_def elim!: flushed_same)
  from flush_simulates [OF serves new this alone_fresh [OF alone] f] show ?thesis by (simp add: out_flushed_def w')
qed

lemma account_flushed:
  assumes alone: "alone F" and serves: "\<forall>a \<in> set accs. serves F (he_smtp env a)" and new: "i \<notin> A"
  shows "hoare (out_flushed F A (sd_sent rep)) (flush_due_account env accs i rep)
    (\<lambda>rep'. out_flushed F (insert i A) (sd_sent rep')) (\<lambda>_. False)"
proof (rule hoareI)
  fix w rep' w'
  assume at: "out_flushed F A (sd_sent rep) w" and run: "flush_due_account env accs i rep w = (Inr rep', w')"
  have charged: "out_flushed F (insert i A) (sd_sent rep) (snd (charge_unreachable i e w))" for e
    using out_flushed_more [OF keepsD [OF charge_flushed at]] by (metis prod.collapse subset_insertI)
  show "out_flushed F (insert i A) (sd_sent rep') w'"
  proof (cases "find (\<lambda>a. ac_id a = i) accs")
    case None
    with run charged show ?thesis
      by (auto simp: flush_due_account_def Let_def bind_io_def ret_io_def due_error_def split: prod.splits sum.splits)
        (metis snd_conv)
  next
    case (Some acc)
    then have "acc \<in> set accs" by (auto simp: find_Some_iff)
    with serves have serves': "serves F (he_smtp env acc)" by blast
    show ?thesis
    proof (cases "he_secrets env acc")
      case (Inl e)
      with Some run charged show ?thesis
        by (auto simp: flush_due_account_def bind_io_def ret_io_def due_error_def split: prod.splits sum.splits)
          (metis snd_conv)
    next
      case (Inr u)
      obtain r w1 where f: "on_out (flush_outbox (he_smtp env acc) i) w = (r, w1)" by fastforce
      from flush_flushed [OF alone serves' new at f] Some Inr run f show ?thesis
        by (auto simp: flush_due_account_def bind_io_def try_io_def ret_io_def due_error_def split: prod.splits sum.splits)
    qed
  qed
next
  fix w e w'
  assume "flush_due_account env accs i rep w = (Inl e, w')"
  moreover have "never_fails (flush_due_account env accs i rep)"
    unfolding flush_due_account_def charge_unreachable_def on_outbox_def on_out_def on_queue_def Let_def
    by (intro total_rules never_failsI) (auto simp: io_simps split: prod.splits)
  ultimately show False using never_fails_result [of "flush_due_account env accs i rep" w] by simp
qed

lemma keeps_out_settings: "keeps (out_flushed F A n) (on_settings f)"
  by (rule keepsI) (auto simp: on_settings_def on_imap_def io_simps out_flushed_def)

lemma distinct_remdups_adj_sorted: "sorted xs \<Longrightarrow> distinct (remdups_adj xs)"
  by (induction xs rule: remdups_adj.induct) (auto simp: order_le_less)

lemma due_accounts_distinct: "distinct (due_scheduled_account_ids now db)"
  by (simp add: due_scheduled_account_ids_def distinct_remdups_adj_sorted)

lemma flush_due_flushed:
  assumes "alone F" and "\<forall>a \<in> set accs. serves F (he_smtp env a)"
  shows "hoare (out_flushed F {} 0) (flush_due_scheduled env accs)
    (\<lambda>rep w. \<exists>A. out_flushed F A (sd_sent rep) w) (\<lambda>_. False)"
proof -
  have "hoare (out_flushed F (set []) (sd_sent empty_due)) (fold_io (flush_due_account env accs) ids empty_due)
      (\<lambda>rep. out_flushed F (set ids) (sd_sent rep)) (\<lambda>_. False)" if "distinct ids" for ids
  proof (rule hoare_fold_done [where I = "\<lambda>xs b. out_flushed F (set xs) (sd_sent b)"])
    fix xs x ys b
    assume "ids = xs @ x # ys"
    with that have "x \<notin> set xs" by auto
    from account_flushed [OF assms this, of b]
    show "hoare (out_flushed F (set xs) (sd_sent b)) (flush_due_account env accs x b)
        (\<lambda>b. out_flushed F (set (xs @ [x])) (sd_sent b)) (\<lambda>_. False)" by simp
  qed
  note accounts = this
  have "hoare (out_flushed F {} 0) (fold_io (flush_due_account env accs) ids empty_due)
      (\<lambda>rep w. \<exists>A. out_flushed F A (sd_sent rep) w) (\<lambda>_. False)" if distinct: "distinct ids" for ids
    by (rule hoare_weaken [OF accounts [OF distinct]]) (auto simp: empty_due_def)
  note loop = this
  show ?thesis
    unfolding flush_due_scheduled_def
  proof (rule hoare_bind)
    show "hoare (out_flushed F {} 0) (get_io (\<lambda>w. due_scheduled_account_ids (fl_clock (hw_out w)) (fl_queue (hw_out w))))
        (\<lambda>ids w. distinct ids \<and> out_flushed F {} 0 w) (\<lambda>_. False)"
      by (simp add: hoare_def io_simps due_accounts_distinct)
    show "hoare (\<lambda>w. distinct ids \<and> out_flushed F {} 0 w) (fold_io (flush_due_account env accs) ids empty_due)
        (\<lambda>rep w. \<exists>A. out_flushed F A (sd_sent rep) w) (\<lambda>_. False)" for ids
      by (rule hoare_fact [where F = "distinct ids"]) (auto intro: hoare_pre [OF loop])
  qed
qed

lemma total_notices [total_rules]: "never_fails (take_notices L)" "never_fails (on_settings f)"
  by (auto intro!: never_failsI simp: take_notices_def on_out_def on_settings_def on_imap_def io_simps split: prod.splits)

lemma keeps_surely: "keeps I m \<Longrightarrow> never_fails m \<Longrightarrow> hoare I m (\<lambda>_. I) (\<lambda>_. False)"
proof (rule hoareI)
  fix w e w'
  assume "never_fails m" "m w = (Inl e, w')"
  then show False using never_fails_result [of m w] by simp
next
  fix w x w'
  assume "keeps I m" "I w" "m w = (Inr x, w')"
  then show "I w'" by (rule keepsD)
qed

lemma keeps_some: "(\<And>A. keeps (I A) m) \<Longrightarrow> keeps (\<lambda>w. \<exists>A. I A w) m"
  by (rule keepsI) (blast dest: keepsD)


lemma due_sys_idle: "\<forall>p. sys_phase due_sys p = (\<lambda>_. Idle)"
  by (simp add: due_sys_def held_sys_def init_sys_def)


end
