(* ===== verification/Notify.thy ===== *)
theory Notify
  imports Background
begin

text \<open>
  What a check does with the notifications (\<open>sync/background/notify.rs\<close>): which to post, which of them ring,
  which to remove. The screen is the list of tags and signatures the host reads back, each tag once.
  serde's text of a button's target and chrono's reading of a date are given (\<open>notify_lib\<close>).
\<close>

definition OPEN_PAYLOAD_PREFIX :: string where "OPEN_PAYLOAD_PREFIX = ''mail:''"
definition SUMMARY_TAG_PREFIX :: string where "SUMMARY_TAG_PREFIX = ''account:''"
definition SUMMARY_LINES :: nat where "SUMMARY_LINES = 5"
definition MAX_CHILDREN :: nat where "MAX_CHILDREN = 8"

datatype notify_action = Alert | Update | Clear | AlertsOff | Blocked | Foreground | Nothing

record notification =
  no_tag :: string
  no_group :: string
  no_summary :: bool
  no_title :: string
  no_body :: string
  no_big_text :: "string option"
  no_lines :: "string list"
  no_summary_text :: "string option"
  no_account :: string
  no_redacted :: string
  no_count :: nat
  no_when :: "int option"
  no_alert :: bool
  no_payload :: string
  no_mark_read :: string
  no_reply :: bool
  no_quick_action :: string

record notification_plan =
  np_action :: notify_action
  np_post :: "notification list"
  np_cancel :: "string list"
  np_count :: nat
  np_outcome :: "string option"
  np_run :: string
  np_marks :: "seen_mark list"

record notify_lib =
  nl_target :: "int \<Rightarrow> (int \<times> nat) list \<Rightarrow> string"
  nl_when :: "string \<Rightarrow> int option"

definition signature_of :: "string \<Rightarrow> string \<Rightarrow> string" where
  "signature_of title body = title @ newline # body"

definition signature :: "notification \<Rightarrow> string" where
  "signature n = signature_of (no_title n) (no_body n)"

type_synonym shown = "(string \<times> string) list"

datatype posted = Parts string string | Signature string

definition shown_of :: "(string \<times> posted) list \<Rightarrow> shown" where
  "shown_of ps = map (\<lambda>(tag, p). (tag, case p of Parts title body \<Rightarrow> signature_of title body | Signature s \<Rightarrow> s)) ps"

subsection \<open>One notification\<close>

definition open_payload :: "new_mail \<Rightarrow> string" where
  "open_payload m = OPEN_PAYLOAD_PREFIX @ string_of_int (nm_account_id m) @ '':'' @ string_of_int (nm_folder_id m)
     @ '':'' @ string_of_nat (nm_uid m)"

definition group_of :: "int \<Rightarrow> string" where
  "group_of account_id = ''mail-account-'' @ string_of_int account_id"

definition read_target :: "notify_lib \<Rightarrow> int \<Rightarrow> new_mail list \<Rightarrow> string" where
  "read_target L account_id mails = nl_target L account_id (map (\<lambda>m. (nm_folder_id m, nm_uid m)) mails)"

definition title_of :: "new_mail \<Rightarrow> string" where
  "title_of m = (if trim (nm_from m) = [] then trim (nm_account_email m) else trim (nm_from m))"

definition body_of :: "new_mail \<Rightarrow> string" where
  "body_of m = (if trim (nm_subject m) = [] then ''(no subject)'' else trim (nm_subject m))"

definition line_of :: "new_mail \<Rightarrow> string" where
  "line_of m = title_of m @ '' '' @ em_dash @ '' '' @ body_of m"

definition child_of :: "notify_lib \<Rightarrow> new_mail \<Rightarrow> notification" where
  "child_of L m =
     (let subject = body_of m; snippet = trim (nm_snippet m) in
      \<lparr>no_tag = open_payload m, no_group = group_of (nm_account_id m), no_summary = False, no_title = title_of m,
        no_body = subject, no_big_text = Some (if snippet = [] then subject else subject @ newline # snippet),
        no_lines = [], no_summary_text = None, no_account = trim (nm_account_email m), no_redacted = ''New message'',
        no_count = 1, no_when = nl_when L (trim (nm_date m)), no_alert = False, no_payload = open_payload m,
        no_mark_read = read_target L (nm_account_id m) [m], no_reply = True, no_quick_action = []\<rparr>)"

definition summary_tag :: "int \<Rightarrow> string" where
  "summary_tag account_id = SUMMARY_TAG_PREFIX @ string_of_int account_id"

definition summary_of :: "notify_lib \<Rightarrow> new_mail list \<Rightarrow> bool \<Rightarrow> notification" where
  "summary_of L grp alert =
     (let latest = last grp; n = length grp;
          title = (if n = 1 then ''1 new message'' else string_of_nat n @ '' new messages'') in
      \<lparr>no_tag = summary_tag (nm_account_id latest), no_group = group_of (nm_account_id latest), no_summary = True,
        no_title = title, no_body = line_of latest, no_big_text = None,
        no_lines = map line_of (take SUMMARY_LINES (rev grp)),
        no_summary_text = (if SUMMARY_LINES < n then Some (''+'' @ string_of_nat (n - SUMMARY_LINES) @ '' more'') else None),
        no_account = trim (nm_account_email latest), no_redacted = title, no_count = n,
        no_when = nl_when L (trim (nm_date latest)), no_alert = alert, no_payload = open_payload latest,
        no_mark_read = read_target L (nm_account_id latest) grp, no_reply = False, no_quick_action = []\<rparr>)"

subsection \<open>The plan\<close>

fun add_to_account :: "new_mail \<Rightarrow> new_mail list list \<Rightarrow> new_mail list list" where
  "add_to_account m [] = [[m]]"
| "add_to_account m (g # gs) =
     (if nm_account_id (hd g) = nm_account_id m then (g @ [m]) # gs else g # add_to_account m gs)"

definition by_account :: "new_mail list \<Rightarrow> new_mail list list" where
  "by_account ms = fold add_to_account ms []"

definition newest_of :: "new_mail list \<Rightarrow> new_mail list" where
  "newest_of grp = drop (length grp - MAX_CHILDREN) grp"

definition settled :: "background_report \<Rightarrow> notify_action \<Rightarrow> string option \<Rightarrow> notification_plan" where
  "settled rep action outcome = \<lparr>np_action = action, np_post = [], np_cancel = [], np_count = 0,
     np_outcome = outcome, np_run = br_run rep, np_marks = br_marks rep\<rparr>"

definition group_post :: "notify_lib \<Rightarrow> bool \<Rightarrow> string set \<Rightarrow> shown \<Rightarrow> new_mail list \<Rightarrow> notification list" where
  "group_post L alerting fresh shown grp =
     (let loud = alerting \<and> list_ex (\<lambda>m. open_payload m \<in> fresh) grp; summary = summary_of L grp loud in
      (if loud \<or> map_of shown (no_tag summary) \<noteq> Some (signature summary) then [summary] else [])
      @ filter (\<lambda>c. no_tag c \<in> fresh \<and> alerting \<or> map_of shown (no_tag c) \<noteq> Some (signature c))
          (map (child_of L) (newest_of grp)))"

definition group_keep :: "new_mail list \<Rightarrow> string list" where
  "group_keep grp = summary_tag (nm_account_id (last grp)) # map open_payload (newest_of grp)"

definition listed_mail :: "background_report \<Rightarrow> new_mail list" where
  "listed_mail rep = (if br_pending rep = [] then br_new rep else br_pending rep)"

definition on_screen :: "background_report \<Rightarrow> bool \<Rightarrow> shown \<Rightarrow> new_mail list" where
  "on_screen rep alerting shown =
     filter (\<lambda>m. open_payload m \<in> set (map fst shown)
               \<or> alerting \<and> open_payload m \<in> set (map open_payload (br_new rep))) (listed_mail rep)"

definition plan :: "notify_lib \<Rightarrow> background_report \<Rightarrow> bool \<Rightarrow> bool \<Rightarrow> bool \<Rightarrow> shown \<Rightarrow> notification_plan" where
  "plan L rep alerts_on permitted foreground shown =
     (let has_new = br_new rep \<noteq> [] in
      if foreground \<and> has_new then settled rep Foreground (Some ''new mail, app is open'')
      else if has_new \<and> \<not> permitted then settled rep Blocked (Some ''new mail, notifications blocked'')
      else
        (let alerting = has_new \<and> alerts_on;
             fresh = set (map open_payload (br_new rep));
             groups = by_account (on_screen rep alerting shown);
             post = concat (map (group_post L alerting fresh shown) groups);
             keep = concat (map group_keep groups);
             cancel = sort (filter (\<lambda>t. t \<notin> set keep) (map fst shown));
             count = length (on_screen rep alerting shown);
             (action, outcome) =
               (if alerting then (Alert, Some (''notified ('' @ string_of_nat count @ '')''))
                else if has_new then (AlertsOff, Some ''new mail, alerts are off'')
                else if post = [] \<and> cancel = [] then (Nothing, None)
                else if count = 0 then (Clear, Some ''notification cleared'')
                else (Update, Some ''notification updated''))
         in (settled rep action outcome)\<lparr>np_post := post, np_cancel := cancel, np_count := count\<rparr>))"

text \<open>Under each account's own \<open>Show notifications\<close>.\<close>

definition audible :: "settings_db \<Rightarrow> new_mail \<Rightarrow> bool" where
  "audible s m = account_get_bool s (nm_account_id m) NOTIFICATIONS_ENABLED"

definition plan_for ::
  "notify_lib \<Rightarrow> settings_db \<Rightarrow> background_report \<Rightarrow> bool \<Rightarrow> bool \<Rightarrow> shown \<Rightarrow> notification_plan" where
  "plan_for L s rep permitted foreground shown =
     (let heard = rep\<lparr>br_new := filter (audible s) (br_new rep), br_pending := filter (audible s) (br_pending rep)\<rparr>;
          planned =
            (if br_new heard = [] \<and> br_new rep \<noteq> []
             then plan L (heard\<lparr>br_new := br_new rep\<rparr>) False permitted foreground shown
             else plan L heard True permitted foreground shown);
          quick = get_notification_action s
      in planned\<lparr>np_post := map (\<lambda>n. if no_summary n then n else n\<lparr>no_quick_action := quick\<rparr>) (np_post planned)\<rparr>)"

subsection \<open>The groups\<close>

definition mails_of :: "int \<Rightarrow> new_mail list \<Rightarrow> new_mail list" where
  "mails_of a ms = filter (\<lambda>m. nm_account_id m = a) ms"

lemma hd_mails_of: "a \<in> nm_account_id ` set ms \<Longrightarrow> nm_account_id (hd (mails_of a ms)) = a"
  using hd_in_set [of "mails_of a ms"] by (force simp: mails_of_def filter_empty_conv)

lemma last_mails_of: "a \<in> nm_account_id ` set ms \<Longrightarrow> nm_account_id (last (mails_of a ms)) = a"
  using last_in_set [of "mails_of a ms"] by (force simp: mails_of_def filter_empty_conv)

lemma add_to_groups:
  assumes "set as \<subseteq> nm_account_id ` set ms" and "distinct as"
  shows "add_to_account m (map (\<lambda>a. mails_of a ms) as) =
    map (\<lambda>a. if a = nm_account_id m then mails_of a ms @ [m] else mails_of a ms) as
      @ (if nm_account_id m \<in> set as then [] else [[m]])"
  using assms
proof (induction as)
  case (Cons a as)
  have "map (\<lambda>b. if b = a then mails_of b ms @ [m] else mails_of b ms) as = map (\<lambda>b. mails_of b ms) as"
    using Cons.prems by (intro map_cong) auto
  with Cons hd_mails_of [of a ms] show ?case by auto
qed simp

lemma by_account_groups:
  "\<exists>as. by_account ms = map (\<lambda>a. mails_of a ms) as \<and> distinct as \<and> set as = nm_account_id ` set ms"
proof (induction ms rule: rev_induct)
  case (snoc m ms)
  then obtain as where as: "by_account ms = map (\<lambda>a. mails_of a ms) as" "distinct as" "set as = nm_account_id ` set ms"
    by blast
  let ?as = "as @ (if nm_account_id m \<in> set as then [] else [nm_account_id m])"
  have none: "nm_account_id m \<notin> set as \<Longrightarrow> mails_of (nm_account_id m) ms = []"
    by (auto simp: as(3) mails_of_def filter_empty_conv image_iff)
  have "by_account (ms @ [m]) = add_to_account m (map (\<lambda>a. mails_of a ms) as)"
    using as(1) by (simp add: by_account_def)
  also have "\<dots> = map (\<lambda>a. mails_of a (ms @ [m])) ?as"
    using as(2,3) none by (simp add: add_to_groups) (simp add: mails_of_def)
  finally show ?case using as by (intro exI [of _ ?as]) auto
qed (simp add: by_account_def)

lemma set_by_account: "g \<in> set (by_account ms) \<longleftrightarrow> (\<exists>m \<in> set ms. g = mails_of (nm_account_id m) ms)"
  using by_account_groups [of ms] by fastforce

lemma group_account: "g \<in> set (by_account ms) \<Longrightarrow> m \<in> set g \<Longrightarrow> nm_account_id m = nm_account_id (last g) \<and> m \<in> set ms"
  using last_mails_of by (fastforce simp: set_by_account mails_of_def)

lemma group_nonempty: "g \<in> set (by_account ms) \<Longrightarrow> g \<noteq> []"
  by (auto simp: set_by_account mails_of_def filter_empty_conv)

end
