(* ===== verification/Notify_Facts.thy ===== *)
theory Notify_Facts
  imports Notify
begin

text \<open>
  What the plan achieves: carried out, it leaves on screen what is pending and only that, it rings once
  for every account with new mail and for no other, and it never adds a notification when nothing is new.
\<close>

subsection \<open>Tags\<close>

lemma summary_tag_inj [simp]: "summary_tag a = summary_tag b \<longleftrightarrow> a = b"
  by (simp add: summary_tag_def string_of_int_inj)

lemma summary_tag_no_mail [simp]: "summary_tag a \<noteq> open_payload m" "open_payload m \<noteq> summary_tag a"
  by (simp_all add: summary_tag_def open_payload_def SUMMARY_TAG_PREFIX_def OPEN_PAYLOAD_PREFIX_def)

lemma notification_tags [simp]:
  "no_tag (child_of L m) = open_payload m" "no_tag (summary_of L g b) = summary_tag (nm_account_id (last g))"
  "no_alert (child_of L m) = False" "no_alert (summary_of L g b) = b"
  "no_summary (child_of L m) = False" "no_summary (summary_of L g b) = True"
  by (simp_all add: child_of_def summary_of_def Let_def)

lemma signature_summary: "signature (summary_of L g b) = signature (summary_of L g c)"
  by (simp add: signature_def summary_of_def Let_def)

lemma newest_sub: "m \<in> set (newest_of g) \<Longrightarrow> m \<in> set g"
  by (auto simp: newest_of_def dest: in_set_dropD)

subsection \<open>The notifications wanted\<close>

definition wanted_of :: "notify_lib \<Rightarrow> (new_mail list \<Rightarrow> bool) \<Rightarrow> new_mail list \<Rightarrow> notification list" where
  "wanted_of L loud g = summary_of L g (loud g) # map (child_of L) (newest_of g)"

definition wanted_all :: "notify_lib \<Rightarrow> (new_mail list \<Rightarrow> bool) \<Rightarrow> new_mail list \<Rightarrow> notification list" where
  "wanted_all L loud ms = concat (map (wanted_of L loud) (by_account ms))"

definition on_display :: "notification list \<Rightarrow> (string \<times> string) list" where
  "on_display ns = map (\<lambda>n. (no_tag n, signature n)) ns"

definition has_fresh :: "bool \<Rightarrow> string set \<Rightarrow> new_mail list \<Rightarrow> bool" where
  "has_fresh alerting fresh g \<longleftrightarrow> alerting \<and> list_ex (\<lambda>m. open_payload m \<in> fresh) g"

definition to_post :: "bool \<Rightarrow> string set \<Rightarrow> shown \<Rightarrow> notification \<Rightarrow> bool" where
  "to_post alerting fresh shown n \<longleftrightarrow> no_alert n \<or> no_tag n \<in> fresh \<and> alerting
     \<or> map_of shown (no_tag n) \<noteq> Some (signature n)"

lemma group_post_wanted:
  assumes "fresh \<subseteq> range open_payload"
  shows "group_post L alerting fresh shown g =
    filter (to_post alerting fresh shown) (wanted_of L (has_fresh alerting fresh) g)"
proof -
  have "summary_tag a \<notin> fresh" for a using assms by auto
  moreover have "signature (summary_of L g (has_fresh alerting fresh g)) = signature (summary_of L g False)"
    by (rule signature_summary)
  ultimately show ?thesis
    by (simp add: group_post_def wanted_of_def to_post_def Let_def has_fresh_def filter_map comp_def)
qed

lemma group_keep_wanted: "group_keep g = map no_tag (wanted_of L loud g)"
  by (simp add: group_keep_def wanted_of_def)

lemma distinct_concat_disjoint:
  assumes "distinct as" and "\<And>a. a \<in> set as \<Longrightarrow> distinct (F a)"
    and "\<And>a b. a \<in> set as \<Longrightarrow> b \<in> set as \<Longrightarrow> a \<noteq> b \<Longrightarrow> set (F a) \<inter> set (F b) = {}"
  shows "distinct (concat (map F as))"
  using assms
proof (induction as)
  case (Cons a as)
  have "set (F a) \<inter> set (F b) = {}" if "b \<in> set as" for b
    using Cons.prems(1,3) that by (metis distinct.simps(2) list.set_intros)
  with Cons show ?case by auto
qed simp

lemma wanted_distinct:
  assumes "distinct (map open_payload ms)"
  shows "distinct (map no_tag (wanted_all L loud ms))"
proof -
  obtain as where as: "by_account ms = map (\<lambda>a. mails_of a ms) as" "distinct as" "set as = nm_account_id ` set ms"
    using by_account_groups by blast
  let ?F = "\<lambda>a. group_keep (mails_of a ms)"
  have inj: "m = m'" if "m \<in> set ms" "m' \<in> set ms" "open_payload m = open_payload m'" for m m'
    using assms that by (simp add: distinct_map inj_on_def)
  have part: "t = summary_tag a \<or> (\<exists>m \<in> set ms. nm_account_id m = a \<and> t = open_payload m)"
    if "a \<in> set as" "t \<in> set (?F a)" for a t
    using that last_mails_of [of a ms] by (auto simp: group_keep_def as(3) mails_of_def dest!: newest_sub)
  have "distinct (concat (map ?F as))"
  proof (rule distinct_concat_disjoint [OF as(2)])
    fix a assume "a \<in> set as"
    have "distinct (map open_payload (newest_of (mails_of a ms)))"
      using assms by (simp add: newest_of_def mails_of_def drop_map [symmetric] distinct_drop distinct_map_filter)
    then show "distinct (?F a)" by (auto simp: group_keep_def)
  next
    fix a b assume ab: "a \<in> set as" "b \<in> set as" "a \<noteq> b"
    show "set (?F a) \<inter> set (?F b) = {}"
    proof (rule ccontr)
      assume "set (?F a) \<inter> set (?F b) \<noteq> {}"
      then obtain t where t: "t \<in> set (?F a)" "t \<in> set (?F b)" by blast
      with part [OF ab(1) t(1)] part [OF ab(2) t(2)] ab(3) inj show False by auto
    qed
  qed
  then show ?thesis
    by (simp add: wanted_all_def as(1) map_concat comp_def group_keep_wanted [of _ L loud, symmetric])
qed

subsection \<open>The screen after the plan\<close>

definition carry_out :: "notification list \<Rightarrow> string set \<Rightarrow> (string \<rightharpoonup> string) \<Rightarrow> string \<rightharpoonup> string" where
  "carry_out post cancel screen = fold (\<lambda>n s. s(no_tag n \<mapsto> signature n)) post (screen |` (- cancel))"

lemma carry_post:
  "distinct (map no_tag ns) \<Longrightarrow>
   fold (\<lambda>n s. s(no_tag n \<mapsto> signature n)) ns s t = (case map_of (on_display ns) t of Some v \<Rightarrow> Some v | None \<Rightarrow> s t)"
proof (induction ns arbitrary: s)
  case (Cons n ns)
  have "map_of (on_display ns) (no_tag n) = None"
    using Cons.prems by (auto simp: on_display_def map_of_eq_None_iff)
  with Cons show ?case by (auto simp: on_display_def)
qed (simp add: on_display_def)

lemma carried_is_wanted:
  assumes "distinct (map no_tag ns)"
    and same: "\<And>n. n \<in> set ns \<Longrightarrow> \<not> p n \<Longrightarrow> screen (no_tag n) = Some (signature n)"
    and gone: "\<And>t. t \<in> dom screen \<Longrightarrow> t \<in> cancel \<longleftrightarrow> t \<notin> no_tag ` set ns"
  shows "carry_out (filter p ns) cancel screen = map_of (on_display ns)"
proof (rule ext)
  fix t
  have d: "distinct (map no_tag (filter p ns))" using assms(1) by (rule distinct_map_filter)
  have keys: "map_of (on_display xs) t = None \<longleftrightarrow> t \<notin> no_tag ` set xs" for xs
    by (simp add: on_display_def map_of_eq_None_iff image_image)
  have val: "map_of (on_display xs) (no_tag n) = Some (signature n)" if "distinct (map no_tag xs)" "n \<in> set xs" for xs n
    using that by (simp add: on_display_def comp_def)
  show "carry_out (filter p ns) cancel screen t = map_of (on_display ns) t"
  proof (cases "t \<in> no_tag ` set ns")
    case True
    then obtain n where n: "n \<in> set ns" "t = no_tag n" by blast
    show ?thesis
    proof (cases "p n")
      case True
      with n val [OF d, of n] val [OF assms(1), of n] show ?thesis by (simp add: carry_out_def carry_post [OF d])
    next
      case False
      have "no_tag n \<notin> no_tag ` set (filter p ns)"
        using assms(1) n(1) False by (auto simp: distinct_map inj_on_def)
      with keys [of "filter p ns"] n have "map_of (on_display (filter p ns)) t = None" by simp
      moreover have "t \<notin> cancel" using gone [of t] same [OF n(1) False] n True by auto
      ultimately show ?thesis
        using same [OF n(1) False] val [OF assms(1) n(1)] n(2) by (simp add: carry_out_def carry_post [OF d])
    qed
  next
    case False
    then have "map_of (on_display ns) t = None" "map_of (on_display (filter p ns)) t = None"
      using keys by auto
    moreover have "(screen |` (- cancel)) t = None"
      using gone [of t] False by (cases "screen t") (auto simp: restrict_map_def)
    ultimately show ?thesis by (simp add: carry_out_def carry_post [OF d])
  qed
qed

lemma fresh_payloads: "set (map open_payload ms) \<subseteq> range open_payload"
  by auto

lemma plan_proceeds:
  fixes alerts_on permitted foreground :: bool and shown :: shown and L :: notify_lib
  assumes "\<not> (br_new rep \<noteq> [] \<and> (foreground \<or> \<not> permitted))"
  defines "alerting \<equiv> br_new rep \<noteq> [] \<and> alerts_on"
  defines "ns \<equiv> wanted_all L (has_fresh alerting (set (map open_payload (br_new rep)))) (on_screen rep alerting shown)"
  shows "np_post (plan L rep alerts_on permitted foreground shown) =
      filter (to_post alerting (set (map open_payload (br_new rep))) shown) ns"
    and "np_cancel (plan L rep alerts_on permitted foreground shown) =
      sort (filter (\<lambda>t. t \<notin> no_tag ` set ns) (map fst shown))"
proof -
  let ?fresh = "set (map open_payload (br_new rep))"
  let ?groups = "by_account (on_screen rep alerting shown)"
  have post: "concat (map (group_post L alerting ?fresh shown) ?groups) = filter (to_post alerting ?fresh shown) ns"
    unfolding ns_def wanted_all_def filter_concat map_map comp_def group_post_wanted [OF fresh_payloads] ..
  have keep: "set (concat (map group_keep ?groups)) = no_tag ` set ns"
    unfolding ns_def wanted_all_def
    by (simp add: group_keep_wanted [of _ L "has_fresh alerting ?fresh"] image_UN)
  have gate: "\<not> (foreground \<and> br_new rep \<noteq> [])" "\<not> (br_new rep \<noteq> [] \<and> \<not> permitted)" using assms(1) by auto
  show "np_post (plan L rep alerts_on permitted foreground shown) = filter (to_post alerting ?fresh shown) ns"
    "np_cancel (plan L rep alerts_on permitted foreground shown) = sort (filter (\<lambda>t. t \<notin> no_tag ` set ns) (map fst shown))"
    unfolding plan_def Let_def alerting_def [symmetric] if_not_P [OF gate(1)] if_not_P [OF gate(2)] post keep
    by (simp_all add: split_beta)
qed

lemma plan_stops:
  assumes "br_new rep \<noteq> []" and "foreground \<or> \<not> permitted"
  shows "np_post (plan L rep alerts_on permitted foreground shown) = []"
    "np_cancel (plan L rep alerts_on permitted foreground shown) = []"
  using assms by (auto simp: plan_def settled_def)

lemma on_screen_listed: "m \<in> set (on_screen rep alerting shown) \<Longrightarrow> m \<in> set (listed_mail rep)"
  by (simp add: on_screen_def)

lemma on_screen_distinct:
  "distinct (map open_payload (listed_mail rep)) \<Longrightarrow> distinct (map open_payload (on_screen rep alerting shown))"
  unfolding on_screen_def by (rule distinct_map_filter)

lemma display_loud: "on_display (wanted_all L loud ms) = on_display (wanted_all L (\<lambda>_. False) ms)"
proof -
  have "on_display (wanted_of L loud g) = on_display (wanted_of L (\<lambda>_. False) g)" for g
    using signature_summary by (simp add: on_display_def wanted_of_def)
  then show ?thesis by (simp add: on_display_def wanted_all_def map_concat comp_def)
qed


definition news :: "nat \<Rightarrow> new_mail" where
  "news u = \<lparr>nm_account_id = 1, nm_account_email = ''a@x'', nm_folder_id = 3, nm_folder = ''INBOX'', nm_uid = u,
     nm_uid_validity = 9, nm_from = ''bob'', nm_subject = ''hi'', nm_date = [], nm_snippet = []\<rparr>"

definition news_report :: background_report where
  "news_report = empty_bg\<lparr>br_new := [news 7], br_pending := [news 5, news 7]\<rparr>"

definition plain_notify :: notify_lib where
  "plain_notify = \<lparr>nl_target = (\<lambda>_ _. []), nl_when = (\<lambda>_. None)\<rparr>"

lemma payload_news [simp]: "open_payload (news u) = open_payload (news v) \<longleftrightarrow> u = v"
proof
  assume "open_payload (news u) = open_payload (news v)"
  then have "string_of_int (int u) = string_of_int (int v)"
    by (simp add: open_payload_def news_def string_of_int_def string_of_nat_def)
  then show "u = v" by (simp add: string_of_int_inj)
qed simp


lemma quiet_post:
  assumes "br_new rep = [] \<or> \<not> alerts_on \<or> foreground \<or> \<not> permitted"
    and "n \<in> set (np_post (plan L rep alerts_on permitted foreground shown))"
  shows "\<not> (br_new rep \<noteq> [] \<and> (foreground \<or> \<not> permitted))" "(br_new rep \<noteq> [] \<and> alerts_on) = False" "\<not> no_alert n"
proof -
  show go: "\<not> (br_new rep \<noteq> [] \<and> (foreground \<or> \<not> permitted))"
    using plan_stops(1) assms(2) by fastforce
  with assms(1) show quiet: "(br_new rep \<noteq> [] \<and> alerts_on) = False" by auto
  show "\<not> no_alert n"
    using assms(2) unfolding plan_proceeds(1) [OF go] quiet by (auto simp: wanted_all_def wanted_of_def has_fresh_def)
qed

text \<open>
  When nothing is to ring (nothing new, alerts off, the app open or not allowed to notify), the plan
  adds nothing: all it posts is silent, every mail it posts is on screen already, and every summary is of
  an account with such a mail.
\<close>

theorem nothing_new_adds_nothing:
  assumes "br_new rep = [] \<or> \<not> alerts_on \<or> foreground \<or> \<not> permitted"
    and "n \<in> set (np_post (plan L rep alerts_on permitted foreground shown))"
  shows "\<not> no_alert n
    \<and> (\<exists>m \<in> set (listed_mail rep). open_payload m \<in> fst ` set shown
         \<and> no_tag n = (if no_summary n then summary_tag (nm_account_id m) else open_payload m))"
proof -
  note go = quiet_post(1) [OF assms] and quiet = quiet_post(2) [OF assms]
  let ?ms = "on_screen rep False shown"
  have "n \<in> set (wanted_all L (has_fresh False (set (map open_payload (br_new rep)))) ?ms)"
    using assms(2) unfolding plan_proceeds(1) [OF go] quiet by simp
  then obtain g where g: "g \<in> set (by_account ?ms)" "n \<in> set (wanted_of L (has_fresh False (set (map open_payload (br_new rep)))) g)"
    by (auto simp: wanted_all_def)
  have shown: "m \<in> set (listed_mail rep) \<and> open_payload m \<in> fst ` set shown" if "m \<in> set ?ms" for m
    using that by (auto simp: on_screen_def)
  have last: "last g \<in> set ?ms" using group_account [OF g(1)] group_nonempty [OF g(1)] by simp
  from g(2) consider "n = summary_of L g False" | m where "m \<in> set g" "n = child_of L m"
    by (auto simp: wanted_of_def has_fresh_def dest: newest_sub)
  then show ?thesis
  proof cases
    case 1
    with shown [OF last] show ?thesis by auto
  next
    case 2
    have "m \<in> set ?ms" using group_account [OF g(1) 2(1)] by simp
    with 2 shown show ?thesis by (intro conjI bexI [of _ m]) auto
  qed
qed

theorem nothing_new_adds_nothing_witness:
  "\<not> no_alert (summary_of plain_notify [news 5] False)"
proof -
  let ?rep = "empty_bg\<lparr>br_pending := [news 5]\<rparr>" and ?shown = "[(open_payload (news 5), [])]"
  have "\<not> (br_new ?rep \<noteq> [] \<and> (False \<or> \<not> True))" by (simp add: empty_bg_def)
  moreover have "on_screen ?rep False ?shown = [news 5]" by (simp add: on_screen_def listed_mail_def empty_bg_def)
  moreover have "(br_new ?rep \<noteq> [] \<and> True) = False" by (simp add: empty_bg_def)
  ultimately have "summary_of plain_notify [news 5] False \<in> set (np_post (plan plain_notify ?rep True True False ?shown))"
    by (simp add: plan_proceeds wanted_all_def by_account_def wanted_of_def has_fresh_def to_post_def)
  from nothing_new_adds_nothing [OF _ this] show ?thesis by (simp add: empty_bg_def)
qed



text \<open>
  A muted account never rings, and the marks of all accounts go on: under the accounts' own settings
  every ringing notification is of an account that shows notifications, whatever the report, while the
  plan hands on the marks of the whole report.
\<close>

theorem muted_accounts_stay_quiet:
  "no_tag ` {n \<in> set (np_post (plan_for L s rep permitted foreground shown)). no_alert n}
     \<subseteq> (\<lambda>k. summary_tag (nm_account_id k)) ` {k \<in> set (br_new rep @ br_pending rep). audible s k}
   \<and> np_marks (plan_for L s rep permitted foreground shown) = br_marks rep"
proof -
  define heard where "heard = rep\<lparr>br_new := filter (audible s) (br_new rep), br_pending := filter (audible s) (br_pending rep)\<rparr>"
  have marks: "np_marks (plan L r a permitted foreground shown) = br_marks r" for r a
    by (simp add: plan_def settled_def Let_def split_beta)
  have quiet: "\<not> no_alert n" if "n \<in> set (np_post (plan L r False permitted foreground shown))" for n r
    using quiet_post(3) [OF _ that] by blast
  have loud: "no_tag n \<in> (\<lambda>k. summary_tag (nm_account_id k)) ` {k \<in> set (br_new rep @ br_pending rep). audible s k}"
    if n: "n \<in> set (np_post (plan L heard True permitted foreground shown))" "no_alert n" for n
  proof -
    have new: "br_new heard \<noteq> []" using quiet_post(3) [OF _ n(1)] n(2) by blast
    have go: "\<not> (br_new heard \<noteq> [] \<and> (foreground \<or> \<not> permitted))"
      using plan_stops(1) n(1) by fastforce
    obtain g where g: "g \<in> set (by_account (on_screen heard True shown))" and t: "no_tag n = summary_tag (nm_account_id (last g))"
      using n new unfolding plan_proceeds(1) [OF go] by (auto simp: wanted_all_def wanted_of_def)
    have "last g \<in> set (listed_mail heard)"
      using group_account [OF g] group_nonempty [OF g] on_screen_listed by (metis last_in_set)
    then have "audible s (last g)" "last g \<in> set (br_new rep @ br_pending rep)"
      by (auto simp: listed_mail_def heard_def split: if_splits)
    with t show ?thesis by blast
  qed
  show ?thesis
    unfolding plan_for_def Let_def heard_def [symmetric]
    using quiet loud marks [of heard] marks [of "heard\<lparr>br_new := br_new rep\<rparr>"] by (auto simp: heard_def split: if_splits)
qed

end
