(* ===== verification/Buttons.thy ===== *)
theory Buttons
  imports Notify Undo Mail_Store_Facts
begin

text \<open>
  What the buttons of a notification do to the cache (\<open>sync/background/notify/buttons.rs\<close>): mark read, archive
  or delete. A button's target is an account and its mails; the map of its folders is taken in the order
  of their first mail. The reply button goes through the composer and is left out.
\<close>

record read_target_of =
  rt_account_id :: int
  rt_mails :: "(int \<times> nat) list"

fun add_to_folder :: "int \<Rightarrow> nat \<Rightarrow> (int \<times> nat list) list \<Rightarrow> (int \<times> nat list) list" where
  "add_to_folder f u [] = [(f, [u])]"
| "add_to_folder f u ((g, us) # gs) = (if g = f then (g, us @ [u]) # gs else (g, us) # add_to_folder f u gs)"

definition by_folder :: "read_target_of \<Rightarrow> (int \<times> nat list) list" where
  "by_folder t = fold (\<lambda>(f, u). add_to_folder f u) (rt_mails t) []"

definition pending_report :: "account list \<Rightarrow> settings_db \<Rightarrow> mail_db \<Rightarrow> background_report" where
  "pending_report accs s db =
     empty_bg\<lparr>br_pending := collect_pending accs db s, br_total_unread := cached_total_unread db accs\<rparr>"

definition mark_read :: "instant \<Rightarrow> account list \<Rightarrow> settings_db \<Rightarrow> read_target_of \<Rightarrow> mail_db \<Rightarrow> background_report \<times> mail_db" where
  "mark_read now accs s t db =
     (let db' = fold (\<lambda>(f, us) db. snd (set_read_many_by_uids now f us True db)) (by_folder t) db
      in (pending_report accs s db', db'))"

fun act_each ::
  "instant \<Rightarrow> string \<Rightarrow> int \<Rightarrow> move_target \<Rightarrow> (int \<times> nat list) list \<Rightarrow> mail_db \<Rightarrow> (string + unit) \<times> mail_db" where
  "act_each now batch a target [] db = (Inr (), db)"
| "act_each now batch a target ((f, us) # gs) db =
     (case queue_move_now now batch a f us target db of
        (Inl e, db') \<Rightarrow> (Inl e, db')
      | (Inr Queued_Permanent, db') \<Rightarrow> (Inl ''this would delete the mail permanently; open the app to delete it'', db')
      | (Inr _, db') \<Rightarrow> act_each now batch a target gs db')"

definition act ::
  "instant \<Rightarrow> string \<Rightarrow> account list \<Rightarrow> settings_db \<Rightarrow> read_target_of \<Rightarrow> string \<Rightarrow> mail_db
    \<Rightarrow> (string + background_report) \<times> mail_db" where
  "act now batch accs s t action db =
     (let move_to = (if normalize_notification_action action = ''trash'' then Target_Trash else Target_Archive) in
      case act_each now batch (rt_account_id t) move_to (by_folder t) db of
        (Inl e, db') \<Rightarrow> (Inl e, db')
      | (Inr _, db') \<Rightarrow> (Inr (pending_report accs s db'), db'))"

subsection \<open>Marking read\<close>

definition mails_in :: "(int \<times> nat list) list \<Rightarrow> (int \<times> nat) set" where
  "mails_in gs = (\<Union>(g, us) \<in> set gs. {g} \<times> set us)"

lemma mails_in_simps [simp]: "mails_in [] = {}" "mails_in ((g, us) # gs) = {g} \<times> set us \<union> mails_in gs"
  by (auto simp: mails_in_def)

lemma mails_in_add: "mails_in (add_to_folder f u gs) = insert (f, u) (mails_in gs)"
  by (induction f u gs rule: add_to_folder.induct) auto

lemma mails_by_folder: "mails_in (by_folder t) = set (rt_mails t)"
proof -
  have "mails_in (fold (\<lambda>(f, u). add_to_folder f u) ms gs) = set ms \<union> mails_in gs" for ms gs
    by (induction ms arbitrary: gs) (auto simp: mails_in_add)
  then show ?thesis by (simp add: by_folder_def)
qed

text \<open>The cache with some mails marked read.\<close>

definition read_marked :: "instant \<Rightarrow> (message \<Rightarrow> bool) \<Rightarrow> mail_db \<Rightarrow> mail_db" where
  "read_marked now p db = db\<lparr>db_messages := update_where p
     (\<lambda>m. m\<lparr>m_is_read := True, m_flags_dirty := True, m_updated_at := secs now\<rparr>) (db_messages db)\<rparr>"

lemma set_read_is_marked:
  "snd (set_read_many_by_uids now f us True db) = read_marked now (\<lambda>m. m_folder_id m = f \<and> m_uid m \<in> set us) db"
  by (simp add: set_read_many_eq update_messages_def read_marked_def)

lemma read_marked_twice:
  "read_marked now q (read_marked now p db) = read_marked now (\<lambda>m. p m \<or> q m) db"
  if "\<And>m r d u. q (m\<lparr>m_is_read := r, m_flags_dirty := d, m_updated_at := u\<rparr>) = q m"
  using that by (simp add: read_marked_def update_where_def comp_def)

lemma mark_read_is_marked:
  "snd (mark_read now accs s t db) = read_marked now (\<lambda>m. (m_folder_id m, m_uid m) \<in> set (rt_mails t)) db"
proof -
  have "fold (\<lambda>(f, us) db. snd (set_read_many_by_uids now f us True db)) gs (read_marked now p db) =
      read_marked now (\<lambda>m. p m \<or> (m_folder_id m, m_uid m) \<in> mails_in gs) db"
    for gs p
  proof (induction gs arbitrary: p)
    case (Cons g gs)
    obtain f us where g: "g = (f, us)" by fastforce
    have "(\<lambda>m. (p m \<or> m_folder_id m = f \<and> m_uid m \<in> set us) \<or> (m_folder_id m, m_uid m) \<in> mails_in gs) =
        (\<lambda>m. p m \<or> (m_folder_id m, m_uid m) \<in> mails_in (g # gs))" by (auto simp: g)
    with Cons show ?case by (simp add: g set_read_is_marked read_marked_twice)
  qed simp
  from this [where p = "\<lambda>_. False" and gs = "by_folder t"] show ?thesis
    by (simp add: mark_read_def Let_def mails_by_folder) (simp add: read_marked_def update_where_def)
qed

lemma map_filter_filter:
  assumes "\<And>x y. f x = Some y \<Longrightarrow> q y = p x"
  shows "List.map_filter f (filter p xs) = filter q (List.map_filter f xs)"
  using assms by (induction xs) (auto simp: List.map_filter_simps split: option.split)

lemma unread_after_marking:
  assumes p: "\<And>m. p m \<longleftrightarrow> (m_folder_id m, m_uid m) \<in> T"
  shows "unread_above accs (read_marked now p db) high k =
    filter (\<lambda>n. (nm_folder_id n, nm_uid n) \<notin> T) (unread_above accs db high k)"
proof -
  let ?db = "read_marked now p db"
  let ?q = "\<lambda>m. m_folder_id m = sm_folder_id high \<and> \<not> m_is_read m \<and> k < int (m_uid m) \<and> \<not> hidden db (m_id m)"
  have same: "hidden ?db = hidden db" "new_mail_of accs ?db high = new_mail_of accs db high"
    by (auto simp: read_marked_def hidden_def new_mail_of_def)
  have rows: "filter ?q (update_where p f xs) = filter (\<lambda>m. (m_folder_id m, m_uid m) \<notin> T) (filter ?q xs)"
    if "\<And>m. m_is_read (f m)" for f xs
    using that by (induction xs) (auto simp: p table_simps)
  have "unread_above accs ?db high k = List.map_filter (new_mail_of accs db high)
      (filter (\<lambda>m. (m_folder_id m, m_uid m) \<notin> T) (sort_key m_uid (filter ?q (db_messages db))))"
    unfolding unread_above_def same by (simp add: read_marked_def rows filter_sort)
  also have "\<dots> = filter (\<lambda>n. (nm_folder_id n, nm_uid n) \<notin> T) (unread_above accs db high k)"
    unfolding unread_above_def
  proof -
    let ?rows = "sort_key m_uid (filter ?q (db_messages db))"
    have "filter (\<lambda>m. (m_folder_id m, m_uid m) \<notin> T) ?rows = filter (\<lambda>m. (sm_folder_id high, m_uid m) \<notin> T) ?rows"
      by (rule filter_cong) auto
    moreover have "(nm_folder_id n, nm_uid n) \<notin> T \<longleftrightarrow> (sm_folder_id high, m_uid m) \<notin> T"
      if "new_mail_of accs db high m = Some n" for m n using new_mail_of_ids [OF that] by simp
    ultimately show "List.map_filter (new_mail_of accs db high) (filter (\<lambda>m. (m_folder_id m, m_uid m) \<notin> T) ?rows) =
        filter (\<lambda>n. (nm_folder_id n, nm_uid n) \<notin> T) (List.map_filter (new_mail_of accs db high) ?rows)"
      by (simp add: map_filter_filter)
  qed
  finally show ?thesis .
qed

lemma tops_after_marking: "inbox_tops (read_marked now p db) = inbox_tops db"
proof -
  have "top_uid (read_marked now p db) i = top_uid db i" for i
  proof -
    have "map (\<lambda>m. int (m_uid m)) (filter (\<lambda>m. m_folder_id m = i) (update_where p
        (\<lambda>m. m\<lparr>m_is_read := True, m_flags_dirty := True, m_updated_at := secs now\<rparr>) xs)) =
        map (\<lambda>m. int (m_uid m)) (filter (\<lambda>m. m_folder_id m = i) xs)" for xs
      by (induction xs) (auto simp: table_simps)
    then show ?thesis by (simp add: top_uid_def read_marked_def)
  qed
  then show ?thesis by (simp add: inbox_tops_def read_marked_def)
qed

text \<open>
  C19. The Mark read button takes exactly its mails off the list: the report it hands back lists what was
  pending without the mails of its target, in the same order, and nothing else of the list changes.
\<close>

theorem read_mail_leaves_the_list:
  "br_pending (fst (mark_read now accs s t db)) =
     filter (\<lambda>n. (nm_folder_id n, nm_uid n) \<notin> set (rt_mails t)) (collect_pending accs db s)"
proof -
  let ?T = "set (rt_mails t)" and ?db = "snd (mark_read now accs s t db)"
  have db: "?db = read_marked now (\<lambda>m. (m_folder_id m, m_uid m) \<in> ?T) db" by (rule mark_read_is_marked)
  have one: "(case x of None \<Rightarrow> [] | Some k \<Rightarrow> unread_above accs ?db high k) =
      filter (\<lambda>n. (nm_folder_id n, nm_uid n) \<notin> ?T) (case x of None \<Rightarrow> [] | Some k \<Rightarrow> unread_above accs db high k)" for x high
    unfolding db by (simp add: unread_after_marking [where T = ?T] split: option.split)
  have "collect_pending accs ?db s = filter (\<lambda>n. (nm_folder_id n, nm_uid n) \<notin> ?T) (collect_pending accs db s)"
    unfolding collect_pending_def one filter_concat map_map comp_def unfolding db tops_after_marking ..
  moreover have "br_pending (fst (mark_read now accs s t db)) = collect_pending accs ?db s"
    by (simp add: mark_read_def Let_def pending_report_def)
  ultimately show ?thesis by simp
qed

lemma put_keeps_rows:
  "db_messages (fold (put_pending x d b t) ids db) = db_messages db
    \<and> db_folders (fold (put_pending x d b t) ids db) = db_folders db"
  by (induction ids arbitrary: db) (auto simp: put_pending_def Let_def split: if_splits option.splits)

lemma queue_keeps_rows:
  "db_messages (snd (queue_move_now now batch a f us target db)) = db_messages db
    \<and> db_folders (snd (queue_move_now now batch a f us target db)) = db_folders db"
  by (simp add: queue_move_now_def queue_with_grace_def queue_into_def pending_queue_def Let_def put_keeps_rows
      split: sum.split prod.split share.split destination.split)

lemma act_each_keeps_rows:
  "db_messages (snd (act_each now batch a target gs db)) = db_messages db
    \<and> db_folders (snd (act_each now batch a target gs db)) = db_folders db"
proof (induction now batch a target gs db rule: act_each.induct)
  case (2 now batch a target f us gs db)
  then show ?case
    using queue_keeps_rows [of now batch a f us target db] by (auto split: sum.split prod.split queued.split)
qed simp

text \<open>
  Archive and Delete destroy nothing: whatever the action, the target and the outcome, the button
  leaves every cached mail and folder in its row and only queues moves, which the sync carries out later.
\<close>

theorem button_destroys_nothing:
  "db_messages (snd (act now batch accs s t action db)) = db_messages db
   \<and> db_folders (snd (act now batch accs s t action db)) = db_folders db"
  using act_each_keeps_rows by (auto simp: act_def Let_def split: sum.split prod.split) (metis snd_conv)+

end
