(* ===== verification/Spec2Isabelle.thy ===== *)
theory Spec2Isabelle
  imports Outbox_Machine Outbox_Planning Schedule Flag_Refinement Utf7 Undo_Facts Grace_Timer Reference_Flags
    Imap_Sync_Window Pending_Progress Flush_Refinement Search_Notation List_Filter Server_Search Headless_Safety Session_Pool Announcements Due_Sends Notify_Facts Buttons
begin

text \<open>
  A model of the core library of the mail client (\<open>src/crates/mailcore/src\<close>, below written without
  that prefix) and proofs of what makes it correct. The two user interfaces call this library; they
  are glue and not modelled.

  \<^bold>\<open>Parts and theories.\<close>
  \<^item> \<open>Prelude\<close>, \<open>Text\<close>, \<open>Io\<close>: shared vocabulary. Texts are lists of UTF-8 bytes; \<open>StoreError\<close>
    (\<open>error.rs\<close>) and \<open>Result\<close> are the sum type \<open>result\<close>; time is an integer number of nanoseconds,
    its stored text \<open>secs\<close> of it; a table is the list of its rows in rowid order. \<open>Text\<close> holds the
    standard library's string methods. \<open>Io\<close> models \<open>async fn -> Result\<close> as a function from the state
    to an outcome and the state left behind, with triples (\<open>hoare\<close>) and preservation (\<open>keeps\<close>).
  \<^item> \<open>Outbox_Queue\<close> (\<open>store/queue.rs\<close>, \<open>outbox.rs\<close>): the send queue, one definition per statement.
    \<open>Outbox_Machine\<close> interleaves any number of submitters, crashes, clock moves and user actions as
    a step relation; \<open>Outbox_Planning\<close> is about when a send is tried, retried and given up.
  \<^item> \<open>Smtp_Policy\<close>, \<open>Smtp_Sender\<close> (\<open>sync/sender/policy.rs\<close>, \<open>addresses.rs\<close>, \<open>scheduled.rs\<close>, \<open>client.rs\<close>): what
    may be enqueued, submitting a row, the flush of an account's outbox. \<open>Flush_Refinement\<close> shows that
    every flush is a run of \<open>Outbox_Machine\<close>.
  \<^item> \<open>Settings\<close>, \<open>Account_Settings\<close> (\<open>store/settings.rs\<close>, \<open>store/settings/choices.rs\<close>,
    \<open>store/account_settings.rs\<close> and its \<open>quiet_hours.rs\<close>): preferences, overrides per account,
    quiet hours. \<open>Schedule\<close> (\<open>sync/background/schedule.rs\<close>): who is pushed, polled or left alone.
  \<^item> \<open>Mail_Store\<close>, \<open>Mail_Store_Facts\<close> (\<open>store/folders.rs\<close>, \<open>store/messages.rs\<close>,
    \<open>store/messages/flags.rs\<close>, \<open>store/pending_moves.rs\<close>): the local cache.
    \<open>Flag_Sync\<close>: the queue of read and star changes under toggles, pushes and server reports;
    \<open>Flag_Refinement\<close> shows that the engine's push over a real session refines it.
  \<^item> \<open>Utf7\<close> (\<open>sync/imap/utf7.rs\<close>): mailbox names. \<open>Imap_Session\<close>, \<open>Imap_Session_Facts\<close>
    (\<open>sync/imap/session.rs\<close>, \<open>session/mailbox.rs\<close>, \<open>session/mutate.rs\<close>, \<open>session/discovery.rs\<close>,
    \<open>seq.rs\<close>): the command loop, its time limits, the broken mark, every verb and its fallbacks.
  \<^item> \<open>Imap_Parse\<close> (\<open>sync/imap/parse.rs\<close>), \<open>Imap_Folders\<close> (\<open>roles.rs\<close>, \<open>folders.rs\<close>), \<open>Imap_Sync\<close>
    (\<open>engine/sync.rs\<close>, \<open>search.rs\<close>), \<open>Imap_Mutate\<close> (\<open>engine/mutate.rs\<close>): the engine, run on a
    \<open>world\<close> that holds the session, the cache and the settings. \<open>Imap_Safety\<close>, \<open>Imap_Sync_Facts\<close>,
    \<open>Imap_Sync_Window\<close> and \<open>Pending_Progress\<close> prove what it does to mail on the server and in the cache;
    \<open>Reference_Server\<close> and \<open>Reference_Flags\<close> are a small server that meets what is assumed on the way.
  \<^item> \<open>Undo\<close>, \<open>Undo_Facts\<close> (\<open>undo.rs\<close>, \<open>bulk.rs\<close>), \<open>Grace_Timer\<close> (\<open>undo/grace.rs\<close>): undoable
    actions, selections over folders, and the timer that pushes them when the grace period ends.

  \<^bold>\<open>What is a parameter.\<close> The IMAP server is a function \<open>peer\<close> from a tag, a command and its own state
  to a timed stream of events; nothing is assumed of it unless a theorem names it: \<open>keeps_promises\<close>
  (answers \<open>OK\<close> only to what it has done, removes nothing it was not told to), \<open>finds_all\<close>,
  \<open>finds_only\<close> and \<open>hands_over\<close> (an answered search or fetch is complete). The MIME parser, the
  keyring, Unicode lower-casing, the local time zone (\<open>tz\<close>) and fresh identifiers are arguments of
  the definitions that use them. SQLite is taken to answer every statement it is given.

  \<^bold>\<open>Bounds and fuel.\<close> The command loop reads the event list the server has for a command, so it is
  structural; \<open>read_budget\<close> is the 30 s and 600 s limit of each read and of the whole command. The paged
  search has at most eight pages, as in the code. No definition runs on fuel; the recursive
  functions that are not structural carry termination proofs.

  \<^bold>\<open>Not modelled.\<close> TLS, sockets, IDLE, threads and their locks; the keyring; SQL text, migrations and
  full-text search; attachment files; the HTML reader; message assembly, which calls a library; the
  floating-point settings; and both user interfaces.
\<close>

end
